(* ===== verification/Pcan_Prelude.thy ===== *)
theory Pcan_Prelude
  imports Main "HOL-Library.Word" "HOL-Library.Monad_Syntax"
begin

text \<open>
  Shared vocabulary of the development: the kernel's fixed-width integer types as words, the
  \<^verbatim>\<open>errno\<close> values the driver returns, flag tests, the divisions the driver performs (a
  division whose divisor is zero is a processor fault, the value \<^verbatim>\<open>None\<close>), and
  little-endian byte encodings. The theorem collections \<open>flag_simps\<close> and \<open>word_nat_simps\<close>
  carry the proofs of the components.
\<close>

unbundle bit_operations_syntax

named_theorems flag_simps \<open>rewrite rules for flag words\<close>
named_theorems word_nat_simps \<open>rewrite rules that move word arithmetic to natural numbers\<close>

type_synonym u8 = "8 word"
type_synonym u16 = "16 word"
type_synonym u32 = "32 word"
type_synonym u64 = "64 word"

section \<open>Error numbers\<close>

abbreviation (input) ENOENT :: int where "ENOENT \<equiv> 2"
abbreviation (input) EINTR :: int where "EINTR \<equiv> 4"
abbreviation (input) EIO :: int where "EIO \<equiv> 5"
abbreviation (input) ENXIO :: int where "ENXIO \<equiv> 6"
abbreviation (input) EAGAIN :: int where "EAGAIN \<equiv> 11"
abbreviation (input) ENOMEM :: int where "ENOMEM \<equiv> 12"
abbreviation (input) EFAULT :: int where "EFAULT \<equiv> 14"
abbreviation (input) EEXIST :: int where "EEXIST \<equiv> 17"
abbreviation (input) ENODEV :: int where "ENODEV \<equiv> 19"
abbreviation (input) EINVAL :: int where "EINVAL \<equiv> 22"
abbreviation (input) ENOSPC :: int where "ENOSPC \<equiv> 28"
abbreviation (input) EDOM :: int where "EDOM \<equiv> 33"
abbreviation (input) ERANGE :: int where "ERANGE \<equiv> 34"
abbreviation (input) ENODATA :: int where "ENODATA \<equiv> 61"
abbreviation (input) EBADMSG :: int where "EBADMSG \<equiv> 74"
abbreviation (input) EOPNOTSUPP :: int where "EOPNOTSUPP \<equiv> 95"
abbreviation (input) ENETDOWN :: int where "ENETDOWN \<equiv> 100"
abbreviation (input) ETIMEDOUT :: int where "ETIMEDOUT \<equiv> 110"
abbreviation (input) ERESTARTSYS :: int where "ERESTARTSYS \<equiv> 512"

section \<open>Flag words\<close>

text \<open>The C test \<^verbatim>\<open>if (x & m)\<close>, and the updates \<^verbatim>\<open>x |= m\<close> and \<^verbatim>\<open>x &= ~m\<close>.\<close>

definition has_flag :: "'a::len word \<Rightarrow> 'a word \<Rightarrow> bool" where
  "has_flag x m \<longleftrightarrow> x AND m \<noteq> 0"

definition set_flag :: "'a::len word \<Rightarrow> 'a word \<Rightarrow> 'a word" where
  "set_flag x m = x OR m"

definition clr_flag :: "'a::len word \<Rightarrow> 'a word \<Rightarrow> 'a word" where
  "clr_flag x m = x AND NOT m"

text \<open>Division as the processor does it: no result when the divisor is zero.\<close>

definition udiv :: "'a::len word \<Rightarrow> 'a word \<Rightarrow> 'a word option" where
  "udiv a b = (if b = 0 then None else Some (a div b))"

text \<open>Division of signed C integers truncates towards zero.\<close>

definition c_div :: "int \<Rightarrow> int \<Rightarrow> int" where
  "c_div a b = sgn a * sgn b * (\<bar>a\<bar> div \<bar>b\<bar>)"

definition c_mod :: "int \<Rightarrow> int \<Rightarrow> int" where
  "c_mod a b = a - b * c_div a b"

text \<open>The kernel's \<^verbatim>\<open>abs()\<close> applied to an unsigned 32-bit expression: the argument is read
  as a signed \<^verbatim>\<open>int\<close>.\<close>

definition abs_u32 :: "u32 \<Rightarrow> u32" where
  "abs_u32 x = (if sint x < 0 then - x else x)"

text \<open>The kernel's \<^verbatim>\<open>clamp(v, lo, hi)\<close>: \<^verbatim>\<open>min(max(v, lo), hi)\<close>.\<close>

definition clamp :: "'a::linorder \<Rightarrow> 'a \<Rightarrow> 'a \<Rightarrow> 'a" where
  "clamp v lo hi = min (max v lo) hi"

text \<open>The kernel's \<^verbatim>\<open>ALIGN(x, 4)\<close> on a non-negative size.\<close>

definition align4 :: "nat \<Rightarrow> nat" where
  "align4 n = (n + 3) div 4 * 4"

section \<open>Little-endian bytes\<close>

definition le16 :: "u16 \<Rightarrow> u8 list" where
  "le16 x = [ucast x, ucast (drop_bit 8 x)]"

definition le32 :: "u32 \<Rightarrow> u8 list" where
  "le32 x = [ucast x, ucast (drop_bit 8 x), ucast (drop_bit 16 x), ucast (drop_bit 24 x)]"

definition get_le16 :: "u8 list \<Rightarrow> u16 option" where
  "get_le16 bs = (case bs of b0 # b1 # _ \<Rightarrow> Some (ucast b0 OR push_bit 8 (ucast b1)) | _ \<Rightarrow> None)"

definition get_le32 :: "u8 list \<Rightarrow> u32 option" where
  "get_le32 bs = (case bs of b0 # b1 # b2 # b3 # _ \<Rightarrow>
       Some (ucast b0 OR push_bit 8 (ucast b1) OR push_bit 16 (ucast b2) OR push_bit 24 (ucast b3))
     | _ \<Rightarrow> None)"

section \<open>Lemmas\<close>

subsection \<open>Flags\<close>

lemma has_flag_zero [simp, flag_simps]: "\<not> has_flag 0 m" "\<not> has_flag x 0"
  by (simp_all add: has_flag_def)

lemma has_flag_set_same [flag_simps]: "m \<noteq> 0 \<Longrightarrow> has_flag (set_flag x m) m"
  by (simp add: has_flag_def set_flag_def word_bw_lcs word_ao_absorbs)

lemma has_flag_clr_same [flag_simps]: "\<not> has_flag (clr_flag x m) m"
  by (simp add: has_flag_def clr_flag_def word_bw_assocs)

lemma has_flag_set_disjoint [flag_simps]:
  "m AND k = 0 \<Longrightarrow> has_flag (set_flag x m) k = has_flag x k"
  by (simp add: has_flag_def set_flag_def word_ao_dist)

lemma has_flag_clr_disjoint [flag_simps]:
  assumes "m AND k = 0"
  shows "has_flag (clr_flag x m) k = has_flag x k"
proof -
  have "(x AND NOT m) AND k = x AND k"
  proof (rule bit_word_eqI)
    fix n assume "n < LENGTH('a)"
    have "\<not> (bit m n \<and> bit k n)"
      using assms by (metis bit_and_iff bit_0_eq bot_apply bot_bool_def)
    then show "bit ((x AND NOT m) AND k) n = bit (x AND k) n"
      using \<open>n < LENGTH('a)\<close> by (auto simp: bit_and_iff bit_not_iff)
  qed
  then show ?thesis by (simp add: has_flag_def clr_flag_def)
qed

lemma has_flag_subset:
  assumes "x AND m = y AND m" "k AND m = k"
  shows "has_flag x k = has_flag y k"
proof -
  have "x AND k = (x AND m) AND k" "y AND k = (y AND m) AND k"
    using assms(2) by (metis and.assoc and.commute)+
  then show ?thesis using assms(1) by (simp add: has_flag_def)
qed

lemma set_flag_other: "m AND k = 0 \<Longrightarrow> set_flag x m AND k = x AND k"
  by (simp add: set_flag_def word_ao_dist)

lemma clr_flag_other:
  fixes x m k :: "'a::len word"
  assumes "m AND k = 0"
  shows "clr_flag x m AND k = x AND k"
proof (rule bit_word_eqI)
  fix n assume "n < LENGTH('a)"
  have "\<not> (bit m n \<and> bit k n)"
    using assms by (metis bit_and_iff bit_0_eq bot_apply bot_bool_def)
  then show "bit (clr_flag x m AND k) n = bit (x AND k) n"
    using \<open>n < LENGTH('a)\<close> by (auto simp: clr_flag_def bit_and_iff bit_not_iff)
qed

lemma clr_flag_idem [flag_simps]: "clr_flag (clr_flag x m) m = clr_flag x m"
  by (simp add: clr_flag_def word_bw_assocs)

lemma set_flag_idem [flag_simps]: "set_flag (set_flag x m) m = set_flag x m"
  by (simp add: set_flag_def word_bw_assocs)

lemma and_pow: "(x :: 'a::len word) AND 2 ^ k = (if has_flag x (2 ^ k) then 2 ^ k else 0)"
  by (rule bit_word_eqI) (auto simp: has_flag_def bit_simps and_exp_eq_0_iff_not_bit)

lemma clr_flag_no_flag [flag_simps]: "\<not> has_flag x m \<Longrightarrow> clr_flag x m = x"
proof -
  assume h: "\<not> has_flag x m"
  show ?thesis unfolding clr_flag_def
  proof (rule bit_word_eqI)
    fix n assume "n < LENGTH('a)"
    have "\<not> (bit x n \<and> bit m n)"
      using h by (metis has_flag_def bit_and_iff bit_0_eq bot_apply bot_bool_def)
    then show "bit (x AND NOT m) n = bit x n"
      using \<open>n < LENGTH('a)\<close> by (auto simp: bit_and_iff bit_not_iff)
  qed
qed

subsection \<open>Division\<close>

lemma udiv_some [simp]: "b \<noteq> 0 \<Longrightarrow> udiv a b = Some (a div b)"
  by (simp add: udiv_def)

lemma udiv_zero [simp]: "udiv a 0 = None"
  by (simp add: udiv_def)

lemma udiv_eq_Some: "udiv a b = Some q \<longleftrightarrow> b \<noteq> 0 \<and> q = a div b"
  by (auto simp: udiv_def)

subsection \<open>Words as natural numbers\<close>

lemma unat_div_word [word_nat_simps]: "unat (a div b) = unat a div unat b"
  by (rule unat_div)

lemma unat_add_exact [word_nat_simps]:
  fixes a b :: "'a::len word"
  assumes "unat a + unat b < 2 ^ LENGTH('a)"
  shows "unat (a + b) = unat a + unat b"
  using assms by (simp add: unat_word_ariths)

lemma unat_mult_exact [word_nat_simps]:
  fixes a b :: "'a::len word"
  assumes "unat a * unat b < 2 ^ LENGTH('a)"
  shows "unat (a * b) = unat a * unat b"
  using assms by (simp add: unat_word_ariths)

lemma unat_sub_exact [word_nat_simps]:
  fixes a b :: "'a::len word"
  assumes "b \<le> a"
  shows "unat (a - b) = unat a - unat b"
  using assms by (rule unat_sub)

lemma unat_less_iff [word_nat_simps]: "a < b \<longleftrightarrow> unat a < unat b"
  by (rule word_less_nat_alt)

lemma unat_le_iff [word_nat_simps]: "a \<le> b \<longleftrightarrow> unat a \<le> unat b"
  by (rule word_le_nat_alt)

lemma unat_u32_less [simp]: "unat (x :: u32) < 4294967296"
  using unsigned_less [of x] by simp

lemma unat_u16_less [simp]: "unat (x :: u16) < 65536"
  using unsigned_less [of x] by simp

lemma unat_u8_less [simp]: "unat (x :: u8) < 256"
  using unsigned_less [of x] by simp

lemma minus_one_word_numeral_u16: "- 1 = (0xffff :: u16)"
  by simp

lemma unat_Suc_u16: "x \<noteq> 0xffff \<Longrightarrow> unat (x + 1 :: u16) = Suc (unat x)"
proof -
  assume "x \<noteq> 0xffff"
  then have "1 + x \<noteq> 0" by (metis add.inverse_inverse add_eq_0_iff minus_one_word_numeral_u16)
  then show ?thesis by (metis add.commute unatSuc)
qed

lemma unat_pred_u16: "x \<noteq> 0 \<Longrightarrow> unat (x - 1 :: u16) = unat x - 1"
  by (rule unat_minus_one)

lemma unat_pred_u32: "x \<noteq> 0 \<Longrightarrow> unat (x - 1 :: u32) = unat x - 1"
  by (rule unat_minus_one)

lemma u16_countdown: "\<not> x < 4 \<Longrightarrow> unat (x - 1 :: u16) < unat x"
proof -
  assume "\<not> x < 4"
  then have "x \<noteq> 0" by auto
  then show ?thesis by (metis unat_pred_u16 diff_less zero_less_one unat_gt_0)
qed

lemma u16_countup: "x \<noteq> 0xffff \<Longrightarrow> 0x10000 - unat (x + 1 :: u16) < 0x10000 - unat x"
  using unat_Suc_u16 [of x] unat_u16_less [of "x + 1"] by linarith

lemma u32_countdown: "x \<noteq> 0 \<Longrightarrow> unat (x - 1 :: u32) < unat x"
  by (metis unat_pred_u32 diff_less zero_less_one unat_gt_0)

lemma sint_small_u32:
  assumes "unat (x :: u32) < 2147483648"
  shows "sint x = int (unat x)"
proof -
  have "int (unat x) < 2147483648" using assms by linarith
  then have "uint x < 2147483648" by (simp only: uint_nat)
  moreover have "0 \<le> uint x" by simp
  ultimately have "signed_take_bit 31 (uint x) = uint x"
    by (intro signed_take_bit_int_eq_self) (auto intro: order_trans [of _ 0])
  then show ?thesis by (simp add: sint_uint)
qed

lemma sint_of_int_small64:
  assumes "- (2 ^ 63) \<le> k" "k < 2 ^ 63"
  shows "sint (of_int k :: u64) = k"
  using assms by (simp add: signed_of_int signed_take_bit_int_eq_self)

lemma sint_of_int_small32:
  assumes "- (2 ^ 31) \<le> k" "k < 2 ^ 31"
  shows "sint (of_int k :: u32) = k"
  using assms by (simp add: signed_of_int signed_take_bit_int_eq_self)

lemma unat_ucast_u64 [simp]: "unat (ucast (x :: u32) :: u64) = unat x"
proof -
  have "unat x < 2 ^ 64" by (rule less_trans [OF unat_u32_less]) simp
  then show ?thesis by (simp add: unsigned_ucast_eq take_bit_nat_eq_self)
qed

lemma ucast_u64_eq_0 [simp]: "(ucast (x :: u32) :: u64) = 0 \<longleftrightarrow> x = 0"
  by (metis unat_ucast_u64 unsigned_0 unsigned_eq_0_iff)

lemma unat_ucast_u32: "unat (ucast (x :: u64) :: u32) = unat x mod 4294967296"
  by (simp add: unsigned_ucast_eq take_bit_eq_mod)

lemma u32_plus1: "unat x < 4294967295 \<Longrightarrow> unat (x + 1 :: u32) = unat x + 1"
  by (subst unat_add_exact) auto

lemma unat_sub_wrap_u32: "a < b \<Longrightarrow> unat (a - b :: u32) = 4294967296 + unat a - unat b"
  by (simp add: unat_sub_if' word_less_nat_alt)

lemma u32_nonzero: "1 \<le> unat (x :: u32) \<Longrightarrow> x \<noteq> 0"
  by auto

lemma u32_mult_nonzero:
  fixes a b :: u32
  assumes "0 < unat a" "0 < unat b" "unat a * unat b < 4294967296"
  shows "a * b \<noteq> 0"
proof -
  have "unat (a * b) = unat a * unat b" using assms(3) by (simp add: unat_mult_exact)
  then show ?thesis using assms(1,2) by (metis mult_eq_0_iff less_numeral_extra(3) unsigned_0)
qed

lemma bit_u16_cases:
  assumes "n < 16"
  shows "n = 15 \<or> n = 14 \<or> n = 13 \<or> n = 12 \<or> n = 11 \<or> n = 10 \<or> n = 9 \<or> n = 8 \<or>
    n = 7 \<or> n = 6 \<or> n = 5 \<or> n = 4 \<or> n = 3 \<or> n = 2 \<or> n = 1 \<or> n = (0::nat)"
  using assms by presburger

lemma abs_u32_diff:
  fixes a b :: u32
  assumes "unat a < 2 ^ 31" "unat b < 2 ^ 31"
  shows "int (unat (abs_u32 (a - b))) = \<bar>int (unat a) - int (unat b)\<bar>"
proof (cases "b \<le> a")
  case True
  then have d: "unat (a - b) = unat a - unat b" by (rule unat_sub)
  then have "sint (a - b) = int (unat (a - b))" using assms(1) by (intro sint_small_u32) simp
  then have "abs_u32 (a - b) = a - b" by (simp add: abs_u32_def)
  then have "unat (abs_u32 (a - b)) = unat a - unat b" using d by simp
  moreover have "unat b \<le> unat a" using True by (simp add: word_le_nat_alt)
  ultimately show ?thesis by linarith
next
  case False
  then have less: "unat a < unat b" by (simp add: word_le_nat_alt)
  have d: "unat (b - a) = unat b - unat a" using less by (intro unat_sub) (simp add: word_le_nat_alt)
  then have s: "sint (b - a) = int (unat b - unat a)" using assms(2) by (subst sint_small_u32) auto
  have neg: "a - b = - (b - a)" by simp
  obtain k where k: "sint (b - a) = int k" "k < 2147483648"
    using s less_imp_diff_less [OF assms(2), of "unat a"] by (intro that [of "unat b - unat a"]) simp_all
  have "sint (- (b - a)) = - sint (b - a)"
  proof -
    have "- (b - a) = of_int (- sint (b - a))" by simp
    also have "sint \<dots> = - sint (b - a)"
      unfolding k(1) using k(2) by (intro sint_of_int_small32) simp_all
    finally show ?thesis .
  qed
  moreover have "0 < sint (b - a)" unfolding s using less by linarith
  ultimately have "sint (a - b) < 0" unfolding neg by linarith
  then have "abs_u32 (a - b) = b - a" by (simp add: abs_u32_def)
  then have "unat (abs_u32 (a - b)) = unat b - unat a" using d by simp
  then show ?thesis using less by linarith
qed

lemma clamp_bounds: "lo \<le> hi \<Longrightarrow> lo \<le> clamp v lo hi \<and> clamp v lo hi \<le> hi"
  by (auto simp: clamp_def)

lemma clamp_unat:
  assumes "unat lo \<le> unat (hi :: u32)"
  shows "unat lo \<le> unat (clamp v lo hi) \<and> unat (clamp v lo hi) \<le> unat hi"
  using clamp_bounds [of lo hi v] assms by (simp add: word_le_nat_alt)

lemma clamp_id: "lo \<le> v \<Longrightarrow> v \<le> hi \<Longrightarrow> clamp v lo hi = v"
  by (auto simp: clamp_def)

lemma align4_bounds: "n \<le> align4 n \<and> align4 n < n + 4"
  unfolding align4_def by presburger

lemma align4_dvd [simp]: "4 dvd align4 n"
  by (simp add: align4_def)

lemma align4_pos: "0 < n \<Longrightarrow> 0 < align4 n"
  using align4_bounds [of n] by linarith

subsection \<open>Bytes\<close>

lemma length_le16 [simp]: "length (le16 x) = 2"
  by (simp add: le16_def)

lemma length_le32 [simp]: "length (le32 x) = 4"
  by (simp add: le32_def)

lemma get_le16_le16 [simp]: "get_le16 (le16 x @ rest) = Some x"
  unfolding get_le16_def le16_def
  by simp (rule bit_word_eqI, auto simp: bit_simps)

lemma le32_assemble:
  fixes x :: u32
  shows "(ucast (ucast x :: u8) :: u32) OR push_bit 8 (ucast (ucast (drop_bit 8 x) :: u8))
    OR push_bit 16 (ucast (ucast (drop_bit 16 x) :: u8))
    OR push_bit 24 (ucast (ucast (drop_bit 24 x) :: u8)) = x"
proof (rule bit_word_eqI)
  fix n assume n: "n < LENGTH(32)"
  consider "n < 8" | "8 \<le> n \<and> n < 16" | "16 \<le> n \<and> n < 24" | "24 \<le> n \<and> n < 32"
    using n by fastforce
  then show "bit ((ucast (ucast x :: u8) :: u32) OR push_bit 8 (ucast (ucast (drop_bit 8 x) :: u8))
    OR push_bit 16 (ucast (ucast (drop_bit 16 x) :: u8))
    OR push_bit 24 (ucast (ucast (drop_bit 24 x) :: u8))) n = bit x n"
    by cases (auto simp: bit_simps)
qed

lemma get_le32_le32 [simp]: "get_le32 (le32 x @ rest) = Some x"
  by (simp add: get_le32_def le32_def le32_assemble)

end
