(* ===== verification/Pcan_Fifo.thy ===== *)
theory Pcan_Fifo
  imports Pcan_Prelude
begin

text \<open>
  The ring buffers between the interrupt handlers and the tasks
  (\<^verbatim>\<open>driver/src/pcan_fifo.c\<close>, \<^verbatim>\<open>driver/src/pcan_fifo.h\<close>).
  A pointer is a byte address (a natural number); \<open>fifo_cells\<close> is the store behind the pointers:
  the object last copied to an address. Every operation runs with the FIFO's lock held, so it
  is one atomic state transformer. \<^verbatim>\<open>pcan_fifo.h\<close> defines \<^verbatim>\<open>FIFO_CIRCULAR\<close>, so the
  compiled \<^verbatim>\<open>pcan_fifo_put\<close> is the second one of the file.

  The locale \<open>bounded_queue\<close> is what the clients of a FIFO rely on. The ring is shown to be such a
  queue (the interpretation \<open>ring\<close>), so that what the clients derive from the interface holds of
  the pointer arithmetic of the code.
\<close>

section \<open>State\<close>

record 'a FIFO_MANAGER =
  wStepSize :: u16
  wCopySize :: u16
  fifo_flags :: u32
  bufferBegin :: nat
  bufferEnd :: nat
  nCount :: u32
  nStored :: u32
  dwTotal :: u32
  fifo_r :: nat
  fifo_w :: nat
  fifo_cells :: "nat \<Rightarrow> 'a"

abbreviation (input) FIFO_CIRCULAR :: u32 where "FIFO_CIRCULAR \<equiv> 1"

section \<open>Operations\<close>

definition pcan_fifo_empty :: "'a FIFO_MANAGER \<Rightarrow> bool" where
  "pcan_fifo_empty anchor \<longleftrightarrow> nStored anchor = 0"

definition pcan_fifo_full :: "'a FIFO_MANAGER \<Rightarrow> bool" where
  "pcan_fifo_full anchor \<longleftrightarrow> nCount anchor \<le> nStored anchor"

definition pcan_fifo_status :: "'a FIFO_MANAGER \<Rightarrow> int" where
  "pcan_fifo_status anchor = sint (nStored anchor)"

definition pcan_fifo_reset :: "'a FIFO_MANAGER \<Rightarrow> 'a FIFO_MANAGER \<times> int" where
  "pcan_fifo_reset anchor =
     (anchor\<lparr>dwTotal := 0, nStored := 0, fifo_r := bufferBegin anchor, fifo_w := bufferBegin anchor\<rparr>, 0)"

definition pcan_fifo_init ::
  "'a FIFO_MANAGER \<Rightarrow> nat \<Rightarrow> nat \<Rightarrow> int \<Rightarrow> u16 \<Rightarrow> 'a FIFO_MANAGER \<times> int" where
  "pcan_fifo_init anchor begin_ptr end_ptr count copy_size =
     (if begin_ptr > end_ptr \<or> count \<le> 1 \<or> copy_size = 0 then (anchor, - EINVAL)
      else
        let step = (if begin_ptr = end_ptr then 0
                    else of_nat ((end_ptr - begin_ptr) div nat (count - 1)));
            anchor = anchor\<lparr>wStepSize := step\<rparr>
        in if step < copy_size then (anchor, - EINVAL)
           else pcan_fifo_reset
             (anchor\<lparr>wCopySize := copy_size, nCount := word_of_int count,
                bufferBegin := begin_ptr, bufferEnd := end_ptr, fifo_flags := 0\<rparr>))"

text \<open>A pointer moved to the next entry, and back to the previous one.\<close>

definition fifo_next :: "'a FIFO_MANAGER \<Rightarrow> nat \<Rightarrow> nat" where
  "fifo_next anchor p = (if p < bufferEnd anchor then p + unat (wStepSize anchor) else bufferBegin anchor)"

definition fifo_prev :: "'a FIFO_MANAGER \<Rightarrow> nat \<Rightarrow> nat" where
  "fifo_prev anchor p = (if p = bufferBegin anchor then bufferEnd anchor else p - unat (wStepSize anchor))"

text \<open>The part of \<^verbatim>\<open>pcan_fifo_put\<close> after the test for a full FIFO: store, count, step forward.\<close>

definition fifo_store :: "'a \<Rightarrow> 'a FIFO_MANAGER \<Rightarrow> 'a FIFO_MANAGER \<times> int" where
  "fifo_store x anchor =
     (anchor\<lparr>fifo_cells := (fifo_cells anchor)(fifo_w anchor := x),
        nStored := nStored anchor + 1, dwTotal := dwTotal anchor + 1,
        fifo_w := fifo_next anchor (fifo_w anchor)\<rparr>, sint (nStored anchor))"

definition pcan_fifo_put :: "'a \<Rightarrow> 'a FIFO_MANAGER \<Rightarrow> 'a FIFO_MANAGER \<times> int" where
  "pcan_fifo_put x anchor =
     (if nCount anchor \<le> nStored anchor then
        if \<not> has_flag (fifo_flags anchor) FIFO_CIRCULAR then (anchor, - ENOSPC)
        else fifo_store x
          (anchor\<lparr>nStored := nStored anchor - 1, fifo_r := fifo_next anchor (fifo_r anchor)\<rparr>)
      else fifo_store x anchor)"

text \<open>The boolean says whether the caller passes a destination (\<^verbatim>\<open>pvGetData != NULL\<close>).\<close>

definition pcan_fifo_get :: "bool \<Rightarrow> 'a FIFO_MANAGER \<Rightarrow> 'a FIFO_MANAGER \<times> int \<times> 'a option" where
  "pcan_fifo_get want anchor =
     (if nStored anchor > 0 then
        (anchor\<lparr>nStored := nStored anchor - 1, fifo_r := fifo_next anchor (fifo_r anchor)\<rparr>, 0,
         if want then Some (fifo_cells anchor (fifo_r anchor)) else None)
      else (anchor, - ENODATA, None))"

text \<open>The loop of \<^verbatim>\<open>pcan_fifo_foreach_back\<close>: the callback may rewrite the item and its argument;
  a non-zero result stops the walk.\<close>

fun foreach_back_loop ::
  "('a \<Rightarrow> 'b \<Rightarrow> 'a \<times> 'b \<times> int) \<Rightarrow> nat \<Rightarrow> nat \<Rightarrow> 'b \<Rightarrow> 'a FIFO_MANAGER \<Rightarrow> 'a FIFO_MANAGER \<times> 'b \<times> int"
where
  "foreach_back_loop pf 0 p arg anchor = (anchor, arg, 0)"
| "foreach_back_loop pf (Suc n) p arg anchor =
     (let p' = fifo_prev anchor p;
          (x, arg', err) = pf (fifo_cells anchor p') arg;
          anchor' = anchor\<lparr>fifo_cells := (fifo_cells anchor)(p' := x)\<rparr>
      in if err \<noteq> 0 then (anchor', arg', err) else foreach_back_loop pf n p' arg' anchor')"

definition pcan_fifo_foreach_back ::
  "('a \<Rightarrow> 'b \<Rightarrow> 'a \<times> 'b \<times> int) \<Rightarrow> 'b \<Rightarrow> 'a FIFO_MANAGER \<Rightarrow> 'a FIFO_MANAGER \<times> 'b \<times> int" where
  "pcan_fifo_foreach_back pf arg anchor =
     foreach_back_loop pf (unat (nStored anchor)) (fifo_w anchor) arg anchor"

definition pcan_fifo_peek :: "'a FIFO_MANAGER \<Rightarrow> int \<times> 'a option" where
  "pcan_fifo_peek anchor =
     (if nStored anchor > 0 then (0, Some (fifo_cells anchor (fifo_r anchor))) else (- ENODATA, None))"

definition pcan_fifo_ratio :: "'a FIFO_MANAGER \<Rightarrow> u32" where
  "pcan_fifo_ratio anchor =
     (if nCount anchor \<noteq> 0 then (nStored anchor * 10000) div nCount anchor else 0)"

section \<open>Specification: a bounded queue\<close>

text \<open>The address of the \<open>i\<close>-th entry, the entry a pointer designates, and the queue a ring holds.\<close>

definition fifo_slot :: "'a FIFO_MANAGER \<Rightarrow> nat \<Rightarrow> nat" where
  "fifo_slot f i = bufferBegin f + i * unat (wStepSize f)"

definition fifo_index :: "'a FIFO_MANAGER \<Rightarrow> nat \<Rightarrow> nat" where
  "fifo_index f p = (p - bufferBegin f) div unat (wStepSize f)"

definition fifo_cap :: "'a FIFO_MANAGER \<Rightarrow> nat" where
  "fifo_cap f = unat (nCount f)"

definition fifo_items :: "'a FIFO_MANAGER \<Rightarrow> 'a list" where
  "fifo_items f = map (\<lambda>i. fifo_cells f (fifo_slot f ((fifo_index f (fifo_r f) + i) mod fifo_cap f)))
     [0..<unat (nStored f)]"

text \<open>The invariant: the entries tile the buffer, both pointers designate entries, and the write
  pointer is \<open>nStored\<close> entries after the read pointer.\<close>

definition fifo_inv :: "'a FIFO_MANAGER \<Rightarrow> bool" where
  "fifo_inv f \<longleftrightarrow>
     2 \<le> fifo_cap f \<and> fifo_cap f < 2147483648 \<and>
     0 < unat (wCopySize f) \<and> wCopySize f \<le> wStepSize f \<and>
     bufferEnd f = fifo_slot f (fifo_cap f - 1) \<and>
     unat (nStored f) \<le> fifo_cap f \<and>
     fifo_index f (fifo_r f) < fifo_cap f \<and>
     fifo_r f = fifo_slot f (fifo_index f (fifo_r f)) \<and>
     fifo_w f = fifo_slot f ((fifo_index f (fifo_r f) + unat (nStored f)) mod fifo_cap f)"

text \<open>The walk \<^verbatim>\<open>pcan_fifo_foreach_back\<close> performs, on a list given from its newest item.\<close>

fun walk :: "('a \<Rightarrow> 'b \<Rightarrow> 'a \<times> 'b \<times> int) \<Rightarrow> 'a list \<Rightarrow> 'b \<Rightarrow> 'a list \<times> 'b \<times> int" where
  "walk pf [] arg = ([], arg, 0)"
| "walk pf (x # xs) arg =
     (let (x', arg', err) = pf x arg
      in if err \<noteq> 0 then (x' # xs, arg', err)
         else let (xs', arg'', err') = walk pf xs arg' in (x' # xs', arg'', err'))"

text \<open>Operations of a queue's users, and a run of them with what it delivers and accepts.\<close>

datatype 'a queue_op = Put 'a | Get

fun queue_run ::
  "('a \<Rightarrow> 'q \<Rightarrow> 'q \<times> int) \<Rightarrow> ('q \<Rightarrow> 'q \<times> int \<times> 'a option) \<Rightarrow> 'a queue_op list \<Rightarrow> 'q
     \<Rightarrow> 'q \<times> 'a list \<times> 'a list"
where
  "queue_run put get [] q = (q, [], [])"
| "queue_run put get (Put x # ops) q =
     (let (q', err) = put x q; (q'', acc, del) = queue_run put get ops q'
      in (q'', (if err \<ge> 0 then x # acc else acc), del))"
| "queue_run put get (Get # ops) q =
     (let (q', err, y) = get q; (q'', acc, del) = queue_run put get ops q'
      in (q'', acc, (case y of Some v \<Rightarrow> v # del | None \<Rightarrow> del)))"

locale bounded_queue =
  fixes inv :: "'q \<Rightarrow> bool"
    and items :: "'q \<Rightarrow> 'a list"
    and cap :: "'q \<Rightarrow> nat"
    and put :: "'a \<Rightarrow> 'q \<Rightarrow> 'q \<times> int"
    and get :: "'q \<Rightarrow> 'q \<times> int \<times> 'a option"
  assumes bounded: "inv q \<Longrightarrow> length (items q) \<le> cap q"
    and put_room: "inv q \<Longrightarrow> length (items q) < cap q \<Longrightarrow>
      \<exists>q'. put x q = (q', int (length (items q))) \<and> inv q' \<and> items q' = items q @ [x] \<and> cap q' = cap q"
    and put_full: "inv q \<Longrightarrow> length (items q) = cap q \<Longrightarrow> put x q = (q, - ENOSPC)"
    and get_item: "inv q \<Longrightarrow> items q = x # xs \<Longrightarrow>
      \<exists>q'. get q = (q', 0, Some x) \<and> inv q' \<and> items q' = xs \<and> cap q' = cap q"
    and get_none: "inv q \<Longrightarrow> items q = [] \<Longrightarrow> get q = (q, - ENODATA, None)"
begin

lemma put_cases:
  assumes "inv q"
  obtains (room) q' where "length (items q) < cap q" "put x q = (q', int (length (items q)))"
      "inv q'" "items q' = items q @ [x]" "cap q' = cap q"
  | (full) "length (items q) = cap q" "put x q = (q, - ENOSPC)"
  using bounded [OF assms] put_room [OF assms] put_full [OF assms] by (metis le_neq_implies_less)

lemma get_cases:
  assumes "inv q"
  obtains (item) x q' where "items q = x # items q'" "get q = (q', 0, Some x)" "inv q'" "cap q' = cap q"
  | (none) "items q = []" "get q = (q, - ENODATA, None)"
  using get_item [OF assms] get_none [OF assms] by (metis neq_Nil_conv)

text \<open>First in, first out, over any interleaving of producers and consumers: what was delivered,
  then what is still queued, is what was queued at first and then what was accepted.\<close>

lemma run_fifo:
  "inv q \<Longrightarrow> queue_run put get ops q = (q', acc, del) \<Longrightarrow>
     inv q' \<and> cap q' = cap q \<and> del @ items q' = items q @ acc"
proof (induction ops arbitrary: q q' acc del)
  case Nil
  then show ?case by simp
next
  case (Cons oper ops)
  show ?case
  proof (cases oper)
    case (Put x)
    from Cons.prems(1) show ?thesis
    proof (cases rule: put_cases [where x = x])
      case (room q1)
      with Cons Put show ?thesis by (fastforce split: prod.splits)
    next
      case full
      with Cons Put show ?thesis by (fastforce split: prod.splits)
    qed
  next
    case Get
    from Cons.prems(1) show ?thesis
    proof (cases rule: get_cases)
      case (item y q1)
      with Cons Get show ?thesis by (fastforce split: prod.splits)
    next
      case none
      with Cons Get show ?thesis by (fastforce split: prod.splits)
    qed
  qed
qed

text \<open>A queue that starts empty delivers a prefix of what it accepted.\<close>

lemma run_prefix:
  "inv q \<Longrightarrow> items q = [] \<Longrightarrow> queue_run put get ops q = (q', acc, del) \<Longrightarrow>
     \<exists>rest. acc = del @ rest \<and> length rest \<le> cap q"
  using run_fifo bounded by (metis append_Nil)

end

section \<open>The ring implements the queue\<close>

subsection \<open>Geometry of the ring\<close>

definition fifo_at :: "'a FIFO_MANAGER \<Rightarrow> nat \<Rightarrow> nat \<Rightarrow> bool" where
  "fifo_at f i k \<longleftrightarrow> 2 \<le> fifo_cap f \<and> fifo_cap f < 2147483648 \<and>
     0 < unat (wCopySize f) \<and> wCopySize f \<le> wStepSize f \<and>
     bufferEnd f = fifo_slot f (fifo_cap f - 1) \<and> unat (nStored f) = k \<and> k \<le> fifo_cap f \<and>
     i < fifo_cap f \<and> fifo_r f = fifo_slot f i \<and> fifo_w f = fifo_slot f ((i + k) mod fifo_cap f)"

lemma fifo_slot_update [simp]:
  "fifo_slot (f\<lparr>fifo_cells := c\<rparr>) i = fifo_slot f i" "fifo_slot (f\<lparr>nStored := n\<rparr>) i = fifo_slot f i"
  "fifo_slot (f\<lparr>dwTotal := d\<rparr>) i = fifo_slot f i" "fifo_slot (f\<lparr>fifo_r := p\<rparr>) i = fifo_slot f i"
  "fifo_slot (f\<lparr>fifo_w := p\<rparr>) i = fifo_slot f i"
  by (simp_all add: fifo_slot_def)

lemma fifo_cap_update [simp]:
  "fifo_cap (f\<lparr>fifo_cells := c\<rparr>) = fifo_cap f" "fifo_cap (f\<lparr>nStored := n\<rparr>) = fifo_cap f"
  "fifo_cap (f\<lparr>dwTotal := d\<rparr>) = fifo_cap f" "fifo_cap (f\<lparr>fifo_r := p\<rparr>) = fifo_cap f"
  "fifo_cap (f\<lparr>fifo_w := p\<rparr>) = fifo_cap f"
  by (simp_all add: fifo_cap_def)

lemma fifo_at_step_pos: "fifo_at f i k \<Longrightarrow> 0 < unat (wStepSize f)"
  by (auto simp: fifo_at_def word_le_nat_alt)

lemma fifo_index_slot: "0 < unat (wStepSize f) \<Longrightarrow> fifo_index f (fifo_slot f i) = i"
  by (simp add: fifo_index_def fifo_slot_def)

lemma fifo_slot_eq_iff: "0 < unat (wStepSize f) \<Longrightarrow> fifo_slot f i = fifo_slot f j \<longleftrightarrow> i = j"
  by (simp add: fifo_slot_def)

lemma fifo_slot_less_iff: "0 < unat (wStepSize f) \<Longrightarrow> fifo_slot f i < fifo_slot f j \<longleftrightarrow> i < j"
  by (simp add: fifo_slot_def)

lemma fifo_inv_at: "fifo_inv f \<Longrightarrow> fifo_at f (fifo_index f (fifo_r f)) (unat (nStored f))"
  by (simp add: fifo_inv_def fifo_at_def)

lemma fifo_at_index: "fifo_at f i k \<Longrightarrow> fifo_index f (fifo_r f) = i"
  using fifo_at_step_pos [of f i k] by (simp add: fifo_at_def fifo_index_slot)

lemma fifo_at_inv: "fifo_at f i k \<Longrightarrow> fifo_inv f"
  using fifo_at_index [of f i k] by (auto simp: fifo_inv_def fifo_at_def)

lemma fifo_at_items:
  "fifo_at f i k \<Longrightarrow> fifo_items f = map (\<lambda>j. fifo_cells f (fifo_slot f ((i + j) mod fifo_cap f))) [0..<k]"
  using fifo_at_index [of f i k] by (simp add: fifo_items_def fifo_at_def)

lemma fifo_next_slot:
  assumes "fifo_at f i k" and "j < fifo_cap f"
  shows "fifo_next f (fifo_slot f j) = fifo_slot f ((j + 1) mod fifo_cap f)"
proof (cases "j < fifo_cap f - 1")
  case True
  with assms show ?thesis
    by (simp add: fifo_next_def fifo_at_def fifo_at_step_pos fifo_slot_less_iff) (simp add: fifo_slot_def)
next
  case False
  with assms have "j = fifo_cap f - 1" by simp
  with assms show ?thesis
    by (simp add: fifo_next_def fifo_at_def) (simp add: fifo_slot_def)
qed

lemma fifo_prev_slot:
  assumes "fifo_at f i k" and "j < fifo_cap f"
  shows "fifo_prev f (fifo_slot f ((j + 1) mod fifo_cap f)) = fifo_slot f j"
proof (cases "j = fifo_cap f - 1")
  case True
  with assms show ?thesis
    by (simp add: fifo_prev_def fifo_at_def) (simp add: fifo_slot_def)
next
  case False
  with assms have "j + 1 < fifo_cap f" by simp
  with assms fifo_at_step_pos [OF assms(1)] show ?thesis
    by (simp add: fifo_prev_def fifo_slot_def)
qed

lemma fifo_step_update [simp]:
  "fifo_next (f\<lparr>fifo_cells := c\<rparr>) p = fifo_next f p" "fifo_next (f\<lparr>nStored := n\<rparr>) p = fifo_next f p"
  "fifo_next (f\<lparr>fifo_r := q\<rparr>) p = fifo_next f p" "fifo_prev (f\<lparr>fifo_cells := c\<rparr>) p = fifo_prev f p"
  by (simp_all add: fifo_next_def fifo_prev_def)

lemma length_fifo_items [simp]: "length (fifo_items f) = unat (nStored f)"
  by (simp add: fifo_items_def)

lemma mod_slot_less:
  assumes "j < k" "k < (n::nat)"
  shows "(i + j) mod n \<noteq> (i + k) mod n"
proof
  assume "(i + j) mod n = (i + k) mod n"
  then have "n dvd (i + k) - (i + j)" using assms by (metis mod_eq_dvd_iff_nat nat_add_left_cancel_le less_imp_le)
  then have "n dvd k - j" by simp
  with assms show False using dvd_imp_le [of n "k - j"] by linarith
qed

lemma mod_slot_neq: "j < n \<Longrightarrow> k < n \<Longrightarrow> j \<noteq> k \<Longrightarrow> (i + j) mod n \<noteq> (i + k) mod (n::nat)"
  using mod_slot_less [of j k n i] mod_slot_less [of k j n i] by fastforce

subsection \<open>Each operation on the queue\<close>

lemma fifo_store_at:
  assumes "fifo_at f i k" and "k < fifo_cap f" and "fifo_store x f = (f', err)"
  shows "fifo_at f' i (Suc k)" and "fifo_items f' = fifo_items f @ [x]" and "err = int k"
    and "fifo_cap f' = fifo_cap f" and "fifo_flags f' = fifo_flags f" and "dwTotal f' = dwTotal f + 1"
proof -
  let ?n = "fifo_cap f"
  have w: "fifo_w f = fifo_slot f ((i + k) mod ?n)" and n: "0 < ?n" and k: "unat (nStored f) = k"
    using assms(1) by (auto simp: fifo_at_def)
  have nx: "fifo_next f (fifo_w f) = fifo_slot f ((i + Suc k) mod ?n)"
    using fifo_next_slot [OF assms(1), of "(i + k) mod ?n"] n w by (simp add: mod_Suc_eq)
  have st: "unat (nStored f + 1) = Suc k"
    using assms(1,2) k by (subst unat_add_exact) (auto simp: fifo_at_def)
  have f': "f' = f\<lparr>fifo_cells := (fifo_cells f)(fifo_w f := x), nStored := nStored f + 1,
      dwTotal := dwTotal f + 1, fifo_w := fifo_next f (fifo_w f)\<rparr>" and err: "err = sint (nStored f)"
    using assms(3) by (auto simp: fifo_store_def)
  show at': "fifo_at f' i (Suc k)"
    using assms(1,2) nx st by (auto simp: f' fifo_at_def)
  show "err = int k"
    using assms(1,2) k unfolding err by (subst sint_small_u32) (auto simp: fifo_at_def)
  show "fifo_cap f' = ?n" "fifo_flags f' = fifo_flags f" "dwTotal f' = dwTotal f + 1"
    by (simp_all add: f')
  have "fifo_slot f ((i + j) mod ?n) \<noteq> fifo_w f" if "j < k" for j
    using that assms(1,2) w mod_slot_neq [of j ?n k i] fifo_at_step_pos [OF assms(1)]
    by (auto simp: fifo_at_def fifo_slot_eq_iff)
  then show "fifo_items f' = fifo_items f @ [x]"
    using w by (simp add: fifo_at_items [OF at'] fifo_at_items [OF assms(1)]) (simp add: f')
qed

lemma fifo_drop_at:
  assumes "fifo_at f i (Suc k)"
  shows "fifo_at (f\<lparr>nStored := nStored f - 1, fifo_r := fifo_next f (fifo_r f)\<rparr>) ((i + 1) mod fifo_cap f) k"
    and "fifo_items f = fifo_cells f (fifo_r f) #
      fifo_items (f\<lparr>nStored := nStored f - 1, fifo_r := fifo_next f (fifo_r f)\<rparr>)"
proof -
  let ?n = "fifo_cap f" and ?f = "f\<lparr>nStored := nStored f - 1, fifo_r := fifo_next f (fifo_r f)\<rparr>"
  have i: "i < ?n" and r: "fifo_r f = fifo_slot f i" and k: "unat (nStored f) = Suc k"
    using assms by (auto simp: fifo_at_def)
  have nx: "fifo_next f (fifo_slot f i) = fifo_slot f (Suc i mod ?n)"
    using fifo_next_slot [OF assms i] by simp
  have "nStored f \<noteq> 0" using k by auto
  then have st: "unat (nStored f - 1) = k"
    using k by (subst unat_minus_one) auto
  have md: "(Suc i mod ?n + j) mod ?n = Suc (i + j) mod ?n" for j
    by (simp only: mod_add_left_eq add_Suc)
  show at': "fifo_at ?f ((i + 1) mod ?n) k"
    using assms unfolding fifo_at_def by (simp add: nx st md)
  have "[0..<Suc k] = 0 # map Suc [0..<k]" by (simp only: map_Suc_upt upt_conv_Cons zero_less_Suc)
  then have "fifo_items f = fifo_cells f (fifo_slot f i) #
      map (\<lambda>j. fifo_cells f (fifo_slot f ((i + Suc j) mod ?n))) [0..<k]"
    using i by (simp add: fifo_at_items [OF assms])
  also have "\<dots> = fifo_cells f (fifo_r f) # fifo_items ?f"
    by (simp only: fifo_at_items [OF at']) (simp add: r md)
  finally show "fifo_items f = fifo_cells f (fifo_r f) # fifo_items ?f" .
qed


subsection \<open>The walk from the newest item\<close>

lemma foreach_back_loop_at:
  assumes "fifo_at f i k" and "j \<le> k"
    and "foreach_back_loop pf j (fifo_slot f ((i + j) mod fifo_cap f)) arg f = (f', arg', err)"
  shows "fifo_at f' i k \<and> fifo_cap f' = fifo_cap f \<and> fifo_flags f' = fifo_flags f \<and> dwTotal f' = dwTotal f \<and>
    (\<exists>ys. walk pf (rev (take j (fifo_items f))) arg = (ys, arg', err) \<and>
      fifo_items f' = rev ys @ drop j (fifo_items f))"
  using assms
proof (induction j arbitrary: f arg)
  case 0
  then show ?case by simp
next
  case (Suc j)
  let ?n = "fifo_cap f" and ?p = "fifo_slot f ((i + j) mod fifo_cap f)"
  have n: "0 < ?n" and k: "k \<le> ?n" and i: "i < ?n" and stored: "unat (nStored f) = k"
    using Suc.prems(1) by (auto simp: fifo_at_def)
  have pv: "fifo_prev f (fifo_slot f ((i + Suc j) mod ?n)) = ?p"
    using fifo_prev_slot [OF Suc.prems(1), of "(i + j) mod ?n"] n by (simp add: mod_Suc_eq)
  obtain x a e where pf: "pf (fifo_cells f ?p) arg = (x, a, e)" by (metis prod_cases3)
  define g where "g = f\<lparr>fifo_cells := (fifo_cells f)(?p := x)\<rparr>"
  have g: "fifo_at g i k" "fifo_cap g = ?n" "fifo_flags g = fifo_flags f" "dwTotal g = dwTotal f"
    using Suc.prems(1) by (auto simp: g_def fifo_at_def)
  have item: "fifo_items f ! j = fifo_cells f ?p"
    using Suc.prems(2) by (simp add: fifo_at_items [OF Suc.prems(1)])
  have jk: "j < length (fifo_items f)" using Suc.prems(2) stored by simp
  have neq: "fifo_slot f ((i + l) mod ?n) \<noteq> ?p" if "l < k" "l \<noteq> j" for l
    using that Suc.prems(2) k mod_slot_neq [of l ?n j i] fifo_at_step_pos [OF Suc.prems(1)]
    by (simp add: fifo_slot_eq_iff)
  have items_g: "fifo_items g = (fifo_items f)[j := x]"
  proof (rule nth_equalityI)
    show "length (fifo_items g) = length ((fifo_items f)[j := x])"
      by (simp add: g_def)
    fix l assume "l < length (fifo_items g)"
    then have "l < k" using stored by (simp add: g_def)
    then show "fifo_items g ! l = (fifo_items f)[j := x] ! l"
      using neq [of l] by (cases "l = j")
        (simp_all add: fifo_at_items [OF g(1)] fifo_at_items [OF Suc.prems(1)], simp_all add: g_def)
  qed
  have split: "rev (take (Suc j) (fifo_items f)) = fifo_cells f ?p # rev (take j (fifo_items f))"
    using jk item by (simp add: take_Suc_conv_app_nth)
  show ?case
  proof (cases "e = 0")
    case False
    then have res: "f' = g" "arg' = a" "err = e"
      using Suc.prems(3) pv pf by (simp_all add: Let_def g_def)
    have "fifo_items g = rev (x # rev (take j (fifo_items f))) @ drop (Suc j) (fifo_items f)"
      using jk by (simp add: items_g upd_conv_take_nth_drop)
    with False g res split pf show ?thesis by simp
  next
    case True
    then have "foreach_back_loop pf j (fifo_slot g ((i + j) mod fifo_cap g)) a g = (f', arg', err)"
      using Suc.prems(3) pv pf by (simp add: Let_def g_def)
    from Suc.IH [OF g(1) _ this] Suc.prems(2) g obtain ys where
      w: "walk pf (rev (take j (fifo_items g))) a = (ys, arg', err)"
        "fifo_items f' = rev ys @ drop j (fifo_items g)"
        "fifo_at f' i k" "fifo_cap f' = ?n" "fifo_flags f' = fifo_flags f" "dwTotal f' = dwTotal f" by auto
    have "drop j (fifo_items g) = x # drop (Suc j) (fifo_items f)"
      using jk by (simp add: items_g upd_conv_take_nth_drop)
    with True w split pf items_g show ?thesis by simp
  qed
qed

lemma foreach_back_refines:
  assumes "fifo_inv f" and "pcan_fifo_foreach_back pf arg f = (f', arg', err)"
  shows "fifo_inv f' \<and> fifo_cap f' = fifo_cap f \<and> fifo_flags f' = fifo_flags f \<and> dwTotal f' = dwTotal f \<and>
    (\<exists>ys. walk pf (rev (fifo_items f)) arg = (ys, arg', err) \<and> fifo_items f' = rev ys)"
proof -
  let ?i = "fifo_index f (fifo_r f)" and ?k = "unat (nStored f)"
  note at = fifo_inv_at [OF assms(1)]
  have "foreach_back_loop pf ?k (fifo_slot f ((?i + ?k) mod fifo_cap f)) arg f = (f', arg', err)"
    using assms(2) at by (simp add: pcan_fifo_foreach_back_def fifo_at_def)
  from foreach_back_loop_at [OF at order_refl this] show ?thesis
    by (auto intro: fifo_at_inv)
qed

subsection \<open>The interpretation\<close>

definition ring_inv :: "'a FIFO_MANAGER \<Rightarrow> bool" where
  "ring_inv f \<longleftrightarrow> fifo_inv f \<and> \<not> has_flag (fifo_flags f) FIFO_CIRCULAR"

lemma ring_put_room:
  assumes "ring_inv f" and "unat (nStored f) < fifo_cap f"
  shows "\<exists>f'. pcan_fifo_put x f = (f', int (unat (nStored f))) \<and> ring_inv f' \<and>
    fifo_items f' = fifo_items f @ [x] \<and> fifo_cap f' = fifo_cap f \<and> dwTotal f' = dwTotal f + 1"
proof -
  obtain f' e where st: "fifo_store x f = (f', e)" by fastforce
  have "pcan_fifo_put x f = fifo_store x f"
    using assms(2) by (auto simp: pcan_fifo_put_def word_le_nat_alt fifo_cap_def)
  with fifo_store_at [OF fifo_inv_at _ st] assms st show ?thesis
    by (auto simp: ring_inv_def intro: fifo_at_inv)
qed

lemma ring_put_full:
  "ring_inv f \<Longrightarrow> unat (nStored f) = fifo_cap f \<Longrightarrow> pcan_fifo_put x f = (f, - ENOSPC)"
  by (simp add: pcan_fifo_put_def ring_inv_def fifo_cap_def word_le_nat_alt)

lemma fifo_get_item:
  assumes "fifo_inv f" and "fifo_items f = x # xs"
  shows "\<exists>f'. pcan_fifo_get want f = (f', 0, if want then Some x else None) \<and> fifo_inv f' \<and>
    fifo_items f' = xs \<and> fifo_cap f' = fifo_cap f \<and> fifo_flags f' = fifo_flags f \<and> dwTotal f' = dwTotal f"
proof -
  let ?f = "f\<lparr>nStored := nStored f - 1, fifo_r := fifo_next f (fifo_r f)\<rparr>"
  have "unat (nStored f) = Suc (length xs)" using assms(2) length_fifo_items [of f] by simp
  moreover from this have "nStored f > 0" by (simp add: word_less_nat_alt)
  ultimately show ?thesis
    using fifo_drop_at [of f _ "length xs"] fifo_inv_at [OF assms(1)] assms(2)
    by (auto simp: pcan_fifo_get_def intro!: exI [of _ ?f] fifo_at_inv)
qed

lemma fifo_get_none: "fifo_items f = [] \<Longrightarrow> pcan_fifo_get want f = (f, - ENODATA, None)"
  using length_fifo_items [of f] by (simp add: pcan_fifo_get_def unat_eq_0 del: length_fifo_items)

interpretation ring: bounded_queue ring_inv fifo_items fifo_cap pcan_fifo_put "pcan_fifo_get True"
proof
  show "length (fifo_items q) \<le> fifo_cap q" if "ring_inv q" for q :: "'b FIFO_MANAGER"
    using that by (simp add: ring_inv_def fifo_inv_def)
  show "\<exists>q'. pcan_fifo_put x q = (q', int (length (fifo_items q))) \<and> ring_inv q' \<and>
      fifo_items q' = fifo_items q @ [x] \<and> fifo_cap q' = fifo_cap q"
    if "ring_inv q" "length (fifo_items q) < fifo_cap q" for q :: "'b FIFO_MANAGER" and x
    using ring_put_room [of q x] that by auto
  show "pcan_fifo_put x q = (q, - ENOSPC)"
    if "ring_inv q" "length (fifo_items q) = fifo_cap q" for q :: "'b FIFO_MANAGER" and x
    using ring_put_full that by simp
  show "\<exists>q'. pcan_fifo_get True q = (q', 0, Some x) \<and> ring_inv q' \<and> fifo_items q' = xs \<and> fifo_cap q' = fifo_cap q"
    if "ring_inv q" "fifo_items q = x # xs" for q :: "'b FIFO_MANAGER" and x xs
    using fifo_get_item [of q x xs True] that by (auto simp: ring_inv_def)
  show "pcan_fifo_get True q = (q, - ENODATA, None)"
    if "ring_inv q" "fifo_items q = []" for q :: "'b FIFO_MANAGER"
    using fifo_get_none that by blast
qed


section \<open>Properties\<close>

text \<open>A small ring for the witnesses: four entries of 16 bytes at address 1000.\<close>

definition raw_fifo :: "nat FIFO_MANAGER" where
  "raw_fifo = \<lparr>wStepSize = 0, wCopySize = 0, fifo_flags = 0, bufferBegin = 0, bufferEnd = 0,
     nCount = 0, nStored = 0, dwTotal = 0, fifo_r = 0, fifo_w = 0, fifo_cells = (\<lambda>_. 0)\<rparr>"

definition demo_fifo :: "nat FIFO_MANAGER" where
  "demo_fifo = fst (pcan_fifo_init raw_fifo 1000 1048 4 16)"

lemma ring_inv_init:
  assumes "2 \<le> n" "n < 2147483648" "s < 65536" "unat c \<le> s" "c \<noteq> 0"
  shows "\<exists>f'. pcan_fifo_init f b (b + (n - 1) * s) (int n) c = (f', 0) \<and> ring_inv f' \<and>
    fifo_items f' = [] \<and> fifo_cap f' = n"
proof -
  have c0: "0 < unat c" using assms(5) by (simp add: unat_gt_0)
  with assms(4) have s0: "0 < s" by simp
  have d: "(b + (n - 1) * s - b) div nat (int n - 1) = s"
    using assms(1) by (simp add: nat_diff_distrib')
  have step: "unat (of_nat s :: u16) = s" using assms(3) by (simp add: unsigned_of_nat take_bit_nat_eq_self)
  have cnt: "unat (word_of_int (int n) :: u32) = n" using assms(2) by (simp add: unsigned_of_nat take_bit_nat_eq_self)
  have "b < b + (n - 1) * s" using assms(1) s0 by simp
  moreover have "\<not> (of_nat s :: u16) < c" using assms(4) step by (simp add: word_less_nat_alt)
  moreover have "c \<le> of_nat s" using assms(4) step by (simp add: word_le_nat_alt)
  ultimately show ?thesis
    using assms c0 s0 d step cnt
    by (simp add: pcan_fifo_init_def Let_def pcan_fifo_reset_def ring_inv_def fifo_inv_def
        fifo_index_def fifo_slot_def fifo_cap_def fifo_items_def)
qed

lemma demo_fifo_inv: "ring_inv demo_fifo \<and> fifo_items demo_fifo = [] \<and> fifo_cap demo_fifo = 4"
  using ring_inv_init [of 4 16 16 raw_fifo 1000] by (auto simp: demo_fifo_def)

text \<open>A FIFO set up over an array of \<open>n\<close> records of \<open>s\<close> bytes (as \<^verbatim>\<open>pcan_open_path\<close> does)
  accepts the array, starts empty with capacity \<open>n\<close>, and satisfies the ring invariant.\<close>

theorem fifo_init_array:
  assumes "2 \<le> n" "n < 2147483648" "s < 65536" "unat c \<le> s" "c \<noteq> 0"
  shows "\<exists>f'. pcan_fifo_init f b (b + (n - 1) * s) (int n) c = (f', 0) \<and> ring_inv f' \<and>
    fifo_items f' = [] \<and> fifo_cap f' = n"
  using assms by (rule ring_inv_init)

theorem fifo_init_array_witness:
  "\<exists>f'. pcan_fifo_init raw_fifo 1000 (1000 + (4 - 1) * 16) (int 4) 16 = (f', 0) \<and> ring_inv f' \<and>
    fifo_items f' = [] \<and> fifo_cap f' = 4"
  by (rule fifo_init_array) simp_all

text \<open>C1. First in, first out: over any sequence of puts and gets on a ring, the items delivered
  followed by those still queued are the items queued at first followed by those accepted, and the
  ring invariant is kept.\<close>

theorem fifo_order:
  assumes "ring_inv f" and "queue_run pcan_fifo_put (pcan_fifo_get True) ops f = (f', acc, del)"
  shows "ring_inv f' \<and> fifo_cap f' = fifo_cap f \<and> del @ fifo_items f' = fifo_items f @ acc"
  using assms by (rule ring.run_fifo)

theorem fifo_order_witness:
  "\<exists>f' acc del. queue_run pcan_fifo_put (pcan_fifo_get True) [Put 7, Put 8, Get, Get, Get] demo_fifo = (f', acc, del) \<and>
     del @ fifo_items f' = fifo_items demo_fifo @ acc"
proof -
  obtain f' acc del where
    r: "queue_run pcan_fifo_put (pcan_fifo_get True) [Put 7, Put 8, Get, Get, Get] demo_fifo = (f', acc, del)"
    using prod_cases3 by blast
  from fifo_order [OF conjunct1 [OF demo_fifo_inv] r] r show ?thesis by blast
qed

text \<open>A put on a full circular FIFO drops the oldest item and appends the new one; on a full
  FIFO that is not circular it is refused with \<^verbatim>\<open>-ENOSPC\<close> and nothing changes.\<close>

theorem fifo_put_full:
  assumes "fifo_inv f" and "pcan_fifo_full f" and "pcan_fifo_put x f = (f', err)"
  shows "if has_flag (fifo_flags f) FIFO_CIRCULAR
    then fifo_inv f' \<and> fifo_items f' = tl (fifo_items f) @ [x] \<and> err = int (fifo_cap f) - 1 \<and> fifo_cap f' = fifo_cap f
    else f' = f \<and> err = - ENOSPC"
proof (cases "has_flag (fifo_flags f) FIFO_CIRCULAR")
  case False
  with assms(2,3) show ?thesis by (simp add: pcan_fifo_put_def pcan_fifo_full_def)
next
  case True
  let ?g = "f\<lparr>nStored := nStored f - 1, fifo_r := fifo_next f (fifo_r f)\<rparr>"
  obtain k where k: "fifo_cap f = Suc k" and st: "unat (nStored f) = Suc k"
    using assms(1,2) by (cases "fifo_cap f")
      (auto simp: fifo_inv_def pcan_fifo_full_def fifo_cap_def word_le_nat_alt)
  have at: "fifo_at f (fifo_index f (fifo_r f)) (Suc k)" using fifo_inv_at [OF assms(1)] st by simp
  have "fifo_store x ?g = (f', err)"
    using True assms(2,3) by (simp add: pcan_fifo_put_def pcan_fifo_full_def)
  from fifo_store_at [OF fifo_drop_at(1) [OF at] _ this] k fifo_drop_at(2) [OF at] True show ?thesis
    by (auto intro: fifo_at_inv)
qed

theorem fifo_put_full_witness:
  "\<exists>(f :: nat FIFO_MANAGER) f' err. fifo_inv f \<and> pcan_fifo_full f \<and> pcan_fifo_put 9 f = (f', err) \<and> f' = f \<and> err = - ENOSPC"
proof -
  define f where "f = fst (queue_run pcan_fifo_put (pcan_fifo_get True) [Put 1, Put 2, Put 3, Put 4] demo_fifo)"
  have inv: "ring_inv f"
    using ring.run_fifo [OF conjunct1 [OF demo_fifo_inv], of "[Put 1, Put 2, Put 3, Put 4]"]
    by (metis f_def prod_cases3 fst_conv)
  have full: "pcan_fifo_full f"
    unfolding f_def demo_fifo_def raw_fifo_def by code_simp
  obtain f' err where p: "pcan_fifo_put 9 f = (f', err)" by fastforce
  have fi: "fifo_inv f" and nc: "\<not> has_flag (fifo_flags f) FIFO_CIRCULAR" using inv by (auto simp: ring_inv_def)
  from fifo_put_full [OF fi full p] nc p fi full show ?thesis by auto
qed

text \<open>\<^verbatim>\<open>pcan_fifo_foreach_back\<close> visits the queued items from the newest to the oldest, stops
  at the first non-zero result of the callback, and rewrites exactly the items it visited.\<close>

theorem fifo_foreach_back:
  assumes "fifo_inv f" and "pcan_fifo_foreach_back pf arg f = (f', arg', err)"
  shows "fifo_inv f' \<and> (\<exists>ys. walk pf (rev (fifo_items f)) arg = (ys, arg', err) \<and> fifo_items f' = rev ys)"
  using foreach_back_refines [OF assms] by blast

theorem fifo_foreach_back_witness:
  "\<exists>f' arg' err. pcan_fifo_foreach_back (\<lambda>x n. (x + 1, n + x, 0)) (0::nat) demo_fifo = (f', arg', err) \<and>
     fifo_inv f' \<and> (\<exists>ys. walk (\<lambda>x n. (x + 1, n + x, 0)) (rev (fifo_items demo_fifo)) 0 = (ys, arg', err) \<and>
     fifo_items f' = rev ys)"
proof -
  obtain f' arg' err where
    r: "pcan_fifo_foreach_back (\<lambda>x n. (x + 1, n + x, 0)) (0::nat) demo_fifo = (f', arg', err)"
    using prod_cases3 by blast
  have "fifo_inv demo_fifo" using demo_fifo_inv by (simp add: ring_inv_def)
  from fifo_foreach_back [OF this r] r show ?thesis by blast
qed

text \<open>The fill ratio shown in sysfs is at most 10000 (100.00 \<^verbatim>\<open>%\<close>): the 32-bit product does not
  wrap for any queue of at most 429496 entries, which covers every 16-bit queue size.\<close>

theorem fifo_ratio_bound:
  assumes "fifo_inv f" and "fifo_cap f \<le> 429496"
  shows "unat (pcan_fifo_ratio f) = length (fifo_items f) * 10000 div fifo_cap f \<and> pcan_fifo_ratio f \<le> 10000"
proof -
  have st: "unat (nStored f) \<le> fifo_cap f" and c: "2 \<le> fifo_cap f" using assms(1) by (auto simp: fifo_inv_def)
  have "nCount f \<noteq> 0" using c by (auto simp: fifo_cap_def)
  moreover have "unat (nStored f * 10000) = unat (nStored f) * 10000"
    using st assms(2) by (subst unat_mult_exact) auto
  ultimately have eq: "unat (pcan_fifo_ratio f) = unat (nStored f) * 10000 div fifo_cap f"
    by (simp add: pcan_fifo_ratio_def unat_div_word fifo_cap_def)
  have "unat (nStored f) * 10000 div fifo_cap f \<le> fifo_cap f * 10000 div fifo_cap f"
    using st by (intro div_le_mono) simp
  also have "\<dots> = 10000" using c by simp
  finally show ?thesis using eq by (simp add: word_le_nat_alt)
qed

theorem fifo_ratio_bound_witness: "pcan_fifo_ratio demo_fifo \<le> 10000"
proof -
  have "fifo_inv demo_fifo" "fifo_cap demo_fifo \<le> 429496" using demo_fifo_inv by (auto simp: ring_inv_def)
  from fifo_ratio_bound [OF this] show ?thesis by blast
qed

end
