(* ===== verification/Pcan_Types.thy ===== *)
theory Pcan_Types
  imports Pcan_Prelude
begin

text \<open>
  The data types of \<^verbatim>\<open>driver/pcanfd.h\<close> and \<^verbatim>\<open>driver/src/pcan_main.h\<close> that the components
  share, with the constants of the two headers, and the \<^verbatim>\<open>struct timeval\<close> helpers of
  \<^verbatim>\<open>driver/src/pcan_common.h\<close>. The 64-bit \<^verbatim>\<open>long\<close> fields of \<^verbatim>\<open>struct timeval\<close> are integers;
  microsecond counts are 64-bit words, as in the code.
\<close>

section \<open>Messages\<close>

abbreviation (input) PCANFD_TYPE_NOP :: u16 where "PCANFD_TYPE_NOP \<equiv> 0"
abbreviation (input) PCANFD_TYPE_CAN20_MSG :: u16 where "PCANFD_TYPE_CAN20_MSG \<equiv> 1"
abbreviation (input) PCANFD_TYPE_CANFD_MSG :: u16 where "PCANFD_TYPE_CANFD_MSG \<equiv> 2"
abbreviation (input) PCANFD_TYPE_STATUS :: u16 where "PCANFD_TYPE_STATUS \<equiv> 3"
abbreviation (input) PCANFD_TYPE_ERROR_MSG :: u16 where "PCANFD_TYPE_ERROR_MSG \<equiv> 4"

abbreviation (input) PCANFD_MSG_STD :: u32 where "PCANFD_MSG_STD \<equiv> 0"
abbreviation (input) PCANFD_MSG_RTR :: u32 where "PCANFD_MSG_RTR \<equiv> 0x1"
abbreviation (input) PCANFD_MSG_EXT :: u32 where "PCANFD_MSG_EXT \<equiv> 0x2"
abbreviation (input) PCANFD_MSG_SLF :: u32 where "PCANFD_MSG_SLF \<equiv> 0x4"
abbreviation (input) PCANFD_MSG_SNG :: u32 where "PCANFD_MSG_SNG \<equiv> 0x8"
abbreviation (input) PCANFD_MSG_ECHO :: u32 where "PCANFD_MSG_ECHO \<equiv> 0x10"
abbreviation (input) PCANFD_TIMESTAMP :: u32 where "PCANFD_TIMESTAMP \<equiv> 0x01000000"
abbreviation (input) PCANFD_HWTIMESTAMP :: u32 where "PCANFD_HWTIMESTAMP \<equiv> 0x02000000"
abbreviation (input) PCANFD_ERRCNT :: u32 where "PCANFD_ERRCNT \<equiv> 0x10000000"
abbreviation (input) PCANFD_BUSLOAD :: u32 where "PCANFD_BUSLOAD \<equiv> 0x20000000"
abbreviation (input) PCANFD_MSG_BRS :: u32 where "PCANFD_MSG_BRS \<equiv> 0x00100000"
abbreviation (input) PCANFD_MSG_ESI :: u32 where "PCANFD_MSG_ESI \<equiv> 0x00200000"

text \<open>\<^verbatim>\<open>enum pcanfd_status\<close> and \<^verbatim>\<open>enum pcanfd_error\<close>. The code stores these values in the
  \<^verbatim>\<open>id\<close> of a message and compares them with it, so they are words.\<close>

abbreviation (input) PCANFD_UNKNOWN :: u32 where "PCANFD_UNKNOWN \<equiv> 0"
abbreviation (input) PCANFD_ERROR_ACTIVE :: u32 where "PCANFD_ERROR_ACTIVE \<equiv> 1"
abbreviation (input) PCANFD_ERROR_WARNING :: u32 where "PCANFD_ERROR_WARNING \<equiv> 2"
abbreviation (input) PCANFD_ERROR_PASSIVE :: u32 where "PCANFD_ERROR_PASSIVE \<equiv> 3"
abbreviation (input) PCANFD_ERROR_BUSOFF :: u32 where "PCANFD_ERROR_BUSOFF \<equiv> 4"
abbreviation (input) PCANFD_RX_EMPTY :: u32 where "PCANFD_RX_EMPTY \<equiv> 5"
abbreviation (input) PCANFD_RX_OVERFLOW :: u32 where "PCANFD_RX_OVERFLOW \<equiv> 6"
abbreviation (input) PCANFD_TX_EMPTY :: u32 where "PCANFD_TX_EMPTY \<equiv> 7"
abbreviation (input) PCANFD_TX_OVERFLOW :: u32 where "PCANFD_TX_OVERFLOW \<equiv> 8"
abbreviation (input) PCANFD_BUS_ERROR :: u32 where "PCANFD_BUS_ERROR \<equiv> 9"
abbreviation (input) PCANFD_BUS_LOAD :: u32 where "PCANFD_BUS_LOAD \<equiv> 10"

abbreviation (input) PCANFD_ERRMSG_BIT :: u32 where "PCANFD_ERRMSG_BIT \<equiv> 0"
abbreviation (input) PCANFD_ERRMSG_FORM :: u32 where "PCANFD_ERRMSG_FORM \<equiv> 1"
abbreviation (input) PCANFD_ERRMSG_STUFF :: u32 where "PCANFD_ERRMSG_STUFF \<equiv> 2"
abbreviation (input) PCANFD_ERRMSG_OTHER :: u32 where "PCANFD_ERRMSG_OTHER \<equiv> 3"
abbreviation (input) PCANFD_ERRMSG_COUNT :: u32 where "PCANFD_ERRMSG_COUNT \<equiv> 4"

abbreviation (input) PCANFD_ERROR_BUS :: u32 where "PCANFD_ERROR_BUS \<equiv> 0x80"
abbreviation (input) PCANFD_ERROR_PROTOCOL :: u32 where "PCANFD_ERROR_PROTOCOL \<equiv> 0x100"
abbreviation (input) PCANFD_ERROR_CTRLR :: u32 where "PCANFD_ERROR_CTRLR \<equiv> 0x200"
abbreviation (input) PCANFD_ERROR_INTERNAL :: u32 where "PCANFD_ERROR_INTERNAL \<equiv> 0x400"
abbreviation (input) PCANFD_ERRMSG_RX :: u32 where "PCANFD_ERRMSG_RX \<equiv> 0x1000"
abbreviation (input) PCANFD_ERRMSG_GEN :: u32 where "PCANFD_ERRMSG_GEN \<equiv> 0x2000"

abbreviation (input) PCAN_MAXDATALEN :: nat where "PCAN_MAXDATALEN \<equiv> 8"
abbreviation (input) PCANFD_MAXDATALEN :: nat where "PCANFD_MAXDATALEN \<equiv> 64"

text \<open>The indexes of \<^verbatim>\<open>enum pcanfd_ctrlr_data\<close>.\<close>

abbreviation (input) PCANFD_RXERRCNT :: nat where "PCANFD_RXERRCNT \<equiv> 0"
abbreviation (input) PCANFD_TXERRCNT :: nat where "PCANFD_TXERRCNT \<equiv> 1"
abbreviation (input) PCANFD_BUSLOAD_UNIT :: nat where "PCANFD_BUSLOAD_UNIT \<equiv> 2"
abbreviation (input) PCANFD_BUSLOAD_DEC :: nat where "PCANFD_BUSLOAD_DEC \<equiv> 3"

record timeval =
  tv_sec :: int
  tv_usec :: int

record pcanfd_msg =
  msg_type :: u16
  data_len :: u16
  msg_id :: u32
  msg_flags :: u32
  timestamp :: timeval
  ctrlr_data :: "u8 list"
  msg_data :: "u8 list"

text \<open>The two arrays have a fixed size.\<close>

definition msg_wf :: "pcanfd_msg \<Rightarrow> bool" where
  "msg_wf m \<longleftrightarrow> length (ctrlr_data m) = 4 \<and> length (msg_data m) = PCANFD_MAXDATALEN"

definition zero_timeval :: timeval where
  "zero_timeval = \<lparr>tv_sec = 0, tv_usec = 0\<rparr>"

text \<open>The zero-initialised message, \<^verbatim>\<open>memset(&msg, '\0', sizeof msg)\<close>.\<close>

definition zero_msg :: pcanfd_msg where
  "zero_msg = \<lparr>msg_type = 0, data_len = 0, msg_id = 0, msg_flags = 0, timestamp = zero_timeval,
     ctrlr_data = replicate 4 0, msg_data = replicate PCANFD_MAXDATALEN 0\<rparr>"

section \<open>Bit timings and settings\<close>

record pcan_bittiming =
  brp :: u32
  tseg1 :: u32
  tseg2 :: u32
  sjw :: u32
  tsam :: u32
  bitrate :: u32
  sample_point :: u32
  tq :: u32
  bitrate_real :: u32

record pcanfd_bittiming_range =
  brp_min :: u32
  brp_max :: u32
  brp_inc :: u32
  tseg1_min :: u32
  tseg1_max :: u32
  tseg2_min :: u32
  tseg2_max :: u32
  sjw_min :: u32
  sjw_max :: u32

abbreviation (input) PCANFD_INIT_LISTEN_ONLY :: u32 where "PCANFD_INIT_LISTEN_ONLY \<equiv> 0x1"
abbreviation (input) PCANFD_INIT_STD_MSG_ONLY :: u32 where "PCANFD_INIT_STD_MSG_ONLY \<equiv> 0x2"
abbreviation (input) PCANFD_INIT_FD :: u32 where "PCANFD_INIT_FD \<equiv> 0x4"
abbreviation (input) PCANFD_INIT_FD_NON_ISO :: u32 where "PCANFD_INIT_FD_NON_ISO \<equiv> 0x8"
abbreviation (input) PCANFD_INIT_TS_HOST_REL :: u32 where "PCANFD_INIT_TS_HOST_REL \<equiv> 0"
abbreviation (input) PCANFD_INIT_TS_DEV_REL :: u32 where "PCANFD_INIT_TS_DEV_REL \<equiv> 0x10"
abbreviation (input) PCANFD_INIT_TS_DRV_REL :: u32 where "PCANFD_INIT_TS_DRV_REL \<equiv> 0x20"
abbreviation (input) PCANFD_INIT_TS_FMT_MASK :: u32 where "PCANFD_INIT_TS_FMT_MASK \<equiv> 0x30"
abbreviation (input) PCANFD_INIT_BUS_LOAD_INFO :: u32 where "PCANFD_INIT_BUS_LOAD_INFO \<equiv> 0x100"

record pcanfd_init =
  init_flags :: u32
  clock_Hz :: u32
  nominal :: pcan_bittiming
  data_bt :: pcan_bittiming

definition zero_bittiming :: pcan_bittiming where
  "zero_bittiming = \<lparr>brp = 0, tseg1 = 0, tseg2 = 0, sjw = 0, tsam = 0, bitrate = 0,
     sample_point = 0, tq = 0, bitrate_real = 0\<rparr>"

definition zero_init :: pcanfd_init where
  "zero_init = \<lparr>init_flags = 0, clock_Hz = 0, nominal = zero_bittiming, data_bt = zero_bittiming\<rparr>"

record pcanfd_msg_filter =
  id_from :: u32
  id_to :: u32
  filter_flags :: u32

section \<open>Timestamped messages\<close>

text \<open>\<^verbatim>\<open>PCANFD_OPT_HWTIMESTAMP_xxx\<close> values of the \<^verbatim>\<open>ts_mode\<close> fields.\<close>

abbreviation (input) PCANFD_OPT_HWTIMESTAMP_OFF :: u32 where "PCANFD_OPT_HWTIMESTAMP_OFF \<equiv> 0"
abbreviation (input) PCANFD_OPT_HWTIMESTAMP_ON :: u32 where "PCANFD_OPT_HWTIMESTAMP_ON \<equiv> 1"
abbreviation (input) PCANFD_OPT_HWTIMESTAMP_COOKED :: u32 where "PCANFD_OPT_HWTIMESTAMP_COOKED \<equiv> 2"
abbreviation (input) PCANFD_OPT_HWTIMESTAMP_RAW :: u32 where "PCANFD_OPT_HWTIMESTAMP_RAW \<equiv> 3"

record pcan_timeval =
  hwtv_tv :: timeval
  hwtv_tv_us :: u64
  hwtv_ts_us :: u64
  hwtv_ts_mode :: u32
  hwtv_clock_drift :: int

record pcanfd_rxmsg =
  rx_msg :: pcanfd_msg
  rx_hwtv :: pcan_timeval

record pcanfd_txmsg =
  tx_msg :: pcanfd_msg
  tx_tv :: timeval

record pcan_time_sync =
  sync_tv :: timeval
  sync_tv_ns :: u64
  sync_ts_us :: u64
  sync_ttv_us :: u64
  sync_tts_us :: u64
  sync_clock_drift :: int
  sync_ts_fixed :: u32

definition zero_hwtv :: pcan_timeval where
  "zero_hwtv = \<lparr>hwtv_tv = zero_timeval, hwtv_tv_us = 0, hwtv_ts_us = 0, hwtv_ts_mode = 0,
     hwtv_clock_drift = 0\<rparr>"

definition zero_time_sync :: pcan_time_sync where
  "zero_time_sync = \<lparr>sync_tv = zero_timeval, sync_tv_ns = 0, sync_ts_us = 0, sync_ttv_us = 0,
     sync_tts_us = 0, sync_clock_drift = 0, sync_ts_fixed = 0\<rparr>"

section \<open>Time values\<close>

abbreviation (input) USEC_PER_SEC :: int where "USEC_PER_SEC \<equiv> 1000000"

definition timeval_to_us :: "timeval \<Rightarrow> u64" where
  "timeval_to_us tv = of_int (tv_sec tv) * 1000000 + of_int (tv_usec tv)"

text \<open>The loop of \<open>timeval_add_us\<close> that borrows seconds.\<close>

function timeval_borrow :: "timeval \<Rightarrow> timeval" where
  "timeval_borrow tv =
     (if tv_usec tv < 0
      then timeval_borrow (tv\<lparr>tv_usec := tv_usec tv + USEC_PER_SEC, tv_sec := tv_sec tv - 1\<rparr>)
      else tv)"
  by pat_completeness auto
termination
  by (relation "measure (\<lambda>tv. nat (- tv_usec tv))") auto

declare timeval_borrow.simps [simp del]

definition timeval_add_us :: "timeval \<Rightarrow> int \<Rightarrow> timeval" where
  "timeval_add_us tv us =
     (let tv = timeval_borrow (tv\<lparr>tv_usec := tv_usec tv + us\<rparr>)
      in tv\<lparr>tv_sec := tv_sec tv + tv_usec tv div USEC_PER_SEC,
            tv_usec := tv_usec tv mod USEC_PER_SEC\<rparr>)"

text \<open>The subtraction is one of unsigned 64-bit counts, read back as a signed \<^verbatim>\<open>long\<close>.\<close>

definition timeval_diff :: "timeval \<Rightarrow> timeval \<Rightarrow> int" where
  "timeval_diff tv0 tv1 = sint (timeval_to_us tv0 - timeval_to_us tv1)"

text \<open>The difference of two \<^verbatim>\<open>long\<close> values is returned as an \<^verbatim>\<open>int\<close>: its low 32 bits.\<close>

definition timeval_cmp :: "timeval \<Rightarrow> timeval \<Rightarrow> int" where
  "timeval_cmp tv0 tv1 = sint (of_int
     (if tv_sec tv0 \<noteq> tv_sec tv1 then tv_sec tv0 - tv_sec tv1
      else tv_usec tv0 - tv_usec tv1) :: u32)"

definition timeval_is_older :: "timeval \<Rightarrow> timeval \<Rightarrow> bool" where
  "timeval_is_older t1 t2 \<longleftrightarrow> timeval_cmp t1 t2 < 0"

section \<open>Lemmas\<close>

text \<open>The instant a time value stands for, in microseconds, and its normal form.\<close>

definition tv_total :: "timeval \<Rightarrow> int" where
  "tv_total tv = tv_sec tv * USEC_PER_SEC + tv_usec tv"

definition tv_norm :: "timeval \<Rightarrow> bool" where
  "tv_norm tv \<longleftrightarrow> 0 \<le> tv_usec tv \<and> tv_usec tv < USEC_PER_SEC"

lemma zero_msg_wf [simp]: "msg_wf zero_msg"
  by (simp add: msg_wf_def zero_msg_def)

lemma timeval_borrow_spec:
  "tv_total (timeval_borrow tv) = tv_total tv \<and> 0 \<le> tv_usec (timeval_borrow tv)"
proof (induction tv rule: timeval_borrow.induct)
  case (1 tv)
  then show ?case
    by (cases "tv_usec tv < 0")
       (simp_all add: timeval_borrow.simps [of tv] tv_total_def algebra_simps)
qed

lemma timeval_add_us_total: "tv_total (timeval_add_us tv us) = tv_total tv + us"
proof -
  let ?t = "timeval_borrow (tv\<lparr>tv_usec := tv_usec tv + us\<rparr>)"
  have "tv_total ?t = tv_total tv + us"
    using timeval_borrow_spec [of "tv\<lparr>tv_usec := tv_usec tv + us\<rparr>"] by (simp add: tv_total_def)
  moreover have "tv_total (timeval_add_us tv us) = tv_total ?t"
    by (simp add: timeval_add_us_def Let_def tv_total_def algebra_simps)
  ultimately show ?thesis by simp
qed

lemma timeval_add_us_norm: "tv_norm (timeval_add_us tv us)"
  by (simp add: timeval_add_us_def Let_def tv_norm_def)

lemma tv_norm_unique:
  assumes "tv_norm a" "tv_norm b" "tv_total a = tv_total b"
  shows "a = b"
proof -
  have "\<not> tv_sec a < tv_sec b" "\<not> tv_sec b < tv_sec a"
    using assms unfolding tv_norm_def tv_total_def by linarith+
  then have "tv_sec a = tv_sec b" by simp
  then show ?thesis using assms(3) by (simp add: tv_total_def)
qed

lemma timeval_to_us_total: "timeval_to_us tv = of_int (tv_total tv)"
  by (simp add: timeval_to_us_def tv_total_def)

text \<open>Two normalised times less than 63 bits of microseconds apart: \<open>timeval_diff\<close> is exact.\<close>

lemma timeval_diff_exact:
  assumes "\<bar>tv_total a - tv_total b\<bar> < 2 ^ 63"
  shows "timeval_diff a b = tv_total a - tv_total b"
proof -
  have "timeval_to_us a - timeval_to_us b = of_int (tv_total a - tv_total b)"
    by (simp add: timeval_to_us_total)
  moreover have "sint (of_int (tv_total a - tv_total b) :: u64) = tv_total a - tv_total b"
    using assms by (intro sint_of_int_small64) (auto simp: abs_less_iff)
  ultimately show ?thesis by (simp only: timeval_diff_def)
qed

lemma timeval_cmp_order:
  assumes "tv_norm a" "tv_norm b" "\<bar>tv_sec a - tv_sec b\<bar> < 2 ^ 31"
  shows "timeval_is_older a b \<longleftrightarrow> tv_total a < tv_total b"
proof (cases "tv_sec a = tv_sec b")
  case True
  have "timeval_cmp a b = tv_usec a - tv_usec b"
    unfolding timeval_cmp_def using True assms(1,2)
    by (subst sint_of_int_small32) (auto simp: tv_norm_def)
  then show ?thesis using True by (simp add: timeval_is_older_def tv_total_def)
next
  case False
  have "timeval_cmp a b = tv_sec a - tv_sec b"
    unfolding timeval_cmp_def using False assms(3)
    by (subst sint_of_int_small32) (auto simp: abs_less_iff)
  moreover have "tv_sec a - tv_sec b < 0 \<longleftrightarrow> tv_total a < tv_total b"
    using False assms(1,2) unfolding tv_norm_def tv_total_def by (cases "tv_sec a < tv_sec b") linarith+
  ultimately show ?thesis by (simp add: timeval_is_older_def)
qed

end
