(* ===== verification/Pcan_Filter.thy ===== *)
theory Pcan_Filter
  imports Pcan_Types
begin

text \<open>
  The identifier filter chains of \<^verbatim>\<open>driver/src/pcan_filter.c\<close>. A handle is \<open>None\<close> for the null
  pointer; the kernel list is the list of elements in chain order. An allocation may fail: the
  caller passes its outcome. Each operation holds the chain's lock from its first access to its
  last, so it is one step.
\<close>

section \<open>Model\<close>

abbreviation (input) PCAN_MAX_FILTER_PER_CHAIN :: int where "PCAN_MAX_FILTER_PER_CHAIN \<equiv> 8"

record filter_element =
  FromID :: u32
  ToID :: u32
  elem_flags :: u32

record filter_chain =
  anchor :: "filter_element list"
  chain_count :: int

definition pcan_create_filter_chain :: "bool \<Rightarrow> filter_chain option" where
  "pcan_create_filter_chain alloc =
     (if \<not> alloc then None else Some \<lparr>anchor = [], chain_count = - 1\<rparr>)"

definition pcan_add_filter_u :: "bool \<Rightarrow> filter_chain \<Rightarrow> u32 \<Rightarrow> u32 \<Rightarrow> u32 \<Rightarrow> filter_chain \<times> int" where
  "pcan_add_filter_u alloc chain from until flags =
     (if list_ex (\<lambda>f. FromID f = from \<and> ToID f = until \<and> elem_flags f = flags) (anchor chain)
      then (chain, 0)
      else if PCAN_MAX_FILTER_PER_CHAIN \<le> chain_count chain then (chain, - ENOMEM)
      else if \<not> alloc then (chain, - ENOMEM)
      else (let pfilter = \<lparr>FromID = from, ToID = until, elem_flags = flags\<rparr>;
                chain = chain\<lparr>chain_count := (if chain_count chain < 0 then 1
                                             else chain_count chain + 1)\<rparr>
            in (chain\<lparr>anchor := anchor chain @ [pfilter]\<rparr>, 0)))"

definition pcan_add_filter ::
  "bool \<Rightarrow> filter_chain option \<Rightarrow> u32 \<Rightarrow> u32 \<Rightarrow> u32 \<Rightarrow> filter_chain option \<times> int" where
  "pcan_add_filter alloc handle from until flags =
     (case handle of
        None \<Rightarrow> (None, 0)
      | Some chain \<Rightarrow>
          (let (chain, err) = pcan_add_filter_u alloc chain from until flags
           in (Some chain, err)))"

text \<open>The deletion loop unlinks the first element until none is left.\<close>

fun delete_elements :: "filter_element list \<Rightarrow> filter_element list" where
  "delete_elements [] = []"
| "delete_elements (_ # fs) = delete_elements fs"

definition pcan_delete_filter_all :: "filter_chain option \<Rightarrow> filter_chain option" where
  "pcan_delete_filter_all handle =
     (case handle of
        None \<Rightarrow> None
      | Some chain \<Rightarrow> Some (chain\<lparr>anchor := delete_elements (anchor chain), chain_count := 0\<rparr>))"

text \<open>One turn of the loop of \<open>pcan_do_filter\<close>: the \<^verbatim>\<open>throw\<close> test and the range test.\<close>

definition elem_throw :: "filter_element \<Rightarrow> u32 \<Rightarrow> bool" where
  "elem_throw f mflags \<longleftrightarrow>
     (has_flag (elem_flags f) PCANFD_MSG_RTR \<and> \<not> has_flag mflags PCANFD_MSG_RTR) \<or>
     (\<not> has_flag (elem_flags f) PCANFD_MSG_EXT \<and> has_flag mflags PCANFD_MSG_EXT)"

fun filter_loop :: "filter_element list \<Rightarrow> pcanfd_msg \<Rightarrow> int" where
  "filter_loop [] m = 1"
| "filter_loop (f # fs) m =
     (if \<not> elem_throw f (msg_flags m) \<and> FromID f \<le> msg_id m \<and> msg_id m \<le> ToID f then 0
      else filter_loop fs m)"

definition pcan_do_filter :: "filter_chain option \<Rightarrow> pcanfd_rxmsg \<Rightarrow> int" where
  "pcan_do_filter handle pe =
     (case handle of
        None \<Rightarrow> 0
      | Some chain \<Rightarrow>
          (if msg_type (rx_msg pe) = PCANFD_TYPE_CAN20_MSG \<or>
              msg_type (rx_msg pe) = PCANFD_TYPE_CANFD_MSG
           then if chain_count chain \<le> 0 then 0 else filter_loop (anchor chain) (rx_msg pe)
           else if msg_type (rx_msg pe) = PCANFD_TYPE_STATUS then 0
           else 1))"

text \<open>The elements, then the chain itself are freed; the handle after the call is always null.\<close>

definition pcan_delete_filter_chain :: "filter_chain option \<Rightarrow> filter_chain option" where
  "pcan_delete_filter_chain handle =
     (case handle of None \<Rightarrow> None | Some _ \<Rightarrow> (let _ = pcan_delete_filter_all handle in None))"

text \<open>The null handle is dereferenced: no result.\<close>

definition pcan_get_filters_count :: "filter_chain option \<Rightarrow> int option" where
  "pcan_get_filters_count handle =
     (case handle of
        None \<Rightarrow> None
      | Some chain \<Rightarrow> Some (if chain_count chain < 0 then 0 else chain_count chain))"

text \<open>The loop of \<open>pcan_add_filters\<close>: it stops at the first element that is not added. The
  allocation made for the \<open>i\<close>-th entry succeeds when \<open>alloc i\<close>. The \<^verbatim>\<open>err\<close> of the loop body
  is a new variable that hides the one the function returns.\<close>

fun add_filters_loop ::
  "(nat \<Rightarrow> bool) \<Rightarrow> nat \<Rightarrow> filter_chain \<Rightarrow> pcanfd_msg_filter list \<Rightarrow> filter_chain" where
  "add_filters_loop alloc i chain [] = chain"
| "add_filters_loop alloc i chain (pf # pfs) =
     (let (chain, err) = pcan_add_filter_u (alloc i) chain (id_from pf) (id_to pf) (filter_flags pf)
      in if err \<noteq> 0 then chain else add_filters_loop alloc (i + 1) chain pfs)"

definition pcan_add_filters ::
  "(nat \<Rightarrow> bool) \<Rightarrow> filter_chain option \<Rightarrow> pcanfd_msg_filter list \<Rightarrow> filter_chain option \<times> int" where
  "pcan_add_filters alloc handle pf =
     (case handle of
        None \<Rightarrow> (None, 0)
      | Some chain \<Rightarrow> (let err = 0 in (Some (add_filters_loop alloc 0 chain pf), err)))"

text \<open>\<open>pcan_get_filters\<close> tests its count after the copy of each element. The entries it writes
  at \<^verbatim>\<open>pf\<close> are the first component, its result the second.\<close>

fun get_filters_loop :: "filter_element list \<Rightarrow> int \<Rightarrow> int \<Rightarrow> pcanfd_msg_filter list \<times> int" where
  "get_filters_loop [] i count = ([], i)"
| "get_filters_loop (f # fs) i count =
     (let out = \<lparr>id_from = FromID f, id_to = ToID f, filter_flags = elem_flags f\<rparr>;
          i = i + 1
      in if count \<le> i then ([out], i)
         else let (outs, i) = get_filters_loop fs i count in (out # outs, i))"

definition pcan_get_filters :: "filter_chain option \<Rightarrow> int \<Rightarrow> pcanfd_msg_filter list \<times> int" where
  "pcan_get_filters handle count =
     (case handle of
        None \<Rightarrow> ([], 0)
      | Some chain \<Rightarrow> get_filters_loop (anchor chain) 0 count)"

section \<open>Invariant and specification\<close>

text \<open>A new chain has the count -1 and no element; afterwards the count is the number of
  elements, at most eight and pairwise different.\<close>

definition chain_inv :: "filter_chain \<Rightarrow> bool" where
  "chain_inv c \<longleftrightarrow>
     (chain_count c = - 1 \<and> anchor c = [] \<or> chain_count c = int (length (anchor c))) \<and>
     length (anchor c) \<le> 8 \<and> distinct (anchor c)"

definition elem_accepts :: "filter_element \<Rightarrow> pcanfd_msg \<Rightarrow> bool" where
  "elem_accepts f m \<longleftrightarrow>
     (has_flag (elem_flags f) PCANFD_MSG_RTR \<longrightarrow> has_flag (msg_flags m) PCANFD_MSG_RTR) \<and>
     (has_flag (msg_flags m) PCANFD_MSG_EXT \<longrightarrow> has_flag (elem_flags f) PCANFD_MSG_EXT) \<and>
     FromID f \<le> msg_id m \<and> msg_id m \<le> ToID f"

definition to_element :: "pcanfd_msg_filter \<Rightarrow> filter_element" where
  "to_element pf = \<lparr>FromID = id_from pf, ToID = id_to pf, elem_flags = filter_flags pf\<rparr>"

definition of_element :: "filter_element \<Rightarrow> pcanfd_msg_filter" where
  "of_element f = \<lparr>id_from = FromID f, id_to = ToID f, filter_flags = elem_flags f\<rparr>"

text \<open>The add operation on an entry, as a client of the chain sees it.\<close>

definition chain_add :: "filter_chain \<Rightarrow> pcanfd_msg_filter \<Rightarrow> filter_chain \<times> int" where
  "chain_add c pf = pcan_add_filter_u True c (id_from pf) (id_to pf) (filter_flags pf)"

section \<open>The interface of a bounded collection of entries\<close>

locale entry_set =
  fixes add :: "'c \<Rightarrow> 'e \<Rightarrow> 'c \<times> int"
    and entries :: "'c \<Rightarrow> 'e list"
    and inv :: "'c \<Rightarrow> bool"
    and cap :: nat
  assumes add_new: "\<lbrakk>inv c; e \<notin> set (entries c); length (entries c) < cap\<rbrakk>
      \<Longrightarrow> snd (add c e) = 0 \<and> entries (fst (add c e)) = entries c @ [e]"
    and add_old: "\<lbrakk>inv c; e \<in> set (entries c)\<rbrakk> \<Longrightarrow> add c e = (c, 0)"
    and add_full: "\<lbrakk>inv c; e \<notin> set (entries c); cap \<le> length (entries c)\<rbrakk>
      \<Longrightarrow> fst (add c e) = c \<and> snd (add c e) < 0"
    and add_inv: "inv c \<Longrightarrow> inv (fst (add c e))"
begin

fun add_all :: "'c \<Rightarrow> 'e list \<Rightarrow> 'c" where
  "add_all c [] = c"
| "add_all c (e # es) = (if snd (add c e) \<noteq> 0 then fst (add c e) else add_all (fst (add c e)) es)"

lemma add_all_inv: "inv c \<Longrightarrow> inv (add_all c es)"
  by (induction es arbitrary: c) (simp_all add: add_inv)

lemma add_all_distinct:
  assumes "inv c" "distinct (entries c @ es)" "length (entries c @ es) \<le> cap"
  shows "entries (add_all c es) = entries c @ es"
  using assms
proof (induction es arbitrary: c)
  case (Cons e es)
  have new: "snd (add c e) = 0" "entries (fst (add c e)) = entries c @ [e]"
    using add_new [of c e] Cons.prems by auto
  then show ?case
    using Cons.IH [of "fst (add c e)"] Cons.prems add_inv [of c e] by simp
qed simp

lemma add_all_entries:
  assumes "inv c"
  shows "set (entries (add_all c es)) \<subseteq> set (entries c) \<union> set es"
  using assms
proof (induction es arbitrary: c)
  case (Cons e es)
  have "set (entries (fst (add c e))) \<subseteq> set (entries c) \<union> {e}"
    using add_new [of c e] add_old [of c e] add_full [of c e] Cons.prems
    by (cases "e \<in> set (entries c)"; cases "length (entries c) < cap") auto
  then show ?case
    using Cons.IH [of "fst (add c e)"] add_inv [OF Cons.prems, of e] by auto
qed simp

lemma add_all_overflow:
  assumes "inv c" "distinct (entries c @ es)" "length (entries c) \<le> cap"
  shows "entries (add_all c es) = take cap (entries c @ es)"
  using assms
proof (induction es arbitrary: c)
  case (Cons e es)
  have fresh: "e \<notin> set (entries c)" using Cons.prems(2) by simp
  show ?case
  proof (cases "length (entries c) < cap")
    case True
    then have "snd (add c e) = 0" "entries (fst (add c e)) = entries c @ [e]"
      using add_new [of c e] Cons.prems(1) fresh by auto
    then show ?thesis
      using Cons.IH [of "fst (add c e)"] Cons.prems add_inv [of c e] True by simp
  next
    case False
    then show ?thesis
      using add_full [of c e] Cons.prems(1,3) fresh by auto
  qed
qed simp

lemma add_all_member:
  assumes "inv c" "length (entries c) + length es \<le> cap"
  shows "set (entries (add_all c es)) = set (entries c) \<union> set es"
  using assms
proof (induction es arbitrary: c)
  case (Cons e es)
  show ?case
  proof (cases "e \<in> set (entries c)")
    case True
    then show ?thesis
      using Cons.IH [of c] Cons.prems add_old [of c e] by auto
  next
    case False
    then have "snd (add c e) = 0" "entries (fst (add c e)) = entries c @ [e]"
      using add_new [of c e] Cons.prems by auto
    then show ?thesis
      using Cons.IH [of "fst (add c e)"] Cons.prems add_inv [of c e] by simp
  qed
qed simp

end

section \<open>Lemmas\<close>

lemma delete_elements_Nil [simp]: "delete_elements fs = []"
  by (induction fs) auto

lemma of_to_element [simp]: "of_element (to_element pf) = pf" "to_element (of_element f) = f"
  by (simp_all add: of_element_def to_element_def)

lemma of_element_eq_iff [simp]: "of_element f = of_element g \<longleftrightarrow> f = g"
  by (metis of_to_element(2))

lemma elem_present:
  "list_ex (\<lambda>f. FromID f = a \<and> ToID f = b \<and> elem_flags f = c) fs \<longleftrightarrow>
   \<lparr>FromID = a, ToID = b, elem_flags = c\<rparr> \<in> set fs"
  by (induction fs) auto

lemma add_filter_u_inv:
  assumes "chain_inv c"
  shows "chain_inv (fst (pcan_add_filter_u alloc c a b fl))"
  using assms by (auto simp: pcan_add_filter_u_def chain_inv_def elem_present Let_def)

lemma chain_inv_create [simp]: "chain_inv \<lparr>anchor = [], chain_count = - 1\<rparr>"
  by (simp add: chain_inv_def)

lemma add_filters_loop_inv:
  "chain_inv c \<Longrightarrow> chain_inv (add_filters_loop alloc i c pfs)"
proof (induction alloc i c pfs rule: add_filters_loop.induct)
  case (2 alloc i c pf pfs)
  then show ?case
    using add_filter_u_inv [OF 2(2), of "alloc i" "id_from pf" "id_to pf" "filter_flags pf"]
    by (auto split: prod.splits)
qed simp

lemma chain_add_cases:
  assumes "chain_inv c"
  shows "pf \<in> set (map of_element (anchor c)) \<Longrightarrow> chain_add c pf = (c, 0)"
    and "\<lbrakk>pf \<notin> set (map of_element (anchor c)); length (anchor c) < 8\<rbrakk> \<Longrightarrow>
         snd (chain_add c pf) = 0 \<and> anchor (fst (chain_add c pf)) = anchor c @ [to_element pf]"
    and "\<lbrakk>pf \<notin> set (map of_element (anchor c)); 8 \<le> length (anchor c)\<rbrakk> \<Longrightarrow>
         chain_add c pf = (c, - ENOMEM)"
proof -
  have mem: "pf \<in> set (map of_element (anchor c)) \<longleftrightarrow> to_element pf \<in> set (anchor c)"
    by (metis (no_types, lifting) of_to_element image_iff set_map)
  show "pf \<in> set (map of_element (anchor c)) \<Longrightarrow> chain_add c pf = (c, 0)"
    unfolding mem by (simp add: chain_add_def pcan_add_filter_u_def elem_present to_element_def)
  show "\<lbrakk>pf \<notin> set (map of_element (anchor c)); length (anchor c) < 8\<rbrakk> \<Longrightarrow>
         snd (chain_add c pf) = 0 \<and> anchor (fst (chain_add c pf)) = anchor c @ [to_element pf]"
    unfolding mem using assms
    by (auto simp: chain_add_def pcan_add_filter_u_def elem_present to_element_def chain_inv_def)
  show "\<lbrakk>pf \<notin> set (map of_element (anchor c)); 8 \<le> length (anchor c)\<rbrakk> \<Longrightarrow>
         chain_add c pf = (c, - ENOMEM)"
    unfolding mem using assms
    by (auto simp: chain_add_def pcan_add_filter_u_def elem_present to_element_def chain_inv_def)
qed

interpretation chain: entry_set chain_add "\<lambda>c. map of_element (anchor c)" chain_inv 8
proof unfold_locales
  fix c and pf :: pcanfd_msg_filter
  assume inv: "chain_inv c"
  show "chain_inv (fst (chain_add c pf))"
    using inv by (simp add: chain_add_def add_filter_u_inv)
  show "chain_add c pf = (c, 0)" if "pf \<in> set (map of_element (anchor c))"
    using chain_add_cases(1) [OF inv that] .
  show "snd (chain_add c pf) = 0 \<and>
      map of_element (anchor (fst (chain_add c pf))) = map of_element (anchor c) @ [pf]"
    if "pf \<notin> set (map of_element (anchor c))" "length (map of_element (anchor c)) < 8"
    using chain_add_cases(2) [OF inv] that by simp
  show "fst (chain_add c pf) = c \<and> snd (chain_add c pf) < 0"
    if "pf \<notin> set (map of_element (anchor c))" "8 \<le> length (map of_element (anchor c))"
    using chain_add_cases(3) [OF inv] that by simp
qed

lemma add_filters_loop_add_all:
  "add_filters_loop (\<lambda>_. True) i c pfs = chain.add_all c pfs"
  by (induction "\<lambda>_::nat. True" i c pfs rule: add_filters_loop.induct)
     (auto simp: chain_add_def Let_def split: prod.splits)

lemma filter_loop_spec:
  "filter_loop fs m = (if \<exists>f\<in>set fs. elem_accepts f m then 0 else 1)"
  by (induction fs) (auto simp: elem_throw_def elem_accepts_def)

lemma do_filter_can:
  assumes "chain_inv c" "msg_type (rx_msg pe) \<in> {PCANFD_TYPE_CAN20_MSG, PCANFD_TYPE_CANFD_MSG}"
  shows "pcan_do_filter (Some c) pe = 0 \<longleftrightarrow>
     anchor c = [] \<or> (\<exists>f\<in>set (anchor c). elem_accepts f (rx_msg pe))"
  using assms by (auto simp: pcan_do_filter_def filter_loop_spec chain_inv_def)

lemma get_filters_loop_spec:
  assumes "i < count"
  shows "get_filters_loop fs i count =
     (map of_element (take (nat (count - i)) fs), i + int (min (length fs) (nat (count - i))))"
  using assms
proof (induction fs arbitrary: i)
  case (Cons f fs)
  show ?case
  proof (cases "count \<le> i + 1")
    case True
    then have "nat (count - i) = 1" using Cons.prems by simp
    then show ?thesis using True by (simp add: of_element_def Let_def)
  next
    case False
    then obtain k where k: "nat (count - i) = Suc k" "nat (count - (i + 1)) = k"
      using Cons.prems by (metis nat_diff_add_eq1 Suc_nat_eq_nat_zadd1 add_diff_cancel_left'
          diff_ge_0_iff_ge linorder_le_cases diff_diff_eq add.commute diff_add_cancel)
    then show ?thesis
      using False Cons.IH [of "i + 1"] by (simp add: of_element_def Let_def)
  qed
qed simp

section \<open>Properties\<close>

text \<open>C26. Deleting the chain's filters and adding up to eight entries makes the chain accept
  exactly the CAN frames that one of the entries accepts: identifier in the range, extended frames
  only by extended filters, data frames never by RTR filters.\<close>

theorem filter_accepts_union:
  assumes "length pfs \<le> 8" "pfs \<noteq> []"
    and "msg_type (rx_msg pe) \<in> {PCANFD_TYPE_CAN20_MSG, PCANFD_TYPE_CANFD_MSG}"
  shows "pcan_do_filter (fst (pcan_add_filters (\<lambda>_. True) (pcan_delete_filter_all (Some c)) pfs)) pe = 0
    \<longleftrightarrow> (\<exists>pf\<in>set pfs. elem_accepts (to_element pf) (rx_msg pe))"
proof -
  let ?start = "c\<lparr>anchor := [], chain_count := 0\<rparr>"
  let ?c = "add_filters_loop (\<lambda>_. True) 0 ?start pfs"
  have inv: "chain_inv ?start" by (simp add: chain_inv_def)
  have "set (map of_element (anchor ?c)) = set pfs"
    using chain.add_all_member [OF inv, of pfs] assms(1) by (simp add: add_filters_loop_add_all)
  then have elems: "set (anchor ?c) = to_element ` set pfs"
    by (metis (no_types, lifting) of_to_element(2) image_image image_cong image_ident set_map)
  then have "anchor ?c \<noteq> []" using assms(2) by auto
  then show ?thesis
    using do_filter_can [OF add_filters_loop_inv [OF inv] assms(3)] elems
    by (fastforce simp: pcan_add_filters_def pcan_delete_filter_all_def)
qed

theorem filter_accepts_union_witness:
  "pcan_do_filter (fst (pcan_add_filters (\<lambda>_. True)
     (pcan_delete_filter_all (Some \<lparr>anchor = [], chain_count = - 1\<rparr>))
     [\<lparr>id_from = 0x100, id_to = 0x1ff, filter_flags = 0\<rparr>]))
     \<lparr>rx_msg = zero_msg\<lparr>msg_type := 1, msg_id := 0x180\<rparr>, rx_hwtv = zero_hwtv\<rparr> = 0"
  using filter_accepts_union [of "[\<lparr>id_from = 0x100, id_to = 0x1ff, filter_flags = 0\<rparr>]"
    "\<lparr>rx_msg = zero_msg\<lparr>msg_type := 1, msg_id := 0x180\<rparr>, rx_hwtv = zero_hwtv\<rparr>"
    "\<lparr>anchor = [], chain_count = - 1\<rparr>"]
  by (simp add: elem_accepts_def to_element_def zero_msg_def)

text \<open>Every operation on a chain keeps its invariant: a count of -1 on an untouched chain and
  the number of elements afterwards, never more than eight elements, no element twice.\<close>

theorem filter_chain_invariant:
  assumes "chain_inv c"
  shows "chain_inv (fst (pcan_add_filter_u alloc c a b fl)) \<and>
    (\<forall>c'. pcan_delete_filter_all (Some c) = Some c' \<longrightarrow> chain_inv c' \<and> anchor c' = []) \<and>
    (\<forall>c'. fst (pcan_add_filters allocs (Some c) pfs) = Some c' \<longrightarrow> chain_inv c') \<and>
    pcan_get_filters_count (Some c) = Some (int (length (anchor c)))"
  using assms add_filter_u_inv [OF assms] add_filters_loop_inv [OF assms]
  by (auto simp: pcan_delete_filter_all_def pcan_add_filters_def pcan_get_filters_count_def chain_inv_def)

theorem filter_chain_invariant_witness:
  "chain_inv (fst (pcan_add_filter_u True \<lparr>anchor = [], chain_count = - 1\<rparr> 1 2 0))"
  using filter_chain_invariant [of "\<lparr>anchor = [], chain_count = - 1\<rparr>" True 1 2 0 "\<lambda>_. True" "[]"]
  by simp

text \<open>Reading a chain back with a count of at least one returns its first entries, in the
  order they were added, and their number.\<close>

theorem get_filters_spec:
  assumes "0 < count"
  shows "pcan_get_filters (Some c) count =
    (map of_element (take (nat count) (anchor c)), int (min (length (anchor c)) (nat count)))"
  using get_filters_loop_spec [of 0 count "anchor c"] assms by (simp add: pcan_get_filters_def)

theorem get_filters_spec_witness:
  "pcan_get_filters (Some \<lparr>anchor = [\<lparr>FromID = 1, ToID = 2, elem_flags = 0\<rparr>], chain_count = 1\<rparr>) 5
   = ([\<lparr>id_from = 1, id_to = 2, filter_flags = 0\<rparr>], 1)"
  using get_filters_spec [of 5 "\<lparr>anchor = [\<lparr>FromID = 1, ToID = 2, elem_flags = 0\<rparr>], chain_count = 1\<rparr>"]
  by (simp add: of_element_def)

text \<open>\<open>pcan_add_filters\<close> reports success also when entries were refused: for any number of
  different entries its result is 0, while a new chain holds only the first eight of them.\<close>

theorem add_filters_hides_error:
  assumes "distinct pfs"
  shows "snd (pcan_add_filters (\<lambda>_. True) (pcan_create_filter_chain True) pfs) = 0 \<and>
    (\<exists>c. fst (pcan_add_filters (\<lambda>_. True) (pcan_create_filter_chain True) pfs) = Some c \<and>
       map of_element (anchor c) = take 8 pfs)"
  using chain.add_all_overflow [of "\<lparr>anchor = [], chain_count = - 1\<rparr>" pfs] assms
  by (simp add: pcan_add_filters_def add_filters_loop_add_all pcan_create_filter_chain_def)

theorem add_filters_hides_error_witness:
  "snd (pcan_add_filters (\<lambda>_. True) (pcan_create_filter_chain True)
     (map (\<lambda>i. \<lparr>id_from = i, id_to = i, filter_flags = 0\<rparr>) [0,1,2,3,4,5,6,7,8])) = 0"
  using add_filters_hides_error
    [of "map (\<lambda>i. \<lparr>id_from = i, id_to = i, filter_flags = 0\<rparr>) [0,1,2,3,4,5,6,7,8]"]
  by simp

end
