(* ===== verification/Pcan_Timing.thy ===== *)
theory Pcan_Timing
  imports Pcan_Types
begin

text \<open>
  Bit timings: the conversions of \<^verbatim>\<open>driver/src/pcan_timing.c\<close> (for a 64-bit kernel and with
  \<^verbatim>\<open>USES_LINUX_4_8_RC_CAN_BITTIMINGS_CALCULATION\<close>, as the file defines it), the bit-timing
  functions at the top of \<^verbatim>\<open>driver/src/pcanfd_core.c\<close>, the register conversions of
  \<^verbatim>\<open>pcan_main.h\<close> and the capability tables of the controllers. All arithmetic is that of the
  C types; a division by zero has no result (\<open>None\<close>). A loop whose unsigned counter would wrap
  below zero has no result either: the code then runs over 32-bit values it never meant to try.
\<close>

section \<open>Model\<close>

abbreviation (input) kHz :: u32 where "kHz \<equiv> 1000"
abbreviation (input) MHz :: u32 where "MHz \<equiv> 1000000"
abbreviation (input) GHz :: u32 where "GHz \<equiv> 1000000000"
abbreviation (input) PCAN_SAMPT_SCALE :: u32 where "PCAN_SAMPT_SCALE \<equiv> 10000"
abbreviation (input) PCAN_CALC_MAX_ERROR :: u32 where "PCAN_CALC_MAX_ERROR \<equiv> 50"
abbreviation (input) PCAN_CALC_SYNC_SEG :: u32 where "PCAN_CALC_SYNC_SEG \<equiv> 1"
abbreviation (input) UINT_MAX :: u32 where "UINT_MAX \<equiv> 0xffffffff"
abbreviation (input) PENALTY_INVALID :: u32 where "PENALTY_INVALID \<equiv> 0x7fffffff"

definition sja1000_capabilities :: pcanfd_bittiming_range where
  "sja1000_capabilities = \<lparr>brp_min = 1, brp_max = 64, brp_inc = 1, tseg1_min = 1, tseg1_max = 16,
     tseg2_min = 1, tseg2_max = 8, sjw_min = 1, sjw_max = 4\<rparr>"

definition sja2010_caps :: pcanfd_bittiming_range where
  "sja2010_caps = \<lparr>brp_min = 1, brp_max = 1024, brp_inc = 1, tseg1_min = 1, tseg1_max = 16,
     tseg2_min = 1, tseg2_max = 8, sjw_min = 1, sjw_max = 4\<rparr>"

definition ucan_slow_capabilities :: pcanfd_bittiming_range where
  "ucan_slow_capabilities = \<lparr>brp_min = 1, brp_max = 1024, brp_inc = 1, tseg1_min = 1,
     tseg1_max = 256, tseg2_min = 1, tseg2_max = 128, sjw_min = 1, sjw_max = 128\<rparr>"

definition ucan_fast_capabilities :: pcanfd_bittiming_range where
  "ucan_fast_capabilities = \<lparr>brp_min = 1, brp_max = 1024, brp_inc = 1, tseg1_min = 1,
     tseg1_max = 32, tseg2_min = 1, tseg2_max = 16, sjw_min = 1, sjw_max = 16\<rparr>"

subsection \<open>Abstract bit timings\<close>

record pcan_bittiming_abs =
  abt_prescaler :: u32
  sync_seg_ns :: u32
  tseg1_ns :: u32
  tseg2_ns :: u32
  sjw_ns :: u32
  abt_bitrate :: u32
  delta_bitrate :: u32
  sample3 :: u8

record pcan_timing_parameters =
  tp_sysclock :: u32
  tp_tBit_ns :: u32
  tp_tseg1 :: u16
  tp_tseg2 :: u16
  tp_sjw :: u16
  tp_prescaler :: u16
  tp_tSCL_ps :: u32
  tp_baudrate :: u32
  tp_tseg1_ns :: u32
  tp_tseg2_ns :: u32
  tp_sjw_ns :: u32
  tp_penalty :: u32

text \<open>\<^verbatim>\<open>DIV_ROUND(a,b)\<close>, the macro \<^verbatim>\<open>(((a)+(b)/2)/(b))\<close>, at the width of its operands.\<close>

definition DIV_ROUND :: "'a::len word \<Rightarrow> 'a word \<Rightarrow> 'a word option" where
  "DIV_ROUND a b = udiv (a + b div 2) b"

definition pcan_bittiming_to_abstract ::
  "pcan_bittiming \<Rightarrow> u32 \<Rightarrow> pcan_bittiming_abs option" where
  "pcan_bittiming_to_abstract pbt sysclock_Hz =
     (let sysclock_MHz = sysclock_Hz div MHz;
          prescaler = brp pbt;
          prescaler_Hz = prescaler * kHz
      in do {
        sync \<leftarrow> DIV_ROUND prescaler_Hz sysclock_MHz;
        t1 \<leftarrow> DIV_ROUND (prescaler_Hz * tseg1 pbt) sysclock_MHz;
        t2 \<leftarrow> DIV_ROUND (prescaler_Hz * tseg2 pbt) sysclock_MHz;
        sj \<leftarrow> DIV_ROUND (prescaler_Hz * sjw pbt) sysclock_MHz;
        rate \<leftarrow> DIV_ROUND sysclock_Hz (prescaler * (1 + tseg1 pbt + tseg2 pbt));
        low \<leftarrow> DIV_ROUND sysclock_Hz (prescaler * (1 + tseg1 pbt + tseg2 pbt + sjw pbt));
        Some \<lparr>abt_prescaler = prescaler, sync_seg_ns = sync, tseg1_ns = t1, tseg2_ns = t2,
              sjw_ns = sj, abt_bitrate = rate, delta_bitrate = abs_u32 (rate - low),
              sample3 = ucast (tsam pbt)\<rparr>
      })"

text \<open>One turn of the loop over \<^verbatim>\<open>cur_baudrate.sjw\<close> in \<open>pcan_convert_abstract\<close>, and the
  loop. The counter is 16 bits wide, its bound is not.\<close>

definition convert_sjw_body ::
  "pcan_bittiming_abs \<Rightarrow> pcan_timing_parameters \<Rightarrow> pcan_timing_parameters option" where
  "convert_sjw_body abt_org cur =
     (let sj = ucast ((ucast (tp_sjw cur) :: u64) * ucast (tp_tSCL_ps cur) div 1000) :: u32;
          divisor = tp_tSCL_ps cur + tp_tseg1_ns cur * 1000 + tp_tseg2_ns cur * 1000;
          penalty = abs_u32 ((tp_tseg1_ns cur + tp_tseg2_ns cur + tp_tSCL_ps cur div 1000)
                       - (tseg1_ns abt_org + tseg2_ns abt_org + sync_seg_ns abt_org))
                    + abs_u32 (sj - sjw_ns abt_org)
      in do {
        rate \<leftarrow> DIV_ROUND (1000000000000 :: u64) (ucast divisor);
        Some (cur\<lparr>tp_sjw_ns := sj, tp_baudrate := ucast rate, tp_penalty := penalty\<rparr>)
      })"

function convert_sjw_loop ::
  "pcan_bittiming_abs \<Rightarrow> pcanfd_bittiming_range \<Rightarrow> pcan_timing_parameters \<Rightarrow>
   pcan_timing_parameters \<Rightarrow> pcan_timing_parameters option" where
  "convert_sjw_loop abt_org cap cur best =
     (if sjw_max cap < ucast (tp_sjw cur) then Some best
      else case convert_sjw_body abt_org cur of
        None \<Rightarrow> None
      | Some cur' \<Rightarrow>
          (if tp_sjw cur = 0xffff then None
           else convert_sjw_loop abt_org cap (cur'\<lparr>tp_sjw := tp_sjw cur + 1\<rparr>)
                  (if tp_penalty cur' < tp_penalty best then cur' else best)))"
  by pat_completeness auto
termination
  by (relation "measure (\<lambda>(_, _, cur, _). 0x10000 - unat (tp_sjw cur))")
     (use u16_countup in auto)

declare convert_sjw_loop.simps [simp del]

text \<open>One turn of the loop over the number of time quanta: the candidate for \<^verbatim>\<open>tq_nb\<close>, or
  \<open>None\<close> inside \<open>Some\<close> when a test rejects it and the code goes on with the next one.\<close>

definition convert_candidate ::
  "pcan_bittiming_abs \<Rightarrow> pcanfd_bittiming_range \<Rightarrow> u32 \<Rightarrow> pcan_timing_parameters \<Rightarrow> u16 \<Rightarrow>
   pcan_timing_parameters option option" where
  "convert_candidate abt_org cap sysclock cur tq_nb =
     do {
       p \<leftarrow> DIV_ROUND ((ucast (tp_tBit_ns cur) :: u64) * ucast sysclock)
              (ucast tq_nb * 1000000000);
       let presc = (ucast p :: u16);
       if ucast presc < brp_min cap \<or> brp_max cap < ucast presc then Some None
       else do {
         s \<leftarrow> DIV_ROUND ((ucast presc :: u64) * 1000 * 1000000000) (ucast sysclock);
         let tscl = (ucast s :: u32);
         if tscl = 0 then Some None
         else do {
           q1 \<leftarrow> DIV_ROUND (1000 * tseg1_ns abt_org) tscl;
           q2 \<leftarrow> DIV_ROUND (1000 * tseg2_ns abt_org) tscl;
           let t1 = (ucast q1 :: u16);
           let t2 = (ucast q2 :: u16);
           if unat t1 + unat t2 + 1 \<noteq> unat tq_nb then Some None
           else if ucast t1 < tseg1_min cap \<or> tseg1_max cap < ucast t1 then Some None
           else if ucast t2 < tseg2_min cap \<or> tseg2_max cap < ucast t2 then Some None
           else Some (Some (cur\<lparr>
             tp_prescaler := presc, tp_tSCL_ps := tscl, tp_tseg1 := t1, tp_tseg2 := t2,
             tp_tseg1_ns := ucast ((ucast t1 :: u64) * ucast tscl div 1000),
             tp_tseg2_ns := ucast ((ucast t2 :: u64) * ucast tscl div 1000),
             tp_sjw := ucast (sjw_min cap)\<rparr>))
         }
       }
     }"

function convert_tq_loop ::
  "pcan_bittiming_abs \<Rightarrow> pcanfd_bittiming_range \<Rightarrow> u32 \<Rightarrow> pcan_timing_parameters \<Rightarrow> u16 \<Rightarrow>
   pcan_timing_parameters \<Rightarrow> pcan_timing_parameters option" where
  "convert_tq_loop abt_org cap sysclock cur tq_nb best =
     (if tq_nb < 4 then Some best
      else case convert_candidate abt_org cap sysclock cur tq_nb of
        None \<Rightarrow> None
      | Some None \<Rightarrow> convert_tq_loop abt_org cap sysclock cur (tq_nb - 1) best
      | Some (Some cand) \<Rightarrow>
          (case convert_sjw_loop abt_org cap cand best of
             None \<Rightarrow> None
           | Some best' \<Rightarrow> convert_tq_loop abt_org cap sysclock cur (tq_nb - 1) best'))"
  by pat_completeness auto
termination
  by (relation "measure (\<lambda>(_, _, _, _, tq_nb, _). unat tq_nb)")
     (auto intro: u16_countdown)

declare convert_tq_loop.simps [simp del]

definition zero_timing_parameters :: pcan_timing_parameters where
  "zero_timing_parameters = \<lparr>tp_sysclock = 0, tp_tBit_ns = 0, tp_tseg1 = 0, tp_tseg2 = 0,
     tp_sjw = 0, tp_prescaler = 0, tp_tSCL_ps = 0, tp_baudrate = 0, tp_tseg1_ns = 0,
     tp_tseg2_ns = 0, tp_sjw_ns = 0, tp_penalty = 0\<rparr>"

text \<open>The fields of \<^verbatim>\<open>cur_baudrate\<close> that are not initialised are always written before they are
  read, so their initial value is immaterial. Not in the result: \<^verbatim>\<open>sync_seg_ns\<close> and
  \<^verbatim>\<open>delta_bitrate\<close>, which the code does not assign either; they keep what \<open>abt_result\<close> has.\<close>

definition pcan_convert_abstract ::
  "pcan_bittiming_abs \<Rightarrow> pcan_bittiming_abs \<Rightarrow> pcanfd_bittiming_range \<Rightarrow> u32 \<Rightarrow>
   (pcan_bittiming_abs \<times> int) option" where
  "pcan_convert_abstract abt_result abt_org cap sysclock =
     do {
       tBit \<leftarrow> DIV_ROUND GHz (abt_bitrate abt_org);
       best \<leftarrow> convert_tq_loop abt_org cap sysclock
                 (zero_timing_parameters\<lparr>tp_sysclock := sysclock, tp_tBit_ns := tBit\<rparr>)
                 (ucast (tseg1_max cap + tseg2_max cap + 1))
                 (zero_timing_parameters\<lparr>tp_penalty := PENALTY_INVALID\<rparr>);
       if tp_penalty best = PENALTY_INVALID then Some (abt_result, 0)
       else Some (abt_result\<lparr>abt_prescaler := ucast (tp_prescaler best),
              tseg1_ns := tp_tseg1_ns best, tseg2_ns := tp_tseg2_ns best,
              sjw_ns := tp_sjw_ns best, abt_bitrate := tp_baudrate best,
              sample3 := sample3 abt_org\<rparr>, 1)
     }"

definition pcan_btr0btr1_to_abstract :: "u16 \<Rightarrow> pcan_bittiming_abs option" where
  "pcan_btr0btr1_to_abstract btr0btr1 =
     (let btr0 = ucast (drop_bit 8 btr0btr1) :: u8;
          btr1 = ucast (btr0btr1 AND 0xff) :: u8;
          bt = zero_bittiming\<lparr>
            sjw := ucast (drop_bit 6 btr0 AND 3) + 1,
            tseg1 := ucast (btr1 AND 0xf) + 1,
            tseg2 := ucast (drop_bit 4 btr1 AND 7) + 1,
            brp := ucast (btr0 AND 0x3f) + 1,
            tsam := ucast (drop_bit 7 btr1)\<rparr>
      in pcan_bittiming_to_abstract bt (8 * MHz))"

definition pcan_abstract_to_bittiming ::
  "pcan_bittiming \<Rightarrow> pcan_bittiming_abs \<Rightarrow> u32 \<Rightarrow> (pcan_bittiming \<times> int) option" where
  "pcan_abstract_to_bittiming pbt abt sysclock_Hz =
     do {
       tSCL \<leftarrow> DIV_ROUND (abt_prescaler abt * kHz) (sysclock_Hz div MHz);
       if tSCL \<noteq> 0 then do {
         sj \<leftarrow> DIV_ROUND (sjw_ns abt) tSCL;
         t1 \<leftarrow> DIV_ROUND (tseg1_ns abt) tSCL;
         t2 \<leftarrow> DIV_ROUND (tseg2_ns abt) tSCL;
         sp \<leftarrow> udiv (PCAN_SAMPT_SCALE * (1 + t1)) (1 + t1 + t2);
         Some (pbt\<lparr>bitrate := abt_bitrate abt, sjw := sj, tseg1 := t1, tseg2 := t2,
                   brp := abt_prescaler abt, tq := tSCL, tsam := ucast (sample3 abt),
                   sample_point := sp\<rparr>, 1)
       } else Some (pbt, 0)
     }"

subsection \<open>Bit rates to bit timings\<close>

text \<open>The state of \<open>pcan_update_sample_point\<close>: the best sample point and its error so far, and
  the caller's \<^verbatim>\<open>tseg1\<close> and \<^verbatim>\<open>tseg2\<close>, written through the pointers when a candidate is taken.\<close>

record sp_state =
  sp_best :: u32
  sp_error :: u32
  sp_tseg1 :: u32
  sp_tseg2 :: u32

definition update_sp_body ::
  "pcanfd_bittiming_range \<Rightarrow> u32 \<Rightarrow> u32 \<Rightarrow> u32 \<Rightarrow> sp_state \<Rightarrow> sp_state option" where
  "update_sp_body btc spn tseg i s =
     (let t2 = clamp (tseg + PCAN_CALC_SYNC_SEG
                      - (spn * (tseg + PCAN_CALC_SYNC_SEG)) div PCAN_SAMPT_SCALE - i)
                 (tseg2_min btc) (tseg2_max btc);
          t1 = tseg - t2;
          (t1, t2) = (if tseg1_max btc < t1 then (tseg1_max btc, tseg - tseg1_max btc) else (t1, t2))
      in do {
        sp \<leftarrow> udiv (PCAN_SAMPT_SCALE * (tseg + PCAN_CALC_SYNC_SEG - t2)) (tseg + PCAN_CALC_SYNC_SEG);
        let err = abs_u32 (spn - sp);
        Some (if sp \<le> spn \<and> err < sp_error s
              then \<lparr>sp_best = sp, sp_error = err, sp_tseg1 = t1, sp_tseg2 = t2\<rparr> else s)
      })"

definition pcan_update_sample_point ::
  "pcanfd_bittiming_range \<Rightarrow> u32 \<Rightarrow> u32 \<Rightarrow> u32 \<Rightarrow> u32 \<Rightarrow> sp_state option" where
  "pcan_update_sample_point btc spn tseg t1 t2 =
     do {
       s \<leftarrow> update_sp_body btc spn tseg 0
              \<lparr>sp_best = 0, sp_error = UINT_MAX, sp_tseg1 = t1, sp_tseg2 = t2\<rparr>;
       update_sp_body btc spn tseg 1 s
     }"

text \<open>The local variables of \<open>pcan_bitrate_to_bittiming\<close> that its loop changes.\<close>

record calc_state =
  best_bitrate_error :: u32
  best_sp_error :: u32
  best_tseg :: u32
  best_brp :: u32
  calc_tseg1 :: u32
  calc_tseg2 :: u32

text \<open>One turn of the loop; the flag tells that the loop is left by \<^verbatim>\<open>break\<close>.\<close>

definition calc_body ::
  "pcanfd_bittiming_range \<Rightarrow> u32 \<Rightarrow> u32 \<Rightarrow> u32 \<Rightarrow> u32 \<Rightarrow> calc_state \<Rightarrow> (bool \<times> calc_state) option" where
  "calc_body btc spn clk_freq rate tseg s =
     (let tsegall = PCAN_CALC_SYNC_SEG + tseg div 2
      in do {
        q \<leftarrow> udiv clk_freq (tsegall * rate);
        let b0 = q + tseg mod 2;
        b1 \<leftarrow> udiv b0 (brp_inc btc);
        let b = b1 * brp_inc btc;
        if b < brp_min btc \<or> brp_max btc < b then Some (False, s)
        else do {
          br \<leftarrow> udiv clk_freq (b * tsegall);
          let err = abs_u32 (rate - br);
          if best_bitrate_error s < err then Some (False, s)
          else do {
            let s = (if err < best_bitrate_error s then s\<lparr>best_sp_error := UINT_MAX\<rparr> else s);
            sp \<leftarrow> pcan_update_sample_point btc spn (tseg div 2) (calc_tseg1 s) (calc_tseg2 s);
            let s = s\<lparr>calc_tseg1 := sp_tseg1 sp, calc_tseg2 := sp_tseg2 sp\<rparr>;
            if best_sp_error s < sp_error sp then Some (False, s)
            else Some (err = 0 \<and> sp_error sp = 0,
                   s\<lparr>best_sp_error := sp_error sp, best_bitrate_error := err,
                     best_tseg := tseg div 2, best_brp := b\<rparr>)
          }
        }
      })"

function calc_loop ::
  "pcanfd_bittiming_range \<Rightarrow> u32 \<Rightarrow> u32 \<Rightarrow> u32 \<Rightarrow> u32 \<Rightarrow> u32 \<Rightarrow> calc_state \<Rightarrow> calc_state option" where
  "calc_loop btc spn clk_freq rate tseg_min tseg s =
     (if tseg < tseg_min then Some s
      else case calc_body btc spn clk_freq rate tseg s of
        None \<Rightarrow> None
      | Some (stop, s') \<Rightarrow>
          (if stop then Some s'
           else if tseg = 0 then None
           else calc_loop btc spn clk_freq rate tseg_min (tseg - 1) s'))"
  by pat_completeness auto
termination
  by (relation "measure (\<lambda>(_, _, _, _, _, tseg, _). unat tseg)") (auto intro: u32_countdown)

declare calc_loop.simps [simp del]

text \<open>The nominal sample point: the user's, or the one CiA recommends; \<open>None\<close> when it is refused.\<close>

definition nominal_sample_point :: "pcan_bittiming \<Rightarrow> u32 option" where
  "nominal_sample_point bt =
     (if sample_point bt \<noteq> 0 then
        (if PCAN_SAMPT_SCALE < sample_point bt then None else Some (sample_point bt))
      else if 800000 < bitrate bt then Some 7500
      else if 500000 < bitrate bt then Some 8000
      else Some 8750)"

definition fix_sjw :: "pcanfd_bittiming_range \<Rightarrow> u32 \<Rightarrow> u32 \<Rightarrow> u32" where
  "fix_sjw btc t2 sj =
     (if sj = 0 \<or> sjw_max btc = 0 then 1
      else let sj = (if sjw_max btc < sj then sjw_max btc else sj)
           in if t2 < sj then t2 else sj)"

text \<open>What follows the loop: the test of the best error, then the timing itself.\<close>

definition calc_finish ::
  "pcan_bittiming \<Rightarrow> pcanfd_bittiming_range \<Rightarrow> u32 \<Rightarrow> u32 \<Rightarrow> calc_state \<Rightarrow>
   (pcan_bittiming \<times> int) option" where
  "calc_finish bt btc spn clk_freq s =
     do {
       too_high \<leftarrow>
         (if best_bitrate_error s \<noteq> 0 then do {
            e \<leftarrow> udiv ((ucast (best_bitrate_error s) :: u64) * 10000) (ucast (bitrate bt));
            Some (PCAN_CALC_MAX_ERROR < (ucast e :: u32))
          } else Some False);
       if too_high then Some (bt, - EDOM)
       else do {
         sp \<leftarrow> pcan_update_sample_point btc spn (best_tseg s) (calc_tseg1 s) (calc_tseg2 s);
         v \<leftarrow> udiv ((ucast (best_brp s) :: u64) * 1000000000) (ucast clk_freq);
         Some (bt\<lparr>sample_point := sp_best sp, tq := ucast v, tseg1 := sp_tseg1 sp,
                  tseg2 := sp_tseg2 sp, brp := best_brp s,
                  sjw := fix_sjw btc (sp_tseg2 sp) (sjw bt)\<rparr>, 0)
       }
     }"

definition calc_init :: calc_state where
  "calc_init = \<lparr>best_bitrate_error = UINT_MAX, best_sp_error = UINT_MAX, best_tseg = 0,
     best_brp = 0, calc_tseg1 = 0, calc_tseg2 = 0\<rparr>"

definition pcan_bitrate_to_bittiming ::
  "pcan_bittiming \<Rightarrow> pcanfd_bittiming_range option \<Rightarrow> u32 \<Rightarrow> (pcan_bittiming \<times> int) option" where
  "pcan_bitrate_to_bittiming bt caps sysclock_Hz =
     (case caps of
        None \<Rightarrow> Some (bt, - EINVAL)
      | Some btc \<Rightarrow>
          (case nominal_sample_point bt of
             None \<Rightarrow> Some (bt, - EINVAL)
           | Some spn \<Rightarrow> do {
               s \<leftarrow> calc_loop btc spn sysclock_Hz (bitrate bt)
                      ((tseg1_min btc + tseg2_min btc) * 2)
                      ((tseg1_max btc + tseg2_max btc) * 2 + 1) calc_init;
               calc_finish bt btc spn sysclock_Hz s
             }))"

subsection \<open>Bit timings of the core\<close>

definition pcan_get_bps :: "u32 \<Rightarrow> pcan_bittiming \<Rightarrow> u32 option" where
  "pcan_get_bps clk_Hz pbt = udiv clk_Hz (brp pbt * (1 + tseg1 pbt + tseg2 pbt))"

definition pcan_bittiming_to_bitrate :: "pcan_bittiming \<Rightarrow> u32 \<Rightarrow> (pcan_bittiming \<times> int) option" where
  "pcan_bittiming_to_bitrate pbt clk_Hz =
     (if brp pbt \<noteq> 0 then
        (let pbt = (if sjw pbt = 0 then pbt\<lparr>sjw := 1\<rparr> else pbt)
         in do {
           sp \<leftarrow> udiv (PCAN_SAMPT_SCALE * (1 + tseg1 pbt)) (1 + tseg1 pbt + tseg2 pbt);
           rate \<leftarrow> pcan_get_bps clk_Hz pbt;
           v \<leftarrow> udiv ((ucast (brp pbt) :: u64) * 1000000000) (ucast clk_Hz);
           Some (pbt\<lparr>sample_point := sp, bitrate := rate, tq := ucast v\<rparr>, 0)
         })
      else Some (pbt, - EINVAL))"

definition fit :: "u32 \<Rightarrow> u32 \<Rightarrow> u32 \<Rightarrow> u32" where
  "fit x lo hi = (if x < lo then lo else if hi < x then hi else x)"

definition pcan_bittiming_normalize ::
  "pcan_bittiming \<Rightarrow> u32 \<Rightarrow> pcanfd_bittiming_range \<Rightarrow> (pcan_bittiming \<times> int) option" where
  "pcan_bittiming_normalize pbt clk_Hz caps =
     do {
       (pbt, err) \<leftarrow>
         (if brp pbt \<noteq> 0 then
            pcan_bittiming_to_bitrate
              (pbt\<lparr>brp := fit (brp pbt) (brp_min caps) (brp_max caps),
                   tseg1 := fit (tseg1 pbt) (tseg1_min caps) (tseg1_max caps),
                   tseg2 := fit (tseg2 pbt) (tseg2_min caps) (tseg2_max caps)\<rparr>) clk_Hz
          else if bitrate pbt \<noteq> 0 then pcan_bitrate_to_bittiming pbt (Some caps) clk_Hz
          else Some (pbt, - EINVAL));
       if err = 0 then do {
         real \<leftarrow> udiv clk_Hz (brp pbt * (tseg1 pbt + tseg2 pbt + 1));
         Some (pbt\<lparr>bitrate_real := real\<rparr>, 0)
       } else Some (pbt, err)
     }"

text \<open>The fields of a SJA1000 register pair.\<close>

definition btr_fields :: "pcan_bittiming \<Rightarrow> u16 \<Rightarrow> pcan_bittiming" where
  "btr_fields pbt btr0btr1 = pbt\<lparr>
     sjw := 1 + ucast (drop_bit 14 (btr0btr1 AND 0xc000)),
     brp := 1 + ucast (drop_bit 8 (btr0btr1 AND 0x3f00)),
     tsam := ucast (drop_bit 7 (btr0btr1 AND 0x0080)),
     tseg2 := 1 + ucast (drop_bit 4 (btr0btr1 AND 0x0070)),
     tseg1 := 1 + ucast (btr0btr1 AND 0x000f),
     bitrate := 0\<rparr>"

definition pcan_btr0btr1_to_bittiming :: "pcan_bittiming \<Rightarrow> u16 \<Rightarrow> pcan_bittiming option" where
  "pcan_btr0btr1_to_bittiming pbt btr0btr1 =
     do {
       (pbt, _) \<leftarrow> pcan_bittiming_to_bitrate (btr_fields pbt btr0btr1) (8 * MHz);
       Some pbt
     }"

definition pcan_bittiming_to_btr0btr1 :: "pcan_bittiming \<Rightarrow> u16" where
  "pcan_bittiming_to_btr0btr1 pbt =
     ucast (push_bit 14 ((sjw pbt - 1) AND 0x3))
     OR ucast (push_bit 8 ((brp pbt - 1) AND 0x3f))
     OR push_bit 7 (if tsam pbt \<noteq> 0 then 1 else 0)
     OR ucast (push_bit 4 ((tseg2 pbt - 1) AND 0x7))
     OR ucast ((tseg1 pbt - 1) AND 0xf)"

text \<open>\<open>sja1000_bitrate\<close> ignores the result of the calculation: after an error the timing is what
  it was, with a zero \<^verbatim>\<open>brp\<close>.\<close>

definition sja1000_bitrate :: "u32 \<Rightarrow> u32 \<Rightarrow> u32 \<Rightarrow> u16 option" where
  "sja1000_bitrate dwBitRate sample_pt sj =
     do {
       (bt, _) \<leftarrow> pcan_bitrate_to_bittiming
          (zero_bittiming\<lparr>bitrate := dwBitRate,
             sjw := (if sj \<noteq> 0 then sj else sjw_min sja1000_capabilities),
             sample_point := sample_pt\<rparr>) (Some sja1000_capabilities) (8 * MHz);
       Some (pcan_bittiming_to_btr0btr1 bt)
     }"

section \<open>Specification\<close>

text \<open>The ranges of a controller: non-empty, and small enough for the products of the calculation.\<close>

definition caps_wf :: "pcanfd_bittiming_range \<Rightarrow> bool" where
  "caps_wf c \<longleftrightarrow> 1 \<le> unat (brp_min c) \<and> unat (brp_min c) \<le> unat (brp_max c) \<and> unat (brp_max c) \<le> 0x10000 \<and>
     1 \<le> unat (brp_inc c) \<and> 1 \<le> unat (tseg1_min c) \<and> unat (tseg1_min c) \<le> unat (tseg1_max c) \<and>
     unat (tseg1_max c) \<le> 4095 \<and> 1 \<le> unat (tseg2_min c) \<and> unat (tseg2_min c) \<le> unat (tseg2_max c) \<and>
     unat (tseg2_max c) \<le> unat (tseg1_max c)"

text \<open>What a taken candidate of \<open>pcan_update_sample_point\<close> satisfies.\<close>

definition sp_ok :: "pcanfd_bittiming_range \<Rightarrow> u32 \<Rightarrow> u32 \<Rightarrow> sp_state \<Rightarrow> bool" where
  "sp_ok btc spn tseg s \<longleftrightarrow>
     unat (sp_tseg1 s) + unat (sp_tseg2 s) = unat tseg \<and>
     unat (sp_tseg1 s) \<le> unat (tseg1_max btc) \<and>
     unat (tseg2_min btc) \<le> unat (sp_tseg2 s) \<and> unat (sp_tseg2 s) \<le> unat (tseg2_max btc) \<and>
     unat (sp_best s) = 10000 * (1 + unat (sp_tseg1 s)) div (1 + unat tseg) \<and>
     sp_best s \<le> spn"

text \<open>The invariant of the loop of \<open>pcan_bitrate_to_bittiming\<close>.\<close>

definition calc_inv :: "pcanfd_bittiming_range \<Rightarrow> u32 \<Rightarrow> u32 \<Rightarrow> calc_state \<Rightarrow> bool" where
  "calc_inv btc clk rate s \<longleftrightarrow> unat (best_tseg s) \<le> unat (tseg1_max btc) + unat (tseg2_max btc) \<and>
     (best_bitrate_error s = UINT_MAX \<or>
      brp_min btc \<le> best_brp s \<and> best_brp s \<le> brp_max btc \<and>
      best_bitrate_error s = abs_u32 (rate - clk div (best_brp s * (1 + best_tseg s))))"

text \<open>No 32-bit product of the calculation wraps.\<close>

definition rate_fits :: "pcanfd_bittiming_range \<Rightarrow> u32 \<Rightarrow> bool" where
  "rate_fits btc rate \<longleftrightarrow>
     0 < unat rate \<and> unat rate * (1 + unat (tseg1_max btc) + unat (tseg2_max btc)) < 2 ^ 32"

text \<open>What every candidate of \<open>pcan_convert_abstract\<close> satisfies.\<close>

definition cand_ok :: "pcanfd_bittiming_range \<Rightarrow> pcan_timing_parameters \<Rightarrow> bool" where
  "cand_ok cap b \<longleftrightarrow>
     brp_min cap \<le> ucast (tp_prescaler b) \<and> ucast (tp_prescaler b) \<le> brp_max cap \<and>
     tseg1_min cap \<le> ucast (tp_tseg1 b) \<and> ucast (tp_tseg1 b) \<le> tseg1_max cap \<and>
     tseg2_min cap \<le> ucast (tp_tseg2 b) \<and> ucast (tp_tseg2 b) \<le> tseg2_max cap \<and>
     tp_tseg1_ns b = ucast ((ucast (tp_tseg1 b) :: u64) * ucast (tp_tSCL_ps b) div 1000) \<and>
     tp_tseg2_ns b = ucast ((ucast (tp_tseg2 b) :: u64) * ucast (tp_tSCL_ps b) div 1000)"

section \<open>Lemmas\<close>

lemma sp_value:
  fixes x tseg :: u32
  assumes "unat x \<le> 5000" "unat tseg \<le> 8190"
  shows "unat (10000 * x div (tseg + 1)) = 10000 * unat x div (unat tseg + 1)"
proof -
  have "unat (10000 * x) = 10000 * unat x"
    using assms by (subst unat_mult_exact) auto
  moreover have "unat (tseg + 1) = unat tseg + 1"
    using assms by (subst unat_add_exact) auto
  ultimately show ?thesis by (simp add: unat_div_word)
qed

lemma update_sp_body_total:
  assumes "unat tseg < 4294967295"
  shows "\<exists>s'. update_sp_body btc spn tseg i s = Some s'"
proof -
  have "unat (tseg + 1) \<noteq> 0" using u32_plus1 [OF assms] by simp
  then have "tseg + 1 \<noteq> 0" by auto
  then show ?thesis by (simp add: update_sp_body_def Let_def split: prod.splits)
qed

lemma update_sp_body_ok:
  assumes wf: "caps_wf btc" and T: "unat tseg \<le> unat (tseg1_max btc) + unat (tseg2_max btc)"
    and spn: "unat spn \<le> 10000"
    and old: "sp_best s \<noteq> 0 \<longrightarrow> sp_ok btc spn tseg s"
    and run: "update_sp_body btc spn tseg i s = Some s'"
  shows "sp_best s' \<noteq> 0 \<longrightarrow> sp_ok btc spn tseg s'"
proof -
  let ?m1 = "unat (tseg1_max btc)"
  define c where "c = clamp (tseg + 1 - (spn * (tseg + 1)) div 10000 - i) (tseg2_min btc) (tseg2_max btc)"
  define t1 where "t1 = (if tseg1_max btc < tseg - c then tseg1_max btc else tseg - c)"
  define t2 where "t2 = (if tseg1_max btc < tseg - c then tseg - tseg1_max btc else c)"
  have c: "unat (tseg2_min btc) \<le> unat c" "unat c \<le> unat (tseg2_max btc)"
    using wf clamp_unat [of "tseg2_min btc" "tseg2_max btc"] by (auto simp: c_def caps_wf_def)
  have small: "unat tseg \<le> 8190" "?m1 \<le> 4095" using T wf by (auto simp: caps_wf_def)
  have nz: "tseg + 1 \<noteq> 0" using u32_plus1 [of tseg] small by auto
  have s': "s' = s \<or> (s' = \<lparr>sp_best = 10000 * (tseg + 1 - t2) div (tseg + 1),
        sp_error = abs_u32 (spn - 10000 * (tseg + 1 - t2) div (tseg + 1)), sp_tseg1 = t1, sp_tseg2 = t2\<rparr>
        \<and> 10000 * (tseg + 1 - t2) div (tseg + 1) \<le> spn)"
    using run nz by (auto simp: update_sp_body_def Let_def c_def [symmetric] t1_def t2_def split: if_splits)
  have t12: "tseg + 1 - t2 = t1 + 1" by (simp add: t1_def t2_def)
  have t1: "unat t1 \<le> ?m1" by (simp add: t1_def word_less_nat_alt)
  have sp: "unat (10000 * (t1 + 1) div (tseg + 1)) = 10000 * (unat t1 + 1) div (unat tseg + 1)"
    using small t1 by (subst sp_value) (auto simp: u32_plus1)
  have fits: "unat t1 + unat t2 = unat tseg \<and> unat (tseg2_min btc) \<le> unat t2 \<and> unat t2 \<le> unat (tseg2_max btc)"
    if "10000 * (t1 + 1) div (tseg + 1) \<le> spn"
  proof (cases "c \<le> tseg")
    case True
    then have d: "unat (tseg - c) = unat tseg - unat c" by (rule unat_sub)
    then show ?thesis using True c T
      by (auto simp: t1_def t2_def word_less_nat_alt word_le_nat_alt unat_sub)
  next
    case False
    then have less: "unat tseg < unat c" by (simp add: word_le_nat_alt)
    then have "unat (tseg - c) = 4294967296 + unat tseg - unat c"
      by (intro unat_sub_wrap_u32) (simp add: word_less_nat_alt)
    then have "?m1 < unat (tseg - c)" using small c wf unfolding caps_wf_def by linarith
    then have "t1 = tseg1_max btc" by (simp add: t1_def word_less_nat_alt)
    moreover have "unat tseg < ?m1" using less c wf by (auto simp: caps_wf_def)
    ultimately have "10001 \<le> 10000 * (unat t1 + 1) div (unat tseg + 1)"
      using small by (simp add: less_eq_div_iff_mult_less_eq)
    then show ?thesis using that sp spn by (simp add: word_le_nat_alt)
  qed
  show ?thesis using s' unfolding t12
  proof (elim disjE conjE)
    assume "s' = s"
    then show ?thesis using old by simp
  next
    assume "10000 * (t1 + 1) div (tseg + 1) \<le> spn"
      and "s' = \<lparr>sp_best = 10000 * (t1 + 1) div (tseg + 1),
        sp_error = abs_u32 (spn - 10000 * (t1 + 1) div (tseg + 1)), sp_tseg1 = t1, sp_tseg2 = t2\<rparr>"
    then show ?thesis using fits t1 sp unfolding sp_ok_def by simp
  qed
qed

lemma sp_error_le: "update_sp_body btc spn tseg i s = Some s' \<Longrightarrow> sp_error s' \<le> sp_error s"
  by (auto simp: update_sp_body_def Let_def bind_eq_Some_conv split: if_splits prod.splits)

lemma update_sample_point_total:
  assumes "unat tseg < 4294967295"
  shows "\<exists>s. pcan_update_sample_point btc spn tseg t1 t2 = Some s"
  using update_sp_body_total [OF assms]
  by (metis (no_types, lifting) pcan_update_sample_point_def bind.bind_lunit)

lemma update_sample_point_ok:
  assumes "caps_wf btc" "unat tseg \<le> unat (tseg1_max btc) + unat (tseg2_max btc)" "unat spn \<le> 10000"
    and "pcan_update_sample_point btc spn tseg t1 t2 = Some s" "sp_best s \<noteq> 0"
  shows "sp_ok btc spn tseg s"
proof -
  obtain s1 where s1: "update_sp_body btc spn tseg 0
      \<lparr>sp_best = 0, sp_error = UINT_MAX, sp_tseg1 = t1, sp_tseg2 = t2\<rparr> = Some s1"
      "update_sp_body btc spn tseg 1 s1 = Some s"
    using assms(4) by (auto simp: pcan_update_sample_point_def bind_eq_Some_conv)
  have "sp_best s1 \<noteq> 0 \<longrightarrow> sp_ok btc spn tseg s1"
    using update_sp_body_ok [OF assms(1-3) _ s1(1)] by simp
  from update_sp_body_ok [OF assms(1-3) this s1(2)] show ?thesis using assms(5) by simp
qed

lemma calc_body_inv:
  assumes "calc_inv btc clk rate s" "unat tseg \<le> 2 * (unat (tseg1_max btc) + unat (tseg2_max btc)) + 1"
    and "calc_body btc spn clk rate tseg s = Some (stop, s')"
  shows "calc_inv btc clk rate s'"
proof -
  have "unat (tseg div 2) \<le> unat (tseg1_max btc) + unat (tseg2_max btc)"
    using assms(2) by (simp add: unat_div_word)
  then show ?thesis
    using assms(1,3)
    by (auto simp: calc_body_def calc_inv_def Let_def bind_eq_Some_conv udiv_eq_Some split: if_splits)
qed

lemma calc_loop_inv:
  assumes "calc_inv btc clk rate s" "unat tseg \<le> 2 * (unat (tseg1_max btc) + unat (tseg2_max btc)) + 1"
    and "calc_loop btc spn clk rate lo tseg s = Some s'"
  shows "calc_inv btc clk rate s'"
  using assms
proof (induction btc spn clk rate lo tseg s rule: calc_loop.induct)
  case (1 btc spn clk rate lo tseg s)
  show ?case
  proof (cases "tseg < lo")
    case True
    then show ?thesis using 1(2,4) by (simp add: calc_loop.simps)
  next
    case False
    then obtain stop s1 where b: "calc_body btc spn clk rate tseg s = Some (stop, s1)"
      using 1(4) by (auto simp: calc_loop.simps [of _ _ _ _ _ tseg] split: option.splits)
    note inv = calc_body_inv [OF 1(2,3) b]
    have less: "unat (tseg - 1) \<le> 2 * (unat (tseg1_max btc) + unat (tseg2_max btc)) + 1" if "tseg \<noteq> 0"
      using u32_countdown [OF that] 1(3) by simp
    show ?thesis
      using 1(4) False b inv 1(1) [OF False b refl _ _ inv less]
      by (auto simp: calc_loop.simps [of _ _ _ _ _ tseg] split: if_splits)
  qed
qed

lemma tsegall_unat:
  fixes tseg :: u32
  assumes "caps_wf btc" "unat tseg \<le> 2 * (unat (tseg1_max btc) + unat (tseg2_max btc)) + 1"
  shows "unat (1 + tseg div 2) = 1 + unat tseg div 2"
    "1 + unat tseg div 2 \<le> 1 + unat (tseg1_max btc) + unat (tseg2_max btc)"
proof -
  have "unat tseg div 2 \<le> 8190" using assms by (auto simp: caps_wf_def)
  then show "unat (1 + tseg div 2) = 1 + unat tseg div 2"
    by (subst unat_add_exact) (auto simp: unat_div_word)
qed (use assms(2) in simp)

lemma calc_body_total:
  assumes wf: "caps_wf btc" and fits: "rate_fits btc rate"
    and T: "unat tseg \<le> 2 * (unat (tseg1_max btc) + unat (tseg2_max btc)) + 1"
  shows "calc_body btc spn clk rate tseg s \<noteq> None"
proof -
  note all = tsegall_unat [OF wf T]
  have inc: "brp_inc btc \<noteq> 0" using wf by (auto simp: caps_wf_def)
  have "unat (1 + tseg div 2) * unat rate \<le> (1 + unat (tseg1_max btc) + unat (tseg2_max btc)) * unat rate"
    unfolding all(1) using all(2) by (rule mult_le_mono1)
  also have "\<dots> < 4294967296" using fits by (simp add: rate_fits_def mult.commute)
  finally have d1: "(1 + tseg div 2) * rate \<noteq> 0"
    using fits all(1) by (intro u32_mult_nonzero) (simp_all add: rate_fits_def)
  have d2: "b * (1 + tseg div 2) \<noteq> 0" if "\<not> (b < brp_min btc \<or> brp_max btc < b)" for b
  proof (rule u32_mult_nonzero)
    have b: "unat (brp_min btc) \<le> unat b" "unat b \<le> 0x10000"
      using that wf by (auto simp: caps_wf_def word_less_nat_alt)
    then show "0 < unat b" using wf by (auto simp: caps_wf_def)
    show "0 < unat (1 + tseg div 2)" using all(1) by simp
    have "unat (1 + tseg div 2) \<le> 8191" using all wf by (auto simp: caps_wf_def)
    then have "unat b * unat (1 + tseg div 2) \<le> 0x10000 * 8191" using b(2) by (rule mult_le_mono [rotated])
    then show "unat b * unat (1 + tseg div 2) < 4294967296" by simp
  qed
  have "\<exists>sp. pcan_update_sample_point btc spn (tseg div 2) t1 t2 = Some sp" for t1 t2
    using all wf by (intro update_sample_point_total) (auto simp: caps_wf_def unat_div_word)
  then obtain sp where sp: "\<And>t1 t2. pcan_update_sample_point btc spn (tseg div 2) t1 t2 = Some (sp t1 t2)"
    by metis
  show ?thesis
  proof
    assume "calc_body btc spn clk rate tseg s = None"
    then show False
      using d1 d2 inc by (auto simp: calc_body_def Let_def sp split: if_splits)
  qed
qed

lemma calc_loop_total:
  assumes "caps_wf btc" "rate_fits btc rate" "0 < unat lo"
    and "unat tseg \<le> 2 * (unat (tseg1_max btc) + unat (tseg2_max btc)) + 1"
  shows "\<exists>s'. calc_loop btc spn clk rate lo tseg s = Some s'"
  using assms
proof (induction btc spn clk rate lo tseg s rule: calc_loop.induct)
  case (1 btc spn clk rate lo tseg s)
  obtain stop s1 where b: "calc_body btc spn clk rate tseg s = Some (stop, s1)"
    using calc_body_total [OF 1(2,3,5)] by fast
  have nz: "tseg \<noteq> 0" if "\<not> tseg < lo" using that 1(4) by (auto simp: word_less_nat_alt)
  show ?case
  proof (cases "tseg < lo \<or> stop")
    case True
    then show ?thesis using b by (auto simp: calc_loop.simps [of _ _ _ _ _ tseg])
  next
    case False
    then have "unat (tseg - 1) \<le> 2 * (unat (tseg1_max btc) + unat (tseg2_max btc)) + 1"
      using u32_countdown [of tseg] nz 1(5) by simp
    then obtain s' where "calc_loop btc spn clk rate lo (tseg - 1) s1 = Some s'"
      using 1(1) [OF _ b refl _ _ 1(2-4)] False nz by blast
    then show ?thesis using b False nz by (simp add: calc_loop.simps [of _ _ _ _ _ tseg])
  qed
qed

lemma caps_tseg_bounds:
  assumes "caps_wf btc"
  shows "unat ((tseg1_max btc + tseg2_max btc) * 2 + 1) = 2 * (unat (tseg1_max btc) + unat (tseg2_max btc)) + 1"
    and "0 < unat ((tseg1_min btc + tseg2_min btc) * 2)"
proof -
  have b: "unat (tseg1_max btc) \<le> 4095" "unat (tseg2_max btc) \<le> 4095"
      "unat (tseg1_min btc) \<le> 4095" "unat (tseg2_min btc) \<le> 4095" "0 < unat (tseg1_min btc)"
    using assms by (auto simp: caps_wf_def)
  have s: "unat ((x + y) * 2) = 2 * (unat x + unat y)" if "unat x \<le> 4095" "unat y \<le> 4095" for x y :: u32
  proof -
    have "unat (x + y) = unat x + unat y" using that by (intro unat_add_exact) simp
    then show ?thesis using that by (subst unat_mult_exact) auto
  qed
  show "unat ((tseg1_max btc + tseg2_max btc) * 2 + 1) = 2 * (unat (tseg1_max btc) + unat (tseg2_max btc)) + 1"
    using s [OF b(1,2)] b by (subst u32_plus1) auto
  show "0 < unat ((tseg1_min btc + tseg2_min btc) * 2)"
    using s [OF b(3,4)] b(5) by simp
qed

lemma nominal_sample_point_bound: "nominal_sample_point bt = Some spn \<Longrightarrow> unat spn \<le> 10000"
  by (auto simp: nominal_sample_point_def word_less_nat_alt split: if_splits)

lemma calc_inv_init [simp]: "calc_inv btc clk rate calc_init"
  by (simp add: calc_inv_def calc_init_def)

lemma calc_finish_total:
  assumes "caps_wf btc" "calc_inv btc clk (bitrate bt) s" "bitrate bt \<noteq> 0" "clk \<noteq> 0"
  shows "\<exists>r. calc_finish bt btc spn clk s = Some r"
proof -
  obtain sp where "pcan_update_sample_point btc spn (best_tseg s) (calc_tseg1 s) (calc_tseg2 s) = Some sp"
    using update_sample_point_total [of "best_tseg s"] assms(1,2)
    by (fastforce simp: calc_inv_def caps_wf_def)
  then show ?thesis using assms(3,4) by (simp add: calc_finish_def ucast_u64_eq_0)
qed

lemma calc_error_value:
  fixes e r :: u32
  shows "unat (ucast ((ucast e :: u64) * 10000 div ucast r) :: u32) = (unat e * 10000 div unat r) mod 4294967296"
proof -
  have "unat e * 10000 < 4294967296 * 10000" using unat_u32_less [of e] by linarith
  then have "unat e * 10000 < 2 ^ 64" by (rule less_trans) simp
  then have "unat ((ucast e :: u64) * 10000) = unat e * 10000"
    by (subst unat_mult_exact) auto
  then show ?thesis by (simp add: unat_ucast_u32 unat_div_word)
qed

lemma no_candidate_error:
  fixes b :: nat
  assumes "0 < b" "b < 4294967296"
  shows "50 < (4294967295 * 10000 div b) mod 4294967296"
proof (rule ccontr)
  define q where "q = 4294967295 * 10000 div b"
  define k where "k = q div 4294967296"
  define r where "r = q mod 4294967296"
  assume "\<not> 50 < (4294967295 * 10000 div b) mod 4294967296"
  then have r: "r \<le> 50" by (simp add: r_def q_def)
  have q: "q = 4294967296 * k + r" by (simp add: k_def r_def)
  have lo: "b * q \<le> 42949672950000"
    using times_div_less_eq_dividend [of b "4294967295 * 10000"] by (simp add: q_def)
  have hi: "42949672950000 < b * q + b"
    using dividend_less_times_div [OF assms(1), of "4294967295 * 10000"] by (simp add: q_def algebra_simps)
  have bq: "b * q = 4294967296 * (k * b) + r * b" by (simp add: q algebra_simps)
  have rb: "r * b \<le> 50 * b" using r by (rule mult_le_mono1)
  show False
  proof (cases "k = 0")
    case True
    then show ?thesis using hi bq rb assms(2) by simp
  next
    case False
    then have kb: "b \<le> k * b" by simp
    then have "k * b < 10000" using lo bq by linarith
    then show ?thesis using hi bq rb kb by linarith
  qed
qed

lemma calc_finish_sound:
  assumes wf: "caps_wf btc" and inv: "calc_inv btc clk (bitrate bt) s" and spn: "unat spn \<le> 10000"
    and rate: "0 < unat (bitrate bt)" and run: "calc_finish bt btc spn clk s = Some (bt', 0)"
    and sp: "sample_point bt' \<noteq> 0"
  shows "brp_min btc \<le> brp bt' \<and> brp bt' \<le> brp_max btc \<and> bitrate bt' = bitrate bt \<and>
     sp_ok btc spn (best_tseg s)
       \<lparr>sp_best = sample_point bt', sp_error = e, sp_tseg1 = tseg1 bt', sp_tseg2 = tseg2 bt'\<rparr> \<and>
     sjw bt' = fix_sjw btc (tseg2 bt') (sjw bt) \<and>
     (unat (abs_u32 (bitrate bt - clk div (brp bt' * (1 + best_tseg s)))) * 10000 div unat (bitrate bt))
        mod 4294967296 \<le> 50"
proof -
  let ?r = "bitrate bt"
  have r0: "?r \<noteq> 0" using rate by auto
  have err: "(unat (best_bitrate_error s) * 10000 div unat ?r) mod 4294967296 \<le> 50"
    using run r0 by (auto simp: calc_finish_def calc_error_value word_less_nat_alt bind_eq_Some_conv
        split: if_splits)
  have "best_bitrate_error s \<noteq> UINT_MAX"
    using err no_candidate_error [of "unat ?r"] rate by auto
  then have best: "brp_min btc \<le> best_brp s" "best_brp s \<le> brp_max btc"
      "best_bitrate_error s = abs_u32 (?r - clk div (best_brp s * (1 + best_tseg s)))"
      "unat (best_tseg s) \<le> unat (tseg1_max btc) + unat (tseg2_max btc)"
    using inv by (auto simp: calc_inv_def)
  obtain p where p: "pcan_update_sample_point btc spn (best_tseg s) (calc_tseg1 s) (calc_tseg2 s) = Some p"
      "sample_point bt' = sp_best p" "tseg1 bt' = sp_tseg1 p" "tseg2 bt' = sp_tseg2 p"
      "brp bt' = best_brp s" "bitrate bt' = ?r" "sjw bt' = fix_sjw btc (sp_tseg2 p) (sjw bt)"
    using run by (auto simp: calc_finish_def bind_eq_Some_conv split: if_splits)
  have "sp_ok btc spn (best_tseg s) p"
    using update_sample_point_ok [OF wf best(4) spn p(1)] sp p(2) by simp
  then show ?thesis using best err p by (simp add: sp_ok_def)
qed

lemma btr_tsam:
  fixes w :: u16
  shows "(ucast (drop_bit 7 (w AND 0x0080)) :: u32) = (if bit w 7 then 1 else 0)"
proof (rule bit_word_eqI)
  fix n assume "n < LENGTH(32)"
  have "0x80 = (push_bit 7 1 :: u16)" by simp
  then show "bit (ucast (drop_bit 7 (w AND 0x0080)) :: u32) n = bit (if bit w 7 then 1 else 0 :: u32) n"
    by (cases n) (auto simp: bit_simps bit_1_iff)
qed

lemma btr_tsam_set: "(ucast (drop_bit 7 ((w :: u16) AND 0x0080)) :: u32) \<noteq> 0 \<longleftrightarrow> bit w 7"
  unfolding btr_tsam by simp

lemma btr_fields_roundtrip_word:
  fixes w :: u16
  shows "ucast (push_bit 14 ((ucast (drop_bit 14 (w AND 0xc000)) :: u32) AND 0x3))
     OR ucast (push_bit 8 ((ucast (drop_bit 8 (w AND 0x3f00)) :: u32) AND 0x3f))
     OR push_bit 7 (if bit w 7 then 1 else 0)
     OR ucast (push_bit 4 ((ucast (drop_bit 4 (w AND 0x0070)) :: u32) AND 0x7))
     OR ucast ((ucast (w AND 0x000f) :: u32) AND 0xf) = w" (is "?l = w")
proof (rule bit_word_eqI)
  fix n assume "n < LENGTH(16)"
  then have "n < 16" by simp
  from bit_u16_cases [OF this] show "bit ?l n = bit w n"
    by (elim disjE) (simp_all add: bit_simps)
qed

lemma btr_field_value:
  fixes w m :: u16
  shows "unat (1 + ucast (drop_bit k (w AND m)) :: u32) = 1 + unat (w AND m) div 2 ^ k \<and>
    1 + unat (w AND m) div 2 ^ k \<le> 1 + unat m div 2 ^ k"
proof -
  have le: "unat (w AND m) \<le> unat m"
    using word_and_le1 [of w m] by (simp add: word_le_nat_alt)
  have "unat (ucast (drop_bit k (w AND m)) :: u32) = unat (w AND m) div 2 ^ k"
  proof -
    have "unat (drop_bit k (w AND m)) < 2 ^ 32"
      by (rule less_trans [OF unat_u16_less]) simp
    then have "unat (ucast (drop_bit k (w AND m)) :: u32) = unat (drop_bit k (w AND m))"
      by (simp add: unsigned_ucast_eq take_bit_nat_eq_self)
    also have "\<dots> = unat (w AND m) div 2 ^ k"
      unfolding unat_drop_bit_eq by (rule drop_bit_eq_div)
    finally show ?thesis .
  qed
  moreover have "unat (w AND m) div 2 ^ k < 65536"
    by (rule le_less_trans [OF div_le_dividend unat_u16_less])
  ultimately show ?thesis using div_le_mono [OF le] by (subst unat_add_exact) auto
qed

lemma btr_fields_sel:
  "sjw (btr_fields pbt w) = 1 + ucast (drop_bit 14 (w AND 0xc000))"
  "brp (btr_fields pbt w) = 1 + ucast (drop_bit 8 (w AND 0x3f00))"
  "tsam (btr_fields pbt w) = ucast (drop_bit 7 (w AND 0x0080))"
  "tseg2 (btr_fields pbt w) = 1 + ucast (drop_bit 4 (w AND 0x0070))"
  "tseg1 (btr_fields pbt w) = 1 + ucast (w AND 0x000f)"
  by (simp_all add: btr_fields_def)

lemma btr_fields_bounds:
  shows "1 \<le> unat (brp (btr_fields pbt w)) \<and> unat (brp (btr_fields pbt w)) \<le> 64"
    and "1 \<le> unat (tseg1 (btr_fields pbt w)) \<and> unat (tseg1 (btr_fields pbt w)) \<le> 16"
    and "1 \<le> unat (tseg2 (btr_fields pbt w)) \<and> unat (tseg2 (btr_fields pbt w)) \<le> 8"
    and "1 \<le> unat (sjw (btr_fields pbt w)) \<and> unat (sjw (btr_fields pbt w)) \<le> 4"
  using btr_field_value [of 8 w "0x3f00"] btr_field_value [of 0 w "0xf"]
    btr_field_value [of 4 w "0x70"] btr_field_value [of 14 w "0xc000"]
  by (auto simp: btr_fields_sel)

lemma fit_bounds: "unat lo \<le> unat hi \<Longrightarrow> unat lo \<le> unat (fit x lo hi) \<and> unat (fit x lo hi) \<le> unat hi"
  by (auto simp: fit_def word_less_nat_alt)

lemma convert_candidate_ok:
  "convert_candidate org cap clk cur n = Some (Some c) \<Longrightarrow> cand_ok cap c"
  by (auto simp: convert_candidate_def cand_ok_def bind_eq_Some_conv Let_def not_less split: if_splits)

lemma convert_sjw_body_keeps:
  assumes "convert_sjw_body org cur = Some c"
  shows "cand_ok cap c = cand_ok cap cur" "tp_sjw c = tp_sjw cur"
    "convert_sjw_body org (c\<lparr>tp_sjw := k\<rparr>) = convert_sjw_body org (cur\<lparr>tp_sjw := k\<rparr>)"
  using assms
  by (auto simp: convert_sjw_body_def cand_ok_def bind_eq_Some_conv Let_def)

lemma convert_sjw_loop_best:
  assumes "convert_sjw_loop org cap cur best = Some b"
  shows "tp_penalty b \<le> tp_penalty best \<and>
    (\<forall>k c. tp_sjw cur \<le> k \<longrightarrow> ucast k \<le> sjw_max cap \<longrightarrow>
       convert_sjw_body org (cur\<lparr>tp_sjw := k\<rparr>) = Some c \<longrightarrow> tp_penalty b \<le> tp_penalty c) \<and>
    (b = best \<or> (cand_ok cap cur \<longrightarrow> cand_ok cap b))"
  using assms
proof (induction org cap cur best rule: convert_sjw_loop.induct)
  case (1 org cap cur best)
  show ?case
  proof (cases "sjw_max cap < ucast (tp_sjw cur)")
    case True
    have "\<not> ucast k \<le> sjw_max cap" if "tp_sjw cur \<le> k" for k
    proof -
      have "(ucast (tp_sjw cur) :: u32) \<le> ucast k"
        using that by (simp add: word_le_nat_alt unsigned_ucast_eq take_bit_nat_eq_self
            order.strict_trans [OF unat_u16_less])
      then show ?thesis using True by simp
    qed
    then show ?thesis using 1(2) True by (auto simp: convert_sjw_loop.simps)
  next
    case False
    then obtain c where c: "convert_sjw_body org cur = Some c" "tp_sjw cur \<noteq> 0xffff"
      and rec: "convert_sjw_loop org cap (c\<lparr>tp_sjw := tp_sjw cur + 1\<rparr>)
          (if tp_penalty c < tp_penalty best then c else best) = Some b"
      using 1(2) by (auto simp: convert_sjw_loop.simps [of org] split: option.splits if_splits)
    note IH = 1(1) [OF False c rec]
    have succ: "tp_sjw cur + 1 \<le> k" if "tp_sjw cur \<le> k" "k \<noteq> tp_sjw cur" for k
    proof -
      have "unat k \<noteq> unat (tp_sjw cur)" using that(2) by (metis unsigned_word_eqI)
      then show ?thesis using that(1) unat_Suc_u16 [OF c(2)] by (simp add: word_le_nat_alt)
    qed
    have "tp_penalty b \<le> tp_penalty d"
      if "tp_sjw cur \<le> k" "ucast k \<le> sjw_max cap" "convert_sjw_body org (cur\<lparr>tp_sjw := k\<rparr>) = Some d" for k d
    proof (cases "k = tp_sjw cur")
      case True
      then show ?thesis using that(3) c IH by (auto split: if_splits)
    next
      case neq: False
      then show ?thesis
        using IH succ [OF that(1) neq] that(2,3) convert_sjw_body_keeps(3) [OF c(1)] by simp
    qed
    then show ?thesis
      using IH convert_sjw_body_keeps(1) [OF c(1), of cap] by (auto simp: cand_ok_def split: if_splits)
  qed
qed

lemma convert_tq_loop_best:
  assumes "convert_tq_loop org cap clk cur n best = Some b"
  shows "tp_penalty b \<le> tp_penalty best \<and>
    (\<forall>m cand k c. 4 \<le> m \<longrightarrow> m \<le> n \<longrightarrow> convert_candidate org cap clk cur m = Some (Some cand) \<longrightarrow>
       tp_sjw cand \<le> k \<longrightarrow> ucast k \<le> sjw_max cap \<longrightarrow>
       convert_sjw_body org (cand\<lparr>tp_sjw := k\<rparr>) = Some c \<longrightarrow> tp_penalty b \<le> tp_penalty c) \<and>
    (b = best \<or> cand_ok cap b)"
  using assms
proof (induction org cap clk cur n best rule: convert_tq_loop.induct)
  case (1 org cap clk cur n best)
  have low: "m \<le> n - 1" if "m \<le> n" "m \<noteq> n" "\<not> n < 4" for m
  proof -
    have "unat m \<noteq> unat n" using that(2) by (metis unsigned_word_eqI)
    moreover have "n \<noteq> 0" using that(3) by auto
    ultimately show ?thesis using that(1) unat_pred_u16 [of n] by (simp add: word_le_nat_alt)
  qed
  consider (stop) "n < 4" | (skip) "\<not> n < 4" "convert_candidate org cap clk cur n = Some None"
      "convert_tq_loop org cap clk cur (n - 1) best = Some b"
    | (cand) cand best' where "\<not> n < 4" "convert_candidate org cap clk cur n = Some (Some cand)"
        "convert_sjw_loop org cap cand best = Some best'"
        "convert_tq_loop org cap clk cur (n - 1) best' = Some b"
    using 1(3) by (auto simp: convert_tq_loop.simps [of org cap clk cur n best] split: if_splits option.splits)
  then show ?case
  proof cases
    case stop
    then show ?thesis using 1(3) by (auto simp: convert_tq_loop.simps)
  next
    case skip
    note IH = 1(1) [OF skip(1,2) refl skip(3)]
    have "m \<le> n - 1" if "m \<le> n" "convert_candidate org cap clk cur m = Some (Some d)" for m d
      using that skip(2) by (intro low [OF _ _ skip(1)]) auto
    then show ?thesis using IH by blast
  next
    case (cand c0 best')
    note IH = 1(2) [OF cand(1,2) refl cand(3,4)]
    note S = convert_sjw_loop_best [OF cand(3)]
    have "tp_penalty b \<le> tp_penalty c"
      if "4 \<le> m" "m \<le> n" "convert_candidate org cap clk cur m = Some (Some d)" "tp_sjw d \<le> k"
         "ucast k \<le> sjw_max cap" "convert_sjw_body org (d\<lparr>tp_sjw := k\<rparr>) = Some c" for m d k c
    proof (cases "m = n")
      case True
      then have "d = c0" using that(3) cand(2) by simp
      then show ?thesis using S IH that(4-6) order_trans by blast
    next
      case False
      then show ?thesis using IH that low [OF that(2) False cand(1)] by blast
    qed
    then show ?thesis
      using IH S convert_candidate_ok [OF cand(2)] order_trans by blast
  qed
qed

lemma normalize_clamps:
  assumes wf: "caps_wf caps" and "brp pbt \<noteq> 0" "clk \<noteq> 0"
  shows "\<exists>bt. pcan_bittiming_normalize pbt clk caps = Some (bt, 0) \<and>
    brp_min caps \<le> brp bt \<and> brp bt \<le> brp_max caps \<and>
    tseg1_min caps \<le> tseg1 bt \<and> tseg1 bt \<le> tseg1_max caps \<and>
    tseg2_min caps \<le> tseg2 bt \<and> tseg2 bt \<le> tseg2_max caps \<and>
    unat (bitrate bt) = unat clk div (unat (brp bt) * (1 + unat (tseg1 bt) + unat (tseg2 bt))) \<and>
    bitrate_real bt = bitrate bt"
proof -
  define b where "b = fit (brp pbt) (brp_min caps) (brp_max caps)"
  define t1 where "t1 = fit (tseg1 pbt) (tseg1_min caps) (tseg1_max caps)"
  define t2 where "t2 = fit (tseg2 pbt) (tseg2_min caps) (tseg2_max caps)"
  have bb: "unat (brp_min caps) \<le> unat b" "unat b \<le> unat (brp_max caps)" "1 \<le> unat b" "unat b \<le> 0x10000"
    using wf fit_bounds [of "brp_min caps" "brp_max caps" "brp pbt"] by (auto simp: b_def caps_wf_def)
  have tb: "unat (tseg1_min caps) \<le> unat t1" "unat t1 \<le> unat (tseg1_max caps)" "unat t1 \<le> 4095"
    using wf fit_bounds [of "tseg1_min caps" "tseg1_max caps" "tseg1 pbt"] by (auto simp: t1_def caps_wf_def)
  have tc: "unat (tseg2_min caps) \<le> unat t2" "unat t2 \<le> unat (tseg2_max caps)" "unat t2 \<le> 4095"
    using wf fit_bounds [of "tseg2_min caps" "tseg2_max caps" "tseg2 pbt"] by (auto simp: t2_def caps_wf_def)
  have s: "unat (1 + t1 + t2) = 1 + unat t1 + unat t2"
    using tb tc by (subst unat_add_exact; subst unat_add_exact) auto
  have "unat b * (1 + unat t1 + unat t2) \<le> 0x10000 * 8191" using bb tb tc by (intro mult_le_mono) auto
  then have p: "unat (b * (1 + t1 + t2)) = unat b * (1 + unat t1 + unat t2)"
    by (subst unat_mult_exact) (auto simp: s)
  have nz: "1 + t1 + t2 \<noteq> 0" "b * (1 + t1 + t2) \<noteq> 0" "b \<noteq> 0"
    using s p bb by (auto intro!: u32_nonzero)
  have comm: "t1 + t2 + 1 = 1 + t1 + t2" by simp
  show ?thesis
    using assms(2,3) nz bb tb tc p
    by (simp add: pcan_bittiming_normalize_def pcan_bittiming_to_bitrate_def pcan_get_bps_def Let_def
        b_def [symmetric] t1_def [symmetric] t2_def [symmetric] comm unat_div_word word_le_nat_alt
        del: add_2_eq_Suc')
qed

section \<open>Properties\<close>

text \<open>C33. \<open>pcan_bitrate_to_bittiming\<close> ends without a division by zero for every bit rate whose
  products fit 32 bits.\<close>

theorem bitrate_to_bittiming_total:
  assumes "caps_wf btc" "rate_fits btc (bitrate bt)" "clk \<noteq> 0"
  shows "\<exists>r. pcan_bitrate_to_bittiming bt (Some btc) clk = Some r"
proof (cases "nominal_sample_point bt")
  case (Some spn)
  obtain s where s: "calc_loop btc spn clk (bitrate bt) ((tseg1_min btc + tseg2_min btc) * 2)
      ((tseg1_max btc + tseg2_max btc) * 2 + 1) calc_init = Some s"
    using calc_loop_total [OF assms(1,2)] caps_tseg_bounds [OF assms(1)] by (metis order_refl)
  have "calc_inv btc clk (bitrate bt) s"
    by (rule calc_loop_inv [OF calc_inv_init _ s]) (rule eq_imp_le [OF caps_tseg_bounds(1) [OF assms(1)]])
  moreover have "bitrate bt \<noteq> 0" using assms(2) by (auto simp: rate_fits_def)
  ultimately show ?thesis
    using calc_finish_total [OF assms(1) _ _ assms(3), of bt s spn] Some s
    by (simp add: pcan_bitrate_to_bittiming_def)
qed (simp add: pcan_bitrate_to_bittiming_def)

theorem bitrate_to_bittiming_total_witness:
  "\<exists>r. pcan_bitrate_to_bittiming (zero_bittiming\<lparr>bitrate := 1000000\<rparr>)
     (Some ucan_slow_capabilities) 80000000 = Some r"
  by (rule bitrate_to_bittiming_total)
     (simp_all add: caps_wf_def rate_fits_def ucan_slow_capabilities_def)



text \<open>Every SJA1000 register pair converts to a timing within the controller's ranges, with
  the bit rate of the 8 MHz clock, and back to the same register pair.\<close>

theorem btr0btr1_roundtrip:
  "\<exists>bt. pcan_btr0btr1_to_bittiming pbt w = Some bt \<and> pcan_bittiming_to_btr0btr1 bt = w \<and>
     1 \<le> brp bt \<and> brp bt \<le> 64 \<and> 1 \<le> tseg1 bt \<and> tseg1 bt \<le> 16 \<and>
     1 \<le> tseg2 bt \<and> tseg2 bt \<le> 8 \<and> 1 \<le> sjw bt \<and> sjw bt \<le> 4 \<and>
     unat (bitrate bt) = 8000000 div (unat (brp bt) * (1 + unat (tseg1 bt) + unat (tseg2 bt)))"
proof -
  let ?f = "btr_fields pbt w"
  note b = btr_fields_bounds [of pbt w]
  have q: "unat (1 + tseg1 ?f + tseg2 ?f) = 1 + unat (tseg1 ?f) + unat (tseg2 ?f)"
    using b by (subst unat_add_exact; subst unat_add_exact) auto
  have "unat (brp ?f) * (1 + unat (tseg1 ?f) + unat (tseg2 ?f)) \<le> 64 * 25" 
    using b by (intro mult_le_mono) auto
  then have d: "unat (brp ?f * (1 + tseg1 ?f + tseg2 ?f)) = unat (brp ?f) * (1 + unat (tseg1 ?f) + unat (tseg2 ?f))"
    by (subst unat_mult_exact) (auto simp: q)
  have nz: "1 + tseg1 ?f + tseg2 ?f \<noteq> 0" "brp ?f * (1 + tseg1 ?f + tseg2 ?f) \<noteq> 0" "sjw ?f \<noteq> 0" "brp ?f \<noteq> 0"
    using q d b by (auto intro!: u32_nonzero)
  obtain bt where bt: "pcan_btr0btr1_to_bittiming pbt w = Some bt" 
      "brp bt = brp ?f" "tseg1 bt = tseg1 ?f" "tseg2 bt = tseg2 ?f" "sjw bt = sjw ?f" "tsam bt = tsam ?f"
      "bitrate bt = 8000000 div (brp ?f * (1 + tseg1 ?f + tseg2 ?f))"
    using nz by (simp add: pcan_btr0btr1_to_bittiming_def pcan_bittiming_to_bitrate_def pcan_get_bps_def Let_def)
  have "pcan_bittiming_to_btr0btr1 bt = w"
    unfolding pcan_bittiming_to_btr0btr1_def bt btr_fields_sel
    by (simp only: add_diff_cancel_left' btr_tsam_set btr_fields_roundtrip_word)
  moreover have "unat (bitrate bt) = 8000000 div (unat (brp bt) * (1 + unat (tseg1 bt) + unat (tseg2 bt)))"
    using bt d by (simp add: unat_div_word)
  ultimately show ?thesis using bt b by (simp add: word_le_nat_alt)
qed

text \<open>Explicit timing values of the user are brought into the ranges of the controller, and
  the bit rate is computed from them without a fault.\<close>

theorem bittiming_normalize_clamps:
  assumes wf: "caps_wf caps" and "brp pbt \<noteq> 0" "clk \<noteq> 0"
  shows "\<exists>bt. pcan_bittiming_normalize pbt clk caps = Some (bt, 0) \<and>
    brp_min caps \<le> brp bt \<and> brp bt \<le> brp_max caps \<and>
    tseg1_min caps \<le> tseg1 bt \<and> tseg1 bt \<le> tseg1_max caps \<and>
    tseg2_min caps \<le> tseg2 bt \<and> tseg2 bt \<le> tseg2_max caps \<and>
    unat (bitrate bt) = unat clk div (unat (brp bt) * (1 + unat (tseg1 bt) + unat (tseg2 bt))) \<and>
    bitrate_real bt = bitrate bt"
  by (rule normalize_clamps [OF assms])

theorem bittiming_normalize_clamps_witness:
  "\<exists>bt. pcan_bittiming_normalize (zero_bittiming\<lparr>brp := 5000, tseg1 := 1, tseg2 := 300\<rparr>) 80000000
     ucan_slow_capabilities = Some (bt, 0) \<and> brp bt \<le> 1024"
proof -
  have "caps_wf ucan_slow_capabilities" by code_simp
  from bittiming_normalize_clamps [OF this, of "zero_bittiming\<lparr>brp := 5000, tseg1 := 1, tseg2 := 300\<rparr>" 80000000]
  show ?thesis by (auto simp: ucan_slow_capabilities_def)
qed

text \<open>The timing that \<open>pcan_convert_abstract\<close> chooses lies in the ranges of the controller and
  has the least penalty of all the combinations of time quanta and jump widths it tries.\<close>

theorem convert_abstract_best:
  assumes "pcan_convert_abstract r org cap clk = Some (res, 1)"
  shows "brp_min cap \<le> abt_prescaler res \<and> abt_prescaler res \<le> brp_max cap \<and>
    (\<exists>best tBit. DIV_ROUND GHz (abt_bitrate org) = Some tBit \<and> cand_ok cap best \<and>
       abt_prescaler res = ucast (tp_prescaler best) \<and>
       tseg1_ns res = tp_tseg1_ns best \<and> tseg2_ns res = tp_tseg2_ns best \<and>
       (\<forall>m cand k c. 4 \<le> m \<longrightarrow> m \<le> ucast (tseg1_max cap + tseg2_max cap + 1) \<longrightarrow>
          convert_candidate org cap clk
            (zero_timing_parameters\<lparr>tp_sysclock := clk, tp_tBit_ns := tBit\<rparr>) m = Some (Some cand) \<longrightarrow>
          tp_sjw cand \<le> k \<longrightarrow> ucast k \<le> sjw_max cap \<longrightarrow>
          convert_sjw_body org (cand\<lparr>tp_sjw := k\<rparr>) = Some c \<longrightarrow> tp_penalty best \<le> tp_penalty c))"
proof -
  obtain tBit best where t: "DIV_ROUND GHz (abt_bitrate org) = Some tBit"
      and b: "convert_tq_loop org cap clk
                 (zero_timing_parameters\<lparr>tp_sysclock := clk, tp_tBit_ns := tBit\<rparr>)
                 (ucast (tseg1_max cap + tseg2_max cap + 1))
                 (zero_timing_parameters\<lparr>tp_penalty := PENALTY_INVALID\<rparr>) = Some best"
      and p: "tp_penalty best \<noteq> PENALTY_INVALID"
      and res: "abt_prescaler res = ucast (tp_prescaler best)" "tseg1_ns res = tp_tseg1_ns best"
        "tseg2_ns res = tp_tseg2_ns best"
    using assms by (auto simp: pcan_convert_abstract_def bind_eq_Some_conv split: if_splits)
  note B = convert_tq_loop_best [OF b]
  have ok: "cand_ok cap best" using B p by (auto simp: zero_timing_parameters_def)
  then have "brp_min cap \<le> abt_prescaler res \<and> abt_prescaler res \<le> brp_max cap"
    using res(1) by (simp add: cand_ok_def)
  then show ?thesis using t ok res B by blast
qed

theorem convert_abstract_best_witness:
  "\<exists>org res. pcan_btr0btr1_to_abstract 0x011c = Some org \<and>
     pcan_convert_abstract org org sja1000_capabilities 8000000 = Some (res, 1) \<and>
     abt_prescaler res \<le> 64"
proof -
  define org where "org = \<lparr>abt_prescaler = 2, sync_seg_ns = 250, tseg1_ns = 3250, tseg2_ns = 500,
     sjw_ns = 250, abt_bitrate = 250000, delta_bitrate = 14706, sample3 = 0\<rparr>"
  have o: "pcan_btr0btr1_to_abstract 0x011c = Some org" unfolding org_def by code_simp
  have v: "pcan_convert_abstract org org sja1000_capabilities 8000000 = Some (org, 1)"
    unfolding org_def by code_simp
  show ?thesis using convert_abstract_best [OF v] o v by (auto simp: sja1000_capabilities_def)
qed

text \<open>A bit rate of \<open>2 ^ 31\<close> bit/s, which the init request of a user may carry, makes the
  divisor of the calculation wrap to zero: the driver divides by zero.\<close>

theorem bitrate_divide_fault:
  "pcan_bitrate_to_bittiming (zero_bittiming\<lparr>bitrate := 0x80000000\<rparr>) (Some sja1000_capabilities) 8000000 = None"
  by code_simp

text \<open>A sample point below every reachable one is not refused: the calculation reports success
  with both segments zero, outside the ranges of the controller.\<close>

theorem low_sample_point_zero_segments:
  "map_option (\<lambda>(bt, err). (brp bt, tseg1 bt, tseg2 bt, err))
     (pcan_bitrate_to_bittiming (zero_bittiming\<lparr>bitrate := 500000, sample_point := 100\<rparr>)
        (Some sja1000_capabilities) 8000000) = Some (4, 0, 0, 0)"
  by code_simp

text \<open>For the four fastest standard bit rates the calculation gives the register values that
  the driver lists as constants.\<close>

theorem sja1000_standard_rates:
  "map (\<lambda>r. sja1000_bitrate r 0 0) [1000000, 500000, 250000, 125000] =
   map Some [0x0014, 0x001c, 0x011c, 0x031c]"
  by code_simp

end
