(* ===== verification/Pcan_Device.thy ===== *)
theory Pcan_Device
  imports Pcan_Fifo Pcan_Filter Pcan_Timing
begin

text \<open>
  The channel object \<^verbatim>\<open>struct pcandev\<close> of \<^verbatim>\<open>driver/src/pcan_main.h\<close> with the fields the
  modelled code reads or writes, the callbacks of the device drivers behind it, and the time
  synchronisation between host and device (\<^verbatim>\<open>pcan_sync_xxx\<close> in \<^verbatim>\<open>driver/src/pcan_main.c\<close>).
  The host clock is an argument. An event carries the number of times it was signalled, the timer
  the time it is armed for; \<open>io_log\<close> is the history of register accesses, newest first. \<^verbatim>\<open>PCAN_HANDLE_CLOCK_DRIFT\<close>, \<^verbatim>\<open>PCAN_FIX_INVALID_TS\<close> and
  \<^verbatim>\<open>PCAN_USE_BUS_LOAD_TIMER\<close> are defined, as in the sources.
\<close>

section \<open>The channel object\<close>

abbreviation (input) CAN_ERR_XMTFULL :: u16 where "CAN_ERR_XMTFULL \<equiv> 0x0001"
abbreviation (input) CAN_ERR_OVERRUN :: u16 where "CAN_ERR_OVERRUN \<equiv> 0x0002"
abbreviation (input) CAN_ERR_BUSLIGHT :: u16 where "CAN_ERR_BUSLIGHT \<equiv> 0x0004"
abbreviation (input) CAN_ERR_BUSHEAVY :: u16 where "CAN_ERR_BUSHEAVY \<equiv> 0x0008"
abbreviation (input) CAN_ERR_BUSOFF :: u16 where "CAN_ERR_BUSOFF \<equiv> 0x0010"
abbreviation (input) CAN_ERR_QRCVEMPTY :: u16 where "CAN_ERR_QRCVEMPTY \<equiv> 0x0020"
abbreviation (input) CAN_ERR_QOVERRUN :: u16 where "CAN_ERR_QOVERRUN \<equiv> 0x0040"
abbreviation (input) CAN_ERR_QXMTFULL :: u16 where "CAN_ERR_QXMTFULL \<equiv> 0x0080"
abbreviation (input) CAN_ERR_RESOURCE :: u16 where "CAN_ERR_RESOURCE \<equiv> 0x2000"

abbreviation (input) PCAN_DEV_LINKED :: u32 where "PCAN_DEV_LINKED \<equiv> 0x00000008"
abbreviation (input) PCAN_DEV_CLEANED :: u32 where "PCAN_DEV_CLEANED \<equiv> 0x00000010"
abbreviation (input) PCAN_DEV_OPENED :: u32 where "PCAN_DEV_OPENED \<equiv> 0x00000040"
abbreviation (input) PCAN_DEV_BUS_ON :: u32 where "PCAN_DEV_BUS_ON \<equiv> 0x00000080"
abbreviation (input) PCAN_DEV_CLEANING :: u32 where "PCAN_DEV_CLEANING \<equiv> 0x00000400"
abbreviation (input) PCAN_DEV_CLOSING :: u32 where "PCAN_DEV_CLOSING \<equiv> 0x00000800"
abbreviation (input) PCAN_DEV_BUSLOAD_RDY :: u32 where "PCAN_DEV_BUSLOAD_RDY \<equiv> 0x00010000"
abbreviation (input) PCAN_DEV_ERRCNT_RDY :: u32 where "PCAN_DEV_ERRCNT_RDY \<equiv> 0x00020000"
abbreviation (input) PCAN_DEV_FD_RDY :: u32 where "PCAN_DEV_FD_RDY \<equiv> 0x01000000"

abbreviation (input) TX_ENGINE_CLOSED :: u32 where "TX_ENGINE_CLOSED \<equiv> 0"
abbreviation (input) TX_ENGINE_IDLE :: u32 where "TX_ENGINE_IDLE \<equiv> 1"
abbreviation (input) TX_ENGINE_STARTED :: u32 where "TX_ENGINE_STARTED \<equiv> 2"
abbreviation (input) TX_ENGINE_STOPPED :: u32 where "TX_ENGINE_STOPPED \<equiv> 3"
abbreviation (input) TX_ENGINE_BUSY :: u32 where "TX_ENGINE_BUSY \<equiv> 4"

abbreviation (input) PCANFD_ALLOWED_MSG_CAN :: u32 where "PCANFD_ALLOWED_MSG_CAN \<equiv> 0x1"
abbreviation (input) PCANFD_ALLOWED_MSG_RTR :: u32 where "PCANFD_ALLOWED_MSG_RTR \<equiv> 0x2"
abbreviation (input) PCANFD_ALLOWED_MSG_EXT :: u32 where "PCANFD_ALLOWED_MSG_EXT \<equiv> 0x4"
abbreviation (input) PCANFD_ALLOWED_MSG_STATUS :: u32 where "PCANFD_ALLOWED_MSG_STATUS \<equiv> 0x10"
abbreviation (input) PCANFD_ALLOWED_MSG_ERROR :: u32 where "PCANFD_ALLOWED_MSG_ERROR \<equiv> 0x100"

text \<open>The accesses to the registers of the controller: the address and the value read or written.\<close>

datatype io = Rd nat u8 | Wr nat u8

record pcandev =
  nOpenPaths :: int
  nMinor :: int
  wType :: u16
  nChannel :: int
  ts_mode :: u32
  dev_flags :: u32
  tx_iframe_delay_us :: u32
  bus_load_ind_period :: u64
  bus_load_timer :: "u64 option"
  bus_load_count :: u32
  bus_load_total :: u32
  allowed_msgs :: u32
  sysclock_Hz :: u32
  clocks_list :: "u32 list"
  bittiming_caps :: pcanfd_bittiming_range
  dbittiming_caps :: "pcanfd_bittiming_range option"
  time_sync :: pcan_time_sync
  device_alt_num :: u32
  acc_11b_code :: u32
  acc_11b_mask :: u32
  acc_29b_code :: u32
  acc_29b_mask :: u32
  in_event :: nat
  readFifo :: "pcanfd_rxmsg FIFO_MANAGER"
  out_event :: nat
  writeFifo :: "pcanfd_txmsg FIFO_MANAGER"
  locked_tx_engine_state :: u32
  bus_load :: int
  prev_bus_load :: int
  nLastError :: int
  bus_state :: u32
  bus_error :: u32
  dwErrorCounter :: u32
  dwInterruptCounter :: u32
  rx_frames_counter :: u32
  tx_frames_counter :: u32
  def_init_settings :: pcanfd_init
  init_timestamp :: timeval
  init_settings :: pcanfd_init
  dev_filter :: "filter_chain option"
  wCANStatus :: u16
  is_plugged :: bool
  rx_error_counter :: u8
  tx_error_counter :: u8
  prev_rx_error_counter :: u8
  prev_tx_error_counter :: u8
  ucActivityState :: u8
  ucExternalClock :: u8
  ucMasterDevice :: u8
  io_log :: "io list"

text \<open>The function pointers of a channel that the modelled code calls. \<open>None\<close> is a null pointer;
  a call that faults has no result.\<close>

record dev_ops =
  op_device_open :: "pcandev \<Rightarrow> u16 \<Rightarrow> u8 \<Rightarrow> u8 \<Rightarrow> (pcandev \<times> int) option"
  op_device_open_fd :: "pcandev \<Rightarrow> pcanfd_init \<Rightarrow> (pcandev \<times> pcanfd_init \<times> int) option"
  op_device_release :: "(pcandev \<Rightarrow> pcandev) option"
  op_device_write :: "pcandev \<Rightarrow> pcandev \<times> int"
  op_open :: "(pcandev \<Rightarrow> pcandev \<times> int) option"
  op_release :: "(pcandev \<Rightarrow> pcandev \<times> int) option"
  op_req_irq :: "(pcandev \<Rightarrow> pcandev \<times> int) option"
  op_free_irq :: "(pcandev \<Rightarrow> pcandev) option"
  op_cleanup :: "(pcandev \<Rightarrow> pcandev \<times> int) option"

definition pcan_set_tx_engine :: "u32 \<Rightarrow> pcandev \<Rightarrow> pcandev" where
  "pcan_set_tx_engine tx_eng dev = dev\<lparr>locked_tx_engine_state := tx_eng\<rparr>"

definition signal_in :: "pcandev \<Rightarrow> pcandev" where
  "signal_in dev = dev\<lparr>in_event := in_event dev + 1\<rparr>"

definition signal_out :: "pcandev \<Rightarrow> pcandev" where
  "signal_out dev = dev\<lparr>out_event := out_event dev + 1\<rparr>"

section \<open>Time synchronisation\<close>

abbreviation (input) PCAN_CLOCK_DRIFT_SCALE_SHIFT :: nat where "PCAN_CLOCK_DRIFT_SCALE_SHIFT \<equiv> 17"
abbreviation (input) PCAN_CLOCK_DRIFT_SCALE :: int where "PCAN_CLOCK_DRIFT_SCALE \<equiv> 131072"

definition pcan_sync_init :: "pcandev \<Rightarrow> pcandev" where
  "pcan_sync_init dev = dev\<lparr>time_sync := zero_time_sync\<rparr>"

text \<open>The signed number of microseconds to add to the base time. \<^verbatim>\<open>do_div\<close> divides by the low
  32 bits of the clock drift.\<close>

definition hw_offset :: "pcan_timeval \<Rightarrow> int option" where
  "hw_offset hwtv =
     (let neg = hwtv_ts_us hwtv < hwtv_tv_us hwtv;
          dus = (if neg then hwtv_tv_us hwtv - hwtv_ts_us hwtv
                 else hwtv_ts_us hwtv - hwtv_tv_us hwtv)
      in do {
        dus \<leftarrow> (if hwtv_ts_mode hwtv = PCANFD_OPT_HWTIMESTAMP_COOKED \<and>
                  hwtv_clock_drift hwtv \<noteq> 0 \<and> hwtv_clock_drift hwtv \<noteq> PCAN_CLOCK_DRIFT_SCALE
                then udiv (push_bit PCAN_CLOCK_DRIFT_SCALE_SHIFT dus)
                       (ucast (of_int (hwtv_clock_drift hwtv) :: u32))
                else Some dus);
        Some (sint (if neg then - dus else dus))
      })"

text \<open>A timestamp that lies in the future is replaced by the current time; 100 microseconds and
  more also clear the hardware timestamp flag.\<close>

definition fix_future :: "timeval \<Rightarrow> pcandev \<Rightarrow> pcanfd_msg \<Rightarrow> pcandev \<times> pcanfd_msg" where
  "fix_future now dev pm =
     (let fix_ts = (if USEC_PER_SEC \<le> tv_usec (timestamp pm) \<or> tv_usec (timestamp pm) < 0 then 1
                    else let dtv = timeval_diff (timestamp pm) now
                         in if 100 \<le> dtv then 2 else if 0 < dtv then 3 else (0::nat))
      in if fix_ts \<noteq> 0 then
           (dev\<lparr>time_sync := (time_sync dev)\<lparr>sync_ts_fixed := sync_ts_fixed (time_sync dev) + 1\<rparr>\<rparr>,
            pm\<lparr>msg_flags := (if fix_ts \<noteq> 3 then clr_flag (msg_flags pm) PCANFD_HWTIMESTAMP
                             else msg_flags pm),
               timestamp := now\<rparr>)
         else (dev, pm))"

definition pcan_sync_timestamps ::
  "timeval \<Rightarrow> pcandev \<Rightarrow> pcanfd_rxmsg \<Rightarrow> (pcandev \<times> pcanfd_rxmsg) option" where
  "pcan_sync_timestamps now dev pqm =
     (let hwtv = rx_hwtv pqm;
          pm = (rx_msg pqm)\<lparr>msg_flags := set_flag (msg_flags (rx_msg pqm))
                              (PCANFD_TIMESTAMP OR PCANFD_HWTIMESTAMP)\<rparr>
      in if hwtv_ts_mode hwtv = PCANFD_OPT_HWTIMESTAMP_RAW then
           (let sec = hwtv_ts_us hwtv div 1000000
            in Some (dev, \<lparr>rx_msg = pm\<lparr>timestamp :=
                             \<lparr>tv_sec = sint sec, tv_usec = uint (hwtv_ts_us hwtv mod 1000000)\<rparr>\<rparr>,
                           rx_hwtv = hwtv\<lparr>hwtv_ts_us := sec\<rparr>\<rparr>))
         else
           (let pm = pm\<lparr>timestamp := hwtv_tv hwtv\<rparr>
            in if hwtv_ts_mode hwtv = PCANFD_OPT_HWTIMESTAMP_OFF then
                 Some (dev, pqm\<lparr>rx_msg := pm\<lparr>msg_flags := clr_flag (msg_flags pm) PCANFD_HWTIMESTAMP\<rparr>\<rparr>)
               else do {
                 off \<leftarrow> hw_offset hwtv;
                 let (dev, pm) = fix_future now dev
                       (pm\<lparr>timestamp := timeval_add_us (timestamp pm) off\<rparr>);
                 Some (dev, pqm\<lparr>rx_msg := pm\<rparr>)
               }))"

definition pcan_sync_decode ::
  "timeval \<Rightarrow> pcandev \<Rightarrow> u32 \<Rightarrow> u32 \<Rightarrow> pcan_timeval \<Rightarrow> pcan_timeval \<times> int" where
  "pcan_sync_decode now dev ts_low ts_high hwtv =
     (if sync_ts_us (time_sync dev) \<noteq> 0 \<and> ts_mode dev \<noteq> PCANFD_OPT_HWTIMESTAMP_OFF then
        (hwtv\<lparr>hwtv_ts_mode := ts_mode dev,
              hwtv_ts_us := push_bit 32 (ucast ts_high) OR ucast ts_low,
              hwtv_tv := sync_tv (time_sync dev),
              hwtv_tv_us := sync_ts_us (time_sync dev),
              hwtv_clock_drift := sync_clock_drift (time_sync dev)\<rparr>, 1)
      else (hwtv\<lparr>hwtv_ts_mode := PCANFD_OPT_HWTIMESTAMP_OFF, hwtv_tv := now\<rparr>, 0))"

text \<open>The clock drift part of \<open>pcan_sync_times\<close>: the host and device times since the start, and
  their quotient in units of \<open>2 ^ -17\<close>, rounded up.\<close>

definition drift_update :: "pcan_time_sync \<Rightarrow> int \<Rightarrow> int \<Rightarrow> pcan_time_sync \<Rightarrow> pcan_time_sync" where
  "drift_update old dtv_us dts_us now =
     (let ttv = sync_ttv_us old + of_int dtv_us;
          tts = sync_tts_us old + of_int dts_us;
          now = now\<lparr>sync_ttv_us := ttv, sync_tts_us := tts, sync_clock_drift := sync_clock_drift old\<rparr>
      in if ttv = 0 then now
         else if ttv \<le> 0xffffffff then
           now\<lparr>sync_clock_drift := sint ((push_bit PCAN_CLOCK_DRIFT_SCALE_SHIFT tts + ttv - 1) div ttv)\<rparr>
         else now\<lparr>sync_ttv_us := of_int dtv_us, sync_tts_us := of_int dts_us\<rparr>)"

definition pcan_sync_times ::
  "timeval \<Rightarrow> u64 \<Rightarrow> pcandev \<Rightarrow> u32 \<Rightarrow> u32 \<Rightarrow> int \<Rightarrow> pcandev \<times> int" where
  "pcan_sync_times now_tv now_ns dev ts_low ts_high tv_off =
     (let now = zero_time_sync\<lparr>sync_ts_us := push_bit 32 (ucast ts_high) + ucast ts_low,
                  sync_tv := now_tv, sync_tv_ns := now_ns\<rparr>;
          old = time_sync dev
      in if sync_ts_us old = 0 then
           (dev\<lparr>time_sync := (if tv_off < 0 then now\<lparr>sync_tv := timeval_add_us (sync_tv now) tv_off\<rparr>
                              else now)\<rparr>, 1)
         else
           let dtv_us = sint (timeval_to_us (sync_tv now) - timeval_to_us (sync_tv old));
               dts_us = sint (sync_ts_us now - sync_ts_us old)
           in if dtv_us < USEC_PER_SEC then (dev, 0)
              else if dts_us < 0 then (dev, 0)
              else
                let now = (if tv_off < 0 then now\<lparr>sync_tv := timeval_add_us (sync_tv now) tv_off\<rparr> else now);
                    dtv_us = (if tv_off < 0 then dtv_us + tv_off else dtv_us)
                in if dtv_us \<le> 0 then (dev, 0)
                   else
                     let now = drift_update old dtv_us dts_us now
                     in (dev\<lparr>time_sync := now\<lparr>sync_ts_fixed := sync_ts_fixed old\<rparr>\<rparr>, 1))"

section \<open>Specification\<close>

text \<open>The device time of a 32-bit pair, and synchronisation with a device whose clock runs like the
  host's: at host time \<open>t\<close> it shows \<open>t - c\<close>.\<close>

definition dev_time :: "u32 \<Rightarrow> u32 \<Rightarrow> u64" where
  "dev_time ts_low ts_high = push_bit 32 (ucast ts_high) + ucast ts_low"

inductive sync_steps :: "int \<Rightarrow> pcandev \<Rightarrow> pcandev \<Rightarrow> bool" for c :: int and dev :: pcandev where
  refl: "sync_steps c dev dev"
| step: "\<lbrakk>sync_steps c dev d; dev_time lo hi = of_int (tv_total now - c)\<rbrakk>
    \<Longrightarrow> sync_steps c dev (fst (pcan_sync_times now ns d lo hi 0))"

definition sync_inv :: "int \<Rightarrow> pcandev \<Rightarrow> bool" where
  "sync_inv c d \<longleftrightarrow> sync_ts_us (time_sync d) = 0 \<or>
     sync_ts_us (time_sync d) = of_int (tv_total (sync_tv (time_sync d)) - c) \<and>
     sync_tts_us (time_sync d) = sync_ttv_us (time_sync d) \<and>
     sync_clock_drift (time_sync d) \<in> {0, PCAN_CLOCK_DRIFT_SCALE}"

section \<open>Lemmas\<close>

lemma pcan_sync_times_dev_time:
  "push_bit 32 (ucast hi) + ucast lo = dev_time lo hi"
  by (simp add: dev_time_def)

lemma dev_time_or: "(push_bit 32 (ucast hi) OR ucast lo :: u64) = dev_time lo hi"
proof -
  have "push_bit 32 (ucast hi :: u64) AND ucast lo = 0"
    by (rule bit_word_eqI) (auto simp: bit_simps dest: bit_imp_le_length)
  then show ?thesis unfolding dev_time_def by (rule disjunctive_add_eq_or [symmetric])
qed

lemma equal_drift:
  assumes "x \<noteq> 0" "x \<le> (0xffffffff :: u64)"
  shows "sint ((push_bit 17 x + x - 1) div x) = PCAN_CLOCK_DRIFT_SCALE"
proof -
  have x: "unat x \<le> 4294967295" "0 < unat x"
    using assms by (simp_all add: word_le_nat_alt unat_gt_0)
  have sh: "unat (push_bit 17 x) = 131072 * unat x"
  proof -
    have "push_bit 17 x = 131072 * x" by (simp add: push_bit_eq_mult)
    moreover have "unat (131072 * x) = 131072 * unat x" using x by (subst unat_mult_exact) auto
    ultimately show ?thesis by simp
  qed
  have "unat (push_bit 17 x + x - 1) = 131072 * unat x + unat x - 1"
  proof -
    have s: "unat (push_bit 17 x + x) = 131072 * unat x + unat x" using x sh by (subst unat_add_exact) auto
    then have "push_bit 17 x + x \<noteq> 0" using x by auto
    then show ?thesis using s by (simp add: unat_minus_one)
  qed
  then have "unat ((push_bit 17 x + x - 1) div x) = (131072 * unat x + (unat x - 1)) div unat x"
    using x(2) by (simp add: unat_div_word)
  also have "\<dots> = 131072" using x(2) by (subst div_mult_self3) auto
  finally have "unat ((push_bit 17 x + x - 1) div x) = unat (131072 :: u64)" by simp
  then have "(push_bit 17 x + x - 1) div x = 131072" by (rule unsigned_word_eqI)
  then show ?thesis by simp
qed


lemma drift_update_equal:
  assumes "sync_tts_us old = sync_ttv_us old" "sync_clock_drift old \<in> {0, PCAN_CLOCK_DRIFT_SCALE}"
  shows "sync_tts_us (drift_update old k k now) = sync_ttv_us (drift_update old k k now) \<and>
    sync_clock_drift (drift_update old k k now) \<in> {0, PCAN_CLOCK_DRIFT_SCALE}"
  using assms equal_drift [of "sync_ttv_us old + of_int k"]
  by (auto simp: drift_update_def Let_def)

lemma drift_update_keeps [simp]:
  "sync_ts_us (drift_update old a b now) = sync_ts_us now"
  "sync_tv (drift_update old a b now) = sync_tv now"
  by (simp_all add: drift_update_def Let_def)

lemma sync_times_inv:
  assumes "sync_inv c d" "dev_time lo hi = of_int (tv_total now - c)"
  shows "sync_inv c (fst (pcan_sync_times now ns d lo hi 0))"
proof -
  let ?old = "time_sync d"
  have diff: "sync_ts_us ?old \<noteq> 0 \<Longrightarrow>
      dev_time lo hi - sync_ts_us ?old = timeval_to_us now - timeval_to_us (sync_tv ?old)"
    using assms by (auto simp: sync_inv_def timeval_to_us_total)
  show ?thesis
    using assms diff drift_update_equal [of ?old]
    by (auto simp: pcan_sync_times_def pcan_sync_times_dev_time Let_def sync_inv_def zero_time_sync_def
        split: if_splits)
qed

lemma sync_steps_inv:
  assumes "sync_steps c d0 d" "sync_ts_us (time_sync d0) = 0"
  shows "sync_inv c d"
  using assms
proof (induction rule: sync_steps.induct)
  case refl
  then show ?case by (simp add: sync_inv_def)
qed (simp add: sync_times_inv)

lemma sint_nat_diff64: "\<lbrakk>x < 2 ^ 63; y < 2 ^ 63\<rbrakk> \<Longrightarrow> sint (of_int (int x - int y) :: u64) = int x - int y"
  by (intro sint_of_int_small64) auto

lemma int_unat_of_int64: "\<lbrakk>0 \<le> k; k < 2 ^ 63\<rbrakk> \<Longrightarrow> int (unat (of_int k :: u64)) = k"
  by (simp add: unsigned_of_int take_bit_int_eq_self)

lemma int_eq_less63: "\<lbrakk>int x = k; k < 2 ^ 63\<rbrakk> \<Longrightarrow> x < 2 ^ 63"
  by auto

lemma sint_u64_diff:
  fixes a b :: u64
  assumes "unat a < 2 ^ 63" "unat b < 2 ^ 63"
  shows "sint (a - b) = int (unat a) - int (unat b)"
proof -
  have "a - b = of_int (int (unat a) - int (unat b))" by simp
  also have "sint \<dots> = int (unat a) - int (unat b)"
    using assms by (rule sint_nat_diff64)
  finally show ?thesis .
qed

lemma hw_offset_exact:
  assumes "unat (hwtv_ts_us h) < 2 ^ 63" "unat (hwtv_tv_us h) < 2 ^ 63"
    and "hwtv_clock_drift h \<in> {0, PCAN_CLOCK_DRIFT_SCALE} \<or> hwtv_ts_mode h = PCANFD_OPT_HWTIMESTAMP_ON"
  shows "hw_offset h = Some (int (unat (hwtv_ts_us h)) - int (unat (hwtv_tv_us h)))"
proof -
  have "sint (if hwtv_ts_us h < hwtv_tv_us h then - (hwtv_tv_us h - hwtv_ts_us h)
      else hwtv_ts_us h - hwtv_tv_us h) = int (unat (hwtv_ts_us h)) - int (unat (hwtv_tv_us h))"
    using sint_u64_diff [OF assms(1,2)] by simp
  then show ?thesis using assms(3) by (auto simp: hw_offset_def Let_def)
qed

lemma fix_future_spec:
  assumes "tv_norm now" "tv_norm (timestamp pm)"
    and "\<bar>tv_total (timestamp pm) - tv_total now\<bar> < 2 ^ 63"
  shows "tv_norm (timestamp (snd (fix_future now dev pm))) \<and>
    tv_total (timestamp (snd (fix_future now dev pm))) = min (tv_total (timestamp pm)) (tv_total now) \<and>
    msg_flags (snd (fix_future now dev pm)) =
      (if tv_total (timestamp pm) - tv_total now < 100 then msg_flags pm
       else clr_flag (msg_flags pm) PCANFD_HWTIMESTAMP)"
proof -
  have d: "timeval_diff (timestamp pm) now = tv_total (timestamp pm) - tv_total now"
    by (rule timeval_diff_exact [OF assms(3)])
  have n: "\<not> (USEC_PER_SEC \<le> tv_usec (timestamp pm) \<or> tv_usec (timestamp pm) < 0)"
    using assms(2) by (simp add: tv_norm_def)
  show ?thesis using assms(1,2) n by (auto simp: fix_future_def Let_def d)
qed

section \<open>Properties\<close>

text \<open>A channel for the witnesses: zeroed memory, and two rings of four entries.\<close>

definition blank_fifo :: "'a \<Rightarrow> 'a FIFO_MANAGER" where
  "blank_fifo x = fst (pcan_fifo_init
     \<lparr>wStepSize = 0, wCopySize = 0, fifo_flags = 0, bufferBegin = 0, bufferEnd = 0, nCount = 0,
      nStored = 0, dwTotal = 0, fifo_r = 0, fifo_w = 0, fifo_cells = (\<lambda>_. x)\<rparr> 1000 1600 4 200)"

definition blank_dev :: pcandev where
  "blank_dev = \<lparr>nOpenPaths = 0, nMinor = 0, wType = 0, nChannel = 0, ts_mode = 0, dev_flags = 0,
     tx_iframe_delay_us = 0, bus_load_ind_period = 0, bus_load_timer = None, bus_load_count = 0,
     bus_load_total = 0, allowed_msgs = 0, sysclock_Hz = 8000000, clocks_list = [8000000],
     bittiming_caps = sja1000_capabilities, dbittiming_caps = None, time_sync = zero_time_sync,
     device_alt_num = 0, acc_11b_code = 0, acc_11b_mask = 0, acc_29b_code = 0, acc_29b_mask = 0,
     in_event = 0, readFifo = blank_fifo \<lparr>rx_msg = zero_msg, rx_hwtv = zero_hwtv\<rparr>,
     out_event = 0, writeFifo = blank_fifo \<lparr>tx_msg = zero_msg, tx_tv = zero_timeval\<rparr>,
     locked_tx_engine_state = 0, bus_load = 0, prev_bus_load = 0, nLastError = 0, bus_state = 0,
     bus_error = 0, dwErrorCounter = 0, dwInterruptCounter = 0, rx_frames_counter = 0,
     tx_frames_counter = 0, def_init_settings = zero_init, init_timestamp = zero_timeval,
     init_settings = zero_init, dev_filter = pcan_create_filter_chain True, wCANStatus = 0,
     is_plugged = True, rx_error_counter = 0, tx_error_counter = 0, prev_rx_error_counter = 0,
     prev_tx_error_counter = 0, ucActivityState = 0, ucExternalClock = 1, ucMasterDevice = 0, io_log = []\<rparr>"

lemma blank_fifo_inv: "ring_inv (blank_fifo x) \<and> fifo_items (blank_fifo x) = [] \<and> fifo_cap (blank_fifo x) = 4"
  using ring_inv_init [of 4 200 200 "\<lparr>wStepSize = 0, wCopySize = 0, fifo_flags = 0, bufferBegin = 0,
      bufferEnd = 0, nCount = 0, nStored = 0, dwTotal = 0, fifo_r = 0, fifo_w = 0, fifo_cells = (\<lambda>_. x)\<rparr>" 1000]
  by (auto simp: blank_fifo_def)

text \<open>A message read in one of the hardware timestamp modes gets a well-formed time that is
  never later than the host's: the device time, or the current time when the device time lies in the
  future. The message is marked as having a hardware timestamp exactly when the device time is less
  than 100 microseconds ahead.\<close>

theorem timestamp_not_future:
  assumes "hwtv_ts_mode (rx_hwtv pqm) \<in> {PCANFD_OPT_HWTIMESTAMP_ON, PCANFD_OPT_HWTIMESTAMP_COOKED}"
    and "tv_norm now" "hw_offset (rx_hwtv pqm) = Some off"
    and "\<bar>tv_total (hwtv_tv (rx_hwtv pqm)) + off - tv_total now\<bar> < 2 ^ 63"
  shows "\<exists>dev' rx. pcan_sync_timestamps now dev pqm = Some (dev', rx) \<and>
    tv_norm (timestamp (rx_msg rx)) \<and>
    tv_total (timestamp (rx_msg rx)) = min (tv_total (hwtv_tv (rx_hwtv pqm)) + off) (tv_total now) \<and>
    has_flag (msg_flags (rx_msg rx)) PCANFD_TIMESTAMP \<and>
    (has_flag (msg_flags (rx_msg rx)) PCANFD_HWTIMESTAMP
       \<longleftrightarrow> tv_total (hwtv_tv (rx_hwtv pqm)) + off - tv_total now < 100)"
proof -
  let ?pm = "(rx_msg pqm)\<lparr>msg_flags := set_flag (msg_flags (rx_msg pqm)) (PCANFD_TIMESTAMP OR PCANFD_HWTIMESTAMP),
      timestamp := timeval_add_us (hwtv_tv (rx_hwtv pqm)) off\<rparr>"
  have tot: "tv_total (timestamp ?pm) = tv_total (hwtv_tv (rx_hwtv pqm)) + off"
    by (simp add: timeval_add_us_total)
  have F: "tv_norm (timestamp (snd (fix_future now dev ?pm)))"
    "tv_total (timestamp (snd (fix_future now dev ?pm))) = min (tv_total (hwtv_tv (rx_hwtv pqm)) + off) (tv_total now)"
    "msg_flags (snd (fix_future now dev ?pm)) =
       (if tv_total (hwtv_tv (rx_hwtv pqm)) + off - tv_total now < 100 then msg_flags ?pm
        else clr_flag (msg_flags ?pm) PCANFD_HWTIMESTAMP)"
    using fix_future_spec [of now ?pm dev] assms(2,4) tot by (simp_all add: timeval_add_us_norm)
  have fl: "has_flag (msg_flags ?pm) PCANFD_TIMESTAMP" "has_flag (msg_flags ?pm) PCANFD_HWTIMESTAMP"
    by (simp_all add: has_flag_def set_flag_def word_ao_dist)
  have "has_flag (clr_flag (msg_flags ?pm) PCANFD_HWTIMESTAMP) PCANFD_TIMESTAMP"
    using fl(1) by (subst has_flag_clr_disjoint) simp_all
  moreover have "pcan_sync_timestamps now dev pqm =
      Some (fst (fix_future now dev ?pm), pqm\<lparr>rx_msg := snd (fix_future now dev ?pm)\<rparr>)"
    using assms(1,3) by (auto simp: pcan_sync_timestamps_def Let_def split: prod.splits)
  ultimately show ?thesis using F fl by (auto simp: has_flag_clr_same)
qed

theorem timestamp_not_future_witness:
  "\<exists>dev' rx. pcan_sync_timestamps \<lparr>tv_sec = 100, tv_usec = 7\<rparr> blank_dev
       \<lparr>rx_msg = zero_msg, rx_hwtv = \<lparr>hwtv_tv = \<lparr>tv_sec = 99, tv_usec = 999999\<rparr>, hwtv_tv_us = 50,
          hwtv_ts_us = 60, hwtv_ts_mode = 1, hwtv_clock_drift = 0\<rparr>\<rparr> = Some (dev', rx) \<and>
     tv_total (timestamp (rx_msg rx)) = 100000007"
proof -
  let ?h = "\<lparr>hwtv_tv = \<lparr>tv_sec = 99, tv_usec = 999999\<rparr>, hwtv_tv_us = 50,
          hwtv_ts_us = 60, hwtv_ts_mode = 1, hwtv_clock_drift = 0\<rparr>"
  have "hw_offset ?h = Some 10" by (simp add: hw_offset_def)
  with timestamp_not_future [of "\<lparr>rx_msg = zero_msg, rx_hwtv = ?h\<rparr>" "\<lparr>tv_sec = 100, tv_usec = 7\<rparr>" 10 blank_dev]
  show ?thesis by (auto simp: tv_norm_def tv_total_def)
qed

text \<open>C35. With a device clock that runs like the host's, any sequence of synchronisations leaves the
  conversion exact: the base time and the offset of an event at device time \<open>t\<close> add up to the host
  time of the event.\<close>

theorem sync_exact:
  assumes "sync_steps c d0 d" "sync_ts_us (time_sync d0) = 0"
    and "pcan_sync_decode now d lo hi h0 = (h, 1)"
    and "0 \<le> tv_total (sync_tv (time_sync d)) - c" "tv_total (sync_tv (time_sync d)) - c < 2 ^ 63"
    and "unat (dev_time lo hi) < 2 ^ 63"
  shows "\<exists>off. hw_offset h = Some off \<and>
    tv_total (hwtv_tv h) + off = c + int (unat (dev_time lo hi))"
proof -
  let ?base = "tv_total (sync_tv (time_sync d)) - c"
  have run: "sync_ts_us (time_sync d) \<noteq> 0"
      and h: "hwtv_ts_us h = dev_time lo hi" "hwtv_tv h = sync_tv (time_sync d)"
        "hwtv_tv_us h = sync_ts_us (time_sync d)" "hwtv_clock_drift h = sync_clock_drift (time_sync d)"
    using assms(3) by (auto simp: pcan_sync_decode_def dev_time_or split: if_splits)
  have base: "sync_ts_us (time_sync d) = of_int ?base"
      "sync_clock_drift (time_sync d) \<in> {0, PCAN_CLOCK_DRIFT_SCALE}"
    using sync_steps_inv [OF assms(1,2)] run by (auto simp: sync_inv_def)
  have ub: "int (unat (sync_ts_us (time_sync d))) = ?base"
    unfolding base(1) using assms(4,5) by (rule int_unat_of_int64)
  then have "unat (sync_ts_us (time_sync d)) < 2 ^ 63" using assms(5) by (rule int_eq_less63)
  then have "hw_offset h = Some (int (unat (dev_time lo hi)) - ?base)"
    using hw_offset_exact [of h] h base(2) assms(6) ub by auto
  then show ?thesis using h(2) by simp
qed

theorem sync_exact_witness:
  "\<exists>d h. sync_steps 0 (blank_dev\<lparr>ts_mode := 2\<rparr>) d \<and>
     pcan_sync_decode zero_timeval d 5000200 0 zero_hwtv = (h, 1) \<and>
     (\<exists>off. hw_offset h = Some off \<and> tv_total (hwtv_tv h) + off = 5000200)"
proof -
  let ?d0 = "blank_dev\<lparr>ts_mode := 2\<rparr> :: pcandev"
  define d where "d = fst (pcan_sync_times \<lparr>tv_sec = 5, tv_usec = 0\<rparr> 0 ?d0 5000000 0 0)"
  have s: "sync_steps 0 ?d0 d" unfolding d_def
    by (rule sync_steps.step [OF sync_steps.refl]) (simp add: dev_time_def tv_total_def)
  have ts: "time_sync d = zero_time_sync\<lparr>sync_ts_us := 5000000, sync_tv := \<lparr>tv_sec = 5, tv_usec = 0\<rparr>\<rparr>"
      "ts_mode d = 2"
    by (simp_all add: d_def pcan_sync_times_def zero_time_sync_def blank_dev_def)
  obtain h where h: "pcan_sync_decode zero_timeval d 5000200 0 zero_hwtv = (h, 1)"
    by (simp add: pcan_sync_decode_def ts)
  have "\<exists>off. hw_offset h = Some off \<and> tv_total (hwtv_tv h) + off = 0 + int (unat (dev_time 5000200 0))"
    by (rule sync_exact [OF s _ h]) (simp_all add: ts zero_time_sync_def tv_total_def dev_time_def blank_dev_def)
  then show ?thesis using s h by (auto simp: dev_time_def)
qed

end
