(* ===== verification/Pcan_Rx.thy ===== *)
theory Pcan_Rx
  imports Pcan_Device
begin

text \<open>
  The receive path of \<^verbatim>\<open>driver/src/pcan_main.c\<close>: \<open>pcan_chardev_rx\<close>, which decides whether a
  message of the hardware reaches the receive FIFO of the applications, and the handlers that turn
  bus and controller conditions into the state of the channel and into STATUS and ERROR messages.
  \<^verbatim>\<open>PCAN_LIMIT_STATUS_FLOODING\<close> and \<^verbatim>\<open>PCAN_WRITES_ON_ACTIVE\<close> are defined, as in the sources;
  the network device variant is not compiled in. Arguments: \<open>now\<close> is the host clock, \<open>drv\<close> the
  time the driver was loaded (\<^verbatim>\<open>pcan_drv.sInitTime\<close>).
\<close>

section \<open>Times relative to the driver or the device\<close>

definition subtract_timeval :: "timeval \<Rightarrow> timeval \<Rightarrow> timeval \<times> bool" where
  "subtract_timeval x y =
     (if tv_usec y \<le> tv_usec x \<or> tv_sec x \<noteq> 0 then
        (let x = (if tv_usec y \<le> tv_usec x then x\<lparr>tv_usec := tv_usec x - tv_usec y\<rparr>
                  else x\<lparr>tv_sec := tv_sec x - 1, tv_usec := tv_usec x + (USEC_PER_SEC - tv_usec y)\<rparr>)
         in if tv_sec y \<le> tv_sec x then (x\<lparr>tv_sec := tv_sec x - tv_sec y\<rparr>, True) else (x, False))
      else (x, False))"

definition to_drv_rel_time :: "timeval \<Rightarrow> timeval \<Rightarrow> timeval" where
  "to_drv_rel_time drv tv =
     (let (tv, ok) = subtract_timeval tv drv in if \<not> ok then zero_timeval else tv)"

definition to_dev_rel_time :: "pcandev \<Rightarrow> timeval \<Rightarrow> timeval" where
  "to_dev_rel_time dev tv =
     (let (tv, ok) = subtract_timeval tv (init_timestamp dev) in if \<not> ok then zero_timeval else tv)"

section \<open>Limiting STATUS messages\<close>

definition pcan_do_patch_rxmsg :: "pcanfd_rxmsg \<Rightarrow> pcanfd_rxmsg \<Rightarrow> pcanfd_rxmsg \<times> pcanfd_rxmsg \<times> int" where
  "pcan_do_patch_rxmsg fifo rx =
     (if msg_type (rx_msg fifo) = msg_type (rx_msg rx) \<and> msg_id (rx_msg fifo) = msg_id (rx_msg rx) \<and>
         msg_flags (rx_msg fifo) = msg_flags (rx_msg rx) \<and>
         data_len (rx_msg fifo) = data_len (rx_msg rx)
      then (rx, rx, - EEXIST) else (fifo, rx, - ENOENT))"

definition pcan_do_patch_last :: "pcanfd_rxmsg \<Rightarrow> pcanfd_rxmsg \<Rightarrow> pcanfd_rxmsg \<times> pcanfd_rxmsg \<times> int" where
  "pcan_do_patch_last fifo_msg new_msg = (new_msg, new_msg, - EEXIST)"

text \<open>The error counters do not match the bus state.\<close>

definition counters_mismatch :: "pcandev \<Rightarrow> bool" where
  "counters_mismatch dev \<longleftrightarrow>
     (if bus_state dev = PCANFD_ERROR_ACTIVE then 96 \<le> rx_error_counter dev \<or> 96 \<le> tx_error_counter dev
      else if bus_state dev = PCANFD_ERROR_WARNING then
        128 \<le> rx_error_counter dev \<or> 128 \<le> tx_error_counter dev \<or>
        rx_error_counter dev < 96 \<and> tx_error_counter dev < 96
      else if bus_state dev = PCANFD_ERROR_PASSIVE then
        rx_error_counter dev < 128 \<and> tx_error_counter dev < 128
      else False)"

definition pcan_status_rx :: "pcandev \<Rightarrow> pcanfd_rxmsg \<Rightarrow> pcandev \<times> pcanfd_rxmsg \<times> int" where
  "pcan_status_rx dev pf =
     (if bus_state dev = msg_id (rx_msg pf) \<and> rx_error_counter dev = prev_rx_error_counter dev \<and>
         tx_error_counter dev = prev_tx_error_counter dev
      then (dev, pf, - EEXIST)
      else
        let pf = pf\<lparr>rx_msg := (rx_msg pf)\<lparr>msg_data := replicate PCANFD_MAXDATALEN 0, data_len := 0\<rparr>\<rparr>
        in if has_flag (dev_flags dev) PCAN_DEV_ERRCNT_RDY \<and> counters_mismatch dev
           then (dev, pf, - EINVAL)
           else (dev\<lparr>prev_rx_error_counter := rx_error_counter dev,
                     prev_tx_error_counter := tx_error_counter dev\<rparr>, pf, 0))"

definition pcan_error_rx :: "pcandev \<Rightarrow> pcanfd_rxmsg \<Rightarrow> pcandev \<times> int" where
  "pcan_error_rx dev rx =
     (if msg_id (rx_msg rx) = bus_error dev then
        if \<not> has_flag (msg_flags (rx_msg rx)) PCANFD_ERRCNT then (dev, - EEXIST)
        else if prev_rx_error_counter dev = rx_error_counter dev \<and>
                prev_tx_error_counter dev = tx_error_counter dev then (dev, - EEXIST)
        else (dev\<lparr>prev_rx_error_counter := rx_error_counter dev,
                  prev_tx_error_counter := tx_error_counter dev, bus_error := msg_id (rx_msg rx)\<rparr>, 0)
      else (dev\<lparr>bus_error := msg_id (rx_msg rx)\<rparr>, 0))"

definition pcan_status_normalize_rx :: "pcanfd_rxmsg \<Rightarrow> pcanfd_rxmsg" where
  "pcan_status_normalize_rx rx =
     (if \<not> has_flag (msg_flags (rx_msg rx)) PCANFD_ERRCNT then rx
      else
        let rxcnt = ctrlr_data (rx_msg rx) ! PCANFD_RXERRCNT;
            txcnt = ctrlr_data (rx_msg rx) ! PCANFD_TXERRCNT;
            i = msg_id (rx_msg rx);
            i = (if i = PCANFD_ERROR_ACTIVE \<and> \<not> (rxcnt < 96 \<and> txcnt < 96) then PCANFD_ERROR_WARNING else i);
            i = (if i = PCANFD_ERROR_WARNING \<and> \<not> (rxcnt < 128 \<and> txcnt < 128) then PCANFD_ERROR_PASSIVE else i)
        in rx\<lparr>rx_msg := (rx_msg rx)\<lparr>msg_id := i\<rparr>\<rparr>)"

section \<open>Errors that are found inside the driver\<close>

definition pcan_handle_error_internal ::
  "pcandev \<Rightarrow> pcanfd_rxmsg \<Rightarrow> u32 \<Rightarrow> pcandev \<times> pcanfd_rxmsg" where
  "pcan_handle_error_internal dev rx err_internal =
     (let rx = rx\<lparr>rx_msg := (rx_msg rx)\<lparr>msg_type := PCANFD_TYPE_STATUS,
                    msg_flags := PCANFD_ERROR_INTERNAL, msg_id := err_internal, data_len := 0\<rparr>\<rparr>;
          bits = (if err_internal = PCANFD_RX_OVERFLOW then CAN_ERR_OVERRUN
                  else if err_internal = PCANFD_TX_OVERFLOW then CAN_ERR_XMTFULL
                  else CAN_ERR_RESOURCE)
      in (dev\<lparr>wCANStatus := set_flag (wCANStatus dev) bits,
              dwErrorCounter := dwErrorCounter dev + 1\<rparr>, rx))"

section \<open>The receive path\<close>

text \<open>The first \<^verbatim>\<open>switch\<close> of \<open>pcan_chardev_rx\<close>: the flag tells whether the message goes on.\<close>

definition rx_admit :: "pcandev \<Rightarrow> pcanfd_rxmsg \<Rightarrow> pcandev \<times> bool" where
  "rx_admit dev rx =
     (let m = rx_msg rx; t = msg_type m
      in if t = PCANFD_TYPE_NOP then (dev, False)
         else if t = PCANFD_TYPE_STATUS then
           (if msg_id m = PCANFD_BUS_LOAD then
              (dev\<lparr>bus_load_total := bus_load_total dev + of_int (bus_load dev),
                   bus_load_count := bus_load_count dev + 1\<rparr>, False)
            else (dev, has_flag (allowed_msgs dev) PCANFD_ALLOWED_MSG_STATUS))
         else if t = PCANFD_TYPE_ERROR_MSG then (dev, has_flag (allowed_msgs dev) PCANFD_ALLOWED_MSG_ERROR)
         else if t = PCANFD_TYPE_CAN20_MSG \<or> t = PCANFD_TYPE_CANFD_MSG then
           (let dev = dev\<lparr>rx_frames_counter := rx_frames_counter dev + 1\<rparr>
            in if \<not> has_flag (allowed_msgs dev) PCANFD_ALLOWED_MSG_CAN then (dev, False)
               else if has_flag (msg_flags m) PCANFD_MSG_EXT \<and>
                       (\<not> has_flag (allowed_msgs dev) PCANFD_ALLOWED_MSG_EXT \<or>
                        msg_id m AND NOT (acc_29b_mask dev) \<noteq> acc_29b_code dev) then (dev, False)
               else if \<not> has_flag (msg_flags m) PCANFD_MSG_EXT \<and>
                       msg_id m AND NOT (acc_11b_mask dev) \<noteq> acc_11b_code dev then (dev, False)
               else if has_flag (msg_flags m) PCANFD_MSG_RTR \<and>
                       \<not> has_flag (allowed_msgs dev) PCANFD_ALLOWED_MSG_RTR then (dev, False)
               else (dev, True))
         else (dev, True))"

text \<open>The time base and the controller data of the message.\<close>

definition rx_stamp :: "timeval \<Rightarrow> timeval \<Rightarrow> pcandev \<Rightarrow> pcanfd_rxmsg \<Rightarrow> pcanfd_rxmsg" where
  "rx_stamp now drv dev rx =
     (let h = rx_hwtv rx;
          h = (if \<not> has_flag (msg_flags (rx_msg rx)) PCANFD_TIMESTAMP
               then h\<lparr>hwtv_ts_mode := PCANFD_OPT_HWTIMESTAMP_OFF, hwtv_tv := now\<rparr> else h);
          fmt = init_flags (init_settings dev) AND PCANFD_INIT_TS_FMT_MASK;
          h = (if hwtv_ts_mode h \<noteq> PCANFD_OPT_HWTIMESTAMP_RAW then
                 (if fmt = PCANFD_INIT_TS_DRV_REL then h\<lparr>hwtv_tv := to_drv_rel_time drv (hwtv_tv h)\<rparr>
                  else if fmt = PCANFD_INIT_TS_DEV_REL then h\<lparr>hwtv_tv := to_dev_rel_time dev (hwtv_tv h)\<rparr>
                  else h)
               else h)
      in rx\<lparr>rx_hwtv := h\<rparr>)"

definition rx_ctrlr_data :: "pcandev \<Rightarrow> pcanfd_msg \<Rightarrow> pcanfd_msg" where
  "rx_ctrlr_data dev m =
     (let m = (if has_flag (dev_flags dev) PCAN_DEV_BUSLOAD_RDY
               then m\<lparr>ctrlr_data := (ctrlr_data m)[PCANFD_BUSLOAD_UNIT := of_int (c_div (bus_load dev) 100),
                        PCANFD_BUSLOAD_DEC := of_int (c_mod (bus_load dev) 100)],
                      msg_flags := set_flag (msg_flags m) PCANFD_BUSLOAD\<rparr>
               else m\<lparr>msg_flags := clr_flag (msg_flags m) PCANFD_BUSLOAD\<rparr>)
      in if has_flag (dev_flags dev) PCAN_DEV_ERRCNT_RDY
         then m\<lparr>ctrlr_data := (ctrlr_data m)[PCANFD_RXERRCNT := rx_error_counter dev,
                  PCANFD_TXERRCNT := tx_error_counter dev],
                msg_flags := set_flag (msg_flags m) PCANFD_ERRCNT\<rparr>
         else m\<lparr>msg_flags := clr_flag (msg_flags m) PCANFD_ERRCNT\<rparr>)"

text \<open>The second \<^verbatim>\<open>switch\<close>: filters, and the limits for STATUS and ERROR messages.\<close>

definition rx_limit :: "pcandev \<Rightarrow> pcanfd_rxmsg \<Rightarrow> pcandev \<times> pcanfd_rxmsg \<times> bool" where
  "rx_limit dev rx =
     (let t = msg_type (rx_msg rx); i = msg_id (rx_msg rx)
      in if t = PCANFD_TYPE_CAN20_MSG \<or> t = PCANFD_TYPE_CANFD_MSG then
           (dev, rx, pcan_do_filter (dev_filter dev) rx = 0)
         else if t = PCANFD_TYPE_STATUS then
           (let rx = (if i = PCANFD_ERROR_ACTIVE \<or> i = PCANFD_ERROR_WARNING \<or> i = PCANFD_ERROR_PASSIVE
                      then pcan_status_normalize_rx rx else rx);
                (dev, rx, err) = (if PCANFD_ERROR_ACTIVE \<le> i \<and> i \<le> PCANFD_ERROR_BUSOFF
                                  then pcan_status_rx dev rx else (dev, rx, 0))
            in if err = - EEXIST then (dev, rx, False)
               else let (fifo, rx, err) = pcan_fifo_foreach_back pcan_do_patch_rxmsg rx (readFifo dev)
                    in (dev\<lparr>readFifo := fifo\<rparr>, rx, err \<noteq> - EEXIST))
         else if t = PCANFD_TYPE_ERROR_MSG then
           (let (dev, err) = pcan_error_rx dev rx in (dev, rx, err \<noteq> - EEXIST))
         else (dev, rx, True))"

text \<open>The message is queued, or the last queued message becomes a notice of the overflow.\<close>

definition rx_post :: "pcandev \<Rightarrow> pcanfd_rxmsg \<Rightarrow> pcandev \<times> pcanfd_rxmsg \<times> int" where
  "rx_post dev rx =
     (let (fifo, err) = pcan_fifo_put rx (readFifo dev); dev = dev\<lparr>readFifo := fifo\<rparr>
      in if 0 \<le> err then (dev, rx, 1)
         else
           let (dev, rx) = pcan_handle_error_internal dev rx PCANFD_RX_OVERFLOW;
               (fifo, rx, _) = pcan_fifo_foreach_back pcan_do_patch_last rx (readFifo dev)
           in (dev\<lparr>readFifo := fifo\<rparr>, rx, err))"

definition pcan_chardev_rx ::
  "timeval \<Rightarrow> timeval \<Rightarrow> pcandev \<Rightarrow> pcanfd_rxmsg \<Rightarrow> pcandev \<times> pcanfd_rxmsg \<times> int" where
  "pcan_chardev_rx now drv dev rx =
     (let (dev, go) = rx_admit dev rx
      in if \<not> go then (dev, rx, 0)
         else if nOpenPaths dev \<le> 0 then (dev, rx, 0)
         else if has_flag (wCANStatus dev) CAN_ERR_OVERRUN then (dev, rx, - ENOSPC)
         else
           let rx = rx_stamp now drv dev rx;
               rx = rx\<lparr>rx_msg := rx_ctrlr_data dev (rx_msg rx)\<rparr>;
               (dev, rx, go) = rx_limit dev rx
           in if \<not> go then (dev, rx, 0) else rx_post dev rx)"

text \<open>What the callers do with the result: they wake up the readers.\<close>

definition rx_deliver :: "timeval \<Rightarrow> timeval \<Rightarrow> pcandev \<Rightarrow> pcanfd_rxmsg \<Rightarrow> pcandev" where
  "rx_deliver now drv dev rx =
     (let (dev, rx, err) = pcan_chardev_rx now drv dev rx
      in if 0 < err then signal_in dev else dev)"

text \<open>The timer of the bus load indications.\<close>

definition pcan_push_bus_load_ind :: "timeval \<Rightarrow> u64 \<Rightarrow> pcandev \<Rightarrow> pcandev" where
  "pcan_push_bus_load_ind now jiffies dev =
     (if bus_state dev = PCANFD_UNKNOWN \<or>
         \<not> has_flag (init_flags (init_settings dev)) PCANFD_INIT_BUS_LOAD_INFO then dev
      else
        let bl = (if bus_load_count dev \<noteq> 0 then sint (bus_load_total dev div bus_load_count dev)
                  else bus_load dev);
            dev =
              (if bl \<noteq> prev_bus_load dev then
                 let cd = replicate 4 0;
                     dev = dev\<lparr>bus_load_total := 0, bus_load_count := 0, prev_bus_load := bl\<rparr>;
                     cd = cd[PCANFD_BUSLOAD_UNIT := of_int (c_div bl 100), PCANFD_BUSLOAD_DEC := of_int (c_mod bl 100)];
                     cd = (if has_flag (dev_flags dev) PCAN_DEV_ERRCNT_RDY
                           then cd[PCANFD_RXERRCNT := rx_error_counter dev, PCANFD_TXERRCNT := tx_error_counter dev]
                           else cd);
                     fl = (if has_flag (dev_flags dev) PCAN_DEV_ERRCNT_RDY
                           then set_flag PCANFD_BUSLOAD PCANFD_ERRCNT else PCANFD_BUSLOAD);
                     rx = \<lparr>rx_msg = zero_msg\<lparr>msg_type := PCANFD_TYPE_STATUS, msg_id := PCANFD_BUS_LOAD,
                             msg_flags := fl, ctrlr_data := cd\<rparr>,
                           rx_hwtv = zero_hwtv\<lparr>hwtv_ts_mode := PCANFD_OPT_HWTIMESTAMP_OFF, hwtv_tv := now\<rparr>\<rparr>;
                     (fifo, err) = pcan_fifo_put rx (readFifo dev);
                     dev = dev\<lparr>readFifo := fifo\<rparr>
                 in if 0 \<le> err then signal_in dev else dev
               else dev)
        in dev\<lparr>bus_load_timer := Some (jiffies + bus_load_ind_period dev)\<rparr>)"

section \<open>The state of the bus\<close>

definition pcan_init_session_counters :: "pcandev \<Rightarrow> pcandev" where
  "pcan_init_session_counters dev = dev\<lparr>
     rx_error_counter := 0, tx_error_counter := 0, prev_rx_error_counter := 1, prev_tx_error_counter := 1,
     bus_load := 0, prev_bus_load := 1, bus_error := PCANFD_ERRMSG_COUNT,
     wCANStatus := clr_flag (wCANStatus dev) (CAN_ERR_BUSOFF OR CAN_ERR_BUSHEAVY OR CAN_ERR_BUSLIGHT)\<rparr>"

definition mark_state_change :: "pcandev \<Rightarrow> u32 \<Rightarrow> pcandev" where
  "mark_state_change dev bs = dev\<lparr>bus_state := bs,
     prev_rx_error_counter := rx_error_counter dev + 1, prev_tx_error_counter := tx_error_counter dev + 1\<rparr>"

definition pcan_set_bus_state :: "pcandev \<Rightarrow> u32 \<Rightarrow> pcandev" where
  "pcan_set_bus_state dev bs =
     (if bs = bus_state dev then dev
      else if bs = PCANFD_ERROR_ACTIVE \<or> bs = PCANFD_UNKNOWN then
        mark_state_change (pcan_init_session_counters dev) bs
      else if bs = PCANFD_ERROR_WARNING then
        mark_state_change (dev\<lparr>wCANStatus := set_flag (wCANStatus dev) CAN_ERR_BUSLIGHT\<rparr>) bs
      else if bs = PCANFD_ERROR_PASSIVE then
        mark_state_change (dev\<lparr>wCANStatus := set_flag (wCANStatus dev) CAN_ERR_BUSHEAVY\<rparr>) bs
      else if bs = PCANFD_ERROR_BUSOFF then
        mark_state_change (dev\<lparr>wCANStatus := set_flag (wCANStatus dev) CAN_ERR_BUSOFF,
                               dwErrorCounter := dwErrorCounter dev + 1\<rparr>) bs
      else dev)"

definition pcan_handle_busoff :: "pcandev \<Rightarrow> pcanfd_rxmsg \<Rightarrow> pcandev \<times> pcanfd_rxmsg \<times> int" where
  "pcan_handle_busoff dev rx =
     (if bus_state dev = PCANFD_ERROR_BUSOFF then
        (dev, rx\<lparr>rx_msg := (rx_msg rx)\<lparr>msg_type := PCANFD_TYPE_NOP\<rparr>\<rparr>, 0)
      else
        let dev = pcan_set_bus_state dev PCANFD_ERROR_BUSOFF
        in (signal_out dev,
            rx\<lparr>rx_msg := (rx_msg rx)\<lparr>msg_type := PCANFD_TYPE_STATUS, msg_flags := PCANFD_ERROR_BUS,
                 msg_id := PCANFD_ERROR_BUSOFF\<rparr>\<rparr>, 1))"

text \<open>Starting to write (\<^verbatim>\<open>__pcan_dev_start_writing\<close> of \<^verbatim>\<open>driver/src/pcanfd_core.c\<close>): only when
  the bus state is known and the transmit engine is stopped.\<close>

definition pcan_dev_start_writing :: "dev_ops \<Rightarrow> pcandev \<Rightarrow> pcandev \<times> int" where
  "pcan_dev_start_writing ops dev =
     (if bus_state dev = PCANFD_UNKNOWN then (dev, 0)
      else
        let (dev, err) = (if locked_tx_engine_state dev = TX_ENGINE_STOPPED then op_device_write ops dev
                          else (dev, 0))
        in (dev, if err = - ENODATA then 0 else err))"

definition pcan_handle_error_active ::
  "dev_ops \<Rightarrow> pcandev \<Rightarrow> pcanfd_rxmsg option \<Rightarrow> pcandev \<times> pcanfd_rxmsg option" where
  "pcan_handle_error_active ops dev rx =
     (let bs = bus_state dev;
          rx = map_option (\<lambda>rx. rx\<lparr>rx_msg :=
                 (if bs \<noteq> PCANFD_ERROR_ACTIVE then
                    (rx_msg rx)\<lparr>msg_type := PCANFD_TYPE_STATUS, msg_flags := PCANFD_ERROR_BUS,
                       msg_id := PCANFD_ERROR_ACTIVE, msg_data := replicate PCANFD_MAXDATALEN 0\<rparr>
                  else (rx_msg rx)\<lparr>msg_type := PCANFD_TYPE_NOP\<rparr>)\<rparr>) rx;
          dev = pcan_set_bus_state dev PCANFD_ERROR_ACTIVE;
          dev = (if bs = PCANFD_UNKNOWN then fst (pcan_dev_start_writing ops dev) else dev)
      in (dev, rx))"

text \<open>The message on the stack is not initialised; its first content is an argument.\<close>

definition pcan_soft_error_active ::
  "timeval \<Rightarrow> timeval \<Rightarrow> dev_ops \<Rightarrow> pcanfd_rxmsg \<Rightarrow> pcandev \<Rightarrow> pcandev" where
  "pcan_soft_error_active now drv ops stack dev =
     (case pcan_handle_error_active ops dev (Some stack) of
        (dev, Some rx) \<Rightarrow> rx_deliver now drv dev rx
      | (dev, None) \<Rightarrow> dev)"

definition pcan_handle_error_status ::
  "pcandev \<Rightarrow> pcanfd_rxmsg \<Rightarrow> bool \<Rightarrow> bool \<Rightarrow> pcandev \<times> pcanfd_rxmsg \<times> int" where
  "pcan_handle_error_status dev rx err_warning err_passive =
     (let m = (rx_msg rx)\<lparr>msg_type := PCANFD_TYPE_STATUS, msg_flags := PCANFD_ERROR_BUS\<rparr>
      in if err_passive \<or> err_warning then
           (let i = (if err_passive then PCANFD_ERROR_PASSIVE else PCANFD_ERROR_WARNING);
                dev = dev\<lparr>dwErrorCounter := dwErrorCounter dev + 1\<rparr>
            in (pcan_set_bus_state dev i, rx\<lparr>rx_msg := m\<lparr>msg_id := i\<rparr>\<rparr>, 1))
         else if bus_state dev = PCANFD_ERROR_ACTIVE then
           (dev, rx\<lparr>rx_msg := m\<lparr>msg_type := PCANFD_TYPE_NOP\<rparr>\<rparr>, 1)
         else (dev, rx\<lparr>rx_msg := m\<rparr>, 0))"

text \<open>The controller, protocol and error frame conditions; \<open>None\<close> is a null message pointer.\<close>

definition pcan_handle_error_ctrl :: "pcandev \<Rightarrow> pcanfd_rxmsg option \<Rightarrow> u32 \<Rightarrow> pcandev \<times> pcanfd_rxmsg option" where
  "pcan_handle_error_ctrl dev rx err_ctrlr =
     (let rx = map_option (\<lambda>rx. rx\<lparr>rx_msg := (rx_msg rx)\<lparr>msg_type := PCANFD_TYPE_STATUS,
                  msg_flags := PCANFD_ERROR_CTRLR, msg_id := err_ctrlr, data_len := 0\<rparr>\<rparr>) rx;
          bits = (if err_ctrlr = PCANFD_RX_OVERFLOW then CAN_ERR_QOVERRUN
                  else if err_ctrlr = PCANFD_RX_EMPTY then CAN_ERR_QRCVEMPTY
                  else if err_ctrlr = PCANFD_TX_OVERFLOW then CAN_ERR_QXMTFULL
                  else CAN_ERR_RESOURCE)
      in (dev\<lparr>wCANStatus := set_flag (wCANStatus dev) bits, dwErrorCounter := dwErrorCounter dev + 1\<rparr>, rx))"

definition pcan_handle_error_msg ::
  "pcandev \<Rightarrow> pcanfd_rxmsg option \<Rightarrow> u32 \<Rightarrow> u8 \<Rightarrow> bool \<Rightarrow> bool \<Rightarrow> pcandev \<times> pcanfd_rxmsg option" where
  "pcan_handle_error_msg dev rx err_type err_code err_rx err_gen =
     (dev\<lparr>dwErrorCounter := dwErrorCounter dev + 1\<rparr>,
      map_option (\<lambda>rx.
        let fl = msg_flags (rx_msg rx);
            fl = (if err_rx then set_flag fl PCANFD_ERRMSG_RX else fl);
            fl = (if err_gen then set_flag fl PCANFD_ERRMSG_GEN else fl)
        in rx\<lparr>rx_msg := (rx_msg rx)\<lparr>msg_type := PCANFD_TYPE_ERROR_MSG, msg_id := err_type,
             msg_flags := fl, data_len := 1, msg_data := (msg_data (rx_msg rx))[0 := err_code]\<rparr>\<rparr>) rx)"

definition pcan_handle_error_protocol ::
  "pcandev \<Rightarrow> pcanfd_rxmsg option \<Rightarrow> u32 \<Rightarrow> pcandev \<times> pcanfd_rxmsg option" where
  "pcan_handle_error_protocol dev rx err_protocol =
     (let rx = map_option (\<lambda>rx. rx\<lparr>rx_msg := (rx_msg rx)\<lparr>msg_type := PCANFD_TYPE_STATUS,
                  msg_flags := PCANFD_ERROR_PROTOCOL, msg_id := err_protocol, data_len := 0\<rparr>\<rparr>) rx;
          bits = (if err_protocol = PCANFD_RX_OVERFLOW then CAN_ERR_QOVERRUN
                  else if err_protocol = PCANFD_TX_OVERFLOW then CAN_ERR_QXMTFULL
                  else CAN_ERR_RESOURCE)
      in (dev\<lparr>wCANStatus := set_flag (wCANStatus dev) bits, dwErrorCounter := dwErrorCounter dev + 1\<rparr>, rx))"

definition pcan_clear_status_bit :: "timeval \<Rightarrow> timeval \<Rightarrow> pcandev \<Rightarrow> u16 \<Rightarrow> pcandev" where
  "pcan_clear_status_bit now drv dev bits =
     (if \<not> has_flag (wCANStatus dev) bits then dev
      else
        let dev = dev\<lparr>wCANStatus := clr_flag (wCANStatus dev) bits\<rparr>;
            rx = \<lparr>rx_msg = zero_msg\<lparr>msg_type := PCANFD_TYPE_STATUS, msg_id := bus_state dev,
                    msg_flags := PCANFD_ERROR_BUS\<rparr>, rx_hwtv = zero_hwtv\<rparr>;
            dev = dev\<lparr>prev_rx_error_counter := rx_error_counter dev + 1,
                      prev_tx_error_counter := tx_error_counter dev + 1\<rparr>
        in rx_deliver now drv dev rx)"

definition pcan_cleanup_dev :: "dev_ops \<Rightarrow> pcandev \<Rightarrow> pcandev" where
  "pcan_cleanup_dev ops dev =
     (let dev = (if \<not> has_flag (dev_flags dev) (PCAN_DEV_CLEANED OR PCAN_DEV_CLEANING) then
                   case op_cleanup ops of
                     None \<Rightarrow> dev
                   | Some cleanup \<Rightarrow>
                       fst (cleanup (dev\<lparr>dev_flags := set_flag (dev_flags dev) PCAN_DEV_CLEANING\<rparr>))
                 else dev)
      in dev\<lparr>dev_flags := set_flag (clr_flag (dev_flags dev) (PCAN_DEV_OPENED OR PCAN_DEV_CLEANING))
               PCAN_DEV_CLEANED\<rparr>)"

section \<open>Specification\<close>

text \<open>The conditions under which a CAN frame passes the message selection and the acceptance
  codes of the channel.\<close>

definition can_admitted :: "pcandev \<Rightarrow> pcanfd_msg \<Rightarrow> bool" where
  "can_admitted dev m \<longleftrightarrow>
     has_flag (allowed_msgs dev) PCANFD_ALLOWED_MSG_CAN \<and>
     (if has_flag (msg_flags m) PCANFD_MSG_EXT
      then has_flag (allowed_msgs dev) PCANFD_ALLOWED_MSG_EXT \<and>
           msg_id m AND NOT (acc_29b_mask dev) = acc_29b_code dev
      else msg_id m AND NOT (acc_11b_mask dev) = acc_11b_code dev) \<and>
     (has_flag (msg_flags m) PCANFD_MSG_RTR \<longrightarrow> has_flag (allowed_msgs dev) PCANFD_ALLOWED_MSG_RTR)"

text \<open>The bus state and the bits of \<^verbatim>\<open>wCANStatus\<close> agree.\<close>

abbreviation (input) BUS_BITS :: u16 where "BUS_BITS \<equiv> 0x001c"

definition bus_inv :: "pcandev \<Rightarrow> bool" where
  "bus_inv d \<longleftrightarrow> bus_state d \<le> PCANFD_ERROR_BUSOFF \<and>
     (bus_state d = PCANFD_UNKNOWN \<or> bus_state d = PCANFD_ERROR_ACTIVE \<longrightarrow> \<not> has_flag (wCANStatus d) BUS_BITS) \<and>
     (bus_state d = PCANFD_ERROR_WARNING \<longrightarrow> has_flag (wCANStatus d) CAN_ERR_BUSLIGHT) \<and>
     (bus_state d = PCANFD_ERROR_PASSIVE \<longrightarrow> has_flag (wCANStatus d) CAN_ERR_BUSHEAVY) \<and>
     (bus_state d = PCANFD_ERROR_BUSOFF \<longrightarrow> has_flag (wCANStatus d) CAN_ERR_BUSOFF)"

definition same_bus :: "pcandev \<Rightarrow> pcandev \<Rightarrow> bool" where
  "same_bus d d' \<longleftrightarrow> bus_state d' = bus_state d \<and> wCANStatus d' AND BUS_BITS = wCANStatus d AND BUS_BITS"

text \<open>The steps that may change the bus state, in any order.\<close>

inductive bus_step :: "dev_ops \<Rightarrow> pcandev \<Rightarrow> pcandev \<Rightarrow> bool" for ops :: dev_ops where
  busoff: "bus_step ops d (fst (pcan_handle_busoff d rx))"
| active: "bus_step ops d (fst (pcan_handle_error_active ops d rxo))"
| status: "bus_step ops d (fst (pcan_handle_error_status d rx ew ep))"
| ctrl: "bus_step ops d (fst (pcan_handle_error_ctrl d rxo e))"
| frame: "bus_step ops d (fst (pcan_handle_error_msg d rxo e c b g))"
| internal: "bus_step ops d (fst (pcan_handle_error_internal d rx e))"
| protocol: "bus_step ops d (fst (pcan_handle_error_protocol d rxo e))"
| receive: "bus_step ops d (fst (pcan_chardev_rx now drv d rx))"
| clear: "bits AND BUS_BITS = 0 \<Longrightarrow> bus_step ops d (pcan_clear_status_bit now drv d bits)"
| load: "bus_step ops d (pcan_push_bus_load_ind now j d)"
| reset: "bus_step ops d (pcan_set_bus_state d PCANFD_UNKNOWN)"
| send: "bus_step ops d (fst (pcan_dev_start_writing ops d))"

inductive_cases bus_stepE: "bus_step ops d d'"

section \<open>Lemmas\<close>

lemma patch_rxmsg_queue:
  assumes "ring_inv f" "pcan_fifo_foreach_back pcan_do_patch_rxmsg a f = (f', a', err)"
  shows "ring_inv f' \<and> fifo_cap f' = fifo_cap f \<and> a' = a \<and>
    (if err = - EEXIST then fifo_items f \<noteq> [] \<and> fifo_items f' = butlast (fifo_items f) @ [a]
     else fifo_items f' = fifo_items f)"
proof -
  obtain ys where ys: "walk pcan_do_patch_rxmsg (rev (fifo_items f)) a = (ys, a', err)"
      "fifo_items f' = rev ys" "ring_inv f'" "fifo_cap f' = fifo_cap f"
    using foreach_back_refines [OF _ assms(2)] assms(1) by (auto simp: ring_inv_def)
  show ?thesis
  proof (cases "rev (fifo_items f)")
    case Nil
    then show ?thesis using ys by auto
  next
    case (Cons x xs)
    then have "fifo_items f = rev xs @ [x]" by (metis rev_rev_ident rev.simps(2))
    then show ?thesis using ys Cons by (auto simp: pcan_do_patch_rxmsg_def split: if_splits)
  qed
qed

lemma patch_last_queue:
  assumes "ring_inv f" "fifo_items f \<noteq> []" "pcan_fifo_foreach_back pcan_do_patch_last a f = (f', a', err)"
  shows "ring_inv f' \<and> fifo_cap f' = fifo_cap f \<and> a' = a \<and> fifo_items f' = butlast (fifo_items f) @ [a]"
proof -
  obtain ys where ys: "walk pcan_do_patch_last (rev (fifo_items f)) a = (ys, a', err)"
      "fifo_items f' = rev ys" "ring_inv f'" "fifo_cap f' = fifo_cap f"
    using foreach_back_refines [OF _ assms(3)] assms(1) by (auto simp: ring_inv_def)
  obtain x xs where x: "rev (fifo_items f) = x # xs" using assms(2) by (cases "rev (fifo_items f)") auto
  then have "fifo_items f = rev xs @ [x]" by (metis rev_rev_ident rev.simps(2))
  then show ?thesis using ys x by (auto simp: pcan_do_patch_last_def)
qed

lemma ring_inv_nonempty_full: "ring_inv f \<Longrightarrow> length (fifo_items f) = fifo_cap f \<Longrightarrow> fifo_items f \<noteq> []"
  by (auto simp: ring_inv_def fifo_inv_def simp del: length_fifo_items)

text \<open>The stages of the receive path leave the other fields alone.\<close>

lemma rx_admit_keeps:
  assumes "rx_admit dev rx = (dev', go)"
  shows "readFifo dev' = readFifo dev" "wCANStatus dev' = wCANStatus dev" "nOpenPaths dev' = nOpenPaths dev"
    "dev_filter dev' = dev_filter dev" "dev_flags dev' = dev_flags dev" "init_settings dev' = init_settings dev"
    "bus_state dev' = bus_state dev" "rx_error_counter dev' = rx_error_counter dev"
    "tx_error_counter dev' = tx_error_counter dev" "prev_rx_error_counter dev' = prev_rx_error_counter dev"
    "prev_tx_error_counter dev' = prev_tx_error_counter dev" "init_timestamp dev' = init_timestamp dev"
    "allowed_msgs dev' = allowed_msgs dev"
  using assms by (auto simp: rx_admit_def Let_def split: if_splits)

lemma error_internal_fields [simp]:
  "readFifo (fst (pcan_handle_error_internal dev rx e)) = readFifo dev"
  by (simp add: pcan_handle_error_internal_def Let_def)

lemma rx_limit_queue:
  assumes "ring_inv (readFifo dev)" "rx_limit dev rx = (dev', rx', go)"
  shows "ring_inv (readFifo dev') \<and> fifo_cap (readFifo dev') = fifo_cap (readFifo dev) \<and>
    (if go then fifo_items (readFifo dev') = fifo_items (readFifo dev)
     else fifo_items (readFifo dev') = fifo_items (readFifo dev) \<or>
          fifo_items (readFifo dev) \<noteq> [] \<and>
          fifo_items (readFifo dev') = butlast (fifo_items (readFifo dev)) @ [rx'])"
proof -
  have st: "readFifo (fst (pcan_status_rx d r)) = readFifo d" for d r
    by (simp add: pcan_status_rx_def Let_def)
  have er: "readFifo (fst (pcan_error_rx d r)) = readFifo d" for d r
    by (simp add: pcan_error_rx_def)
  let ?t = "msg_type (rx_msg rx)"
  consider (can) "?t = PCANFD_TYPE_CAN20_MSG \<or> ?t = PCANFD_TYPE_CANFD_MSG" | (status) "?t = PCANFD_TYPE_STATUS"
    | (error) "?t = PCANFD_TYPE_ERROR_MSG"
    | (other) "?t \<noteq> PCANFD_TYPE_CAN20_MSG" "?t \<noteq> PCANFD_TYPE_CANFD_MSG" "?t \<noteq> PCANFD_TYPE_STATUS" "?t \<noteq> PCANFD_TYPE_ERROR_MSG"
    by blast
  then show ?thesis
  proof cases
    case can
    then show ?thesis using assms by (auto simp: rx_limit_def Let_def)
  next
    case error
    then show ?thesis using assms er [of dev rx] by (auto simp: rx_limit_def Let_def split: prod.splits)
  next
    case other
    then show ?thesis using assms by (auto simp: rx_limit_def Let_def)
  next
    case status
    let ?i = "msg_id (rx_msg rx)"
    define r1 where "r1 = (if ?i = PCANFD_ERROR_ACTIVE \<or> ?i = PCANFD_ERROR_WARNING \<or> ?i = PCANFD_ERROR_PASSIVE
        then pcan_status_normalize_rx rx else rx)"
    obtain d2 r2 e2 where s2: "(if PCANFD_ERROR_ACTIVE \<le> ?i \<and> ?i \<le> PCANFD_ERROR_BUSOFF
        then pcan_status_rx dev r1 else (dev, r1, 0)) = (d2, r2, e2)"
      using prod_cases3 by blast
    have d2: "readFifo d2 = readFifo dev" using s2 st [of dev r1] by (auto split: if_splits)
    obtain f3 r3 e3 where s3: "pcan_fifo_foreach_back pcan_do_patch_rxmsg r2 (readFifo d2) = (f3, r3, e3)"
      using prod_cases3 by blast
    have lim: "rx_limit dev rx = (if e2 = - EEXIST then (d2, r2, False)
        else (d2\<lparr>readFifo := f3\<rparr>, r3, e3 \<noteq> - EEXIST))"
      using status s2 s3 by (simp add: rx_limit_def Let_def r1_def [symmetric])
    show ?thesis
      using assms lim d2 patch_rxmsg_queue [OF _ s3] by (auto split: if_splits)
  qed
qed


lemma rx_post_cases:
  assumes "ring_inv (readFifo dev)" "rx_post dev rx = (dev', rx', r)"
  shows "ring_inv (readFifo dev') \<and> fifo_cap (readFifo dev') = fifo_cap (readFifo dev) \<and>
    (if length (fifo_items (readFifo dev)) < fifo_cap (readFifo dev)
     then r = 1 \<and> rx' = rx \<and> fifo_items (readFifo dev') = fifo_items (readFifo dev) @ [rx] \<and>
          wCANStatus dev' = wCANStatus dev
     else r = - ENOSPC \<and> fifo_items (readFifo dev') = butlast (fifo_items (readFifo dev)) @ [rx'] \<and>
          rx' = snd (pcan_handle_error_internal dev rx PCANFD_RX_OVERFLOW) \<and>
          wCANStatus dev' = set_flag (wCANStatus dev) CAN_ERR_OVERRUN)"
proof -
  let ?f = "readFifo dev"
  show ?thesis using assms(1)
  proof (cases rule: ring.put_cases [where x = rx])
    case (room q)
    then show ?thesis using assms(2) by (auto simp: rx_post_def Let_def)
  next
    case full
    have ne: "fifo_items ?f \<noteq> []" by (rule ring_inv_nonempty_full [OF assms(1) full(1)])
    obtain d r1 where i: "pcan_handle_error_internal (dev\<lparr>readFifo := ?f\<rparr>) rx PCANFD_RX_OVERFLOW = (d, r1)"
      using prod.exhaust by blast
    then have d: "readFifo d = ?f" "wCANStatus d = set_flag (wCANStatus dev) CAN_ERR_OVERRUN"
        "r1 = snd (pcan_handle_error_internal dev rx PCANFD_RX_OVERFLOW)"
      by (auto simp: pcan_handle_error_internal_def Let_def)
    obtain f2 r2 e2 where f2: "pcan_fifo_foreach_back pcan_do_patch_last r1 ?f = (f2, r2, e2)"
      using prod_cases3 by blast
    have "dev' = d\<lparr>readFifo := f2\<rparr>" "rx' = r2" "r = - ENOSPC"
      using assms(2) full(2) i d(1) f2 by (auto simp: rx_post_def Let_def)
    then show ?thesis using patch_last_queue [OF assms(1) ne f2] full(1) d by simp
  qed
qed

lemma rx_limit_status [simp]:
  assumes "rx_limit dev rx = (dev', rx', go)"
  shows "wCANStatus dev' = wCANStatus dev"
proof -
  have st: "wCANStatus (fst (pcan_status_rx d r)) = wCANStatus d" for d r
    by (simp add: pcan_status_rx_def Let_def)
  have er: "wCANStatus (fst (pcan_error_rx d r)) = wCANStatus d" for d r
    by (simp add: pcan_error_rx_def)
  show ?thesis
    using assms st [of dev] er [of dev]
    by (auto simp: rx_limit_def Let_def split: if_splits prod.splits) (metis fst_conv)+
qed

lemma rx_ctrlr_data_keeps [simp]:
  "msg_type (rx_ctrlr_data dev m) = msg_type m" "msg_id (rx_ctrlr_data dev m) = msg_id m"
  "data_len (rx_ctrlr_data dev m) = data_len m" "msg_data (rx_ctrlr_data dev m) = msg_data m"
  by (simp_all add: rx_ctrlr_data_def Let_def)

lemma rx_ctrlr_data_flag:
  assumes "k AND PCANFD_BUSLOAD = 0" "k AND PCANFD_ERRCNT = 0"
  shows "has_flag (msg_flags (rx_ctrlr_data dev m)) k = has_flag (msg_flags m) k"
  using assms
  by (simp add: rx_ctrlr_data_def Let_def has_flag_set_disjoint has_flag_clr_disjoint and.commute [of _ k])

lemma rx_stamp_msg [simp]: "rx_msg (rx_stamp now drv dev rx) = rx_msg rx"
  by (simp add: rx_stamp_def Let_def)

lemma elem_throw_cong:
  assumes "has_flag f PCANFD_MSG_RTR = has_flag g PCANFD_MSG_RTR" "has_flag f PCANFD_MSG_EXT = has_flag g PCANFD_MSG_EXT"
  shows "elem_throw e f = elem_throw e g"
  using assms by (simp add: elem_throw_def)

lemma filter_loop_cong:
  assumes "has_flag (msg_flags m) PCANFD_MSG_RTR = has_flag (msg_flags n) PCANFD_MSG_RTR"
    "has_flag (msg_flags m) PCANFD_MSG_EXT = has_flag (msg_flags n) PCANFD_MSG_EXT" "msg_id m = msg_id n"
  shows "filter_loop fs m = filter_loop fs n"
  using assms by (induction fs) (auto simp: elem_throw_def)

lemma do_filter_stamped:
  "pcan_do_filter c (r\<lparr>rx_msg := rx_ctrlr_data dev (rx_msg r)\<rparr>) = pcan_do_filter c r"
proof -
  have "filter_loop fs (rx_ctrlr_data dev (rx_msg r)) = filter_loop fs (rx_msg r)" for fs
    by (rule filter_loop_cong) (simp_all add: rx_ctrlr_data_flag)
  then show ?thesis by (simp add: pcan_do_filter_def split: option.splits)
qed

lemma do_filter_rx_stamp [simp]: "pcan_do_filter c (rx_stamp now drv dev rx) = pcan_do_filter c rx"
  by (simp add: pcan_do_filter_def split: option.splits)

lemma rx_post_frames: "rx_post d r = (d', r', e) \<Longrightarrow> rx_frames_counter d' = rx_frames_counter d"
  by (auto simp: rx_post_def Let_def pcan_handle_error_internal_def split: prod.splits if_splits)

lemma rx_limit_bus_status:
  assumes "msg_type (rx_msg r) = PCANFD_TYPE_STATUS" "1 \<le> msg_id (rx_msg r)" "msg_id (rx_msg r) \<le> 4"
    and "\<not> has_flag (msg_flags (rx_msg r)) PCANFD_ERRCNT"
  shows "rx_limit d r = (let (d', r', e) = pcan_status_rx d r
     in if e = - EEXIST then (d', r', False)
        else let (f, r'', e') = pcan_fifo_foreach_back pcan_do_patch_rxmsg r' (readFifo d')
             in (d'\<lparr>readFifo := f\<rparr>, r'', e' \<noteq> - EEXIST))"
  using assms by (simp add: rx_limit_def pcan_status_normalize_rx_def Let_def)

lemma rx_ctrlr_data_no_errcnt:
  "\<not> has_flag (dev_flags d) PCAN_DEV_ERRCNT_RDY \<Longrightarrow> \<not> has_flag (msg_flags (rx_ctrlr_data d m)) PCANFD_ERRCNT"
  by (simp add: rx_ctrlr_data_def Let_def has_flag_clr_same)

text \<open>The bus STATUS messages on the receive path of a controller without error counters.\<close>

lemma chardev_rx_bus_status:
  fixes now drv dev rx
  defines "r1 \<equiv> (rx_stamp now drv dev rx)\<lparr>rx_msg := rx_ctrlr_data dev (rx_msg rx)\<rparr>"
  assumes st: "msg_type (rx_msg rx) = PCANFD_TYPE_STATUS"
    and bs: "1 \<le> msg_id (rx_msg rx)" "msg_id (rx_msg rx) \<le> 4"
    and nocnt: "\<not> has_flag (dev_flags dev) PCAN_DEV_ERRCNT_RDY"
  shows "pcan_chardev_rx now drv dev rx =
    (if \<not> has_flag (allowed_msgs dev) PCANFD_ALLOWED_MSG_STATUS \<or> nOpenPaths dev \<le> 0 then (dev, rx, 0)
     else if has_flag (wCANStatus dev) CAN_ERR_OVERRUN then (dev, rx, - ENOSPC)
     else let (d', r', e) = pcan_status_rx dev r1
          in if e = - EEXIST then (d', r', 0)
             else let (f, r'', e') = pcan_fifo_foreach_back pcan_do_patch_rxmsg r' (readFifo d');
                      d' = d'\<lparr>readFifo := f\<rparr>
                  in if e' = - EEXIST then (d', r'', 0) else rx_post d' r'')"
proof -
  have "msg_id (rx_msg rx) \<noteq> PCANFD_BUS_LOAD" using bs(2) by auto
  then have a: "rx_admit dev rx = (dev, has_flag (allowed_msgs dev) PCANFD_ALLOWED_MSG_STATUS)"
    using st by (simp add: rx_admit_def)
  have l: "rx_limit dev r1 = (let (d', r', e) = pcan_status_rx dev r1
     in if e = - EEXIST then (d', r', False)
        else let (f, r'', e') = pcan_fifo_foreach_back pcan_do_patch_rxmsg r' (readFifo d')
             in (d'\<lparr>readFifo := f\<rparr>, r'', e' \<noteq> - EEXIST))"
    using st bs nocnt by (intro rx_limit_bus_status) (simp_all add: r1_def rx_ctrlr_data_no_errcnt)
  show ?thesis
    by (simp add: pcan_chardev_rx_def a Let_def l r1_def [symmetric] split: prod.splits)
qed

text \<open>The interface to the transmit function of a device driver: it leaves the bus state alone.\<close>

locale tx_driver =
  fixes ops :: dev_ops
  assumes write_same_bus: "same_bus d (fst (op_device_write ops d))"
begin

lemma start_writing_same_bus: "same_bus d (fst (pcan_dev_start_writing ops d))"
  using write_same_bus [of d]
  by (auto simp: pcan_dev_start_writing_def Let_def same_bus_def split: prod.splits)

end

lemma same_bus_refl [simp]: "same_bus d d" by (simp add: same_bus_def)

lemma same_bus_trans: "same_bus a b \<Longrightarrow> same_bus b c \<Longrightarrow> same_bus a c"
  by (simp add: same_bus_def)

lemma same_bus_inv:
  assumes "same_bus d d'" "bus_inv d"
  shows "bus_inv d'"
proof -
  have f: "has_flag (wCANStatus d') k = has_flag (wCANStatus d) k" if "k AND BUS_BITS = k" for k
    using assms(1) that by (intro has_flag_subset) (auto simp: same_bus_def)
  show ?thesis using assms by (simp add: bus_inv_def same_bus_def f)
qed

lemma bus_state_cases:
  assumes "bs \<le> PCANFD_ERROR_BUSOFF"
  shows "bs = PCANFD_UNKNOWN \<or> bs = PCANFD_ERROR_ACTIVE \<or> bs = PCANFD_ERROR_WARNING \<or>
    bs = PCANFD_ERROR_PASSIVE \<or> bs = PCANFD_ERROR_BUSOFF"
proof -
  have "unat bs \<le> 4" using assms by (simp add: word_le_nat_alt)
  then consider "unat bs = unat (0 :: u32)" | "unat bs = unat (1 :: u32)" | "unat bs = unat (2 :: u32)"
    | "unat bs = unat (3 :: u32)" | "unat bs = unat (4 :: u32)" by fastforce
  then show ?thesis by cases (blast dest: unsigned_word_eqI)+
qed

lemma set_bus_state_inv:
  assumes "bus_inv d" "bs \<le> PCANFD_ERROR_BUSOFF"
  shows "bus_inv (pcan_set_bus_state d bs)"
proof (cases "bs = bus_state d")
  case True
  then show ?thesis using assms(1) by (simp add: pcan_set_bus_state_def)
next
  case False
  have m: "(16 OR 8 OR 4 :: u16) = 0x1c" by simp
  from bus_state_cases [OF assms(2)] show ?thesis
    using False
    by (elim disjE) (simp_all add: pcan_set_bus_state_def bus_inv_def mark_state_change_def
        pcan_init_session_counters_def m has_flag_clr_same has_flag_set_same)
qed

lemma rx_post_same_bus: "same_bus d (fst (rx_post d rx))"
proof -
  obtain f e where f: "pcan_fifo_put rx (readFifo d) = (f, e)" using prod.exhaust by blast
  obtain d1 r1 where i: "pcan_handle_error_internal (d\<lparr>readFifo := f\<rparr>) rx PCANFD_RX_OVERFLOW = (d1, r1)"
    using prod.exhaust by blast
  obtain f2 r2 e2 where w: "pcan_fifo_foreach_back pcan_do_patch_last r1 (readFifo d1) = (f2, r2, e2)"
    using prod_cases3 by blast
  have "same_bus d d1"
    using i by (auto simp: pcan_handle_error_internal_def same_bus_def set_flag_other)
  then show ?thesis using f i w by (simp add: rx_post_def same_bus_def Let_def)
qed

lemma status_rx_same_bus: "pcan_status_rx d r = (d', r', e) \<Longrightarrow> same_bus d d'"
  by (auto simp: pcan_status_rx_def Let_def same_bus_def split: if_splits)

lemma error_rx_same_bus: "pcan_error_rx d r = (d', e) \<Longrightarrow> same_bus d d'"
  by (auto simp: pcan_error_rx_def same_bus_def split: if_splits)

lemma rx_limit_same_bus: "same_bus d (fst (rx_limit d rx))"
proof -
  have fifo: "same_bus d x \<Longrightarrow> same_bus d (x\<lparr>readFifo := f\<rparr>)" for x f by (simp add: same_bus_def)
  show ?thesis
    unfolding rx_limit_def Let_def
    by (simp split: prod.split) (auto intro!: fifo dest: status_rx_same_bus error_rx_same_bus)
qed

lemma chardev_rx_same_bus: "same_bus d (fst (pcan_chardev_rx now drv d rx))"
proof -
  obtain d1 go where a: "rx_admit d rx = (d1, go)" using prod.exhaust by blast
  define r1 where "r1 = (rx_stamp now drv d1 rx)\<lparr>rx_msg := rx_ctrlr_data d1 (rx_msg rx)\<rparr>"
  obtain d2 r2 go2 where l: "rx_limit d1 r1 = (d2, r2, go2)" using prod_cases3 by blast
  have run: "fst (pcan_chardev_rx now drv d rx) = (if \<not> go \<or> nOpenPaths d1 \<le> 0 \<or>
      has_flag (wCANStatus d1) CAN_ERR_OVERRUN then d1 else if \<not> go2 then d2 else fst (rx_post d2 r2))"
    by (simp add: pcan_chardev_rx_def a Let_def r1_def [symmetric] l)
  have s1: "same_bus d d1" using rx_admit_keeps(2,7) [OF a] by (simp add: same_bus_def)
  have "same_bus d1 d2" using rx_limit_same_bus [of d1 r1] l by simp
  then have s2: "same_bus d d2" by (rule same_bus_trans [OF s1])
  then have "same_bus d (fst (rx_post d2 r2))" by (rule same_bus_trans [OF _ rx_post_same_bus])
  then show ?thesis unfolding run using s1 s2 by simp
qed

lemma deliver_same_bus: "same_bus d (rx_deliver now drv d rx)"
  using chardev_rx_same_bus [of d now drv rx]
  by (auto simp: rx_deliver_def signal_in_def same_bus_def split: prod.splits)

lemma clear_status_same_bus:
  "bits AND BUS_BITS = 0 \<Longrightarrow> same_bus d (pcan_clear_status_bit now drv d bits)"
  by (auto simp: pcan_clear_status_bit_def Let_def clr_flag_other same_bus_def
      intro!: same_bus_trans [OF _ deliver_same_bus, unfolded same_bus_def])

lemma load_same_bus: "same_bus d (pcan_push_bus_load_ind now j d)"
  by (auto simp: pcan_push_bus_load_ind_def Let_def same_bus_def signal_in_def split: prod.splits)

lemmas same_bus_handlers =
  chardev_rx_same_bus load_same_bus clear_status_same_bus

context tx_driver begin

lemma bus_step_inv: "bus_step ops d d' \<Longrightarrow> bus_inv d \<Longrightarrow> bus_inv d'"
proof (induction rule: bus_step.induct)
  case (busoff d rx)
  then show ?case
    using set_bus_state_inv [of d PCANFD_ERROR_BUSOFF]
    by (auto simp: pcan_handle_busoff_def Let_def signal_out_def bus_inv_def)
next
  case (active d rxo)
  then show ?case
    using set_bus_state_inv [of d PCANFD_ERROR_ACTIVE]
      same_bus_inv [OF start_writing_same_bus] by (auto simp: pcan_handle_error_active_def Let_def)
next
  case (status d rx ew ep)
  have "bus_inv (d\<lparr>dwErrorCounter := dwErrorCounter d + 1\<rparr>)" using status by (simp add: bus_inv_def)
  then show ?case
    using set_bus_state_inv status by (auto simp: pcan_handle_error_status_def Let_def)
next
  case (ctrl d rxo e)
  then show ?case
    by (intro same_bus_inv [OF _ ctrl]) (auto simp: pcan_handle_error_ctrl_def same_bus_def set_flag_other)
next
  case (frame d rxo e c b g)
  then show ?case
    by (intro same_bus_inv [OF _ frame]) (auto simp: pcan_handle_error_msg_def same_bus_def)
next
  case (internal d rx e)
  then show ?case
    by (intro same_bus_inv [OF _ internal]) (auto simp: pcan_handle_error_internal_def same_bus_def set_flag_other)
next
  case (protocol d rxo e)
  then show ?case
    by (intro same_bus_inv [OF _ protocol]) (auto simp: pcan_handle_error_protocol_def same_bus_def set_flag_other)
next
  case (reset d)
  then show ?case by (simp add: set_bus_state_inv)
next
  case (send d)
  then show ?case using same_bus_inv start_writing_same_bus by blast
qed (use same_bus_inv same_bus_handlers in blast)+

lemma bus_reachable_inv: "(bus_step ops)\<^sup>*\<^sup>* d d' \<Longrightarrow> bus_inv d \<Longrightarrow> bus_inv d'"
  by (induction rule: rtranclp_induct) (auto intro: bus_step_inv)

end

section \<open>Properties\<close>

text \<open>One call of the receive path and the queue.\<close>

lemma chardev_rx_queue:
  assumes "ring_inv (readFifo dev)" "pcan_chardev_rx now drv dev rx = (dev', rx', r)"
  shows "ring_inv (readFifo dev') \<and> fifo_cap (readFifo dev') = fifo_cap (readFifo dev) \<and>
    (r = 1 \<and> fifo_items (readFifo dev') = fifo_items (readFifo dev) @ [rx'] \<or>
     r = 0 \<and> (fifo_items (readFifo dev') = fifo_items (readFifo dev) \<or>
              fifo_items (readFifo dev) \<noteq> [] \<and>
              fifo_items (readFifo dev') = butlast (fifo_items (readFifo dev)) @ [rx']) \<or>
     r = - ENOSPC \<and> has_flag (wCANStatus dev) CAN_ERR_OVERRUN \<and>
       fifo_items (readFifo dev') = fifo_items (readFifo dev) \<or>
     r = - ENOSPC \<and> length (fifo_items (readFifo dev)) = fifo_cap (readFifo dev) \<and>
       has_flag (wCANStatus dev') CAN_ERR_OVERRUN \<and> msg_type (rx_msg rx') = PCANFD_TYPE_STATUS \<and>
       msg_id (rx_msg rx') = PCANFD_RX_OVERFLOW \<and>
       fifo_items (readFifo dev') = butlast (fifo_items (readFifo dev)) @ [rx'])"
proof -
  obtain d1 go where a: "rx_admit dev rx = (d1, go)" using prod.exhaust by blast
  note k = rx_admit_keeps(1-3) [OF a]
  define r1 where "r1 = (rx_stamp now drv d1 rx)\<lparr>rx_msg := rx_ctrlr_data d1 (rx_msg (rx_stamp now drv d1 rx))\<rparr>"
  obtain d2 r2 go2 where l: "rx_limit d1 r1 = (d2, r2, go2)" using prod_cases3 by blast
  have inv1: "ring_inv (readFifo d1)" using assms(1) k by simp
  note L = rx_limit_queue [OF inv1 l]
  obtain d3 r3 e3 where p: "rx_post d2 r2 = (d3, r3, e3)" using prod_cases3 by blast
  note P = rx_post_cases [OF _ p]
  have run: "(dev', rx', r) = (if \<not> go then (d1, rx, 0) else if nOpenPaths d1 \<le> 0 then (d1, rx, 0)
      else if has_flag (wCANStatus d1) CAN_ERR_OVERRUN then (d1, rx, - ENOSPC)
      else if \<not> go2 then (d2, r2, 0) else (d3, r3, e3))"
    using assms(2) a l p by (simp add: pcan_chardev_rx_def Let_def r1_def split: if_splits)
  have ov: "has_flag (set_flag s CAN_ERR_OVERRUN) CAN_ERR_OVERRUN" for s :: u16
    by (rule has_flag_set_same) simp
  have status: "msg_type (rx_msg (snd (pcan_handle_error_internal d x PCANFD_RX_OVERFLOW))) = PCANFD_TYPE_STATUS \<and>
      msg_id (rx_msg (snd (pcan_handle_error_internal d x PCANFD_RX_OVERFLOW))) = PCANFD_RX_OVERFLOW" for d x
    by (simp add: pcan_handle_error_internal_def)
  have bound: "length (fifo_items (readFifo dev)) \<le> fifo_cap (readFifo dev)"
    by (rule ring.bounded [OF assms(1)])
  show ?thesis
  proof (cases "go \<and> \<not> nOpenPaths d1 \<le> 0 \<and> \<not> has_flag (wCANStatus d1) CAN_ERR_OVERRUN \<and> go2")
    case False
    then show ?thesis using run L k assms(1) by (auto split: if_splits)
  next
    case True
    then have eq: "dev' = d3" "rx' = r3" "r = e3" using run by auto
    have q: "fifo_items (readFifo d2) = fifo_items (readFifo dev)" "fifo_cap (readFifo d2) = fifo_cap (readFifo dev)"
      "ring_inv (readFifo d2)"
      using L True k by auto
    show ?thesis
      using P [OF q(3)] q bound status ov unfolding eq by (auto split: if_splits)
  qed
qed



text \<open>C31. A CAN frame is queued exactly when it is selected and accepted, the channel is open, no
  overrun is pending, the filters pass it and the queue has room. Every frame is counted, and a queued
  frame has the identifier and the data it was received with.\<close>

theorem can_frame_queued_iff:
  assumes "ring_inv (readFifo dev)"
    and "msg_type (rx_msg rx) \<in> {PCANFD_TYPE_CAN20_MSG, PCANFD_TYPE_CANFD_MSG}"
    and "pcan_chardev_rx now drv dev rx = (dev', rx', r)"
  shows "(r = 1 \<longleftrightarrow> can_admitted dev (rx_msg rx) \<and> 0 < nOpenPaths dev \<and>
      \<not> has_flag (wCANStatus dev) CAN_ERR_OVERRUN \<and> pcan_do_filter (dev_filter dev) rx = 0 \<and>
      length (fifo_items (readFifo dev)) < fifo_cap (readFifo dev)) \<and>
    rx_frames_counter dev' = rx_frames_counter dev + 1 \<and>
    (r = 1 \<longrightarrow> msg_id (rx_msg rx') = msg_id (rx_msg rx) \<and> msg_data (rx_msg rx') = msg_data (rx_msg rx) \<and>
      data_len (rx_msg rx') = data_len (rx_msg rx))"
proof -
  obtain d1 go where a: "rx_admit dev rx = (d1, go)" using prod.exhaust by blast
  note k = rx_admit_keeps [OF a]
  have go: "go \<longleftrightarrow> can_admitted dev (rx_msg rx)" and fc: "rx_frames_counter d1 = rx_frames_counter dev + 1"
    using assms(2) a by (auto simp: rx_admit_def can_admitted_def Let_def split: if_splits)
  define r1 where "r1 = (rx_stamp now drv d1 rx)\<lparr>rx_msg := rx_ctrlr_data d1 (rx_msg rx)\<rparr>"
  have "pcan_do_filter c r1 = pcan_do_filter c rx" for c
    using do_filter_stamped [where c = c and r = "rx_stamp now drv d1 rx" and dev = d1] by (simp add: r1_def)
  moreover have "msg_type (rx_msg r1) = PCANFD_TYPE_CAN20_MSG \<or> msg_type (rx_msg r1) = PCANFD_TYPE_CANFD_MSG"
    using assms(2) by (simp add: r1_def)
  ultimately have l: "rx_limit d1 r1 = (d1, r1, pcan_do_filter (dev_filter dev) rx = 0)"
    using k(4) by (simp add: rx_limit_def Let_def)
  obtain d3 r3 e3 where p: "rx_post d1 r1 = (d3, r3, e3)" using prod_cases3 by blast
  have P: "(e3 = 1) = (length (fifo_items (readFifo dev)) < fifo_cap (readFifo dev))"
      "e3 = 1 \<Longrightarrow> r3 = r1"
    using rx_post_cases [OF _ p] assms(1) k(1) by (simp_all split: if_splits)
  have fc3: "rx_frames_counter d3 = rx_frames_counter d1"
    by (rule rx_post_frames [OF p])
  have "pcan_chardev_rx now drv dev rx = (if \<not> go then (d1, rx, 0) else if nOpenPaths d1 \<le> 0 then (d1, rx, 0)
      else if has_flag (wCANStatus d1) CAN_ERR_OVERRUN then (d1, rx, - ENOSPC)
      else if pcan_do_filter (dev_filter dev) rx \<noteq> 0 then (d1, r1, 0) else (d3, r3, e3))"
    by (simp add: pcan_chardev_rx_def a Let_def r1_def [symmetric] l p)
  note run = this [unfolded assms(3)]
  have "r = 1 \<longleftrightarrow> can_admitted dev (rx_msg rx) \<and> 0 < nOpenPaths dev \<and>
      \<not> has_flag (wCANStatus dev) CAN_ERR_OVERRUN \<and> pcan_do_filter (dev_filter dev) rx = 0 \<and>
      length (fifo_items (readFifo dev)) < fifo_cap (readFifo dev)"
    using run go k P by (auto split: if_splits)
  moreover have "rx_frames_counter dev' = rx_frames_counter dev + 1"
    using run fc fc3 by (auto split: if_splits)
  moreover have "msg_id (rx_msg rx') = msg_id (rx_msg rx) \<and> msg_data (rx_msg rx') = msg_data (rx_msg rx) \<and>
      data_len (rx_msg rx') = data_len (rx_msg rx)" if "r = 1"
    using run P that by (auto simp: r1_def split: if_splits)
  ultimately show ?thesis by blast
qed

theorem can_frame_queued_iff_witness:
  "snd (snd (pcan_chardev_rx zero_timeval zero_timeval
     (blank_dev\<lparr>nOpenPaths := 1, allowed_msgs := 1, acc_11b_mask := 0x7ff\<rparr>)
     \<lparr>rx_msg = zero_msg\<lparr>msg_type := 1, msg_id := 5\<rparr>, rx_hwtv = zero_hwtv\<rparr>)) = 1"
proof -
  let ?d = "blank_dev\<lparr>nOpenPaths := 1, allowed_msgs := 1, acc_11b_mask := 0x7ff\<rparr>"
  let ?rx = "\<lparr>rx_msg = zero_msg\<lparr>msg_type := 1, msg_id := 5\<rparr>, rx_hwtv = zero_hwtv\<rparr>"
  obtain d' r' e where run: "pcan_chardev_rx zero_timeval zero_timeval ?d ?rx = (d', r', e)"
    using prod_cases3 by blast
  have inv: "ring_inv (readFifo ?d)" using blank_fifo_inv [of "\<lparr>rx_msg = zero_msg, rx_hwtv = zero_hwtv\<rparr>"] by (simp add: blank_dev_def)
  have "length (fifo_items (readFifo ?d)) < fifo_cap (readFifo ?d)"
    using blank_fifo_inv [of "\<lparr>rx_msg = zero_msg, rx_hwtv = zero_hwtv\<rparr>"]
    by (simp add: blank_dev_def del: length_fifo_items)
  then have "e = 1" using can_frame_queued_iff [OF inv _ run]
    by (simp add: can_admitted_def pcan_do_filter_def pcan_create_filter_chain_def has_flag_def
        blank_dev_def zero_msg_def)
  then show ?thesis using run by simp
qed

text \<open>The receive queue is not flooded: on a controller without error counters a STATUS that
  repeats the bus state just posted is dropped, and the queue does not change.\<close>

theorem status_posted_once:
  assumes inv: "ring_inv (readFifo dev)" and st: "msg_type (rx_msg rx) = PCANFD_TYPE_STATUS"
    and bs: "msg_id (rx_msg rx) = bus_state dev" "1 \<le> bus_state dev" "bus_state dev \<le> 4"
    and nocnt: "\<not> has_flag (dev_flags dev) PCAN_DEV_ERRCNT_RDY"
    and first: "pcan_chardev_rx now drv dev rx = (dev1, rx1, 1)"
    and again: "pcan_chardev_rx now' drv dev1 rx = (dev2, rx2, r)"
  shows "r = 0 \<and> readFifo dev2 = readFifo dev1"
proof -
  note id = bs(2,3) [folded bs(1)]
  define r1 where "r1 = (rx_stamp now drv dev rx)\<lparr>rx_msg := rx_ctrlr_data dev (rx_msg rx)\<rparr>"
  obtain d' r' e where s: "pcan_status_rx dev r1 = (d', r', e)" using prod_cases3 by blast
  obtain f r'' e' where w: "pcan_fifo_foreach_back pcan_do_patch_rxmsg r' (readFifo d') = (f, r'', e')"
    using prod_cases3 by blast
  have ok: "has_flag (allowed_msgs dev) PCANFD_ALLOWED_MSG_STATUS" "0 < nOpenPaths dev"
      "\<not> has_flag (wCANStatus dev) CAN_ERR_OVERRUN" "e \<noteq> - EEXIST"
      "rx_post (d'\<lparr>readFifo := f\<rparr>) r'' = (dev1, rx1, 1)"
    using first [unfolded chardev_rx_bus_status [OF st id nocnt]] s w
    unfolding r1_def [symmetric] by (auto simp: Let_def split: if_splits)
  have d': "d' = dev\<lparr>prev_rx_error_counter := rx_error_counter dev, prev_tx_error_counter := tx_error_counter dev\<rparr>"
    using s ok(4) nocnt by (auto simp: pcan_status_rx_def Let_def split: if_splits)
  obtain g e2 where g: "pcan_fifo_put r'' f = (g, e2)" using prod.exhaust by blast
  have d1: "dev1 = d'\<lparr>readFifo := g\<rparr>"
  proof (cases "0 \<le> e2")
    case True
    then show ?thesis using ok(5) g by (simp add: rx_post_def)
  next
    case False
    then show ?thesis using ok(5) g
      by (auto simp: rx_post_def Let_def pcan_handle_error_internal_def split: prod.splits)
  qed
  show ?thesis
    using again chardev_rx_bus_status [OF st id, of dev1 now' drv] nocnt ok bs(1)
    by (auto simp: d1 d' pcan_status_rx_def Let_def split: prod.splits)
qed

theorem status_posted_once_witness:
  "\<exists>d1 r1. pcan_chardev_rx zero_timeval zero_timeval
       (blank_dev\<lparr>nOpenPaths := 1, allowed_msgs := 0x10, bus_state := 2, prev_rx_error_counter := 1\<rparr>)
       \<lparr>rx_msg = zero_msg\<lparr>msg_type := 3, msg_id := 2\<rparr>, rx_hwtv = zero_hwtv\<rparr> = (d1, r1, 1) \<and>
     snd (snd (pcan_chardev_rx zero_timeval zero_timeval d1
       \<lparr>rx_msg = zero_msg\<lparr>msg_type := 3, msg_id := 2\<rparr>, rx_hwtv = zero_hwtv\<rparr>)) = 0"
proof -
  let ?d = "blank_dev\<lparr>nOpenPaths := 1, allowed_msgs := 0x10, bus_state := 2, prev_rx_error_counter := 1\<rparr>"
  let ?rx = "\<lparr>rx_msg = zero_msg\<lparr>msg_type := 3, msg_id := 2\<rparr>, rx_hwtv = zero_hwtv\<rparr>"
  have "snd (snd (pcan_chardev_rx zero_timeval zero_timeval ?d ?rx)) = 1" by code_simp
  then obtain d1 r1 where one: "pcan_chardev_rx zero_timeval zero_timeval ?d ?rx = (d1, r1, 1)"
    by (metis prod.collapse)
  obtain d2 r2 e where two: "pcan_chardev_rx zero_timeval zero_timeval d1 ?rx = (d2, r2, e)"
    using prod_cases3 by blast
  have inv: "ring_inv (readFifo ?d)" using blank_fifo_inv [of "\<lparr>rx_msg = zero_msg, rx_hwtv = zero_hwtv\<rparr>"] by (simp add: blank_dev_def)
  have "e = 0"
    using status_posted_once [OF inv _ _ _ _ _ one two] by (simp add: blank_dev_def zero_msg_def)
  then show ?thesis using one two by simp
qed

end
