(* ===== verification/Pcan_Open.thy ===== *)
theory Pcan_Open
  imports Pcan_Rx
begin

text \<open>
  Initialising and opening a channel (\<^verbatim>\<open>driver/src/pcanfd_core.c\<close>): the conversion of the old
  settings, the checks of the user settings, the call of the device driver and the reset.
  Arguments: \<open>ops\<close> are the callbacks of the device driver, \<open>now\<close> is the host clock,
  \<open>jiffies\<close> the kernel's tick counter. \<open>None\<close> is a processor fault. \<^verbatim>\<open>PCAN_USE_DEFBT_ON_ERROR\<close> is
  not defined, as in the sources.
\<close>

section \<open>Settings\<close>

abbreviation (input) PCANFD_INIT_USER :: u32 where "PCANFD_INIT_USER \<equiv> 0x80000000"
abbreviation (input) MSGTYPE_STANDARD :: u8 where "MSGTYPE_STANDARD \<equiv> 0x00"
abbreviation (input) MSGTYPE_RTR :: u8 where "MSGTYPE_RTR \<equiv> 0x01"
abbreviation (input) MSGTYPE_EXTENDED :: u8 where "MSGTYPE_EXTENDED \<equiv> 0x02"
abbreviation (input) MSGTYPE_STATUS :: u8 where "MSGTYPE_STATUS \<equiv> 0x80"
abbreviation (input) CAN_MAX_STANDARD_ID :: u32 where "CAN_MAX_STANDARD_ID \<equiv> 0x7ff"
abbreviation (input) CAN_MAX_EXTENDED_ID :: u32 where "CAN_MAX_EXTENDED_ID \<equiv> 0x1fffffff"
abbreviation (input) PCANFD_ALLOWED_MSG_DEFAULT :: u32 where "PCANFD_ALLOWED_MSG_DEFAULT \<equiv> 0x17"

record TPCANInit =
  wBTR0BTR1 :: u16
  ucCANMsgType :: u8
  ucListenOnly :: u8

text \<open>The result of the bit timing calculation is ignored; the timing is what the calculation left.\<close>

definition pcan_init_to_fd :: "pcandev \<Rightarrow> pcanfd_init \<Rightarrow> TPCANInit \<Rightarrow> pcanfd_init option" where
  "pcan_init_to_fd dev pfdi ini =
     (let pfdi = pfdi\<lparr>data_bt := zero_bittiming\<rparr>;
          pfdi = (if clock_Hz pfdi = 0 then pfdi\<lparr>clock_Hz := sysclock_Hz dev\<rparr> else pfdi);
          pfdi = (if \<not> has_flag (ucCANMsgType ini) MSGTYPE_EXTENDED
                  then pfdi\<lparr>init_flags := set_flag (init_flags pfdi) PCANFD_INIT_STD_MSG_ONLY\<rparr> else pfdi);
          pfdi = (if ucListenOnly ini \<noteq> 0
                  then pfdi\<lparr>init_flags := set_flag (init_flags pfdi) PCANFD_INIT_LISTEN_ONLY\<rparr> else pfdi)
      in if wBTR0BTR1 ini \<noteq> 0 then do {
           bt \<leftarrow> pcan_btr0btr1_to_bittiming (nominal pfdi) (wBTR0BTR1 ini);
           if clock_Hz pfdi \<noteq> 8 * MHz then do {
             (bt, _) \<leftarrow> pcan_bitrate_to_bittiming bt (Some (bittiming_caps dev)) (clock_Hz pfdi);
             Some (pfdi\<lparr>nominal := bt\<rparr>)
           } else Some (pfdi\<lparr>nominal := bt\<rparr>)
         } else Some pfdi)"

definition pcanfd_copy_init :: "pcanfd_init \<Rightarrow> pcanfd_init" where
  "pcanfd_copy_init ps = ps"

section \<open>Reset\<close>

text \<open>Both \<open>pcan_fifo_reset\<close> calls return 0; a failure of the first one would end the function.\<close>

definition pcanfd_dev_reset :: "dev_ops \<Rightarrow> pcandev \<Rightarrow> pcandev \<times> int" where
  "pcanfd_dev_reset ops dev =
     (let dev = pcan_set_tx_engine TX_ENGINE_CLOSED dev;
          dev = (if nOpenPaths dev \<noteq> 0 then
                   case op_device_release ops of None \<Rightarrow> dev | Some release \<Rightarrow> release dev
                 else dev);
          dev = dev\<lparr>dev_flags := clr_flag (dev_flags dev) PCAN_DEV_OPENED\<rparr>;
          dev = pcan_set_bus_state dev PCANFD_UNKNOWN;
          (wf, err) = pcan_fifo_reset (writeFifo dev);
          dev = dev\<lparr>writeFifo := wf\<rparr>
      in if err \<noteq> 0 then (dev, err)
         else
           let (rf, err) = pcan_fifo_reset (readFifo dev);
               dev = dev\<lparr>readFifo := rf\<rparr>
           in if err \<noteq> 0 then (dev, err)
              else (dev\<lparr>wCANStatus := clr_flag (wCANStatus dev) (CAN_ERR_OVERRUN OR CAN_ERR_XMTFULL)\<rparr>, err))"

section \<open>Opening\<close>

definition pcanfd_dev_open_init :: "pcandev \<Rightarrow> pcandev" where
  "pcanfd_dev_open_init dev = dev\<lparr>
     acc_11b_code := 0, acc_11b_mask := CAN_MAX_STANDARD_ID,
     acc_29b_code := 0, acc_29b_mask := CAN_MAX_EXTENDED_ID,
     tx_iframe_delay_us := 0, allowed_msgs := PCANFD_ALLOWED_MSG_DEFAULT,
     rx_frames_counter := 0, tx_frames_counter := 0,
     dwErrorCounter := 0, dwInterruptCounter := 0\<rparr>"

text \<open>The two conversions of \<open>pcanfd_fix_init_clock\<close>, with the clock of the user. The first one
  resets \<^verbatim>\<open>brp\<close>, so that the bit rate is used next.\<close>

definition fix_nominal :: "pcanfd_init \<Rightarrow> (pcanfd_init \<times> int) option" where
  "fix_nominal pfdi =
     (if brp (nominal pfdi) \<noteq> 0 then do {
        (bt, err) \<leftarrow> pcan_bittiming_to_bitrate (nominal pfdi) (clock_Hz pfdi);
        if err \<noteq> 0 then Some (pfdi\<lparr>nominal := bt\<rparr>, err) else Some (pfdi\<lparr>nominal := bt\<lparr>brp := 0\<rparr>\<rparr>, 0)
      } else Some (pfdi, 0))"

definition fix_data :: "pcanfd_init \<Rightarrow> (pcanfd_init \<times> int) option" where
  "fix_data pfdi =
     (if has_flag (init_flags pfdi) PCANFD_INIT_FD \<and> brp (data_bt pfdi) \<noteq> 0 then do {
        (bt, err) \<leftarrow> pcan_bittiming_to_bitrate (data_bt pfdi) (clock_Hz pfdi);
        Some (pfdi\<lparr>data_bt := bt\<rparr>, err)
      } else Some (pfdi, 0))"

definition pcanfd_fix_init_clock :: "pcandev \<Rightarrow> pcanfd_init \<Rightarrow> (pcanfd_init \<times> int) option" where
  "pcanfd_fix_init_clock dev pfdi =
     (if clock_Hz pfdi \<in> set (clocks_list dev) then Some (pfdi, 0)
      else if brp (nominal pfdi) \<noteq> 0 \<and> clock_Hz pfdi = 8 * MHz then Some (pfdi, 0)
      else do {
        (pfdi, err) \<leftarrow> fix_nominal pfdi;
        if err \<noteq> 0 then Some (pfdi, err)
        else do {
          (pfdi, err) \<leftarrow> fix_data pfdi;
          if err \<noteq> 0 then Some (pfdi, err)
          else Some (pfdi\<lparr>clock_Hz := sysclock_Hz dev\<rparr>, 0)
        }
      })"

text \<open>The data bit timing of a CAN FD channel, part of \<open>pcanfd_dev_open\<close>.\<close>

definition check_data_timing :: "pcandev \<Rightarrow> pcanfd_init \<Rightarrow> (pcanfd_init \<times> int) option" where
  "check_data_timing dev pfdi =
     (case dbittiming_caps dev of
        None \<Rightarrow> None
      | Some dcaps \<Rightarrow>
          (let pfdi = (if bitrate (data_bt pfdi) = 0 \<and> brp (data_bt pfdi) = 0
                       then pfdi\<lparr>data_bt := data_bt (def_init_settings dev)\<rparr> else pfdi)
           in do {
             (bt, err) \<leftarrow> pcan_bittiming_normalize (data_bt pfdi) (clock_Hz pfdi) dcaps;
             let pfdi = pfdi\<lparr>data_bt := bt\<rparr>;
             if err \<noteq> 0 then Some (pfdi, err)
             else if bitrate (data_bt pfdi) < bitrate (nominal pfdi) then Some (pfdi, - EINVAL)
             else Some (pfdi, 0)
           }))"

text \<open>The checks of \<open>pcanfd_dev_open\<close> on settings of the user.\<close>

definition check_user_init :: "pcandev \<Rightarrow> pcanfd_init \<Rightarrow> (pcanfd_init \<times> int) option" where
  "check_user_init dev pfdi =
     (if has_flag (init_flags pfdi) PCANFD_INIT_FD \<and>
         (dbittiming_caps dev = None \<or> \<not> has_flag (dev_flags dev) PCAN_DEV_FD_RDY)
      then Some (pfdi, - EINVAL)
      else do {
        (pfdi, err) \<leftarrow> (if clock_Hz pfdi = 0 then Some (pfdi\<lparr>clock_Hz := sysclock_Hz dev\<rparr>, 0)
                         else pcanfd_fix_init_clock dev pfdi);
        if err \<noteq> 0 then Some (pfdi, err)
        else do {
          let pfdi = (if bitrate (nominal pfdi) = 0 \<and> brp (nominal pfdi) = 0
                      then pfdi\<lparr>nominal := nominal (def_init_settings dev)\<rparr> else pfdi);
          (bt, err) \<leftarrow> pcan_bittiming_normalize (nominal pfdi) (clock_Hz pfdi) (bittiming_caps dev);
          let pfdi = pfdi\<lparr>nominal := bt\<rparr>;
          if err \<noteq> 0 then Some (pfdi, err)
          else do {
            (pfdi, err) \<leftarrow> (if has_flag (init_flags pfdi) PCANFD_INIT_FD then check_data_timing dev pfdi
                             else Some (pfdi, 0));
            if err \<noteq> 0 then Some (pfdi, err)
            else Some (pfdi\<lparr>init_flags := clr_flag (init_flags pfdi) PCANFD_INIT_USER\<rparr>, 0)
          }
        }
      })"

text \<open>The call of the device driver in \<^verbatim>\<open>__pcanfd_dev_open\<close>: a clock of 8 MHz selects the old
  entry, with the registers of a SJA1000.\<close>

definition call_device_open ::
  "dev_ops \<Rightarrow> pcandev \<Rightarrow> pcanfd_init \<Rightarrow> (pcandev \<times> pcanfd_init \<times> int) option" where
  "call_device_open ops dev pfdi =
     (if clock_Hz pfdi = 8 * MHz then
        (let pfdi = pfdi\<lparr>init_flags := clr_flag (init_flags pfdi) (PCANFD_INIT_FD OR PCANFD_INIT_FD_NON_ISO),
                       data_bt := zero_bittiming\<rparr>;
             ty = (if has_flag (init_flags pfdi) PCANFD_INIT_STD_MSG_ONLY then 0 else MSGTYPE_EXTENDED);
             lo = (if has_flag (init_flags pfdi) PCANFD_INIT_LISTEN_ONLY then 1 else 0);
             w = pcan_bittiming_to_btr0btr1 (nominal pfdi);
             def = nominal (def_init_settings dev)
         in do {
           w \<leftarrow> (if w = 0 then sja1000_bitrate (bitrate def) (sample_point def) (sjw def) else Some w);
           (dev, err) \<leftarrow> op_device_open ops dev w ty lo;
           Some (dev, pfdi, err)
         })
      else op_device_open_fd ops dev pfdi)"

definition pcanfd_dev_open_u ::
  "dev_ops \<Rightarrow> timeval \<Rightarrow> u64 \<Rightarrow> pcandev \<Rightarrow> pcanfd_init \<Rightarrow> (pcandev \<times> pcanfd_init \<times> int) option" where
  "pcanfd_dev_open_u ops now jiffies dev pfdi =
     (let pfdi = (if \<not> has_flag (dev_flags dev) PCAN_DEV_BUSLOAD_RDY
                  then pfdi\<lparr>init_flags := clr_flag (init_flags pfdi) PCANFD_INIT_BUS_LOAD_INFO\<rparr> else pfdi);
          dev = dev\<lparr>init_timestamp := now\<rparr>;
          tmp_init = pcanfd_copy_init (init_settings dev);
          dev = dev\<lparr>init_settings := pcanfd_copy_init pfdi\<rparr>;
          dev = pcanfd_dev_open_init dev
      in do {
        (dev, pfdi, err) \<leftarrow> call_device_open ops dev pfdi;
        if err = 0 then
          (let dev = dev\<lparr>dev_flags := set_flag (dev_flags dev) PCAN_DEV_OPENED,
                         init_timestamp := now, init_settings := pcanfd_copy_init pfdi\<rparr>;
               dev = (if locked_tx_engine_state dev = TX_ENGINE_CLOSED
                      then pcan_set_tx_engine TX_ENGINE_STOPPED dev else dev);
               dev = (if has_flag (init_flags (init_settings dev)) PCANFD_INIT_BUS_LOAD_INFO
                      then dev\<lparr>bus_load_timer := Some (jiffies + bus_load_ind_period dev)\<rparr> else dev)
           in Some (dev, pfdi, 0))
        else Some (dev\<lparr>init_settings := pcanfd_copy_init tmp_init\<rparr>, pfdi, err)
      })"

definition pcanfd_dev_open ::
  "dev_ops \<Rightarrow> timeval \<Rightarrow> u64 \<Rightarrow> pcandev \<Rightarrow> pcanfd_init \<Rightarrow> (pcandev \<times> pcanfd_init \<times> int) option" where
  "pcanfd_dev_open ops now jiffies dev pfdi =
     do {
       (pfdi, err) \<leftarrow> (if has_flag (init_flags pfdi) PCANFD_INIT_USER then check_user_init dev pfdi
                        else Some (pfdi, 0));
       if err \<noteq> 0 then Some (dev, pfdi, err) else pcanfd_dev_open_u ops now jiffies dev pfdi
     }"

section \<open>Settings, filters and state by ioctl\<close>

definition pcanfd_ioctl_set_init ::
  "dev_ops \<Rightarrow> timeval \<Rightarrow> u64 \<Rightarrow> pcandev \<Rightarrow> pcanfd_init \<Rightarrow> (pcandev \<times> pcanfd_init \<times> int) option" where
  "pcanfd_ioctl_set_init ops now jiffies dev pfdi =
     (let (dev, err) = pcanfd_dev_reset ops dev
      in if err \<noteq> 0 then Some (dev, pfdi, err)
         else pcanfd_dev_open ops now jiffies dev
                (pfdi\<lparr>init_flags := set_flag (init_flags pfdi) PCANFD_INIT_USER\<rparr>))"

definition pcanfd_ioctl_get_init :: "pcandev \<Rightarrow> pcanfd_init \<times> int" where
  "pcanfd_ioctl_get_init dev = (init_settings dev, 0)"

definition pcanfd_ioctl_add_filter :: "bool \<Rightarrow> pcandev \<Rightarrow> pcanfd_msg_filter option \<Rightarrow> pcandev \<times> int" where
  "pcanfd_ioctl_add_filter alloc dev pf =
     (case pf of
        None \<Rightarrow> (dev\<lparr>dev_filter := pcan_delete_filter_all (dev_filter dev)\<rparr>, 0)
      | Some pf \<Rightarrow>
          (let (c, err) = pcan_add_filter alloc (dev_filter dev) (id_from pf) (id_to pf) (filter_flags pf)
           in (dev\<lparr>dev_filter := c\<rparr>, err)))"

definition pcanfd_ioctl_add_filters ::
  "(nat \<Rightarrow> bool) \<Rightarrow> pcandev \<Rightarrow> pcanfd_msg_filter list option \<Rightarrow> pcandev \<times> int" where
  "pcanfd_ioctl_add_filters alloc dev pfl =
     (case pfl of
        None \<Rightarrow> (dev\<lparr>dev_filter := pcan_delete_filter_all (dev_filter dev)\<rparr>, 0)
      | Some l \<Rightarrow> (let (c, err) = pcan_add_filters alloc (dev_filter dev) l in (dev\<lparr>dev_filter := c\<rparr>, err)))"

text \<open>With a list: the entries written, the new count and the result. Without: the result only.\<close>

definition pcanfd_ioctl_get_filters ::
  "pcandev \<Rightarrow> int option \<Rightarrow> (pcanfd_msg_filter list \<times> int \<times> int) option" where
  "pcanfd_ioctl_get_filters dev count =
     (case count of
        None \<Rightarrow> map_option (\<lambda>n. ([], 0, n)) (pcan_get_filters_count (dev_filter dev))
      | Some n \<Rightarrow>
          (let (out, err) = pcan_get_filters (dev_filter dev) n
           in if err < 0 then Some (out, 0, err) else Some (out, err, 0)))"

record pcanfd_state =
  st_ver_major :: u16
  st_ver_minor :: u16
  st_ver_subminor :: u16
  st_tv_init :: timeval
  st_bus_state :: u32
  st_device_id :: u32
  st_open_counter :: u32
  st_filters_counter :: u32
  st_hw_type :: u16
  st_channel_number :: u16
  st_can_status :: u16
  st_bus_load :: u16
  st_tx_max_msgs :: u32
  st_tx_pending_msgs :: u32
  st_rx_max_msgs :: u32
  st_rx_pending_msgs :: u32
  st_tx_frames_counter :: u32
  st_rx_frames_counter :: u32
  st_tx_error_counter :: u32
  st_rx_error_counter :: u32
  st_host_time_ns :: u64
  st_hw_time_ns :: u64

abbreviation (input) HW_USB_X6 :: u16 where "HW_USB_X6 \<equiv> 20"

text \<open>The index and the number of channels of the USB interface are arguments.\<close>

definition pcanfd_ioctl_get_state :: "int \<Rightarrow> int \<Rightarrow> pcandev \<Rightarrow> (pcanfd_state \<times> int) option" where
  "pcanfd_ioctl_get_state usb_index can_count dev =
     do {
       n \<leftarrow> pcan_get_filters_count (dev_filter dev);
       Some (\<lparr>st_ver_major = 8, st_ver_minor = 9, st_ver_subminor = 3,
              st_tv_init = init_timestamp dev, st_bus_state = bus_state dev,
              st_device_id = device_alt_num dev, st_open_counter = of_int (nOpenPaths dev),
              st_filters_counter = of_int n, st_hw_type = wType dev,
              st_channel_number = (if wType dev = HW_USB_X6
                 then of_int (nChannel dev) + of_int (usb_index * can_count) else of_int (nChannel dev)),
              st_can_status = wCANStatus dev, st_bus_load = of_int (bus_load dev),
              st_tx_max_msgs = nCount (writeFifo dev), st_tx_pending_msgs = nStored (writeFifo dev),
              st_rx_max_msgs = nCount (readFifo dev), st_rx_pending_msgs = nStored (readFifo dev),
              st_tx_frames_counter = tx_frames_counter dev, st_rx_frames_counter = rx_frames_counter dev,
              st_tx_error_counter = ucast (tx_error_counter dev),
              st_rx_error_counter = ucast (rx_error_counter dev),
              st_host_time_ns = sync_tv_ns (time_sync dev),
              st_hw_time_ns = sync_ts_us (time_sync dev) * 1000\<rparr>, 0)
     }"

section \<open>Lemmas\<close>

lemma fifo_reset_empty:
  "ring_inv f \<Longrightarrow> ring_inv (fst (pcan_fifo_reset f)) \<and> fifo_items (fst (pcan_fifo_reset f)) = [] \<and>
     fifo_cap (fst (pcan_fifo_reset f)) = fifo_cap f"
  by (auto simp: ring_inv_def pcan_fifo_reset_def fifo_inv_def fifo_items_def fifo_slot_def fifo_index_def
      fifo_cap_def)

lemma fifo_reset_ok [simp]: "snd (pcan_fifo_reset f) = 0"
  by (simp add: pcan_fifo_reset_def)

lemma bittiming_to_bitrate_no_error:
  "\<lbrakk>brp pbt \<noteq> 0; pcan_bittiming_to_bitrate pbt clk = Some (bt, err)\<rbrakk> \<Longrightarrow> err = 0"
  by (auto simp: pcan_bittiming_to_bitrate_def bind_eq_Some_conv Let_def split: if_splits)

lemma fix_nominal_keeps:
  assumes "fix_nominal p = Some (q, err)"
  shows "err = 0 \<and> init_flags q = init_flags p \<and> data_bt q = data_bt p \<and> clock_Hz q = clock_Hz p \<and>
     brp (nominal q) = 0"
proof (cases "brp (nominal p) = 0")
  case True
  then show ?thesis using assms by (simp add: fix_nominal_def)
next
  case False
  then obtain bt e where b: "pcan_bittiming_to_bitrate (nominal p) (clock_Hz p) = Some (bt, e)"
    using assms by (auto simp: fix_nominal_def bind_eq_Some_conv)
  then have "e = 0" by (rule bittiming_to_bitrate_no_error [OF False])
  then show ?thesis using assms b False by (auto simp: fix_nominal_def)
qed

lemma fix_data_keeps:
  "fix_data p = Some (q, err) \<Longrightarrow> err = 0 \<and> init_flags q = init_flags p \<and> nominal q = nominal p \<and>
     clock_Hz q = clock_Hz p"
  by (auto simp: fix_data_def bind_eq_Some_conv dest: bittiming_to_bitrate_no_error split: if_splits)

lemma fix_init_clock_cases:
  assumes "pcanfd_fix_init_clock dev pfdi = Some (p, err)"
  obtains (valid) "clock_Hz pfdi \<in> set (clocks_list dev)" "p = pfdi" "err = 0"
  | (sja1000) "clock_Hz pfdi = 8 * MHz" "p = pfdi" "err = 0"
  | (fixed) q r where "fix_nominal pfdi = Some (q, 0)" "fix_data q = Some (r, 0)"
      "p = r\<lparr>clock_Hz := sysclock_Hz dev\<rparr>" "err = 0"
proof (cases "clock_Hz pfdi \<in> set (clocks_list dev)")
  case True
  then have "p = pfdi \<and> err = 0" using assms unfolding pcanfd_fix_init_clock_def by auto
  then show ?thesis using valid [OF True] by blast
next
  case out: False
  show ?thesis
  proof (cases "brp (nominal pfdi) \<noteq> 0 \<and> clock_Hz pfdi = 8 * MHz")
    case True
    then have "p = pfdi \<and> err = 0" using assms out unfolding pcanfd_fix_init_clock_def by auto
    then show ?thesis using sja1000 True by blast
  next
    case False
    then have run: "Some (p, err) = (case fix_nominal pfdi of None \<Rightarrow> None
        | Some (q, e) \<Rightarrow> if e \<noteq> 0 then Some (q, e)
            else case fix_data q of None \<Rightarrow> None
              | Some (r, f) \<Rightarrow> if f \<noteq> 0 then Some (r, f) else Some (r\<lparr>clock_Hz := sysclock_Hz dev\<rparr>, 0))"
      unfolding assms [symmetric] pcanfd_fix_init_clock_def if_not_P [OF out] if_not_P [OF False]
      by (cases "fix_nominal pfdi") (auto split: option.splits)
    then obtain q e where q: "fix_nominal pfdi = Some (q, e)" by (auto split: option.splits)
    then have e: "e = 0" using fix_nominal_keeps by blast
    then obtain r f where r: "fix_data q = Some (r, f)" using run q by (auto split: option.splits)
    then have "f = 0" using fix_data_keeps by blast
    then have "p = r\<lparr>clock_Hz := sysclock_Hz dev\<rparr> \<and> err = 0" using run q r e by simp
    then show ?thesis using fixed q r e \<open>f = 0\<close> by blast
  qed
qed

lemma fix_init_clock_keeps:
  assumes "pcanfd_fix_init_clock dev pfdi = Some (p, err)"
  shows "err = 0 \<and> init_flags p = init_flags pfdi \<and>
    (clock_Hz p = sysclock_Hz dev \<or> clock_Hz p = 8 * MHz \<or> clock_Hz p \<in> set (clocks_list dev))"
  using assms
proof (cases rule: fix_init_clock_cases)
  case (fixed q r)
  then show ?thesis using fix_nominal_keeps [of pfdi q 0] fix_data_keeps [of q r 0] by simp
qed simp_all

lemma check_data_timing_ok:
  assumes "check_data_timing dev pfdi = Some (p, 0)"
  shows "init_flags p = init_flags pfdi \<and> clock_Hz p = clock_Hz pfdi \<and> nominal p = nominal pfdi \<and>
    bitrate (nominal p) \<le> bitrate (data_bt p)"
  using assms
  by (auto simp: check_data_timing_def bind_eq_Some_conv Let_def not_less split: if_splits option.splits)

lemma set_bus_state_unknown [simp]:
  "bus_state (pcan_set_bus_state d PCANFD_UNKNOWN) = PCANFD_UNKNOWN"
  by (simp add: pcan_set_bus_state_def mark_state_change_def)

lemma set_bus_state_keeps [simp]:
  "readFifo (pcan_set_bus_state d s) = readFifo d" "writeFifo (pcan_set_bus_state d s) = writeFifo d"
  "dev_flags (pcan_set_bus_state d s) = dev_flags d"
  "locked_tx_engine_state (pcan_set_bus_state d s) = locked_tx_engine_state d"
  by (simp_all add: pcan_set_bus_state_def mark_state_change_def pcan_init_session_counters_def)

lemma open_u_settings:
  assumes "pcanfd_dev_open_u ops now jiffies dev pfdi = Some (dev', pfdi', err)"
  shows "(err = 0 \<longrightarrow> init_settings dev' = pfdi' \<and> has_flag (dev_flags dev') PCAN_DEV_OPENED \<and>
      locked_tx_engine_state dev' \<noteq> TX_ENGINE_CLOSED \<and> init_timestamp dev' = now) \<and>
    (err \<noteq> 0 \<longrightarrow> init_settings dev' = init_settings dev)"
proof -
  have fl: "has_flag (set_flag x PCAN_DEV_OPENED) PCAN_DEV_OPENED" for x :: u32
    by (rule has_flag_set_same) simp
  define p0 where "p0 = (if \<not> has_flag (dev_flags dev) PCAN_DEV_BUSLOAD_RDY
    then pfdi\<lparr>init_flags := clr_flag (init_flags pfdi) PCANFD_INIT_BUS_LOAD_INFO\<rparr> else pfdi)"
  obtain d1 p1 e1 where c: "call_device_open ops (pcanfd_dev_open_init (dev\<lparr>init_timestamp := now,
      init_settings := p0\<rparr>)) p0 = Some (d1, p1, e1)"
    using assms unfolding pcanfd_dev_open_u_def Let_def p0_def pcanfd_copy_init_def bind_eq_Some_conv by auto
  show ?thesis
    using assms c fl
    unfolding pcanfd_dev_open_u_def p0_def [symmetric] pcanfd_copy_init_def Let_def pcan_set_tx_engine_def
    by (auto split: if_splits)
qed

lemma check_user_init_ok:
  assumes "check_user_init dev pfdi = Some (p, 0)"
  obtains q q' bt r where
    "(if clock_Hz pfdi = 0 then Some (pfdi\<lparr>clock_Hz := sysclock_Hz dev\<rparr>, 0)
      else pcanfd_fix_init_clock dev pfdi) = Some (q, 0)"
    "q' = (if bitrate (nominal q) = 0 \<and> brp (nominal q) = 0
           then q\<lparr>nominal := nominal (def_init_settings dev)\<rparr> else q)"
    "pcan_bittiming_normalize (nominal q') (clock_Hz q') (bittiming_caps dev) = Some (bt, 0)"
    "(if has_flag (init_flags q') PCANFD_INIT_FD then check_data_timing dev (q'\<lparr>nominal := bt\<rparr>)
      else Some (q'\<lparr>nominal := bt\<rparr>, 0)) = Some (r, 0)"
    "p = r\<lparr>init_flags := clr_flag (init_flags r) PCANFD_INIT_USER\<rparr>"
    "has_flag (init_flags pfdi) PCANFD_INIT_FD \<Longrightarrow>
       dbittiming_caps dev \<noteq> None \<and> has_flag (dev_flags dev) PCAN_DEV_FD_RDY"
proof -
  have guard: "\<not> (has_flag (init_flags pfdi) PCANFD_INIT_FD \<and>
         (dbittiming_caps dev = None \<or> \<not> has_flag (dev_flags dev) PCAN_DEV_FD_RDY))"
  proof
    assume refused: "has_flag (init_flags pfdi) PCANFD_INIT_FD \<and>
         (dbittiming_caps dev = None \<or> \<not> has_flag (dev_flags dev) PCAN_DEV_FD_RDY)"
    show False using assms unfolding check_user_init_def if_P [OF refused] by simp
  qed
  note run = assms [unfolded check_user_init_def if_not_P [OF guard]]
  obtain q e where q: "(if clock_Hz pfdi = 0 then Some (pfdi\<lparr>clock_Hz := sysclock_Hz dev\<rparr>, 0)
      else pcanfd_fix_init_clock dev pfdi) = Some (q, e)"
    using run unfolding bind_eq_Some_conv by auto
  then have e: "e = 0" using run by (auto split: if_splits)
  define q' where "q' = (if bitrate (nominal q) = 0 \<and> brp (nominal q) = 0
           then q\<lparr>nominal := nominal (def_init_settings dev)\<rparr> else q)"
  note run1 = run [unfolded q e bind.simps prod.case Let_def q'_def [symmetric]]
  obtain bt f where bt: "pcan_bittiming_normalize (nominal q') (clock_Hz q') (bittiming_caps dev) = Some (bt, f)"
    using run1 by (auto simp: bind_eq_Some_conv)
  then have f: "f = 0" using run1 by (auto split: if_splits)
  note run2 = run1 [unfolded bt f bind.simps prod.case]
  obtain r g where r: "(if has_flag (init_flags q') PCANFD_INIT_FD then check_data_timing dev (q'\<lparr>nominal := bt\<rparr>)
      else Some (q'\<lparr>nominal := bt\<rparr>, 0)) = Some (r, g)"
    using run2 by (auto simp: bind_eq_Some_conv)
  then have g: "g = 0" using run2 by (auto split: if_splits)
  have "p = r\<lparr>init_flags := clr_flag (init_flags r) PCANFD_INIT_USER\<rparr>" using run2 r g by simp
  moreover have "has_flag (init_flags pfdi) PCANFD_INIT_FD \<Longrightarrow>
       dbittiming_caps dev \<noteq> None \<and> has_flag (dev_flags dev) PCAN_DEV_FD_RDY"
    using guard by auto
  ultimately show ?thesis by (rule that [OF q [unfolded e] q'_def bt [unfolded f] r [unfolded g]])
qed

section \<open>Properties\<close>

text \<open>A CAN FD channel with a clock of 80 MHz, and settings of a user, for the witnesses.\<close>

definition fd_dev :: pcandev where
  "fd_dev = blank_dev\<lparr>dbittiming_caps := Some ucan_fast_capabilities, bittiming_caps := ucan_slow_capabilities,
     sysclock_Hz := 80000000, clocks_list := [80000000], dev_flags := PCAN_DEV_FD_RDY\<rparr>"

definition fd_settings :: "u32 \<Rightarrow> pcanfd_init" where
  "fd_settings clk = zero_init\<lparr>init_flags := PCANFD_INIT_FD OR PCANFD_INIT_USER, clock_Hz := clk,
     nominal := zero_bittiming\<lparr>brp := 2, tseg1 := 12, tseg2 := 3, sjw := 1\<rparr>,
     data_bt := zero_bittiming\<lparr>brp := 1, tseg1 := 5, tseg2 := 2, sjw := 1\<rparr>\<rparr>"

text \<open>C27. Opening a channel is all or nothing for its settings: on success they are the checked
  settings, the channel is marked open and its transmit engine is not closed; on any error the
  settings are those of before.\<close>

theorem open_settings:
  assumes "pcanfd_dev_open ops now jiffies dev pfdi = Some (dev', pfdi', err)"
  shows "(err = 0 \<longrightarrow> init_settings dev' = pfdi' \<and> has_flag (dev_flags dev') PCAN_DEV_OPENED \<and>
      locked_tx_engine_state dev' \<noteq> TX_ENGINE_CLOSED \<and> init_timestamp dev' = now) \<and>
    (err \<noteq> 0 \<longrightarrow> init_settings dev' = init_settings dev)"
proof -
  obtain p e where p: "(if has_flag (init_flags pfdi) PCANFD_INIT_USER then check_user_init dev pfdi
      else Some (pfdi, 0)) = Some (p, e)"
      and run: "(if e \<noteq> 0 then Some (dev, p, e) else pcanfd_dev_open_u ops now jiffies dev p) = Some (dev', pfdi', err)"
    using assms unfolding pcanfd_dev_open_def bind_eq_Some_conv by auto
  show ?thesis
  proof (cases "e = 0")
    case False
    then show ?thesis using run by auto
  next
    case True
    then show ?thesis using run open_u_settings by auto
  qed
qed

theorem open_settings_witness:
  "\<exists>d p. pcanfd_dev_open
       \<lparr>op_device_open = (\<lambda>d _ _ _. Some (d, 0)), op_device_open_fd = (\<lambda>d p. Some (d, p, - EINVAL)),
        op_device_release = None, op_device_write = (\<lambda>d. (d, 0)), op_open = None, op_release = None,
        op_req_irq = None, op_free_irq = None, op_cleanup = None\<rparr>
       \<lparr>tv_sec = 5, tv_usec = 0\<rparr> 0 blank_dev
       (zero_init\<lparr>clock_Hz := 8000000, nominal := zero_bittiming\<lparr>brp := 1, tseg1 := 13, tseg2 := 2, sjw := 1\<rparr>\<rparr>)
     = Some (d, p, 0) \<and> init_settings d = p"
proof -
  let ?ops = "\<lparr>op_device_open = (\<lambda>d _ _ _. Some (d, 0)), op_device_open_fd = (\<lambda>d p. Some (d, p, - EINVAL)),
        op_device_release = None, op_device_write = (\<lambda>d. (d, 0)), op_open = None, op_release = None,
        op_req_irq = None, op_free_irq = None, op_cleanup = None\<rparr>"
  let ?p = "zero_init\<lparr>clock_Hz := 8000000, nominal := zero_bittiming\<lparr>brp := 1, tseg1 := 13, tseg2 := 2, sjw := 1\<rparr>\<rparr>"
  have ok: "map_option (\<lambda>(d, p, e). e) (pcanfd_dev_open ?ops \<lparr>tv_sec = 5, tv_usec = 0\<rparr> 0 blank_dev ?p) = Some 0"
    by code_simp
  then obtain d p where run: "pcanfd_dev_open ?ops \<lparr>tv_sec = 5, tv_usec = 0\<rparr> 0 blank_dev ?p = Some (d, p, 0)"
    by auto
  then show ?thesis using open_settings [OF run] by auto
qed

text \<open>Settings that pass the checks of \<open>pcanfd_dev_open\<close>: CAN FD only on a channel that is
  capable of it, and with a data bit rate not below the nominal one; the clock is one of the
  device's, its default or 8 MHz; the flags are the user's without the internal one.\<close>

theorem checked_settings:
  assumes "check_user_init dev pfdi = Some (p, 0)"
  shows "init_flags p = clr_flag (init_flags pfdi) PCANFD_INIT_USER \<and>
    (clock_Hz p = sysclock_Hz dev \<or> clock_Hz p = 8 * MHz \<or> clock_Hz p \<in> set (clocks_list dev)) \<and>
    (has_flag (init_flags pfdi) PCANFD_INIT_FD \<longrightarrow>
       dbittiming_caps dev \<noteq> None \<and> has_flag (dev_flags dev) PCAN_DEV_FD_RDY \<and>
       bitrate (nominal p) \<le> bitrate (data_bt p))"
  using assms
proof (cases rule: check_user_init_ok)
  case (1 q q' bt r)
  have q: "init_flags q = init_flags pfdi"
      "clock_Hz q = sysclock_Hz dev \<or> clock_Hz q = 8 * MHz \<or> clock_Hz q \<in> set (clocks_list dev)"
    using 1(1) fix_init_clock_keeps by (auto split: if_splits)
  then have q': "init_flags q' = init_flags pfdi" "clock_Hz q' = clock_Hz q" unfolding 1(2) by simp_all
  have r: "init_flags r = init_flags pfdi \<and> clock_Hz r = clock_Hz q' \<and>
      (has_flag (init_flags pfdi) PCANFD_INIT_FD \<longrightarrow> bitrate (nominal r) \<le> bitrate (data_bt r))"
    using 1(4) check_data_timing_ok [of dev "q'\<lparr>nominal := bt\<rparr>" r] q' by (auto split: if_splits)
  then show ?thesis using 1(5,6) q q' by simp
qed

theorem checked_settings_witness:
  "\<exists>p. check_user_init fd_dev (fd_settings 80000000) = Some (p, 0) \<and> bitrate (nominal p) \<le> bitrate (data_bt p)"
proof -
  have "map_option snd (check_user_init fd_dev (fd_settings 80000000)) = Some 0" by code_simp
  then obtain p where run: "check_user_init fd_dev (fd_settings 80000000) = Some (p, 0)" by auto
  have "has_flag (init_flags (fd_settings 80000000)) PCANFD_INIT_FD"
    by (simp add: has_flag_def fd_settings_def zero_init_def)
  then show ?thesis using checked_settings [OF run] run by blast
qed

text \<open>Explicit timings with a clock of the device, on a channel whose ranges are well formed,
  never fault: the nominal timing is brought into range, and the only refusal left is a CAN FD
  data bit rate below the nominal one.\<close>

theorem explicit_timings_checked:
  assumes caps: "caps_wf (bittiming_caps dev)" "dbittiming_caps dev = Some dcaps" "caps_wf dcaps"
    and fd: "has_flag (dev_flags dev) PCAN_DEV_FD_RDY" "has_flag (init_flags pfdi) PCANFD_INIT_FD"
    and clk: "clock_Hz pfdi \<in> set (clocks_list dev)" "clock_Hz pfdi \<noteq> 0"
    and bts: "brp (nominal pfdi) \<noteq> 0" "brp (data_bt pfdi) \<noteq> 0"
  shows "\<exists>p err. check_user_init dev pfdi = Some (p, err) \<and> clock_Hz p = clock_Hz pfdi \<and>
    brp_min (bittiming_caps dev) \<le> brp (nominal p) \<and> brp (nominal p) \<le> brp_max (bittiming_caps dev) \<and>
    brp_min dcaps \<le> brp (data_bt p) \<and> brp (data_bt p) \<le> brp_max dcaps \<and>
    unat (bitrate (nominal p)) = unat (clock_Hz p) div
      (unat (brp (nominal p)) * (1 + unat (tseg1 (nominal p)) + unat (tseg2 (nominal p)))) \<and>
    (err = 0 \<longleftrightarrow> bitrate (nominal p) \<le> bitrate (data_bt p)) \<and> err \<in> {0, - EINVAL}"
proof -
  obtain n where n: "pcan_bittiming_normalize (nominal pfdi) (clock_Hz pfdi) (bittiming_caps dev) = Some (n, 0)"
      "brp_min (bittiming_caps dev) \<le> brp n" "brp n \<le> brp_max (bittiming_caps dev)"
      "unat (bitrate n) = unat (clock_Hz pfdi) div (unat (brp n) * (1 + unat (tseg1 n) + unat (tseg2 n)))"
    using normalize_clamps [OF caps(1) bts(1) clk(2)] by blast
  obtain d where d: "pcan_bittiming_normalize (data_bt pfdi) (clock_Hz pfdi) dcaps = Some (d, 0)"
      "brp_min dcaps \<le> brp d" "brp d \<le> brp_max dcaps"
    using normalize_clamps [OF caps(3) bts(2) clk(2)] by blast
  have "check_data_timing dev (pfdi\<lparr>nominal := n\<rparr>) = Some (pfdi\<lparr>nominal := n, data_bt := d\<rparr>,
      if bitrate d < bitrate n then - EINVAL else 0)"
    by (simp add: check_data_timing_def caps(2) bts(2) d(1))
  moreover have "pcanfd_fix_init_clock dev pfdi = Some (pfdi, 0)"
    using clk(1) by (simp add: pcanfd_fix_init_clock_def)
  ultimately have "check_user_init dev pfdi = (if bitrate d < bitrate n
      then Some (pfdi\<lparr>nominal := n, data_bt := d\<rparr>, - EINVAL)
      else Some (pfdi\<lparr>nominal := n, data_bt := d, init_flags := clr_flag (init_flags pfdi) PCANFD_INIT_USER\<rparr>, 0))"
    using fd caps(2) clk(2) bts(1) n(1) by (simp add: check_user_init_def)
  then show ?thesis using n d by (cases "bitrate d < bitrate n") (auto simp: not_less)
qed

theorem explicit_timings_checked_witness:
  "\<exists>p err. check_user_init fd_dev (fd_settings 80000000) = Some (p, err) \<and>
     brp (nominal p) \<le> brp_max (bittiming_caps fd_dev)"
proof -
  have caps: "caps_wf (bittiming_caps fd_dev)" "caps_wf ucan_fast_capabilities"
    by (simp_all add: fd_dev_def caps_wf_def ucan_slow_capabilities_def ucan_fast_capabilities_def)
  have dev: "dbittiming_caps fd_dev = Some ucan_fast_capabilities" "has_flag (dev_flags fd_dev) PCAN_DEV_FD_RDY"
    by (simp_all add: fd_dev_def has_flag_def)
  have set: "has_flag (init_flags (fd_settings 80000000)) PCANFD_INIT_FD"
      "clock_Hz (fd_settings 80000000) \<in> set (clocks_list fd_dev)" "clock_Hz (fd_settings 80000000) \<noteq> 0"
      "brp (nominal (fd_settings 80000000)) \<noteq> 0" "brp (data_bt (fd_settings 80000000)) \<noteq> 0"
    by (simp_all add: fd_settings_def fd_dev_def has_flag_def)
  show ?thesis using explicit_timings_checked [OF caps(1) dev(1) caps(2) dev(2) set]
    by (elim exE conjE) (intro exI conjI)
qed

text \<open>With a clock that is not one of the device's, the data timing of the user keeps its values
  although the channel is opened with the device's clock. With 16 MHz and a data bit rate of
  2 Mbit/s requested, the channel is opened with 10 Mbit/s.\<close>

theorem wrong_clock_data_rate:
  "pcan_get_bps 16000000 (data_bt (fd_settings 16000000)) = Some 2000000 \<and>
   map_option (\<lambda>(p, err). (err, clock_Hz p, bitrate (data_bt p)))
     (check_user_init (fd_dev\<lparr>def_init_settings := fd_settings 80000000\<rparr>)
       ((fd_settings 16000000)\<lparr>nominal := zero_bittiming\<rparr>)) = Some (0, 80000000, 10000000)"
  by code_simp

text \<open>The conversion with a wrong clock uses the values of the user before any range check: a
  product of prescaler and time quanta that wraps to zero is a division by zero in the kernel.\<close>

theorem wrong_clock_divide_fault:
  "16000001 \<in> set (clocks_list dev) \<or>
   check_user_init dev (zero_init\<lparr>clock_Hz := 16000001,
     nominal := zero_bittiming\<lparr>brp := 0x80000000, tseg1 := 1\<rparr>\<rparr>) = None"
proof (cases "16000001 \<in> set (clocks_list dev)")
  case False
  let ?p = "zero_init\<lparr>clock_Hz := 16000001, nominal := zero_bittiming\<lparr>brp := 0x80000000, tseg1 := 1\<rparr>\<rparr>"
  have "fix_nominal ?p = None"
    by (simp add: fix_nominal_def pcan_bittiming_to_bitrate_def pcan_get_bps_def udiv_def zero_bittiming_def)
  then have "pcanfd_fix_init_clock dev ?p = None"
    using False by (simp add: pcanfd_fix_init_clock_def)
  then show ?thesis by (simp add: check_user_init_def zero_init_def)
qed simp

text \<open>A reset, with a release callback that keeps the two queues well formed: it succeeds, both
  queues are empty, the channel is not open, the bus state is unknown and no overflow is pending.\<close>

theorem dev_reset_clean:
  assumes inv: "ring_inv (readFifo dev)" "ring_inv (writeFifo dev)"
    and release: "\<And>f d. \<lbrakk>op_device_release ops = Some f; ring_inv (readFifo d); ring_inv (writeFifo d)\<rbrakk>
      \<Longrightarrow> ring_inv (readFifo (f d)) \<and> ring_inv (writeFifo (f d))"
    and run: "pcanfd_dev_reset ops dev = (dev', err)"
  shows "err = 0 \<and> ring_inv (readFifo dev') \<and> ring_inv (writeFifo dev') \<and>
    fifo_items (readFifo dev') = [] \<and> fifo_items (writeFifo dev') = [] \<and>
    bus_state dev' = PCANFD_UNKNOWN \<and> \<not> has_flag (dev_flags dev') PCAN_DEV_OPENED \<and>
    \<not> has_flag (wCANStatus dev') (CAN_ERR_OVERRUN OR CAN_ERR_XMTFULL)"
proof -
  define d0 where "d0 = pcan_set_tx_engine TX_ENGINE_CLOSED dev"
  define d1 where "d1 = (if nOpenPaths d0 \<noteq> 0 then
      case op_device_release ops of None \<Rightarrow> d0 | Some f \<Rightarrow> f d0 else d0)"
  have d1: "ring_inv (readFifo d1)" "ring_inv (writeFifo d1)"
    using inv release [of _ d0] by (auto simp: d1_def d0_def pcan_set_tx_engine_def split: option.splits)
  define d2 where "d2 = pcan_set_bus_state (d1\<lparr>dev_flags := clr_flag (dev_flags d1) PCAN_DEV_OPENED\<rparr>) PCANFD_UNKNOWN"
  have res: "dev' = d2\<lparr>writeFifo := fst (pcan_fifo_reset (writeFifo d2)), readFifo := fst (pcan_fifo_reset (readFifo d2)),
      wCANStatus := clr_flag (wCANStatus d2) (CAN_ERR_OVERRUN OR CAN_ERR_XMTFULL)\<rparr>" "err = 0"
    using run unfolding pcanfd_dev_reset_def Let_def d0_def [symmetric] d1_def [symmetric] d2_def [symmetric]
    by (auto simp: split_def)
  show ?thesis
    unfolding res using fifo_reset_empty [OF d1(1)] fifo_reset_empty [OF d1(2)]
    by (simp add: d2_def has_flag_clr_same)
qed

theorem dev_reset_clean_witness:
  "\<exists>d. pcanfd_dev_reset
       \<lparr>op_device_open = (\<lambda>d _ _ _. Some (d, 0)), op_device_open_fd = (\<lambda>d p. Some (d, p, 0)),
        op_device_release = Some (pcan_set_tx_engine TX_ENGINE_IDLE), op_device_write = (\<lambda>d. (d, 0)),
        op_open = None, op_release = None, op_req_irq = None, op_free_irq = None, op_cleanup = None\<rparr>
       (blank_dev\<lparr>nOpenPaths := 1, bus_state := 3, wCANStatus := 2\<rparr>) = (d, 0) \<and>
     bus_state d = PCANFD_UNKNOWN \<and> fifo_items (readFifo d) = []"
proof -
  let ?ops = "\<lparr>op_device_open = (\<lambda>d _ _ _. Some (d, 0)), op_device_open_fd = (\<lambda>d p. Some (d, p, 0)),
        op_device_release = Some (pcan_set_tx_engine TX_ENGINE_IDLE), op_device_write = (\<lambda>d. (d, 0)),
        op_open = None, op_release = None, op_req_irq = None, op_free_irq = None, op_cleanup = None\<rparr> :: dev_ops"
  let ?d = "blank_dev\<lparr>nOpenPaths := 1, bus_state := 3, wCANStatus := 2\<rparr>"
  obtain d e where run: "pcanfd_dev_reset ?ops ?d = (d, e)" by fastforce
  have inv: "ring_inv (readFifo ?d)" "ring_inv (writeFifo ?d)"
    using blank_fifo_inv [of "\<lparr>rx_msg = zero_msg, rx_hwtv = zero_hwtv\<rparr>"]
      blank_fifo_inv [of "\<lparr>tx_msg = zero_msg, tx_tv = zero_timeval\<rparr>"] by (simp_all add: blank_dev_def)
  have "e = 0 \<and> ring_inv (readFifo d) \<and> ring_inv (writeFifo d) \<and>
      fifo_items (readFifo d) = [] \<and> fifo_items (writeFifo d) = [] \<and>
      bus_state d = PCANFD_UNKNOWN \<and> \<not> has_flag (dev_flags d) PCAN_DEV_OPENED \<and>
      \<not> has_flag (wCANStatus d) (CAN_ERR_OVERRUN OR CAN_ERR_XMTFULL)"
    by (rule dev_reset_clean [OF inv _ run]) (auto simp: pcan_set_tx_engine_def)
  then show ?thesis using run by auto
qed

end
