(* ===== verification/Pcan_Xfer.thy ===== *)
theory Pcan_Xfer
  imports Pcan_Open
begin

text \<open>
  Reading and writing messages by a task (\<^verbatim>\<open>pcanfd_recv_msg\<close>, \<^verbatim>\<open>pcanfd_send_msg\<close> and the
  requests built on them, \<^verbatim>\<open>driver/src/pcanfd_core.c\<close>). A task that waits releases the channel;
  what happens meanwhile is a list of wake-ups: what the others did to the channel, the time, and
  the result of the wait, which is 0 or \<^verbatim>\<open>-ERESTARTSYS\<close> after a signal. A task that runs out of
  wake-ups still sleeps. \<open>pcan_task_can_wait()\<close> holds, as on Linux, and the event of a Linux
  build has no \<^verbatim>\<open>pcan_event_clear\<close>.
\<close>

section \<open>Tasks\<close>

abbreviation (input) O_NONBLOCK :: u32 where "O_NONBLOCK \<equiv> 0x800"

record wakeup =
  wake_effect :: "pcandev \<Rightarrow> pcandev"
  wake_now :: timeval
  wake_err :: int

text \<open>The clock of the task and the wake-ups that are still to come.\<close>

record task =
  task_now :: timeval
  task_wakes :: "wakeup list"

text \<open>How a call ends: with a result, still asleep, or with a processor fault.\<close>

datatype 'a outcome = Done 'a | Sleeping pcandev | Fault

fun outcome_bind :: "'a outcome \<Rightarrow> ('a \<Rightarrow> 'b outcome) \<Rightarrow> 'b outcome" where
  "outcome_bind (Done x) f = f x"
| "outcome_bind (Sleeping d) f = Sleeping d"
| "outcome_bind Fault f = Fault"

definition intr :: "int \<Rightarrow> int" where
  "intr err = (if err = - ERESTARTSYS then - EINTR else err)"

section \<open>Reading\<close>

fun recv_loop ::
  "timeval \<Rightarrow> u32 \<Rightarrow> timeval \<Rightarrow> wakeup list \<Rightarrow> pcandev \<Rightarrow> pcanfd_rxmsg
     \<Rightarrow> (pcandev \<times> pcanfd_rxmsg \<times> task \<times> int) outcome" where
  "recv_loop drv fl now wakes dev pf =
     (let task = \<lparr>task_now = now, task_wakes = wakes\<rparr>
      in if \<not> is_plugged dev \<or> nOpenPaths dev = 0 then Done (dev, pf, task, - ENODEV)
         else
           case pcan_fifo_get True (readFifo dev) of
             (fifo, err, Some x) \<Rightarrow>
               (case pcan_sync_timestamps now
                       (pcan_clear_status_bit now drv (dev\<lparr>readFifo := fifo\<rparr>) CAN_ERR_OVERRUN) x of
                  None \<Rightarrow> Fault
                | Some (dev, pf) \<Rightarrow> Done (dev, pf, task, 0))
           | (fifo, err, None) \<Rightarrow>
               if has_flag fl O_NONBLOCK then Done (dev, pf, task, - EAGAIN)
               else
                 case wakes of
                   [] \<Rightarrow> Sleeping dev
                 | w # ws \<Rightarrow>
                     let dev = wake_effect w dev
                     in if 0 \<le> wake_err w then recv_loop drv fl (wake_now w) ws dev pf
                        else Done (dev, pf, \<lparr>task_now = wake_now w, task_wakes = ws\<rparr>, wake_err w))"

declare recv_loop.simps [simp del]

definition pcanfd_recv_msg ::
  "timeval \<Rightarrow> u32 \<Rightarrow> task \<Rightarrow> pcandev \<Rightarrow> pcanfd_rxmsg \<Rightarrow> (pcandev \<times> pcanfd_rxmsg \<times> task \<times> int) outcome" where
  "pcanfd_recv_msg drv fl task dev pf =
     outcome_bind (recv_loop drv fl (task_now task) (task_wakes task) dev pf)
       (\<lambda>(dev, pf, task, err). Done (dev, pf, task, intr err))"

definition pcanfd_ioctl_recv_msg ::
  "timeval \<Rightarrow> u32 \<Rightarrow> task \<Rightarrow> pcandev \<Rightarrow> pcanfd_rxmsg \<Rightarrow> (pcandev \<times> pcanfd_rxmsg \<times> task \<times> int) outcome" where
  "pcanfd_ioctl_recv_msg drv fl task dev prx = pcanfd_recv_msg drv fl task dev prx"

text \<open>The loop over a list of \<open>n\<close> messages; the buffers hold what was there before. The result has
  the messages read and the error that ended the loop.\<close>

fun recv_msgs_loop ::
  "timeval \<Rightarrow> u32 \<Rightarrow> task \<Rightarrow> pcandev \<Rightarrow> pcanfd_rxmsg list
     \<Rightarrow> (pcandev \<times> pcanfd_rxmsg list \<times> task \<times> int) outcome" where
  "recv_msgs_loop drv fl task dev [] = Done (dev, [], task, 0)"
| "recv_msgs_loop drv fl task dev (b # bs) =
     outcome_bind (pcanfd_recv_msg drv fl task dev b)
       (\<lambda>(dev, m, task, err).
          if err \<noteq> 0 then Done (dev, [], task, err)
          else outcome_bind (recv_msgs_loop drv (set_flag fl O_NONBLOCK) task dev bs)
                 (\<lambda>(dev, ms, task, err). Done (dev, m # ms, task, err)))"

definition pcanfd_ioctl_recv_msgs ::
  "timeval \<Rightarrow> u32 \<Rightarrow> task \<Rightarrow> pcandev \<Rightarrow> pcanfd_rxmsg list
     \<Rightarrow> (pcandev \<times> pcanfd_rxmsg list \<times> task \<times> int) outcome" where
  "pcanfd_ioctl_recv_msgs drv fl task dev bufs =
     outcome_bind (recv_msgs_loop drv fl task dev bufs)
       (\<lambda>(dev, ms, task, err). Done (dev, ms, task, if 0 < length ms then 0 else err))"

section \<open>Writing\<close>

definition pcanfd_start_tx_engine :: "dev_ops \<Rightarrow> pcandev \<Rightarrow> pcandev \<times> int" where
  "pcanfd_start_tx_engine ops dev = pcan_dev_start_writing ops dev"

text \<open>The type of a message to send: a CAN FD message on a channel that is not set up for it
  becomes a CAN 2.0 message. \<open>None\<close> is a refused message.\<close>

definition send_type :: "pcandev \<Rightarrow> pcanfd_msg \<Rightarrow> u16 option" where
  "send_type dev m =
     (if msg_type m = PCANFD_TYPE_CANFD_MSG \<and> has_flag (init_flags (init_settings dev)) PCANFD_INIT_FD \<and>
         data_len m \<le> 64 then Some PCANFD_TYPE_CANFD_MSG
      else if (msg_type m = PCANFD_TYPE_CANFD_MSG \<or> msg_type m = PCANFD_TYPE_CAN20_MSG) \<and> data_len m \<le> 8
      then Some PCANFD_TYPE_CAN20_MSG
      else None)"

fun send_loop ::
  "dev_ops \<Rightarrow> timeval \<Rightarrow> u32 \<Rightarrow> timeval \<Rightarrow> wakeup list \<Rightarrow> pcandev \<Rightarrow> pcanfd_txmsg
     \<Rightarrow> (pcandev \<times> task \<times> int) outcome" where
  "send_loop ops drv fl now wakes dev ptx =
     (let task = \<lparr>task_now = now, task_wakes = wakes\<rparr>
      in if \<not> is_plugged dev \<or> nOpenPaths dev = 0 then Done (dev, task, - ENODEV)
         else if bus_state dev = PCANFD_ERROR_BUSOFF then Done (dev, task, - ENETDOWN)
         else
           let ptx = ptx\<lparr>tx_tv := now\<rparr>;
               (fifo, err) = pcan_fifo_put ptx (writeFifo dev);
               dev = dev\<lparr>writeFifo := fifo\<rparr>
           in if 0 \<le> err then Done (pcan_clear_status_bit now drv dev CAN_ERR_XMTFULL, task, 0)
              else if has_flag fl O_NONBLOCK then Done (dev, task, - EAGAIN)
              else
                let dev = dev\<lparr>wCANStatus := set_flag (wCANStatus dev) CAN_ERR_XMTFULL\<rparr>;
                    (dev, _) = pcanfd_start_tx_engine ops dev
                in case wakes of
                     [] \<Rightarrow> Sleeping dev
                   | w # ws \<Rightarrow>
                       let dev = wake_effect w dev
                       in if 0 \<le> wake_err w then send_loop ops drv fl (wake_now w) ws dev ptx
                          else Done (dev, \<lparr>task_now = wake_now w, task_wakes = ws\<rparr>, wake_err w))"

declare send_loop.simps [simp del]

text \<open>The notice of a full transmit queue, in non-blocking mode; \<open>stack\<close> is the first content of the
  message on the stack.\<close>

definition post_tx_overflow :: "timeval \<Rightarrow> timeval \<Rightarrow> pcanfd_rxmsg \<Rightarrow> pcandev \<Rightarrow> pcandev" where
  "post_tx_overflow now drv stack dev =
     (if \<not> has_flag (wCANStatus dev) CAN_ERR_XMTFULL then
        (let (dev, f) = pcan_handle_error_internal dev stack PCANFD_TX_OVERFLOW in rx_deliver now drv dev f)
      else dev)"

definition pcanfd_send_msg ::
  "dev_ops \<Rightarrow> timeval \<Rightarrow> pcanfd_rxmsg \<Rightarrow> u32 \<Rightarrow> task \<Rightarrow> pcandev \<Rightarrow> pcanfd_txmsg
     \<Rightarrow> (pcandev \<times> task \<times> int) outcome" where
  "pcanfd_send_msg ops drv stack fl task dev ptx =
     (case send_type dev (tx_msg ptx) of
        None \<Rightarrow> Done (dev, task, - EBADMSG)
      | Some t \<Rightarrow>
          (let ptx = ptx\<lparr>tx_msg := (tx_msg ptx)\<lparr>msg_type := t\<rparr>\<rparr>
           in if has_flag (init_flags (init_settings dev)) PCANFD_INIT_STD_MSG_ONLY \<and>
                 (has_flag (msg_flags (tx_msg ptx)) PCANFD_MSG_EXT \<or> 2047 < msg_id (tx_msg ptx))
              then Done (dev, task, - EINVAL)
              else outcome_bind (send_loop ops drv fl (task_now task) (task_wakes task) dev ptx)
                     (\<lambda>(dev, task, err).
                        if err = - ERESTARTSYS then Done (dev, task, - EINTR)
                        else if err = - EAGAIN
                        then Done (post_tx_overflow (task_now task) drv stack dev, task, err)
                        else Done (dev, task, err))))"

definition pcanfd_ioctl_send_msg ::
  "dev_ops \<Rightarrow> timeval \<Rightarrow> pcanfd_rxmsg \<Rightarrow> u32 \<Rightarrow> task \<Rightarrow> pcandev \<Rightarrow> pcanfd_txmsg
     \<Rightarrow> (pcandev \<times> task \<times> int) outcome" where
  "pcanfd_ioctl_send_msg ops drv stack fl task dev ptx =
     outcome_bind (pcanfd_send_msg ops drv stack fl task dev ptx)
       (\<lambda>(dev, task, err).
          if err = 0 then (let (dev, err) = pcanfd_start_tx_engine ops dev in Done (dev, task, err))
          else Done (dev, task, err))"

text \<open>The loop over a list of messages: how many were queued and the error that ended it.\<close>

fun send_msgs_loop ::
  "dev_ops \<Rightarrow> timeval \<Rightarrow> pcanfd_rxmsg \<Rightarrow> u32 \<Rightarrow> task \<Rightarrow> pcandev \<Rightarrow> pcanfd_txmsg list
     \<Rightarrow> (pcandev \<times> nat \<times> task \<times> int) outcome" where
  "send_msgs_loop ops drv stack fl task dev [] = Done (dev, 0, task, 0)"
| "send_msgs_loop ops drv stack fl task dev (m # ms) =
     outcome_bind (pcanfd_send_msg ops drv stack fl task dev m)
       (\<lambda>(dev, task, err).
          if err \<noteq> 0 then Done (dev, 0, task, err)
          else outcome_bind (send_msgs_loop ops drv stack fl task dev ms)
                 (\<lambda>(dev, n, task, err). Done (dev, n + 1, task, err)))"

definition pcanfd_ioctl_send_msgs ::
  "dev_ops \<Rightarrow> timeval \<Rightarrow> pcanfd_rxmsg \<Rightarrow> u32 \<Rightarrow> task \<Rightarrow> pcandev \<Rightarrow> pcanfd_txmsg list
     \<Rightarrow> (pcandev \<times> nat \<times> task \<times> int) outcome" where
  "pcanfd_ioctl_send_msgs ops drv stack fl task dev ms =
     outcome_bind (send_msgs_loop ops drv stack fl task dev ms)
       (\<lambda>(dev, n, task, err).
          if n \<noteq> 0 then (let (dev, err) = pcanfd_start_tx_engine ops dev in Done (dev, n, task, err))
          else Done (dev, n, task, err))"

text \<open>The variant for a caller that holds the interrupt lock.\<close>

definition pcanfd_ioctl_send_msgs_nolock ::
  "dev_ops \<Rightarrow> timeval \<Rightarrow> pcanfd_rxmsg \<Rightarrow> u32 \<Rightarrow> task \<Rightarrow> pcandev \<Rightarrow> pcanfd_txmsg list
     \<Rightarrow> (pcandev \<times> nat \<times> task \<times> int) outcome" where
  "pcanfd_ioctl_send_msgs_nolock ops drv stack fl task dev ms =
     outcome_bind (send_msgs_loop ops drv stack fl task dev ms)
       (\<lambda>(dev, n, task, err).
          if n \<noteq> 0 then (let (dev, err) = pcan_dev_start_writing ops dev in Done (dev, n, task, err))
          else Done (dev, n, task, err))"

section \<open>Specification\<close>

text \<open>A channel that a task can use, and the message as it is queued.\<close>

definition usable :: "pcandev \<Rightarrow> bool" where
  "usable dev \<longleftrightarrow> is_plugged dev \<and> nOpenPaths dev \<noteq> 0"

definition ext_refused :: "pcandev \<Rightarrow> pcanfd_msg \<Rightarrow> bool" where
  "ext_refused dev m \<longleftrightarrow> has_flag (init_flags (init_settings dev)) PCANFD_INIT_STD_MSG_ONLY \<and>
     (has_flag (msg_flags m) PCANFD_MSG_EXT \<or> 2047 < msg_id m)"

definition queued_as :: "pcandev \<Rightarrow> timeval \<Rightarrow> pcanfd_txmsg \<Rightarrow> pcanfd_txmsg" where
  "queued_as dev now ptx = ptx\<lparr>tx_msg := (tx_msg ptx)\<lparr>msg_type := the (send_type dev (tx_msg ptx))\<rparr>, tx_tv := now\<rparr>"

text \<open>The result of writing one message without waiting.\<close>

definition send_result :: "pcandev \<Rightarrow> pcanfd_msg \<Rightarrow> int" where
  "send_result dev m =
     (if send_type dev m = None then - EBADMSG
      else if ext_refused dev m then - EINVAL
      else if \<not> usable dev then - ENODEV
      else if bus_state dev = PCANFD_ERROR_BUSOFF then - ENETDOWN
      else if length (fifo_items (writeFifo dev)) = fifo_cap (writeFifo dev) then - EAGAIN
      else 0)"

section \<open>Lemmas\<close>

lemma outcome_bind_Done:
  "outcome_bind c f = Done y \<longleftrightarrow> (\<exists>x. c = Done x \<and> f x = Done y)"
  by (cases c) auto

text \<open>What a message is, apart from its time.\<close>

definition same_msg :: "pcanfd_msg \<Rightarrow> pcanfd_msg \<Rightarrow> bool" where
  "same_msg a b \<longleftrightarrow> msg_type a = msg_type b \<and> msg_id a = msg_id b \<and> data_len a = data_len b \<and>
     msg_data a = msg_data b"

lemma fix_future_keeps:
  "fst (fix_future now dev pm) = dev\<lparr>time_sync := time_sync (fst (fix_future now dev pm))\<rparr>"
  "same_msg (snd (fix_future now dev pm)) pm"
  by (simp_all add: fix_future_def Let_def same_msg_def)

lemma sync_timestamps_keeps:
  assumes "pcan_sync_timestamps now dev x = Some (dev', y)"
  shows "dev' = dev\<lparr>time_sync := time_sync dev'\<rparr> \<and> same_msg (rx_msg y) (rx_msg x)"
proof -
  let ?m = "hwtv_ts_mode (rx_hwtv x)"
  define pm where "pm off = (rx_msg x)\<lparr>msg_flags := set_flag (msg_flags (rx_msg x))
      (PCANFD_TIMESTAMP OR PCANFD_HWTIMESTAMP), timestamp := timeval_add_us (hwtv_tv (rx_hwtv x)) off\<rparr>" for off
  consider "?m = PCANFD_OPT_HWTIMESTAMP_RAW" | "?m = PCANFD_OPT_HWTIMESTAMP_OFF"
    | "?m \<noteq> PCANFD_OPT_HWTIMESTAMP_RAW" "?m \<noteq> PCANFD_OPT_HWTIMESTAMP_OFF" by blast
  then show ?thesis
  proof cases
    case 1
    then show ?thesis using assms by (auto simp: pcan_sync_timestamps_def Let_def same_msg_def)
  next
    case 2
    then show ?thesis using assms by (auto simp: pcan_sync_timestamps_def Let_def same_msg_def)
  next
    case 3
    then obtain off where "Some (fst (fix_future now dev (pm off)), x\<lparr>rx_msg := snd (fix_future now dev (pm off))\<rparr>)
        = Some (dev', y)"
      using assms by (auto simp: pcan_sync_timestamps_def Let_def bind_eq_Some_conv pm_def split_def)
    then have off: "fix_future now dev (pm off) = (dev', rx_msg y)" by (auto intro: prod_eqI)
    have "same_msg (pm off) (rx_msg x)" by (simp add: pm_def same_msg_def)
    then show ?thesis using fix_future_keeps [of now dev "pm off"] unfolding off by (simp add: same_msg_def)
  qed
qed

lemma sync_timestamps_total:
  "hw_offset (rx_hwtv x) \<noteq> None \<Longrightarrow> \<exists>dev' y. pcan_sync_timestamps now dev x = Some (dev', y)"
  by (auto simp: pcan_sync_timestamps_def Let_def split: prod.splits)

lemma clear_status_idle [simp]:
  "\<not> has_flag (wCANStatus dev) bits \<Longrightarrow> pcan_clear_status_bit now drv dev bits = dev"
  by (simp add: pcan_clear_status_bit_def)

lemma recv_one:
  assumes "ring_inv (readFifo dev)" "usable dev" "fifo_items (readFifo dev) = x # xs"
    and "\<not> has_flag (wCANStatus dev) CAN_ERR_OVERRUN" "hw_offset (rx_hwtv x) \<noteq> None"
  obtains f ts y where
    "pcanfd_recv_msg drv fl task dev pf = Done (dev\<lparr>readFifo := f, time_sync := ts\<rparr>, y, task, 0)"
    "ring_inv f" "fifo_items f = xs" "fifo_cap f = fifo_cap (readFifo dev)" "same_msg (rx_msg y) (rx_msg x)"
proof -
  obtain f where f: "pcan_fifo_get True (readFifo dev) = (f, 0, Some x)" "ring_inv f" "fifo_items f = xs"
      "fifo_cap f = fifo_cap (readFifo dev)"
    using ring.get_item [OF assms(1,3)] by blast
  obtain d y where s: "pcan_sync_timestamps (task_now task) (dev\<lparr>readFifo := f\<rparr>) x = Some (d, y)"
    using sync_timestamps_total [OF assms(5)] by blast
  note k = sync_timestamps_keeps [OF s]
  have "pcanfd_recv_msg drv fl task dev pf = Done (d, y, task, 0)"
    using assms(2,4) f(1) s
    by (simp add: pcanfd_recv_msg_def recv_loop.simps [of drv fl "task_now task"] usable_def intr_def)
  moreover have "d = dev\<lparr>readFifo := f, time_sync := time_sync d\<rparr>" using k by simp
  ultimately show ?thesis using that k f(2-4) by metis
qed

lemma recv_none:
  assumes "ring_inv (readFifo dev)" "usable dev" "fifo_items (readFifo dev) = []" "has_flag fl O_NONBLOCK"
  shows "pcanfd_recv_msg drv fl task dev pf = Done (dev, pf, task, - EAGAIN)"
  using assms ring.get_none [OF assms(1,3)]
  by (simp add: pcanfd_recv_msg_def recv_loop.simps [of drv fl "task_now task"] usable_def intr_def)

text \<open>A view of the channel that does not show the fields the receive path writes.\<close>

locale rx_blind =
  fixes view :: "pcandev \<Rightarrow> 'v"
  assumes blind [simp]:
    "view (d\<lparr>readFifo := f\<rparr>) = view d"
    "view (d\<lparr>in_event := n\<rparr>) = view d"
    "view (d\<lparr>bus_load_total := u\<rparr>) = view d"
    "view (d\<lparr>bus_load_count := u\<rparr>) = view d"
    "view (d\<lparr>rx_frames_counter := u\<rparr>) = view d"
    "view (d\<lparr>prev_rx_error_counter := b\<rparr>) = view d"
    "view (d\<lparr>prev_tx_error_counter := b\<rparr>) = view d"
    "view (d\<lparr>bus_error := u\<rparr>) = view d"
    "view (d\<lparr>wCANStatus := s\<rparr>) = view d"
    "view (d\<lparr>dwErrorCounter := u\<rparr>) = view d"
begin

lemma admit_blind: "view (fst (rx_admit d rx)) = view d"
  by (simp add: rx_admit_def Let_def)

lemma internal_blind: "view (fst (pcan_handle_error_internal d rx e)) = view d"
  by (simp add: pcan_handle_error_internal_def Let_def)

lemma limit_blind: "view (fst (rx_limit d rx)) = view d"
proof -
  have st: "view (fst (pcan_status_rx d r)) = view d" for r by (simp add: pcan_status_rx_def Let_def)
  have er: "view (fst (pcan_error_rx d r)) = view d" for r by (simp add: pcan_error_rx_def)
  show ?thesis by (simp add: rx_limit_def Let_def split_def st er)
qed

lemma post_blind: "view (fst (rx_post d rx)) = view d"
  using internal_blind by (simp add: rx_post_def Let_def split_def)

lemma chardev_rx_blind: "view (fst (pcan_chardev_rx now drv d rx)) = view d"
  by (simp add: pcan_chardev_rx_def Let_def split_def admit_blind limit_blind post_blind)

lemma deliver_blind: "view (rx_deliver now drv d rx) = view d"
  using chardev_rx_blind [of now drv d rx] by (simp add: rx_deliver_def signal_in_def split_def Let_def)

lemma clear_status_blind: "view (pcan_clear_status_bit now drv d bits) = view d"
  by (simp add: pcan_clear_status_bit_def Let_def deliver_blind)

lemma overflow_blind: "view (post_tx_overflow now drv stack d) = view d"
  using internal_blind by (simp add: post_tx_overflow_def split_def Let_def deliver_blind)

end

text \<open>What a writer sees of the channel.\<close>

definition tx_view :: "pcandev \<Rightarrow> pcanfd_txmsg FIFO_MANAGER \<times> pcanfd_init \<times> bool \<times> int \<times> u32 \<times> u32" where
  "tx_view d = (writeFifo d, init_settings d, is_plugged d, nOpenPaths d, bus_state d, locked_tx_engine_state d)"

interpretation txv: rx_blind tx_view
  by unfold_locales (simp_all add: tx_view_def)

lemma tx_view_fields:
  "tx_view a = tx_view b \<longleftrightarrow> writeFifo a = writeFifo b \<and> init_settings a = init_settings b \<and>
     is_plugged a = is_plugged b \<and> nOpenPaths a = nOpenPaths b \<and> bus_state a = bus_state b \<and>
     locked_tx_engine_state a = locked_tx_engine_state b"
  by (simp add: tx_view_def)

lemma recv_msgs_loop_take:
  assumes "ring_inv (readFifo dev)" "usable dev" "\<not> has_flag (wCANStatus dev) CAN_ERR_OVERRUN"
    and "\<And>x. x \<in> set (fifo_items (readFifo dev)) \<Longrightarrow> hw_offset (rx_hwtv x) \<noteq> None"
    and "has_flag fl O_NONBLOCK \<or> fifo_items (readFifo dev) \<noteq> []"
  shows "\<exists>dev' ms. recv_msgs_loop drv fl task dev bufs =
      Done (dev', ms, task, if length bufs \<le> length (fifo_items (readFifo dev)) then 0 else - EAGAIN) \<and>
    list_all2 (\<lambda>m x. same_msg (rx_msg m) (rx_msg x)) ms (take (length bufs) (fifo_items (readFifo dev))) \<and>
    ring_inv (readFifo dev') \<and> fifo_items (readFifo dev') = drop (length bufs) (fifo_items (readFifo dev))"
  using assms
proof (induction bufs arbitrary: fl dev)
  case Nil
  then show ?case by simp
next
  case (Cons b bs)
  show ?case
  proof (cases "fifo_items (readFifo dev)")
    case Nil
    then show ?thesis using recv_none [OF Cons.prems(1,2)] Cons.prems by auto
  next
    case (Cons x xs)
    note P = Cons.prems
    have ok: "hw_offset (rx_hwtv x) \<noteq> None" using P(4) Cons by simp
    obtain f ts y where one: "pcanfd_recv_msg drv fl task dev b = Done (dev\<lparr>readFifo := f, time_sync := ts\<rparr>, y, task, 0)"
        "ring_inv f" "fifo_items f = xs" "same_msg (rx_msg y) (rx_msg x)"
      using recv_one [OF P(1,2) Cons P(3) ok] by metis
    let ?d = "dev\<lparr>readFifo := f, time_sync := ts\<rparr>"
    have nb: "has_flag (set_flag fl O_NONBLOCK) O_NONBLOCK" by (rule has_flag_set_same) simp
    obtain dev' ms where rest: "recv_msgs_loop drv (set_flag fl O_NONBLOCK) task ?d bs =
          Done (dev', ms, task, if length bs \<le> length xs then 0 else - EAGAIN)"
        "list_all2 (\<lambda>m x. same_msg (rx_msg m) (rx_msg x)) ms (take (length bs) xs)"
        "ring_inv (readFifo dev')" "fifo_items (readFifo dev') = drop (length bs) xs"
      using Cons.IH [of ?d "set_flag fl O_NONBLOCK"] one(2,3) P(2-4) nb \<open>fifo_items (readFifo dev) = x # xs\<close>
      by (auto simp: usable_def)
    then show ?thesis using one Cons by auto
  qed
qed

lemma recv_sleeps:
  "recv_loop drv fl now wakes dev pf = Sleeping d \<Longrightarrow> usable d \<and> nStored (readFifo d) = 0 \<and> \<not> has_flag fl O_NONBLOCK"
proof (induction wakes arbitrary: now dev)
  case Nil
  then show ?case
    by (subst (asm) recv_loop.simps)
       (auto simp: Let_def usable_def pcan_fifo_get_def word_gt_0 split: if_splits option.splits prod.splits)
next
  case (Cons w ws)
  then show ?case
    by (subst (asm) recv_loop.simps) (auto simp: Let_def split: if_splits option.splits prod.splits)
qed

lemma send_loop_room:
  assumes "ring_inv (writeFifo dev)" "usable dev" "bus_state dev \<noteq> PCANFD_ERROR_BUSOFF"
    and "length (fifo_items (writeFifo dev)) < fifo_cap (writeFifo dev)"
  obtains d f where "send_loop ops drv fl now wakes dev ptx = Done (d, \<lparr>task_now = now, task_wakes = wakes\<rparr>, 0)"
    "tx_view d = tx_view (dev\<lparr>writeFifo := f\<rparr>)" "ring_inv f" "fifo_cap f = fifo_cap (writeFifo dev)"
    "fifo_items f = fifo_items (writeFifo dev) @ [ptx\<lparr>tx_tv := now\<rparr>]"
proof -
  obtain f where f: "pcan_fifo_put (ptx\<lparr>tx_tv := now\<rparr>) (writeFifo dev) = (f, int (length (fifo_items (writeFifo dev))))"
      "ring_inv f" "fifo_items f = fifo_items (writeFifo dev) @ [ptx\<lparr>tx_tv := now\<rparr>]" "fifo_cap f = fifo_cap (writeFifo dev)"
    using ring.put_room [OF assms(1,4)] by blast
  have "send_loop ops drv fl now wakes dev ptx =
      Done (pcan_clear_status_bit now drv (dev\<lparr>writeFifo := f\<rparr>) CAN_ERR_XMTFULL, \<lparr>task_now = now, task_wakes = wakes\<rparr>, 0)"
    using assms(2,3) f(1) by (subst send_loop.simps) (simp add: usable_def Let_def)
  then show ?thesis using that f txv.clear_status_blind by metis
qed

lemma send_loop_full:
  assumes "ring_inv (writeFifo dev)" "usable dev" "bus_state dev \<noteq> PCANFD_ERROR_BUSOFF" "has_flag fl O_NONBLOCK"
    and "length (fifo_items (writeFifo dev)) = fifo_cap (writeFifo dev)"
  shows "send_loop ops drv fl now wakes dev ptx = Done (dev, \<lparr>task_now = now, task_wakes = wakes\<rparr>, - EAGAIN)"
  using assms(2-4) ring.put_full [OF assms(1,5)]
  by (subst send_loop.simps) (simp add: usable_def Let_def)

lemma send_msg_cases:
  "pcanfd_send_msg ops drv stack fl task dev ptx =
     (if send_type dev (tx_msg ptx) = None then Done (dev, task, - EBADMSG)
      else if ext_refused dev (tx_msg ptx) then Done (dev, task, - EINVAL)
      else outcome_bind (send_loop ops drv fl (task_now task) (task_wakes task) dev
               (ptx\<lparr>tx_msg := (tx_msg ptx)\<lparr>msg_type := the (send_type dev (tx_msg ptx))\<rparr>\<rparr>))
             (\<lambda>(dev, task, err).
                if err = - ERESTARTSYS then Done (dev, task, - EINTR)
                else if err = - EAGAIN
                then Done (post_tx_overflow (task_now task) drv stack dev, task, err)
                else Done (dev, task, err)))"
  by (cases "send_type dev (tx_msg ptx)") (auto simp: pcanfd_send_msg_def ext_refused_def)

lemma send_loop_refused:
  "\<not> usable dev \<Longrightarrow> send_loop ops drv fl now wakes dev ptx = Done (dev, \<lparr>task_now = now, task_wakes = wakes\<rparr>, - ENODEV)"
  "\<lbrakk>usable dev; bus_state dev = PCANFD_ERROR_BUSOFF\<rbrakk>
    \<Longrightarrow> send_loop ops drv fl now wakes dev ptx = Done (dev, \<lparr>task_now = now, task_wakes = wakes\<rparr>, - ENETDOWN)"
  by (subst send_loop.simps; auto simp: usable_def)+

text \<open>One write without waiting: the result, and what the queue holds afterwards.\<close>

lemma send_one:
  assumes inv: "ring_inv (writeFifo dev)" and nb: "has_flag fl O_NONBLOCK"
  shows "\<exists>d f. pcanfd_send_msg ops drv stack fl task dev ptx = Done (d, task, send_result dev (tx_msg ptx)) \<and>
    tx_view d = tx_view (dev\<lparr>writeFifo := f\<rparr>) \<and> ring_inv f \<and> fifo_cap f = fifo_cap (writeFifo dev) \<and>
    fifo_items f = fifo_items (writeFifo dev) @
       (if send_result dev (tx_msg ptx) = 0 then [queued_as dev (task_now task) ptx] else [])"
proof (cases "send_result dev (tx_msg ptx) = 0")
  case True
  let ?p = "ptx\<lparr>tx_msg := (tx_msg ptx)\<lparr>msg_type := the (send_type dev (tx_msg ptx))\<rparr>\<rparr>"
  have ok: "send_type dev (tx_msg ptx) \<noteq> None" "\<not> ext_refused dev (tx_msg ptx)" "usable dev"
      "bus_state dev \<noteq> PCANFD_ERROR_BUSOFF" "length (fifo_items (writeFifo dev)) \<noteq> fifo_cap (writeFifo dev)"
    using True by (auto simp: send_result_def split: if_splits)
  then have room: "length (fifo_items (writeFifo dev)) < fifo_cap (writeFifo dev)"
    using ring.bounded [OF inv] by linarith
  obtain d f where L: "send_loop ops drv fl (task_now task) (task_wakes task) dev ?p = Done (d, task, 0)"
      "tx_view d = tx_view (dev\<lparr>writeFifo := f\<rparr>)" "ring_inv f" "fifo_cap f = fifo_cap (writeFifo dev)"
      "fifo_items f = fifo_items (writeFifo dev) @ [?p\<lparr>tx_tv := task_now task\<rparr>]"
    by (rule send_loop_room [OF inv ok(3,4) room, of ops drv fl "task_now task" "task_wakes task" ?p]) simp
  then show ?thesis using ok(1,2) True
    by (intro exI [of _ d] exI [of _ f]) (simp add: send_msg_cases queued_as_def)
next
  case False
  have "\<exists>d. pcanfd_send_msg ops drv stack fl task dev ptx = Done (d, task, send_result dev (tx_msg ptx)) \<and>
      tx_view d = tx_view dev"
  proof (cases "send_type dev (tx_msg ptx) \<noteq> None \<and> \<not> ext_refused dev (tx_msg ptx) \<and> usable dev \<and>
      bus_state dev \<noteq> PCANFD_ERROR_BUSOFF")
    case True
    then have full: "length (fifo_items (writeFifo dev)) = fifo_cap (writeFifo dev)"
      using False by (auto simp: send_result_def split: if_splits)
    have "send_result dev (tx_msg ptx) = - EAGAIN" using True full by (simp add: send_result_def)
    then show ?thesis
      using True send_loop_full [OF inv _ _ nb full] txv.overflow_blind by (simp add: send_msg_cases)
  next
    case False
    then show ?thesis by (auto simp: send_msg_cases send_result_def send_loop_refused)
  qed
  then show ?thesis using inv False by (auto simp: tx_view_fields)
qed

text \<open>The messages of a list that are queued, one after the other.\<close>

lemma send_result_view:
  assumes "tx_view d = tx_view (dev\<lparr>writeFifo := f\<rparr>)"
  shows "send_type d = send_type dev" "ext_refused d = ext_refused dev" "usable d = usable dev"
    "queued_as d = queued_as dev" "writeFifo d = f" "bus_state d = bus_state dev"
    "locked_tx_engine_state d = locked_tx_engine_state dev" "init_settings d = init_settings dev"
  using assms by (auto simp: tx_view_fields fun_eq_iff send_type_def ext_refused_def usable_def queued_as_def)

lemma send_msgs_loop_prefix:
  assumes "ring_inv (writeFifo dev)" "has_flag fl O_NONBLOCK"
  shows "\<exists>d f n err. send_msgs_loop ops drv stack fl task dev ms = Done (d, n, task, err) \<and>
    tx_view d = tx_view (dev\<lparr>writeFifo := f\<rparr>) \<and> ring_inv f \<and> n \<le> length ms \<and>
    fifo_items f = fifo_items (writeFifo dev) @ map (queued_as dev (task_now task)) (take n ms) \<and>
    (err = 0 \<longleftrightarrow> n = length ms) \<and> (n < length ms \<longrightarrow> err = send_result d (tx_msg (ms ! n)))"
  using assms
proof (induction ms arbitrary: dev)
  case Nil
  then show ?case by (auto intro: exI [of _ "writeFifo dev"])
next
  case (Cons m ms)
  obtain d f where one: "pcanfd_send_msg ops drv stack fl task dev m = Done (d, task, send_result dev (tx_msg m))"
      "tx_view d = tx_view (dev\<lparr>writeFifo := f\<rparr>)" "ring_inv f" "fifo_cap f = fifo_cap (writeFifo dev)"
      "fifo_items f = fifo_items (writeFifo dev) @
         (if send_result dev (tx_msg m) = 0 then [queued_as dev (task_now task) m] else [])"
    using send_one [OF Cons.prems] by blast
  note v = send_result_view [OF one(2)]
  show ?case
  proof (cases "send_result dev (tx_msg m) = 0")
    case False
    have "send_result d (tx_msg m) = send_result dev (tx_msg m)"
      using v one(4,5) False by (simp add: send_result_def del: length_fifo_items)
    then show ?thesis using one False
      by (intro exI [of _ d] exI [of _ f] exI [of _ 0] exI [of _ "send_result dev (tx_msg m)"]) simp
  next
    case True
    obtain d' f' n err where rest: "send_msgs_loop ops drv stack fl task d ms = Done (d', n, task, err)"
        "tx_view d' = tx_view (d\<lparr>writeFifo := f'\<rparr>)" "ring_inv f'" "n \<le> length ms"
        "fifo_items f' = fifo_items f @ map (queued_as d (task_now task)) (take n ms)"
        "err = 0 \<longleftrightarrow> n = length ms" "n < length ms \<longrightarrow> err = send_result d' (tx_msg (ms ! n))"
      using Cons.IH [of d] Cons.prems(2) one(3) v(5) by auto
    have "tx_view d' = tx_view (dev\<lparr>writeFifo := f'\<rparr>)" using rest(2) one(2) by (simp add: tx_view_fields)
    then show ?thesis using one(1,5) rest True v(4)
      by (intro exI [of _ d'] exI [of _ f'] exI [of _ "n + 1"] exI [of _ err]) simp
  qed
qed

section \<open>Properties\<close>

text \<open>Reading several messages without waiting.\<close>

lemma recv_msgs_taken:
  assumes "ring_inv (readFifo dev)" "usable dev" "\<not> has_flag (wCANStatus dev) CAN_ERR_OVERRUN"
    and "\<And>x. x \<in> set (fifo_items (readFifo dev)) \<Longrightarrow> hw_offset (rx_hwtv x) \<noteq> None"
    and "has_flag fl O_NONBLOCK"
  shows "\<exists>dev' ms. pcanfd_ioctl_recv_msgs drv fl task dev bufs = Done (dev', ms, task,
        if bufs = [] \<or> fifo_items (readFifo dev) \<noteq> [] then 0 else - EAGAIN) \<and>
    list_all2 (\<lambda>m x. same_msg (rx_msg m) (rx_msg x)) ms (take (length bufs) (fifo_items (readFifo dev))) \<and>
    fifo_items (readFifo dev') = drop (length bufs) (fifo_items (readFifo dev))"
proof -
  obtain dev' ms where r: "recv_msgs_loop drv fl task dev bufs =
        Done (dev', ms, task, if length bufs \<le> length (fifo_items (readFifo dev)) then 0 else - EAGAIN)"
      "list_all2 (\<lambda>m x. same_msg (rx_msg m) (rx_msg x)) ms (take (length bufs) (fifo_items (readFifo dev)))"
      "fifo_items (readFifo dev') = drop (length bufs) (fifo_items (readFifo dev))"
    using recv_msgs_loop_take [OF assms(1-4), of fl drv task bufs] assms(5) by blast
  have "length ms = min (length bufs) (length (fifo_items (readFifo dev)))"
    using list_all2_lengthD [OF r(2)] by (simp only: length_take min.commute)
  then have "ms = [] \<longleftrightarrow> bufs = [] \<or> fifo_items (readFifo dev) = []"
    by (metis length_0_conv min_0L min_0R min_def)
  then show ?thesis using r by (auto simp: pcanfd_ioctl_recv_msgs_def simp del: length_fifo_items)
qed

text \<open>C25. Reading several messages: a task that does not wait gets the oldest messages of the queue,
  in their order and with their content, as many as it asks for or as there are; the others stay
  queued. With an empty queue it gets -EAGAIN.\<close>

theorem recv_msgs_order:
  assumes "ring_inv (readFifo dev)" "usable dev" "\<not> has_flag (wCANStatus dev) CAN_ERR_OVERRUN"
    and "\<And>x. x \<in> set (fifo_items (readFifo dev)) \<Longrightarrow> hw_offset (rx_hwtv x) \<noteq> None"
    and "has_flag fl O_NONBLOCK"
  shows "\<exists>dev' ms. pcanfd_ioctl_recv_msgs drv fl task dev bufs = Done (dev', ms, task,
        if bufs = [] \<or> fifo_items (readFifo dev) \<noteq> [] then 0 else - EAGAIN) \<and>
    list_all2 (\<lambda>m x. same_msg (rx_msg m) (rx_msg x)) ms (take (length bufs) (fifo_items (readFifo dev))) \<and>
    fifo_items (readFifo dev') = drop (length bufs) (fifo_items (readFifo dev))"
  using assms by (rule recv_msgs_taken)

text \<open>Writing several messages without waiting.\<close>

lemma send_msgs_queued:
  assumes "ring_inv (writeFifo dev)" "has_flag fl O_NONBLOCK" "locked_tx_engine_state dev \<noteq> TX_ENGINE_STOPPED"
  shows "\<exists>dev' n err. pcanfd_ioctl_send_msgs ops drv stack fl task dev ms = Done (dev', n, task, err) \<and>
    n \<le> length ms \<and> ring_inv (writeFifo dev') \<and>
    fifo_items (writeFifo dev') = fifo_items (writeFifo dev) @ map (queued_as dev (task_now task)) (take n ms) \<and>
    (n < length ms \<longrightarrow> send_result dev' (tx_msg (ms ! n)) \<noteq> 0) \<and>
    err = (if 0 < n \<or> ms = [] then 0 else send_result dev (tx_msg (hd ms)))"
proof -
  obtain d f n err where r: "send_msgs_loop ops drv stack fl task dev ms = Done (d, n, task, err)"
      "tx_view d = tx_view (dev\<lparr>writeFifo := f\<rparr>)" "ring_inv f" "n \<le> length ms"
      "fifo_items f = fifo_items (writeFifo dev) @ map (queued_as dev (task_now task)) (take n ms)"
      "err = 0 \<longleftrightarrow> n = length ms" "n < length ms \<longrightarrow> err = send_result d (tx_msg (ms ! n))"
    using send_msgs_loop_prefix [OF assms(1,2)] by blast
  note v = send_result_view [OF r(2)]
  have start: "pcanfd_start_tx_engine ops d = (d, 0)"
    using v(7) assms(3) by (simp add: pcanfd_start_tx_engine_def pcan_dev_start_writing_def)
  have next_err: "n < length ms \<longrightarrow> send_result d (tx_msg (ms ! n)) \<noteq> 0" using r(6,7) by auto
  show ?thesis
  proof (cases "n = 0")
    case False
    then show ?thesis using r start v(5) next_err
      by (intro exI [of _ d] exI [of _ n] exI [of _ 0]) (simp add: pcanfd_ioctl_send_msgs_def)
  next
    case True
    have "ms = [] \<or> send_result dev (tx_msg (hd ms)) = err"
    proof (cases ms)
      case (Cons m rest)
      obtain d0 where "pcanfd_send_msg ops drv stack fl task dev m = Done (d0, task, send_result dev (tx_msg m))"
        using send_one [OF assms(1,2)] by blast
      then show ?thesis using r(1) True Cons by (auto simp: outcome_bind_Done split: if_splits)
    qed simp
    then show ?thesis using r True v(5) next_err
      by (intro exI [of _ d] exI [of _ 0] exI [of _ err]) (auto simp: pcanfd_ioctl_send_msgs_def)
  qed
qed


text \<open>A reader sleeps only while the channel is usable and its receive queue is empty, and never
  in non-blocking mode.\<close>

theorem recv_sleeps_only_when_empty:
  assumes "pcanfd_recv_msg drv fl task dev pf = Sleeping d"
  shows "usable d \<and> fifo_items (readFifo d) = [] \<and> \<not> has_flag fl O_NONBLOCK"
proof -
  have "recv_loop drv fl (task_now task) (task_wakes task) dev pf = Sleeping d"
    using assms by (cases "recv_loop drv fl (task_now task) (task_wakes task) dev pf")
      (auto simp: pcanfd_recv_msg_def)
  from recv_sleeps [OF this] show ?thesis by (simp add: fifo_items_def)
qed


text \<open>A channel with one path open and two messages in its receive queue, for the witnesses.\<close>

definition busy_dev :: pcandev where
  "busy_dev = blank_dev\<lparr>nOpenPaths := 1,
     readFifo := fst (pcan_fifo_put \<lparr>rx_msg = zero_msg\<lparr>msg_id := 8\<rparr>, rx_hwtv = zero_hwtv\<rparr>
       (fst (pcan_fifo_put \<lparr>rx_msg = zero_msg\<lparr>msg_id := 7\<rparr>, rx_hwtv = zero_hwtv\<rparr> (readFifo blank_dev))))\<rparr>"

lemma busy_dev_queue:
  "ring_inv (readFifo busy_dev)" "ring_inv (writeFifo busy_dev)" "usable busy_dev"
  "fifo_items (readFifo busy_dev) = [\<lparr>rx_msg = zero_msg\<lparr>msg_id := 7\<rparr>, rx_hwtv = zero_hwtv\<rparr>,
     \<lparr>rx_msg = zero_msg\<lparr>msg_id := 8\<rparr>, rx_hwtv = zero_hwtv\<rparr>]"
  "wCANStatus busy_dev = 0" "locked_tx_engine_state busy_dev = 0"
proof -
  let ?a = "\<lparr>rx_msg = zero_msg\<lparr>msg_id := 7\<rparr>, rx_hwtv = zero_hwtv\<rparr>"
  let ?b = "\<lparr>rx_msg = zero_msg\<lparr>msg_id := 8\<rparr>, rx_hwtv = zero_hwtv\<rparr>"
  let ?f = "readFifo blank_dev"
  have f: "ring_inv ?f" "fifo_items ?f = []" "fifo_cap ?f = 4"
    using blank_fifo_inv [of "\<lparr>rx_msg = zero_msg, rx_hwtv = zero_hwtv\<rparr>"] by (simp_all add: blank_dev_def)
  obtain g where g: "pcan_fifo_put ?a ?f = (g, 0)" "ring_inv g" "fifo_items g = [?a]" "fifo_cap g = 4"
    using ring.put_room [OF f(1), of ?a] f by (auto simp del: length_fifo_items)
  obtain h where h: "pcan_fifo_put ?b g = (h, 1)" "ring_inv h" "fifo_items h = [?a, ?b]"
    using ring.put_room [OF g(2), of ?b] g by (auto simp del: length_fifo_items)
  have "readFifo busy_dev = h" using g h by (simp add: busy_dev_def)
  then show "ring_inv (readFifo busy_dev)" "fifo_items (readFifo busy_dev) = [?a, ?b]" using h by simp_all
  show "ring_inv (writeFifo busy_dev)"
    using blank_fifo_inv [of "\<lparr>tx_msg = zero_msg, tx_tv = zero_timeval\<rparr>"] by (simp add: busy_dev_def blank_dev_def)
qed (simp_all add: busy_dev_def usable_def blank_dev_def)

theorem recv_msgs_order_witness:
  "\<exists>d m. pcanfd_ioctl_recv_msgs zero_timeval O_NONBLOCK \<lparr>task_now = zero_timeval, task_wakes = []\<rparr> busy_dev
       [\<lparr>rx_msg = zero_msg, rx_hwtv = zero_hwtv\<rparr>] = Done (d, [m], \<lparr>task_now = zero_timeval, task_wakes = []\<rparr>, 0) \<and>
     msg_id (rx_msg m) = 7"
proof -
  have h: "hw_offset (rx_hwtv x) \<noteq> None" if "x \<in> set (fifo_items (readFifo busy_dev))" for x
    using that by (auto simp: busy_dev_queue(4) hw_offset_def zero_hwtv_def)
  have nb: "has_flag O_NONBLOCK O_NONBLOCK" by (simp add: has_flag_def)
  have ov: "\<not> has_flag (wCANStatus busy_dev) CAN_ERR_OVERRUN" by (simp add: busy_dev_queue)
  obtain d ms where r: "pcanfd_ioctl_recv_msgs zero_timeval O_NONBLOCK \<lparr>task_now = zero_timeval, task_wakes = []\<rparr> busy_dev
       [\<lparr>rx_msg = zero_msg, rx_hwtv = zero_hwtv\<rparr>] = Done (d, ms, \<lparr>task_now = zero_timeval, task_wakes = []\<rparr>, 0)"
      "list_all2 (\<lambda>m x. same_msg (rx_msg m) (rx_msg x)) ms (take 1 (fifo_items (readFifo busy_dev)))"
    using recv_msgs_order [OF busy_dev_queue(1,3) ov h nb, of zero_timeval "\<lparr>task_now = zero_timeval, task_wakes = []\<rparr>"
        "[\<lparr>rx_msg = zero_msg, rx_hwtv = zero_hwtv\<rparr>]"] busy_dev_queue(4) by auto
  from r(2) obtain m where "ms = [m]" "msg_id (rx_msg m) = 7"
    by (auto simp: busy_dev_queue(4) list_all2_Cons2 same_msg_def)
  then show ?thesis using r(1) by blast
qed


theorem recv_sleeps_only_when_empty_witness:
  "usable (blank_dev\<lparr>nOpenPaths := 1\<rparr>) \<and> fifo_items (readFifo (blank_dev\<lparr>nOpenPaths := 1\<rparr>)) = []"
proof -
  let ?d = "blank_dev\<lparr>nOpenPaths := 1\<rparr>"
  let ?t = "\<lparr>task_now = zero_timeval, task_wakes = []\<rparr> :: task"
  have "nStored (readFifo ?d) = 0"
    using blank_fifo_inv [of "\<lparr>rx_msg = zero_msg, rx_hwtv = zero_hwtv\<rparr>"] length_fifo_items [of "readFifo blank_dev"]
    by (simp add: blank_dev_def unat_eq_0 del: length_fifo_items)
  then have "pcanfd_recv_msg zero_timeval 0 ?t ?d \<lparr>rx_msg = zero_msg, rx_hwtv = zero_hwtv\<rparr> = Sleeping ?d"
    by (simp add: pcanfd_recv_msg_def recv_loop.simps [of _ 0] pcan_fifo_get_def blank_dev_def)
  from recv_sleeps_only_when_empty [OF this] show ?thesis by simp
qed


end
