(* ===== verification/Pcan_Sja1000.thy ===== *)
theory Pcan_Sja1000
  imports Pcan_Xfer
begin

text \<open>
  The driver of the SJA1000 CAN controller (\<^verbatim>\<open>driver/src/pcan_sja1000.c\<close>) of the PCI, ISA, dongle and
  PC card channels. The controller is a parameter: \<open>chip\<close> gives the value that a register reads
  after a history of accesses, and the history is the \<open>io_log\<close> of the channel, so any behaviour of the
  controller is covered. \<open>polls\<close> is the number of turns for which the wait for a mode change finds
  that its 100 ms are not over. \<^verbatim>\<open>PCAN_SJA1000_SIGNAL_ON_EACH_WRITE\<close> is defined,
  \<^verbatim>\<open>PCAN_SJA1000_LOCK_ENTIRE_ISR\<close> and \<^verbatim>\<open>PCAN_SJA1000_STATS\<close> are not, as in the sources.
\<close>

section \<open>Registers\<close>

abbreviation (input) SJA1000_MOD :: nat where "SJA1000_MOD \<equiv> 0"
abbreviation (input) SJA1000_CMR :: nat where "SJA1000_CMR \<equiv> 1"
abbreviation (input) SJA1000_SR :: nat where "SJA1000_SR \<equiv> 2"
abbreviation (input) SJA1000_IR :: nat where "SJA1000_IR \<equiv> 3"
abbreviation (input) SJA1000_IER :: nat where "SJA1000_IER \<equiv> 4"
abbreviation (input) SJA1000_BTR0 :: nat where "SJA1000_BTR0 \<equiv> 6"
abbreviation (input) SJA1000_BTR1 :: nat where "SJA1000_BTR1 \<equiv> 7"
abbreviation (input) SJA1000_OCR :: nat where "SJA1000_OCR \<equiv> 8"
abbreviation (input) ERROR_CODE_CAPTURE :: nat where "ERROR_CODE_CAPTURE \<equiv> 12"
abbreviation (input) RX_ERROR_COUNTER :: nat where "RX_ERROR_COUNTER \<equiv> 14"
abbreviation (input) TX_ERROR_COUNTER :: nat where "TX_ERROR_COUNTER \<equiv> 15"
abbreviation (input) ACCEPTANCE_CODE_BASE :: nat where "ACCEPTANCE_CODE_BASE \<equiv> 16"
abbreviation (input) RECEIVE_FRAME_BASE :: nat where "RECEIVE_FRAME_BASE \<equiv> 16"
abbreviation (input) TRANSMIT_FRAME_BASE :: nat where "TRANSMIT_FRAME_BASE \<equiv> 16"
abbreviation (input) ACCEPTANCE_MASK_BASE :: nat where "ACCEPTANCE_MASK_BASE \<equiv> 20"
abbreviation (input) RECEIVE_MSG_COUNTER :: nat where "RECEIVE_MSG_COUNTER \<equiv> 29"
abbreviation (input) CLKDIVIDER :: nat where "CLKDIVIDER \<equiv> 31"

abbreviation (input) LISTEN_ONLY_MODE :: u8 where "LISTEN_ONLY_MODE \<equiv> 0x02"
abbreviation (input) RESET_MODE :: u8 where "RESET_MODE \<equiv> 0x01"
abbreviation (input) NORMAL_MODE :: u8 where "NORMAL_MODE \<equiv> 0x00"

abbreviation (input) TRANSMISSION_REQUEST :: u8 where "TRANSMISSION_REQUEST \<equiv> 0x01"
abbreviation (input) ABORT_TRANSMISSION :: u8 where "ABORT_TRANSMISSION \<equiv> 0x02"
abbreviation (input) SINGLE_SHOT_REQUEST :: u8 where "SINGLE_SHOT_REQUEST \<equiv> 0x03"
abbreviation (input) RELEASE_RECEIVE_BUFFER :: u8 where "RELEASE_RECEIVE_BUFFER \<equiv> 0x04"
abbreviation (input) CLEAR_DATA_OVERRUN :: u8 where "CLEAR_DATA_OVERRUN \<equiv> 0x08"
abbreviation (input) SELF_RX_REQUEST :: u8 where "SELF_RX_REQUEST \<equiv> 0x10"
abbreviation (input) SELF_RX_SS_REQUEST :: u8 where "SELF_RX_SS_REQUEST \<equiv> 0x12"

abbreviation (input) SJA1000_SR_BS :: u8 where "SJA1000_SR_BS \<equiv> 0x80"
abbreviation (input) SJA1000_SR_ES :: u8 where "SJA1000_SR_ES \<equiv> 0x40"
abbreviation (input) SJA1000_SR_TBS :: u8 where "SJA1000_SR_TBS \<equiv> 0x04"
abbreviation (input) SJA1000_SR_RBS :: u8 where "SJA1000_SR_RBS \<equiv> 0x01"

abbreviation (input) BUS_ERROR_INTERRUPT :: u8 where "BUS_ERROR_INTERRUPT \<equiv> 0x80"
abbreviation (input) ERROR_PASSIV_INTERRUPT :: u8 where "ERROR_PASSIV_INTERRUPT \<equiv> 0x20"
abbreviation (input) DATA_OVERRUN_INTERRUPT :: u8 where "DATA_OVERRUN_INTERRUPT \<equiv> 0x08"
abbreviation (input) ERROR_WARN_INTERRUPT :: u8 where "ERROR_WARN_INTERRUPT \<equiv> 0x04"
abbreviation (input) TRANSMIT_INTERRUPT :: u8 where "TRANSMIT_INTERRUPT \<equiv> 0x02"
abbreviation (input) RECEIVE_INTERRUPT :: u8 where "RECEIVE_INTERRUPT \<equiv> 0x01"

abbreviation (input) BUFFER_EFF :: u8 where "BUFFER_EFF \<equiv> 0x80"
abbreviation (input) BUFFER_RTR :: u8 where "BUFFER_RTR \<equiv> 0x40"
abbreviation (input) BUFFER_DLC_MASK :: u8 where "BUFFER_DLC_MASK \<equiv> 0x0f"

abbreviation (input) PELICAN_SINGLE :: u8 where "PELICAN_SINGLE \<equiv> 0xcf"
abbreviation (input) PELICAN_MASTER :: u8 where "PELICAN_MASTER \<equiv> 0xc7"
abbreviation (input) PELICAN_DEFAULT :: u8 where "PELICAN_DEFAULT \<equiv> 0x80"
abbreviation (input) SJA1000_OCR_SETUP :: u8 where "SJA1000_OCR_SETUP \<equiv> 0x1a"
abbreviation (input) SJA1000_IER_SETUP :: u8 where "SJA1000_IER_SETUP \<equiv> 0xaf"
abbreviation (input) MAX_MESSAGES_PER_INTERRUPT :: nat where "MAX_MESSAGES_PER_INTERRUPT \<equiv> 8"
abbreviation (input) MAX_INTERRUPTS_PER_ENTRY :: nat where "MAX_INTERRUPTS_PER_ENTRY \<equiv> 6"
abbreviation (input) SJA1000_SR_MAX_POLL :: nat where "SJA1000_SR_MAX_POLL \<equiv> 50"
abbreviation (input) CHANNEL_SINGLE :: u8 where "CHANNEL_SINGLE \<equiv> 0"
abbreviation (input) CHANNEL_SLAVE :: u8 where "CHANNEL_SLAVE \<equiv> 2"
abbreviation (input) ACTIVITY_XMIT :: u8 where "ACTIVITY_XMIT \<equiv> 3"

type_synonym chip = "io list \<Rightarrow> nat \<Rightarrow> u8"

definition readreg :: "chip \<Rightarrow> nat \<Rightarrow> pcandev \<Rightarrow> pcandev \<times> u8" where
  "readreg chip a dev = (let v = chip (io_log dev) a in (dev\<lparr>io_log := Rd a v # io_log dev\<rparr>, v))"

definition writereg :: "nat \<Rightarrow> u8 \<Rightarrow> pcandev \<Rightarrow> pcandev" where
  "writereg a v dev = dev\<lparr>io_log := Wr a v # io_log dev\<rparr>"

definition sja1000_write_cmd :: "chip \<Rightarrow> u8 \<Rightarrow> pcandev \<Rightarrow> pcandev \<times> u8" where
  "sja1000_write_cmd chip data dev = readreg chip SJA1000_SR (writereg SJA1000_CMR data dev)"

text \<open>The poll of the status register: the turns left when the bit was seen, 0 when it was not.\<close>

fun poll_status :: "chip \<Rightarrow> u8 \<Rightarrow> nat \<Rightarrow> pcandev \<Rightarrow> pcandev \<times> nat" where
  "poll_status chip msk 0 dev = (dev, 0)"
| "poll_status chip msk (Suc i) dev =
     (let (dev, sr) = readreg chip SJA1000_SR dev
      in if has_flag sr msk then (dev, Suc i) else poll_status chip msk i dev)"

definition pcan_pcie_wait_for_status :: "chip \<Rightarrow> u8 \<Rightarrow> pcandev \<Rightarrow> pcandev \<times> nat" where
  "pcan_pcie_wait_for_status chip msk dev = poll_status chip msk SJA1000_SR_MAX_POLL dev"

section \<open>Modes\<close>

fun reset_loop :: "chip \<Rightarrow> nat \<Rightarrow> u8 \<Rightarrow> pcandev \<Rightarrow> pcandev \<times> u8" where
  "reset_loop chip 0 tmp dev = (dev, tmp)"
| "reset_loop chip (Suc n) tmp dev =
     (if has_flag tmp RESET_MODE then (dev, tmp)
      else let (dev, tmp) = readreg chip SJA1000_MOD (writereg SJA1000_MOD RESET_MODE dev)
           in reset_loop chip n tmp dev)"

definition set_reset_mode :: "chip \<Rightarrow> nat \<Rightarrow> pcandev \<Rightarrow> pcandev \<times> int" where
  "set_reset_mode chip polls dev =
     (let (dev, tmp) = readreg chip SJA1000_MOD dev;
          (dev, tmp) = reset_loop chip polls tmp dev
      in (dev, if \<not> has_flag tmp RESET_MODE then - EIO else 0))"

fun normal_loop :: "chip \<Rightarrow> nat \<Rightarrow> u8 \<Rightarrow> u8 \<Rightarrow> pcandev \<Rightarrow> pcandev \<times> u8" where
  "normal_loop chip 0 md tmp dev = (dev, tmp)"
| "normal_loop chip (Suc n) md tmp dev =
     (if tmp = md then (dev, tmp)
      else let (dev, tmp) = readreg chip SJA1000_MOD (writereg SJA1000_MOD md dev)
           in normal_loop chip n md tmp dev)"

definition set_normal_mode :: "chip \<Rightarrow> nat \<Rightarrow> u8 \<Rightarrow> pcandev \<Rightarrow> pcandev \<times> int" where
  "set_normal_mode chip polls md dev =
     (let (dev, tmp) = readreg chip SJA1000_MOD dev;
          (dev, tmp) = normal_loop chip polls md tmp dev
      in (dev, if tmp \<noteq> md then - EIO else 0))"

definition sja1000_irq_enable_mask :: "u8 \<Rightarrow> pcandev \<Rightarrow> pcandev" where
  "sja1000_irq_enable_mask msk dev = writereg SJA1000_IER msk dev"

definition sja1000_irq_disable_mask :: "u8 \<Rightarrow> pcandev \<Rightarrow> pcandev" where
  "sja1000_irq_disable_mask msk dev = writereg SJA1000_IER (NOT msk) dev"

definition sja1000_irq_enable :: "pcandev \<Rightarrow> pcandev" where
  "sja1000_irq_enable dev = sja1000_irq_enable_mask SJA1000_IER_SETUP dev"

definition sja1000_irq_disable :: "pcandev \<Rightarrow> pcandev" where
  "sja1000_irq_disable dev = sja1000_irq_disable_mask 0xff dev"

definition clkdivider :: "pcandev \<Rightarrow> u8" where
  "clkdivider dev =
     (if ucExternalClock dev = 0 then PELICAN_DEFAULT
      else if ucMasterDevice dev = CHANNEL_SLAVE \<or> ucMasterDevice dev = CHANNEL_SINGLE then PELICAN_SINGLE
      else PELICAN_MASTER)"

section \<open>Opening and releasing\<close>

text \<open>The registers that \<open>sja1000_open\<close> writes in reset mode, in their order.\<close>

definition setup_regs :: "u8 \<Rightarrow> u16 \<Rightarrow> (nat \<times> u8) list" where
  "setup_regs clkdiv btr0btr1 =
     [(CLKDIVIDER, clkdiv),
      (ACCEPTANCE_CODE_BASE, 0xff), (ACCEPTANCE_CODE_BASE + 1, 0xff),
      (ACCEPTANCE_CODE_BASE + 2, 0xff), (ACCEPTANCE_CODE_BASE + 3, 0xff),
      (ACCEPTANCE_MASK_BASE, 0xff), (ACCEPTANCE_MASK_BASE + 1, 0xff),
      (ACCEPTANCE_MASK_BASE + 2, 0xff), (ACCEPTANCE_MASK_BASE + 3, 0xff),
      (SJA1000_BTR0, ucast (drop_bit 8 btr0btr1)), (SJA1000_BTR1, ucast btr0btr1),
      (SJA1000_OCR, SJA1000_OCR_SETUP), (RX_ERROR_COUNTER, 0), (TX_ERROR_COUNTER, 0)]"

definition write_regs :: "(nat \<times> u8) list \<Rightarrow> pcandev \<Rightarrow> pcandev" where
  "write_regs rs dev = fold (\<lambda>(a, v). writereg a v) rs dev"

definition sja1000_open ::
  "chip \<Rightarrow> nat \<Rightarrow> timeval \<Rightarrow> timeval \<Rightarrow> pcanfd_rxmsg \<Rightarrow> dev_ops \<Rightarrow> pcandev \<Rightarrow> u16 \<Rightarrow> u8 \<Rightarrow> u8
     \<Rightarrow> pcandev \<times> int" where
  "sja1000_open chip polls now drv stack ops dev btr0btr1 bExtended bListenOnly =
     (let clkdiv = clkdivider dev;
          md = (if bListenOnly \<noteq> 0 then LISTEN_ONLY_MODE else NORMAL_MODE);
          dev = sja1000_irq_disable dev;
          (dev, _) = sja1000_write_cmd chip ABORT_TRANSMISSION dev;
          (dev, err) = set_reset_mode chip polls dev
      in if err \<noteq> 0 then (dev, err)
         else
           let dev = write_regs (setup_regs clkdiv btr0btr1) dev;
               (dev, _) = readreg chip SJA1000_IR dev;
               (dev, err) = set_normal_mode chip polls md dev
           in if err \<noteq> 0 then (dev, err)
              else (pcan_soft_error_active now drv ops stack (sja1000_irq_enable dev), err))"

definition sja1000_release :: "chip \<Rightarrow> nat \<Rightarrow> pcandev \<Rightarrow> pcandev" where
  "sja1000_release chip polls dev =
     (let dev = sja1000_irq_disable dev;
          (dev, _) = sja1000_write_cmd chip ABORT_TRANSMISSION dev
      in fst (set_reset_mode chip polls dev))"

section \<open>Receiving\<close>

fun read_data :: "chip \<Rightarrow> nat \<Rightarrow> nat \<Rightarrow> pcandev \<Rightarrow> pcandev \<times> u8 list" where
  "read_data chip dreg 0 dev = (dev, [])"
| "read_data chip dreg (Suc n) dev =
     (let (dev, b) = readreg chip dreg dev;
          (dev, bs) = read_data chip (dreg + 1) n dev
      in (dev, b # bs))"

text \<open>The 32-bit value of the union \<^verbatim>\<open>ULCONV\<close> whose most significant byte is the first register.\<close>

definition id_bytes :: "u8 \<Rightarrow> u8 \<Rightarrow> u8 \<Rightarrow> u8 \<Rightarrow> u32" where
  "id_bytes b3 b2 b1 b0 =
     push_bit 24 (ucast b3) OR push_bit 16 (ucast b2) OR push_bit 8 (ucast b1) OR ucast b0"

text \<open>The body of the loop of \<^verbatim>\<open>__sja1000_read\<close>: the frame in the receive buffer. \<open>f\<close> is the message
  on the stack.\<close>

definition read_frame :: "chip \<Rightarrow> pcanfd_rxmsg \<Rightarrow> pcandev \<Rightarrow> pcandev \<times> pcanfd_rxmsg" where
  "read_frame chip f dev =
     (let (dev, fi) = readreg chip RECEIVE_FRAME_BASE dev;
          dlc = fi AND BUFFER_DLC_MASK;
          dlc = (if 8 < dlc then 8 else dlc);
          (dev, fl, dreg, i) =
            (if has_flag fi BUFFER_EFF then
               let (dev, b3) = readreg chip (RECEIVE_FRAME_BASE + 1) dev;
                   (dev, b2) = readreg chip (RECEIVE_FRAME_BASE + 2) dev;
                   (dev, b1) = readreg chip (RECEIVE_FRAME_BASE + 3) dev;
                   (dev, b0) = readreg chip (RECEIVE_FRAME_BASE + 4) dev
               in (dev, PCANFD_MSG_EXT, RECEIVE_FRAME_BASE + 5, drop_bit 3 (id_bytes b3 b2 b1 b0))
             else
               let (dev, b3) = readreg chip (RECEIVE_FRAME_BASE + 1) dev;
                   (dev, b2) = readreg chip (RECEIVE_FRAME_BASE + 2) dev
               in (dev, PCANFD_MSG_STD, RECEIVE_FRAME_BASE + 3, drop_bit 21 (id_bytes b3 b2 0 0)));
          (dev, bs) = read_data chip dreg (unat dlc) dev;
          (dev, _) = sja1000_write_cmd chip RELEASE_RECEIVE_BUFFER dev;
          fl = (if has_flag fi BUFFER_RTR then set_flag fl PCANFD_MSG_RTR else fl)
      in (dev, f\<lparr>rx_msg := (rx_msg f)\<lparr>msg_type := PCANFD_TYPE_CAN20_MSG, msg_flags := fl, msg_id := i,
                  data_len := ucast dlc,
                  msg_data := bs @ replicate (8 - unat dlc) 0 @ drop 8 (msg_data (rx_msg f))\<rparr>\<rparr>))"

fun sja1000_read_loop ::
  "chip \<Rightarrow> timeval \<Rightarrow> timeval \<Rightarrow> nat \<Rightarrow> pcanfd_rxmsg \<Rightarrow> pcandev \<Rightarrow> pcandev \<times> nat" where
  "sja1000_read_loop chip now drv 0 f dev = (dev, 0)"
| "sja1000_read_loop chip now drv (Suc n) f dev =
     (let (dev, sr) = readreg chip SJA1000_SR dev
      in if \<not> has_flag sr SJA1000_SR_RBS then (dev, 0)
         else
           let (dev, f) = read_frame chip f dev;
               (dev, f, err) = pcan_chardev_rx now drv dev f;
               (dev, result) = sja1000_read_loop chip now drv n f dev
           in (dev, if 0 < err then result + 1 else result))"

definition sja1000_read ::
  "chip \<Rightarrow> timeval \<Rightarrow> timeval \<Rightarrow> nat \<Rightarrow> pcanfd_rxmsg \<Rightarrow> pcandev \<Rightarrow> pcandev \<times> nat" where
  "sja1000_read chip now drv irqmaxrmsg stack dev = sja1000_read_loop chip now drv irqmaxrmsg stack dev"

section \<open>Transmitting\<close>

text \<open>The command that requests the transmission of a frame.\<close>

definition tx_request :: "u32 \<Rightarrow> u8" where
  "tx_request fl =
     (if has_flag fl PCANFD_MSG_SNG then
        if has_flag fl PCANFD_MSG_SLF then SELF_RX_SS_REQUEST else SINGLE_SHOT_REQUEST
      else if has_flag fl PCANFD_MSG_SLF then SELF_RX_REQUEST else TRANSMISSION_REQUEST)"

definition sja1000_write_msg :: "chip \<Rightarrow> pcanfd_msg \<Rightarrow> pcandev \<Rightarrow> pcandev \<times> int" where
  "sja1000_write_msg chip pf dev =
     (let (dev, _) = readreg chip SJA1000_SR dev;
          fi = (ucast (data_len pf) :: u8);
          fi = (if has_flag (msg_flags pf) PCANFD_MSG_RTR then fi OR BUFFER_RTR else fi);
          (dev, dreg) =
            (if has_flag (msg_flags pf) PCANFD_MSG_EXT then
               let fi = fi OR BUFFER_EFF; l = push_bit 3 (msg_id pf)
               in (write_regs [(TRANSMIT_FRAME_BASE, fi), (TRANSMIT_FRAME_BASE + 1, ucast (drop_bit 24 l)),
                     (TRANSMIT_FRAME_BASE + 2, ucast (drop_bit 16 l)), (TRANSMIT_FRAME_BASE + 3, ucast (drop_bit 8 l)),
                     (TRANSMIT_FRAME_BASE + 4, ucast l)] dev, TRANSMIT_FRAME_BASE + 5)
             else
               let l = push_bit 21 (msg_id pf)
               in (write_regs [(TRANSMIT_FRAME_BASE, fi), (TRANSMIT_FRAME_BASE + 1, ucast (drop_bit 24 l)),
                     (TRANSMIT_FRAME_BASE + 2, ucast (drop_bit 16 l))] dev, TRANSMIT_FRAME_BASE + 3));
          dev = write_regs (zip [dreg..<dreg + unat (data_len pf)] (msg_data pf)) dev;
          (dev, _) = sja1000_write_cmd chip (tx_request (msg_flags pf)) dev
      in (pcan_set_tx_engine TX_ENGINE_STARTED dev, 0))"

definition sja1000_write_u :: "chip \<Rightarrow> pcandev \<Rightarrow> pcandev \<times> int" where
  "sja1000_write_u chip dev =
     (case pcan_fifo_get True (writeFifo dev) of
        (fifo, err, Some tx) \<Rightarrow> sja1000_write_msg chip (tx_msg tx) (dev\<lparr>writeFifo := fifo\<rparr>)
      | (fifo, err, None) \<Rightarrow> (dev\<lparr>writeFifo := fifo\<rparr>, err))"

definition sja1000_write :: "chip \<Rightarrow> pcandev \<Rightarrow> pcandev \<times> int" where
  "sja1000_write chip dev =
     (let (dev, i) = pcan_pcie_wait_for_status chip SJA1000_SR_TBS dev
      in if i \<noteq> 0 then sja1000_write_u chip dev else (dev, - EIO))"

section \<open>The interrupt handler\<close>

text \<open>The transmit interrupt: the next frame of the queue, or the engine stops. The flag tells that
  the writers are to be woken up.\<close>

definition irq_transmit :: "chip \<Rightarrow> pcandev \<Rightarrow> pcandev \<times> bool" where
  "irq_transmit chip dev =
     (let (dev, err) = sja1000_write_u chip dev;
          (dev, wake) =
            (if err = - ENODATA then
               (pcan_set_tx_engine TX_ENGINE_STOPPED dev, has_flag (dev_flags dev) PCAN_DEV_CLOSING)
             else if err = 0 then
               (dev\<lparr>tx_frames_counter := tx_frames_counter dev + 1\<rparr>, \<not> has_flag (dev_flags dev) PCAN_DEV_CLOSING)
             else
               (dev\<lparr>nLastError := err, dwErrorCounter := dwErrorCounter dev + 1,
                    wCANStatus := set_flag (wCANStatus dev) CAN_ERR_QXMTFULL\<rparr>, False))
      in (dev\<lparr>ucActivityState := ACTIVITY_XMIT\<rparr>, wake))"

text \<open>The error interrupts: the new bus state, or the error code of the last frame.\<close>

definition irq_state :: "chip \<Rightarrow> dev_ops \<Rightarrow> u8 \<Rightarrow> pcandev \<Rightarrow> pcanfd_rxmsg \<Rightarrow> pcandev \<times> pcanfd_rxmsg" where
  "irq_state chip ops irqstatus dev ef =
     (let (dev, sr) = readreg chip SJA1000_SR dev
      in if sr AND (SJA1000_SR_BS OR SJA1000_SR_ES) = 0 then
           (let (dev, r) = pcan_handle_error_active ops dev (Some ef) in (dev, (case r of Some ef \<Rightarrow> ef | None \<Rightarrow> ef)))
         else if has_flag sr SJA1000_SR_BS then
           (let (dev, ef, _) = pcan_handle_busoff dev ef in (dev, ef))
         else if has_flag irqstatus ERROR_PASSIV_INTERRUPT then
           (let (dev, ef, _) = pcan_handle_error_status dev ef False True in (dev, ef))
         else
           (let (dev, ef, _) = pcan_handle_error_status dev ef True False in (dev, ef)))"

definition irq_bus_error :: "chip \<Rightarrow> pcandev \<Rightarrow> pcanfd_rxmsg \<Rightarrow> pcandev \<times> pcanfd_rxmsg" where
  "irq_bus_error chip dev ef =
     (let (dev, ecc) = readreg chip ERROR_CODE_CAPTURE dev;
          (dev, r) = pcan_handle_error_msg dev (Some ef) (ucast (drop_bit 6 (ecc AND 0xc0))) (ecc AND 0x1f)
                       (has_flag ecc 0x20) False
      in (dev, (case r of Some ef \<Rightarrow> ef | None \<Rightarrow> ef)))"

definition irq_counters :: "chip \<Rightarrow> pcandev \<Rightarrow> pcandev" where
  "irq_counters chip dev =
     (let (dev, r) = readreg chip RX_ERROR_COUNTER dev;
          dev = dev\<lparr>rx_error_counter := r\<rparr>;
          (dev, t) = readreg chip TX_ERROR_COUNTER dev
      in dev\<lparr>tx_error_counter := t, ucActivityState := ACTIVITY_XMIT\<rparr>)"

definition irq_receive ::
  "chip \<Rightarrow> timeval \<Rightarrow> timeval \<Rightarrow> nat \<Rightarrow> pcanfd_rxmsg \<Rightarrow> pcandev \<Rightarrow> pcandev \<times> bool" where
  "irq_receive chip now drv irqmaxrmsg stack dev =
     (let (dev, n) = sja1000_read chip now drv irqmaxrmsg stack dev
      in (dev\<lparr>ucActivityState := ACTIVITY_XMIT\<rparr>, 0 < n))"

definition irq_overrun :: "chip \<Rightarrow> pcandev \<Rightarrow> pcanfd_rxmsg \<Rightarrow> pcandev \<times> pcanfd_rxmsg" where
  "irq_overrun chip dev ef =
     (let (dev, _) = sja1000_write_cmd chip CLEAR_DATA_OVERRUN dev;
          (dev, r) = pcan_handle_error_ctrl dev (Some ef) PCANFD_RX_OVERFLOW
      in (dev\<lparr>ucActivityState := ACTIVITY_XMIT\<rparr>, (case r of Some ef \<Rightarrow> ef | None \<Rightarrow> ef)))"

definition irq_errors ::
  "chip \<Rightarrow> dev_ops \<Rightarrow> u8 \<Rightarrow> pcandev \<Rightarrow> pcanfd_rxmsg \<Rightarrow> pcandev \<times> pcanfd_rxmsg" where
  "irq_errors chip ops irqstatus dev ef =
     (let (dev, ef, irqstatus) =
            (if has_flag irqstatus (ERROR_PASSIV_INTERRUPT OR ERROR_WARN_INTERRUPT) then
               let (dev, ef) = irq_state chip ops irqstatus dev ef in (dev, ef, irqstatus OR BUS_ERROR_INTERRUPT)
             else if has_flag irqstatus BUS_ERROR_INTERRUPT then
               let (dev, ef) = irq_bus_error chip dev ef in (dev, ef, irqstatus)
             else (dev, ef, irqstatus))
      in (if has_flag irqstatus BUS_ERROR_INTERRUPT then irq_counters chip dev else dev, ef))"

text \<open>The error message \<open>ef\<close> is cleared only after it was posted.\<close>

definition cleared_msg :: pcanfd_rxmsg where
  "cleared_msg = \<lparr>rx_msg = zero_msg, rx_hwtv = zero_hwtv\<rparr>"

definition irq_post :: "timeval \<Rightarrow> timeval \<Rightarrow> pcandev \<Rightarrow> pcanfd_rxmsg \<Rightarrow> pcandev \<times> pcanfd_rxmsg \<times> bool" where
  "irq_post now drv dev ef =
     (if msg_type (rx_msg ef) \<noteq> 0 then
        let (dev, _, err) = pcan_chardev_rx now drv dev ef in (dev, cleared_msg, 0 < err)
      else (dev, ef, False))"

text \<open>One turn of the loop of \<^verbatim>\<open>__pcan_sja1000_irqhandler\<close> with the interrupts it found; the flags
  tell that readers and writers are to be woken up.\<close>

definition irq_turn ::
  "chip \<Rightarrow> timeval \<Rightarrow> timeval \<Rightarrow> nat \<Rightarrow> pcanfd_rxmsg \<Rightarrow> dev_ops \<Rightarrow> u8 \<Rightarrow> pcandev \<Rightarrow> pcanfd_rxmsg
     \<Rightarrow> pcandev \<times> pcanfd_rxmsg \<times> bool \<times> bool" where
  "irq_turn chip now drv irqmaxrmsg stack ops irqstatus dev ef =
     (let dev = dev\<lparr>dwInterruptCounter := dwInterruptCounter dev + 1\<rparr>;
          (dev, wwake) = (if has_flag irqstatus TRANSMIT_INTERRUPT then irq_transmit chip dev else (dev, False));
          (dev, rwake) = (if has_flag irqstatus RECEIVE_INTERRUPT
                          then irq_receive chip now drv irqmaxrmsg stack dev else (dev, False));
          (dev, ef) = (if has_flag irqstatus DATA_OVERRUN_INTERRUPT then irq_overrun chip dev ef else (dev, ef));
          (dev, ef) = irq_errors chip ops irqstatus dev ef;
          (dev, ef, posted) = irq_post now drv dev ef
      in (dev, ef, rwake \<or> posted, wwake))"

fun irq_loop ::
  "chip \<Rightarrow> timeval \<Rightarrow> timeval \<Rightarrow> nat \<Rightarrow> pcanfd_rxmsg \<Rightarrow> dev_ops \<Rightarrow> nat \<Rightarrow> pcandev \<Rightarrow> pcanfd_rxmsg
     \<Rightarrow> pcandev \<times> bool \<times> bool \<times> bool" where
  "irq_loop chip now drv irqmaxrmsg stack ops 0 dev ef = (dev, False, False, False)"
| "irq_loop chip now drv irqmaxrmsg stack ops (Suc j) dev ef =
     (let (dev, irqstatus) = readreg chip SJA1000_IR dev
      in if irqstatus = 0 then (dev, False, False, False)
         else
           let (dev, ef, r, w) = irq_turn chip now drv irqmaxrmsg stack ops irqstatus dev ef;
               (dev, r', w', _) = irq_loop chip now drv irqmaxrmsg stack ops j dev ef
           in (dev, r \<or> r', w \<or> w', True))"

text \<open>The boolean result is \<^verbatim>\<open>PCAN_IRQ_HANDLED\<close>.\<close>

definition pcan_sja1000_irqhandler ::
  "chip \<Rightarrow> timeval \<Rightarrow> timeval \<Rightarrow> nat \<Rightarrow> nat \<Rightarrow> pcanfd_rxmsg \<Rightarrow> dev_ops \<Rightarrow> pcandev \<Rightarrow> pcandev \<times> bool" where
  "pcan_sja1000_irqhandler chip now drv irqmaxrmsg irqmaxloop stack ops dev =
     (let (dev, rwakeup, wwakeup, handled) =
            irq_loop chip now drv irqmaxrmsg stack ops irqmaxloop dev cleared_msg;
          dev = (if wwakeup then signal_out dev else dev);
          dev = (if rwakeup then signal_in dev else dev)
      in (dev, handled))"

section \<open>Probing\<close>

text \<open>The result has the module parameters too: zero values are replaced by their defaults.\<close>

definition sja1000_probe :: "chip \<Rightarrow> nat \<Rightarrow> nat \<Rightarrow> nat \<Rightarrow> pcandev \<Rightarrow> pcandev \<times> nat \<times> nat \<times> int" where
  "sja1000_probe chip polls irqmaxloop irqmaxrmsg dev =
     (let clkdiv = clkdivider dev;
          l = (if irqmaxloop = 0 then MAX_INTERRUPTS_PER_ENTRY else irqmaxloop);
          m = (if irqmaxrmsg = 0 then MAX_MESSAGES_PER_INTERRUPT else irqmaxrmsg);
          (dev, tmp) = readreg chip CLKDIVIDER dev
      in if has_flag tmp 0x10 then (dev, l, m, - ENXIO)
         else
           let (dev, err) = set_reset_mode chip polls dev
           in if err \<noteq> 0 then (dev, l, m, - ENXIO)
              else
                let dev = sja1000_irq_disable (writereg CLKDIVIDER clkdiv dev);
                    (dev, tmp) = readreg chip SJA1000_SR dev
                in if tmp AND 0x30 \<noteq> 0x30 then (dev, l, m, - ENXIO)
                   else
                     let dev = (if has_flag tmp SJA1000_SR_TBS then pcan_set_tx_engine TX_ENGINE_STOPPED dev else dev);
                         (dev, tmp) = readreg chip SJA1000_IR dev
                     in if has_flag tmp 0xfb then (dev, l, m, - ENXIO)
                        else
                          let (dev, tmp) = readreg chip RECEIVE_MSG_COUNTER dev
                          in if tmp \<noteq> 0 then (dev, l, m, - ENXIO) else (dev, l, m, 0))"

text \<open>The callbacks of a channel with this controller.\<close>

definition sja1000_ops :: "chip \<Rightarrow> nat \<Rightarrow> timeval \<Rightarrow> timeval \<Rightarrow> pcanfd_rxmsg \<Rightarrow> dev_ops" where
  "sja1000_ops chip polls now drv stack =
     (let ops = \<lparr>op_device_open = (\<lambda>dev w e l. None), op_device_open_fd = (\<lambda>dev p. None),
                 op_device_release = Some (sja1000_release chip polls), op_device_write = sja1000_write chip,
                 op_open = None, op_release = None, op_req_irq = None, op_free_irq = None, op_cleanup = None\<rparr>
      in ops\<lparr>op_device_open := (\<lambda>dev w e l. Some (sja1000_open chip polls now drv stack ops dev w e l))\<rparr>)"

section \<open>Lemmas\<close>

subsection \<open>What register accesses leave alone\<close>

locale io_blind =
  fixes view :: "pcandev \<Rightarrow> 'v"
  assumes io [simp]: "view (d\<lparr>io_log := l\<rparr>) = view d"
begin

lemma readreg_view [simp]: "view (fst (readreg chip a d)) = view d"
  by (simp add: readreg_def Let_def)

lemma writereg_view [simp]: "view (writereg a v d) = view d"
  by (simp add: writereg_def)

lemma write_cmd_view [simp]: "view (fst (sja1000_write_cmd chip c d)) = view d"
  by (simp add: sja1000_write_cmd_def)

lemma write_regs_view [simp]: "view (write_regs rs d) = view d"
  by (induction rs arbitrary: d) (auto simp: write_regs_def)

lemma poll_view [simp]: "view (fst (poll_status chip m n d)) = view d"
  by (induction n arbitrary: d) (simp_all add: Let_def split_def)

lemma reset_loop_view [simp]: "view (fst (reset_loop chip n t d)) = view d"
  by (induction n arbitrary: d t) (simp_all add: Let_def split_def)

lemma normal_loop_view [simp]: "view (fst (normal_loop chip n md t d)) = view d"
  by (induction n arbitrary: d t) (simp_all add: Let_def split_def)

lemma mode_view [simp]:
  "view (fst (set_reset_mode chip polls d)) = view d"
  "view (fst (set_normal_mode chip polls md d)) = view d"
  by (simp_all add: set_reset_mode_def set_normal_mode_def Let_def split_def)

lemma irq_mask_view [simp]:
  "view (sja1000_irq_disable d) = view d" "view (sja1000_irq_enable d) = view d"
  by (simp_all add: sja1000_irq_disable_def sja1000_irq_disable_mask_def sja1000_irq_enable_def
      sja1000_irq_enable_mask_def)

lemma release_view [simp]: "view (sja1000_release chip polls d) = view d"
  by (simp add: sja1000_release_def Let_def split_def)

lemma read_data_view [simp]: "view (fst (read_data chip r n d)) = view d"
  by (induction n arbitrary: d r) (simp_all add: Let_def split_def)

lemma read_frame_view [simp]: "view (fst (read_frame chip f d)) = view d"
  by (simp add: read_frame_def Let_def split_def)

end

definition bus_view :: "pcandev \<Rightarrow> u32 \<times> u16" where
  "bus_view d = (bus_state d, wCANStatus d AND BUS_BITS)"

definition queue_view :: "pcandev \<Rightarrow> pcanfd_rxmsg FIFO_MANAGER \<times> pcanfd_txmsg FIFO_MANAGER \<times> u32 \<times> u32" where
  "queue_view d = (readFifo d, writeFifo d, locked_tx_engine_state d, bus_state d)"

interpretation bv: io_blind bus_view by unfold_locales (simp add: bus_view_def)

interpretation qv: io_blind queue_view by unfold_locales (simp add: queue_view_def)

interpretation wf: io_blind writeFifo by unfold_locales simp

lemma same_bus_view: "same_bus d d' \<longleftrightarrow> bus_view d' = bus_view d"
  by (auto simp: same_bus_def bus_view_def)

lemma queue_view_fields:
  "queue_view a = queue_view b \<longleftrightarrow> readFifo a = readFifo b \<and> writeFifo a = writeFifo b \<and>
     locked_tx_engine_state a = locked_tx_engine_state b \<and> bus_state a = bus_state b"
  by (simp add: queue_view_def)

lemma write_msg_same_bus: "bus_view (fst (sja1000_write_msg chip pf d)) = bus_view d"
proof -
  have e: "bus_view (pcan_set_tx_engine t x) = bus_view x" for t x
    by (simp add: bus_view_def pcan_set_tx_engine_def)
  show ?thesis by (simp add: sja1000_write_msg_def Let_def split_def e)
qed

lemma write_u_same_bus: "bus_view (fst (sja1000_write_u chip d)) = bus_view d"
proof -
  have f: "bus_view (d\<lparr>writeFifo := f\<rparr>) = bus_view d" for f by (simp add: bus_view_def)
  show ?thesis
    by (simp add: sja1000_write_u_def write_msg_same_bus f split: prod.split option.split)
qed

lemma sja1000_write_same_bus: "bus_view (fst (sja1000_write chip d)) = bus_view d"
  by (simp add: sja1000_write_def pcan_pcie_wait_for_status_def Let_def split_def write_u_same_bus)

text \<open>The controller is a transmit driver in the sense of the bus state handlers.\<close>

interpretation sja: tx_driver "sja1000_ops chip polls now drv stack" for chip polls now drv stack
  by unfold_locales (simp add: sja1000_ops_def Let_def same_bus_view sja1000_write_same_bus)

subsection \<open>The interrupt handler keeps the bus state consistent\<close>

lemma bus_inv_view: "\<lbrakk>bus_view d' = bus_view d; bus_inv d\<rbrakk> \<Longrightarrow> bus_inv d'"
  using same_bus_inv [of d d'] by (simp add: same_bus_view)

lemma bus_view_updates [simp]:
  "bus_view (d\<lparr>ucActivityState := u\<rparr>) = bus_view d"
  "bus_view (d\<lparr>dwInterruptCounter := c\<rparr>) = bus_view d"
  "bus_view (d\<lparr>dwErrorCounter := c\<rparr>) = bus_view d"
  "bus_view (d\<lparr>tx_frames_counter := c\<rparr>) = bus_view d"
  "bus_view (d\<lparr>nLastError := i\<rparr>) = bus_view d"
  "bus_view (d\<lparr>rx_error_counter := b\<rparr>) = bus_view d"
  "bus_view (d\<lparr>tx_error_counter := b\<rparr>) = bus_view d"
  "bus_view (d\<lparr>wCANStatus := set_flag (wCANStatus d) CAN_ERR_QXMTFULL\<rparr>) = bus_view d"
  "bus_view (pcan_set_tx_engine t d) = bus_view d"
  "bus_view (signal_in d) = bus_view d" "bus_view (signal_out d) = bus_view d"
  by (simp_all add: bus_view_def pcan_set_tx_engine_def signal_in_def signal_out_def set_flag_other)

lemma irq_transmit_view [simp]: "bus_view (fst (irq_transmit chip d)) = bus_view d"
proof -
  obtain d1 e where w: "sja1000_write_u chip d = (d1, e)" using prod.exhaust by blast
  have "bus_view (d1\<lparr>nLastError := e, dwErrorCounter := dwErrorCounter d1 + 1,
      wCANStatus := set_flag (wCANStatus d1) CAN_ERR_QXMTFULL\<rparr>) = bus_view d1"
    by (simp add: bus_view_def set_flag_other)
  then show ?thesis using write_u_same_bus [of chip d] w by (simp add: irq_transmit_def Let_def)
qed

lemma chardev_rx_view [simp]: "bus_view (fst (pcan_chardev_rx now drv d rx)) = bus_view d"
  using chardev_rx_same_bus [of d now drv rx] by (simp add: same_bus_view)

lemma read_loop_view [simp]: "bus_view (fst (sja1000_read_loop chip now drv n f d)) = bus_view d"
proof (induction n arbitrary: d f)
  case (Suc n)
  then show ?case by (simp add: Let_def split_def)
qed simp

lemma irq_counters_view [simp]: "bus_view (irq_counters chip d) = bus_view d"
  by (simp add: irq_counters_def Let_def split_def)

lemma error_ctrl_inv: "bus_inv d \<Longrightarrow> bus_inv (fst (pcan_handle_error_ctrl d rxo e))"
  by (rule sja.bus_step_inv [OF bus_step.ctrl])

lemma irq_bus_error_inv: "bus_inv d \<Longrightarrow> bus_inv (fst (irq_bus_error chip d ef))"
  by (simp add: irq_bus_error_def Let_def split_def)
     (intro sja.bus_step_inv [OF bus_step.frame] bus_inv_view [OF bv.readreg_view])

lemma irq_state_inv:
  assumes "bus_inv d"
  shows "bus_inv (fst (irq_state chip (sja1000_ops chip polls now drv stack) irq d ef))"
proof -
  have d: "bus_inv (fst (readreg chip SJA1000_SR d))" by (rule bus_inv_view [OF bv.readreg_view assms])
  note steps = sja.bus_step_inv [OF bus_step.active d] sja.bus_step_inv [OF bus_step.busoff d]
    sja.bus_step_inv [OF bus_step.status d]
  show ?thesis by (auto simp: irq_state_def Let_def split_def intro: steps)
qed

lemma irq_receive_view [simp]: "bus_view (fst (irq_receive chip now drv m stack d)) = bus_view d"
  by (simp add: irq_receive_def sja1000_read_def Let_def split_def)

lemma irq_post_view [simp]: "bus_view (fst (irq_post now drv d ef)) = bus_view d"
  by (simp add: irq_post_def Let_def split_def)

lemma irq_overrun_inv: "bus_inv d \<Longrightarrow> bus_inv (fst (irq_overrun chip d ef))"
proof -
  assume "bus_inv d"
  then have "bus_inv (fst (pcan_handle_error_ctrl (fst (sja1000_write_cmd chip CLEAR_DATA_OVERRUN d)) (Some ef)
      PCANFD_RX_OVERFLOW))"
    by (intro error_ctrl_inv bus_inv_view [OF bv.write_cmd_view])
  then show ?thesis
    by (simp add: irq_overrun_def Let_def split_def) (rule bus_inv_view [OF bus_view_updates(1)])
qed

lemma irq_errors_inv:
  assumes "bus_inv d"
  shows "bus_inv (fst (irq_errors chip (sja1000_ops chip polls now drv stack) irq d ef))"
proof -
  have cnt: "bus_inv x \<Longrightarrow> bus_inv (irq_counters chip x)" for x by (rule bus_inv_view [OF irq_counters_view])
  show ?thesis
    using irq_state_inv [OF assms] irq_bus_error_inv [OF assms] assms
    by (auto simp: irq_errors_def Let_def split_def intro: cnt)
qed

lemma irq_turn_inv:
  assumes "bus_inv d"
  shows "bus_inv (fst (irq_turn chip now drv m stack (sja1000_ops chip polls now' drv' stack') irq d ef))"
proof -
  define d1 where "d1 = d\<lparr>dwInterruptCounter := dwInterruptCounter d + 1\<rparr>"
  define d2 where "d2 = fst (if has_flag irq TRANSMIT_INTERRUPT then irq_transmit chip d1 else (d1, False))"
  define d3 where "d3 = fst (if has_flag irq RECEIVE_INTERRUPT then irq_receive chip now drv m stack d2 else (d2, False))"
  have "bus_view d3 = bus_view d" by (simp add: d3_def d2_def d1_def)
  then have inv3: "bus_inv d3" by (rule bus_inv_view [OF _ assms])
  define p4 where "p4 = (if has_flag irq DATA_OVERRUN_INTERRUPT then irq_overrun chip d3 ef else (d3, ef))"
  have "bus_inv (fst p4)" using inv3 irq_overrun_inv by (simp add: p4_def)
  note inv5 = irq_errors_inv [OF this]
  show ?thesis
    unfolding irq_turn_def Let_def split_def d1_def [symmetric] d2_def [symmetric] d3_def [symmetric] p4_def [symmetric]
    by simp (rule bus_inv_view [OF irq_post_view inv5])
qed

lemma irq_loop_inv:
  "bus_inv d \<Longrightarrow> bus_inv (fst (irq_loop chip now drv m stack (sja1000_ops chip polls now' drv' stack') n d ef))"
proof (induction n arbitrary: d ef)
  case (Suc n)
  have "bus_inv (fst (readreg chip SJA1000_IR d))" by (rule bus_inv_view [OF bv.readreg_view Suc.prems])
  then show ?case using Suc.IH [OF irq_turn_inv] by (simp add: Let_def split_def)
qed simp

subsection \<open>Frames in the buffers of the controller\<close>

text \<open>The value that was last written to a register.\<close>

fun last_write :: "io list \<Rightarrow> nat \<Rightarrow> u8" where
  "last_write [] a = 0"
| "last_write (Rd b v # l) a = last_write l a"
| "last_write (Wr b v # l) a = (if b = a then v else last_write l a)"

text \<open>A controller that hears its own frames: the receive buffer reads what the transmit buffer was
  given.\<close>

definition loopback :: "chip \<Rightarrow> bool" where
  "loopback chip \<longleftrightarrow> (\<forall>l a. 16 \<le> a \<and> a \<le> 28 \<longrightarrow> chip l a = last_write l a)"

lemma id_bytes_all: "id_bytes (ucast (drop_bit 24 l)) (ucast (drop_bit 16 l)) (ucast (drop_bit 8 l)) (ucast l) = l"
proof (rule bit_word_eqI)
  fix n assume "n < LENGTH(32)"
  then consider "n < 8" | "8 \<le> n" "n < 16" | "16 \<le> n" "n < 24" | "24 \<le> n" "n < 32" by fastforce
  then show "bit (id_bytes (ucast (drop_bit 24 l)) (ucast (drop_bit 16 l)) (ucast (drop_bit 8 l)) (ucast l)) n = bit l n"
    by cases (auto simp: id_bytes_def bit_simps)
qed

lemma id_bytes_high: "id_bytes (ucast (drop_bit 24 (push_bit 21 x))) (ucast (drop_bit 16 (push_bit 21 x))) 0 0 = push_bit 21 x"
proof (rule bit_word_eqI)
  fix n assume "n < LENGTH(32)"
  then consider "n < 16" | "16 \<le> n" "n < 24" | "24 \<le> n" "n < 32" by fastforce
  then show "bit (id_bytes (ucast (drop_bit 24 (push_bit 21 x))) (ucast (drop_bit 16 (push_bit 21 x))) 0 0) n
      = bit (push_bit 21 x) n"
    by cases (auto simp: id_bytes_def bit_simps)
qed

lemma drop_push_small:
  fixes x :: u32
  assumes "unat x < 2 ^ (32 - k)" "k < 32"
  shows "drop_bit k (push_bit k x) = x"
proof (rule bit_word_eqI)
  fix n assume n: "n < LENGTH(32)"
  have "\<not> bit x n" if "32 \<le> k + n"
  proof -
    have n: "32 - k \<le> n" using that by arith
    have "take_bit (32 - k) (unat x) = unat x" using assms(1) by (rule take_bit_nat_eq_self)
    then have "take_bit (32 - k) x = x" by (metis unsigned_take_bit_eq unsigned_word_eqI)
    then show ?thesis using n by (metis bit_take_bit_iff not_le)
  qed
  then show "bit (drop_bit k (push_bit k x)) n = bit x n"
    using n assms(2) not_le by (auto simp: bit_simps)
qed

lemma last_write_readreg [simp]: "last_write (io_log (fst (readreg chip a d))) b = last_write (io_log d) b"
  by (simp add: readreg_def Let_def)

lemma last_write_writereg [simp]: "last_write (io_log (writereg a v d)) b = (if a = b then v else last_write (io_log d) b)"
  by (simp add: writereg_def)

lemma write_regs_simps [simp]:
  "write_regs [] d = d" "write_regs ((a, v) # rs) d = write_regs rs (writereg a v d)"
  by (simp_all add: write_regs_def)

lemma last_write_data:
  "last_write (io_log (write_regs (zip [r..<r + n] bs) d)) a =
     (if r \<le> a \<and> a < r + n \<and> a - r < length bs then bs ! (a - r) else last_write (io_log d) a)"
proof (induction bs arbitrary: r n d)
  case (Cons b bs)
  show ?case
  proof (cases n)
    case (Suc m)
    then have "[r..<r + n] = r # [Suc r..<Suc r + m]" by (simp add: upt_conv_Cons)
    then show ?thesis using Cons [of "Suc r" m "writereg r b d"] Suc
      by (auto simp: nth_Cons' Suc_le_eq not_less le_eq_less_or_eq)
  qed auto
qed auto

lemma read_data_loopback:
  assumes "loopback chip" "16 \<le> r" "r + n \<le> 29"
  shows "snd (read_data chip r n d) = map (last_write (io_log d)) [r..<r + n] \<and>
    last_write (io_log (fst (read_data chip r n d))) = last_write (io_log d)"
  using assms(2,3)
proof (induction n arbitrary: r d)
  case (Suc n)
  have v: "snd (readreg chip r d) = last_write (io_log d) r"
    using assms(1) Suc.prems by (simp add: readreg_def Let_def loopback_def)
  have "last_write (io_log (fst (readreg chip r d))) = last_write (io_log d)" by (rule ext) simp
  moreover have "[r..<r + Suc n] = r # [Suc r..<Suc r + n]" by (simp add: upt_conv_Cons del: upt_Suc)
  ultimately show ?case using Suc.IH [of "Suc r" "fst (readreg chip r d)"] Suc.prems v
    by (simp add: Let_def split_def del: upt_Suc)
qed auto

lemma readreg_loopback: "\<lbrakk>loopback chip; 16 \<le> a; a \<le> 28\<rbrakk> \<Longrightarrow> snd (readreg chip a d) = last_write (io_log d) a"
  by (simp add: readreg_def Let_def loopback_def)

lemma small_len_cases:
  fixes n :: u16
  assumes "n \<le> 8"
  shows "n = 8 \<or> n = 7 \<or> n = 6 \<or> n = 5 \<or> n = 4 \<or> n = 3 \<or> n = 2 \<or> n = 1 \<or> n = 0"
proof -
  have "unat n \<le> 8" using assms by (simp add: word_le_nat_alt)
  then have "unat n \<in> {8, 7, 6, 5, 4, 3, 2, 1, 0}" by auto
  then show ?thesis by (auto simp: word_unat_eq_iff)
qed

text \<open>The frame information byte and what the reader takes from it.\<close>

definition frame_info :: "u16 \<Rightarrow> bool \<Rightarrow> bool \<Rightarrow> u8" where
  "frame_info n r e =
     (let fi = (ucast n :: u8); fi = (if r then fi OR BUFFER_RTR else fi) in if e then fi OR BUFFER_EFF else fi)"

lemma frame_info_fields:
  assumes "n \<le> 8"
  shows "has_flag (frame_info n r e) BUFFER_EFF = e" "has_flag (frame_info n r e) BUFFER_RTR = r"
    "frame_info n r e AND BUFFER_DLC_MASK = ucast n" "\<not> 8 < (ucast n :: u8)" "unat (ucast n :: u8) = unat n"
  using small_len_cases [OF assms] by (cases r; cases e; auto simp: frame_info_def has_flag_def)+

lemma last_write_tail:
  "last_write (io_log (pcan_set_tx_engine t (fst (sja1000_write_cmd chip c d)))) a = last_write (io_log d) a"
  if "a \<noteq> SJA1000_CMR"
  using that by (simp add: sja1000_write_cmd_def pcan_set_tx_engine_def)

lemma write_msg_registers:
  fixes chip :: chip and pf :: pcanfd_msg and dev :: pcandev
  assumes "data_len pf \<le> 8" "8 \<le> length (msg_data pf)"
  defines "D \<equiv> fst (sja1000_write_msg chip pf dev)"
    and "e \<equiv> has_flag (msg_flags pf) PCANFD_MSG_EXT"
  shows "last_write (io_log D) 16 = frame_info (data_len pf) (has_flag (msg_flags pf) PCANFD_MSG_RTR) e"
    "e \<Longrightarrow> map (last_write (io_log D)) [17, 18, 19, 20] =
       map (\<lambda>k. ucast (drop_bit k (push_bit 3 (msg_id pf)))) [24, 16, 8, 0]"
    "\<not> e \<Longrightarrow> map (last_write (io_log D)) [17, 18] =
       map (\<lambda>k. ucast (drop_bit k (push_bit 21 (msg_id pf)))) [24, 16]"
    "map (last_write (io_log D)) [(if e then 21 else 19)..<(if e then 21 else 19) + unat (data_len pf)] =
       take (unat (data_len pf)) (msg_data pf)"
proof -
  have n: "unat (data_len pf) \<le> 8" using assms(1) by (simp add: word_le_nat_alt)
  have "D = pcan_set_tx_engine TX_ENGINE_STARTED (fst (sja1000_write_cmd chip (tx_request (msg_flags pf))
      (write_regs (zip [(if e then 21 else 19)..<(if e then 21 else 19) + unat (data_len pf)] (msg_data pf))
        (write_regs (if e then [(16, frame_info (data_len pf) (has_flag (msg_flags pf) PCANFD_MSG_RTR) e),
             (17, ucast (drop_bit 24 (push_bit 3 (msg_id pf)))), (18, ucast (drop_bit 16 (push_bit 3 (msg_id pf)))),
             (19, ucast (drop_bit 8 (push_bit 3 (msg_id pf)))), (20, ucast (push_bit 3 (msg_id pf)))]
           else [(16, frame_info (data_len pf) (has_flag (msg_flags pf) PCANFD_MSG_RTR) e),
             (17, ucast (drop_bit 24 (push_bit 21 (msg_id pf)))), (18, ucast (drop_bit 16 (push_bit 21 (msg_id pf))))])
          (fst (readreg chip SJA1000_SR dev))))))"
    unfolding D_def sja1000_write_msg_def e_def frame_info_def Let_def split_def
    by (cases "has_flag (msg_flags pf) PCANFD_MSG_EXT") simp_all
  note D = this
  show "last_write (io_log D) 16 = frame_info (data_len pf) (has_flag (msg_flags pf) PCANFD_MSG_RTR) e"
    unfolding D by (cases e) (simp_all add: last_write_tail last_write_data)
  show "e \<Longrightarrow> map (last_write (io_log D)) [17, 18, 19, 20] =
       map (\<lambda>k. ucast (drop_bit k (push_bit 3 (msg_id pf)))) [24, 16, 8, 0]"
    unfolding D by (simp add: last_write_tail last_write_data)
  show "\<not> e \<Longrightarrow> map (last_write (io_log D)) [17, 18] =
       map (\<lambda>k. ucast (drop_bit k (push_bit 21 (msg_id pf)))) [24, 16]"
    unfolding D by (simp add: last_write_tail last_write_data)
  show "map (last_write (io_log D)) [(if e then 21 else 19)..<(if e then 21 else 19) + unat (data_len pf)] =
       take (unat (data_len pf)) (msg_data pf)"
    using n assms(2) unfolding D
    by (intro nth_equalityI) (auto simp: last_write_tail last_write_data)
qed

lemma flags_two_bits:
  fixes x :: u32
  shows "(if has_flag x PCANFD_MSG_EXT then PCANFD_MSG_EXT else 0) OR (if has_flag x PCANFD_MSG_RTR then PCANFD_MSG_RTR else 0)
    = x AND (PCANFD_MSG_EXT OR PCANFD_MSG_RTR)"
proof -
  have b: "x AND 2 = (if bit x 1 then 2 else 0)" "x AND 1 = (if bit x 0 then 1 else 0)"
    by (rule bit_word_eqI; auto simp: bit_simps bit_2_iff bit_1_iff intro: gr0I)+
  then have one: "x AND 2 = (if has_flag x 2 then 2 else 0)" "x AND 1 = (if has_flag x 1 then 1 else 0)"
    by (simp_all add: has_flag_def)
  show ?thesis unfolding one [symmetric] by (simp add: word_bw_lcs word_ao_dist2 [symmetric])
qed

lemma read_frame_registers:
  fixes chip :: chip and f :: pcanfd_rxmsg and D :: pcandev
  assumes lb: "loopback chip" and n: "n \<le> 8"
    and fi: "last_write (io_log D) 16 = frame_info n r e"
  defines "g \<equiv> rx_msg (snd (read_frame chip f D))"
    and "L \<equiv> last_write (io_log D)"
  shows "msg_type g = PCANFD_TYPE_CAN20_MSG" "data_len g = n"
    "msg_flags g = (if e then PCANFD_MSG_EXT else 0) OR (if r then PCANFD_MSG_RTR else 0)"
    "msg_id g = (if e then drop_bit 3 (id_bytes (L 17) (L 18) (L 19) (L 20)) else drop_bit 21 (id_bytes (L 17) (L 18) 0 0))"
    "take (unat n) (msg_data g) = map L [(if e then 21 else 19)..<(if e then 21 else 19) + unat n]"
proof -
  have un: "unat n \<le> 8" using n by (simp add: word_le_nat_alt)
  have uc: "ucast (ucast n :: u8) = n" using small_len_cases [OF n] by auto
  note [simp] = frame_info_fields [OF n] readreg_loopback [OF lb] fi [folded L_def] uc L_def [symmetric]
  have step: "last_write (io_log (fst (readreg chip a d))) = last_write (io_log d)" for a d by (rule ext) simp
  define E where "E = (if e then fst (readreg chip 20 (fst (readreg chip 19 (fst (readreg chip 18 (fst (readreg chip 17
      (fst (readreg chip 16 D))))))))) else fst (readreg chip 18 (fst (readreg chip 17 (fst (readreg chip 16 D))))))"
  have E: "last_write (io_log E) = L" by (simp add: E_def step)
  have data: "snd (read_data chip (if e then 21 else 19) (unat n) E) =
      map L [(if e then 21 else 19)..<(if e then 21 else 19) + unat n]"
    using read_data_loopback [OF lb, of "if e then 21 else 19" "unat n" E] un E by auto
  have g: "g = (rx_msg f)\<lparr>msg_type := PCANFD_TYPE_CAN20_MSG,
      msg_flags := (if r then set_flag (if e then PCANFD_MSG_EXT else PCANFD_MSG_STD) PCANFD_MSG_RTR
        else (if e then PCANFD_MSG_EXT else PCANFD_MSG_STD)),
      msg_id := (if e then drop_bit 3 (id_bytes (L 17) (L 18) (L 19) (L 20)) else drop_bit 21 (id_bytes (L 17) (L 18) 0 0)),
      data_len := n,
      msg_data := map L [(if e then 21 else 19)..<(if e then 21 else 19) + unat n] @ replicate (8 - unat n) 0 @
        drop 8 (msg_data (rx_msg f))\<rparr>"
    using data by (cases e; cases r) (simp_all add: g_def read_frame_def Let_def split_def E_def)
  show "msg_type g = PCANFD_TYPE_CAN20_MSG" "data_len g = n"
    "msg_flags g = (if e then PCANFD_MSG_EXT else 0) OR (if r then PCANFD_MSG_RTR else 0)"
    "msg_id g = (if e then drop_bit 3 (id_bytes (L 17) (L 18) (L 19) (L 20)) else drop_bit 21 (id_bytes (L 17) (L 18) 0 0))"
    "take (unat n) (msg_data g) = map L [(if e then 21 else 19)..<(if e then 21 else 19) + unat n]"
    by (simp_all add: g set_flag_def)
qed

lemma frame_roundtrip:
  assumes lb: "loopback chip" and len: "data_len pf \<le> 8" "length (msg_data pf) = 64"
    and id: "unat (msg_id pf) < (if has_flag (msg_flags pf) PCANFD_MSG_EXT then 2 ^ 29 else 2 ^ 11)"
    and run: "read_frame chip f (fst (sja1000_write_msg chip pf dev)) = (d, g)"
  shows "msg_type (rx_msg g) = PCANFD_TYPE_CAN20_MSG \<and> msg_id (rx_msg g) = msg_id pf \<and>
    data_len (rx_msg g) = data_len pf \<and>
    take (unat (data_len pf)) (msg_data (rx_msg g)) = take (unat (data_len pf)) (msg_data pf) \<and>
    msg_flags (rx_msg g) = msg_flags pf AND (PCANFD_MSG_EXT OR PCANFD_MSG_RTR)"
proof -
  let ?e = "has_flag (msg_flags pf) PCANFD_MSG_EXT"
  have l8: "8 \<le> length (msg_data pf)" using len(2) by simp
  note W = write_msg_registers [OF len(1) l8, of chip dev]
  note R = read_frame_registers [OF lb len(1) W(1), of f, unfolded run snd_conv]
  have "msg_id (rx_msg g) = msg_id pf"
  proof (cases ?e)
    case True
    have "msg_id (rx_msg g) = drop_bit 3 (push_bit 3 (msg_id pf))"
      using R(4) W(2) [OF True] True id_bytes_all [of "push_bit 3 (msg_id pf)"] by simp
    then show ?thesis using drop_push_small [of "msg_id pf" 3] id True by simp
  next
    case False
    have "msg_id (rx_msg g) = drop_bit 21 (push_bit 21 (msg_id pf))"
      using R(4) W(3) [OF False] False id_bytes_high [of "msg_id pf"] by simp
    then show ?thesis using drop_push_small [of "msg_id pf" 21] id False by simp
  qed
  moreover have "msg_flags (rx_msg g) = msg_flags pf AND (PCANFD_MSG_EXT OR PCANFD_MSG_RTR)"
    unfolding R(3) by (rule flags_two_bits)
  ultimately show ?thesis using R(1,2,5) W(4) by simp
qed

lemma set_tx_engine_fields [simp]:
  "writeFifo (pcan_set_tx_engine t d) = writeFifo d" "locked_tx_engine_state (pcan_set_tx_engine t d) = t"
  by (simp_all add: pcan_set_tx_engine_def)

lemma write_msg_engine:
  "writeFifo (fst (sja1000_write_msg chip m d)) = writeFifo d"
  "locked_tx_engine_state (fst (sja1000_write_msg chip m d)) = TX_ENGINE_STARTED"
  by (simp_all add: sja1000_write_msg_def Let_def split_def)

section \<open>Properties\<close>

text \<open>C28. A frame that is written to the controller and read back from its buffer is the same frame:
  identifier, length, data, and the extended and remote flags.\<close>

theorem sja1000_frame_roundtrip:
  assumes lb: "loopback chip" and len: "data_len pf \<le> 8" "length (msg_data pf) = 64"
    and id: "unat (msg_id pf) < (if has_flag (msg_flags pf) PCANFD_MSG_EXT then 2 ^ 29 else 2 ^ 11)"
    and run: "read_frame chip f (fst (sja1000_write_msg chip pf dev)) = (d, g)"
  shows "msg_type (rx_msg g) = PCANFD_TYPE_CAN20_MSG \<and> msg_id (rx_msg g) = msg_id pf \<and>
    data_len (rx_msg g) = data_len pf \<and>
    take (unat (data_len pf)) (msg_data (rx_msg g)) = take (unat (data_len pf)) (msg_data pf) \<and>
    msg_flags (rx_msg g) = msg_flags pf AND (PCANFD_MSG_EXT OR PCANFD_MSG_RTR)"
  by (rule frame_roundtrip [OF assms])

theorem sja1000_frame_roundtrip_witness:
  "msg_id (rx_msg (snd (read_frame (\<lambda>l a. if a = 2 then 4 else last_write l a) cleared_msg
     (fst (sja1000_write_msg (\<lambda>l a. if a = 2 then 4 else last_write l a)
       (zero_msg\<lparr>msg_id := 0x1abcdef, msg_flags := 2, data_len := 3\<rparr>) blank_dev))))) = 0x1abcdef"
proof -
  let ?chip = "\<lambda>l a. if a = 2 then 4 else last_write l a"
  let ?pf = "zero_msg\<lparr>msg_id := 0x1abcdef, msg_flags := 2, data_len := 3\<rparr>"
  obtain d g where run: "read_frame ?chip cleared_msg (fst (sja1000_write_msg ?chip ?pf blank_dev)) = (d, g)"
    using prod.exhaust by blast
  have lb: "loopback ?chip" by (simp add: loopback_def)
  have "msg_id (rx_msg g) = 0x1abcdef"
    using sja1000_frame_roundtrip [OF lb _ _ _ run] by (simp add: zero_msg_def has_flag_def)
  then show ?thesis unfolding run by simp
qed

text \<open>Everything that happens to a channel with this controller.\<close>

inductive sja_step :: "chip \<Rightarrow> pcandev \<Rightarrow> pcandev \<Rightarrow> bool" for chip :: chip where
  irq: "sja_step chip d (fst (pcan_sja1000_irqhandler chip now drv m n stack (sja1000_ops chip polls now' drv' stack') d))"
| start: "sja_step chip d (fst (sja1000_open chip polls now drv stack (sja1000_ops chip polls now' drv' stack') d w e l))"
| release: "sja_step chip d (sja1000_release chip polls d)"
| handler: "bus_step (sja1000_ops chip polls now drv stack) d d' \<Longrightarrow> sja_step chip d d'"

inductive_cases sja_stepE: "sja_step chip d d'"

lemma sja_open_inv:
  assumes "bus_inv d"
  shows "bus_inv (fst (sja1000_open chip polls now drv stack (sja1000_ops chip polls now' drv' stack') d w e l))"
proof -
  let ?ops = "sja1000_ops chip polls now' drv' stack'"
  have soft: "bus_inv (pcan_soft_error_active now drv ?ops stack x)" if "bus_inv x" for x
  proof -
    obtain y r where h: "pcan_handle_error_active ?ops x (Some stack) = (y, r)" using prod.exhaust by blast
    then have y: "bus_inv y" using sja.bus_step_inv [OF bus_step.active that] by (metis fst_conv)
    have "bus_inv (rx_deliver now drv y q)" for q
      using deliver_same_bus [of y now drv q] y same_bus_inv by blast
    then show ?thesis using h y by (simp add: pcan_soft_error_active_def split: option.split)
  qed
  have v: "bus_view d' = bus_view d \<Longrightarrow> bus_inv d'" for d' using assms by (rule bus_inv_view [rotated])
  show ?thesis by (simp add: sja1000_open_def Let_def split_def soft v)
qed

lemma sja_step_inv: "sja_step chip d d' \<Longrightarrow> bus_inv d \<Longrightarrow> bus_inv d'"
proof (induction rule: sja_step.induct)
  case (irq d now drv m n stack polls now' drv' stack')
  then have "bus_inv (fst (irq_loop chip now drv m stack (sja1000_ops chip polls now' drv' stack') n d cleared_msg))"
    by (rule irq_loop_inv)
  then show ?case
    by (simp add: pcan_sja1000_irqhandler_def Let_def split_def)
       (auto intro: bus_inv_view bus_view_updates)
next
  case (handler polls now drv stack d d')
  then show ?case using sja.bus_step_inv by blast
qed (auto intro: sja_open_inv bus_inv_view [OF bv.release_view])



text \<open>C3. From the request of a task to the frame on the bus: a message that is accepted on an idle
  channel with an active bus leaves the queue empty and the transmit engine started, and the frame in
  the controller is the message.\<close>

theorem send_reaches_controller:
  assumes inv: "ring_inv (writeFifo dev)" "fifo_items (writeFifo dev) = []"
    and idle: "locked_tx_engine_state dev = TX_ENGINE_STOPPED" "bus_state dev \<noteq> PCANFD_UNKNOWN"
    and nb: "has_flag fl O_NONBLOCK" and ok: "send_result dev (tx_msg ptx) = 0"
    and std: "msg_type (tx_msg ptx) = PCANFD_TYPE_CAN20_MSG" "length (msg_data (tx_msg ptx)) = 64"
    and id: "unat (msg_id (tx_msg ptx)) < (if has_flag (msg_flags (tx_msg ptx)) PCANFD_MSG_EXT then 2 ^ 29 else 2 ^ 11)"
    and chip: "loopback chip" "\<And>l. has_flag (chip l SJA1000_SR) SJA1000_SR_TBS"
  shows "\<exists>d. pcanfd_ioctl_send_msg (sja1000_ops chip polls now drv stack) drv stack fl task dev ptx = Done (d, task, 0) \<and>
    fifo_items (writeFifo d) = [] \<and> locked_tx_engine_state d = TX_ENGINE_STARTED \<and>
    msg_id (rx_msg (snd (read_frame chip f d))) = msg_id (tx_msg ptx) \<and>
    data_len (rx_msg (snd (read_frame chip f d))) = data_len (tx_msg ptx) \<and>
    take (unat (data_len (tx_msg ptx))) (msg_data (rx_msg (snd (read_frame chip f d)))) =
      take (unat (data_len (tx_msg ptx))) (msg_data (tx_msg ptx))"
proof -
  let ?ops = "sja1000_ops chip polls now drv stack"
  let ?q = "queued_as dev (task_now task) ptx"
  obtain d1 w where one: "pcanfd_send_msg ?ops drv stack fl task dev ptx = Done (d1, task, 0)"
      "tx_view d1 = tx_view (dev\<lparr>writeFifo := w\<rparr>)" "ring_inv w" "fifo_items w = [?q]"
    using send_one [OF inv(1) nb, of ?ops drv stack task ptx] ok inv(2) by auto
  note v = send_result_view [OF one(2)]
  have ty: "send_type dev (tx_msg ptx) = Some PCANFD_TYPE_CAN20_MSG" and len: "data_len (tx_msg ptx) \<le> 8"
    using ok std(1) by (auto simp: send_result_def send_type_def split: if_splits)
  have q: "msg_id (tx_msg ?q) = msg_id (tx_msg ptx)" "data_len (tx_msg ?q) = data_len (tx_msg ptx)"
      "msg_data (tx_msg ?q) = msg_data (tx_msg ptx)" "msg_flags (tx_msg ?q) = msg_flags (tx_msg ptx)"
    by (simp_all add: queued_as_def)
  obtain d2 where p: "poll_status chip SJA1000_SR_TBS 50 d1 = (d2, 50)" "queue_view d2 = queue_view d1"
  proof -
    have "poll_status chip SJA1000_SR_TBS 50 d1 = (fst (readreg chip SJA1000_SR d1), 50)"
      using chip(2) by (simp add: eval_nat_numeral readreg_def Let_def)
    then show ?thesis using that by simp
  qed
  then have d2: "writeFifo d2 = w" using v(5) by (simp add: queue_view_fields)
  obtain w' where w': "pcan_fifo_get True w = (w', 0, Some ?q)" "fifo_items w' = []"
    using ring.get_item [OF one(3,4)] by blast
  let ?d = "fst (sja1000_write_msg chip (tx_msg ?q) (d2\<lparr>writeFifo := w'\<rparr>))"
  have e0: "snd (sja1000_write_msg chip m d) = 0" for m d by (simp add: sja1000_write_msg_def Let_def split_def)
  have "pcanfd_start_tx_engine ?ops d1 = (?d, 0)"
    using v(6,7) idle p(1) d2 w'(1) e0 [of "tx_msg ?q" "d2\<lparr>writeFifo := w'\<rparr>"]
    by (simp add: pcanfd_start_tx_engine_def pcan_dev_start_writing_def sja1000_ops_def Let_def sja1000_write_def
        pcan_pcie_wait_for_status_def sja1000_write_u_def split_def)
  then have run: "pcanfd_ioctl_send_msg ?ops drv stack fl task dev ptx = Done (?d, task, 0)"
    using one(1) by (simp add: pcanfd_ioctl_send_msg_def)
  have st: "writeFifo ?d = w'" "locked_tx_engine_state ?d = TX_ENGINE_STARTED"
    by (simp_all add: write_msg_engine)
  obtain x g where rd: "read_frame chip f ?d = (x, g)" using prod.exhaust by blast
  have "data_len (tx_msg ?q) \<le> 8" "length (msg_data (tx_msg ?q)) = 64"
      "unat (msg_id (tx_msg ?q)) < (if has_flag (msg_flags (tx_msg ?q)) PCANFD_MSG_EXT then 2 ^ 29 else 2 ^ 11)"
    unfolding q using len std(2) id by simp_all
  note rt = frame_roundtrip [OF chip(1) this rd]
  show ?thesis using run st w'(2) rt rd q by (intro exI [of _ ?d]) simp
qed

theorem send_reaches_controller_witness:
  "\<exists>d. pcanfd_ioctl_send_msg (sja1000_ops (\<lambda>l a. if a = 2 then 4 else last_write l a) 5 zero_timeval zero_timeval cleared_msg)
       zero_timeval cleared_msg O_NONBLOCK \<lparr>task_now = zero_timeval, task_wakes = []\<rparr>
       (blank_dev\<lparr>nOpenPaths := 1, locked_tx_engine_state := 3, bus_state := 1\<rparr>)
       \<lparr>tx_msg = zero_msg\<lparr>msg_type := 1, msg_id := 0x123, data_len := 2\<rparr>, tx_tv = zero_timeval\<rparr>
     = Done (d, \<lparr>task_now = zero_timeval, task_wakes = []\<rparr>, 0) \<and> locked_tx_engine_state d = TX_ENGINE_STARTED"
proof -
  let ?chip = "\<lambda>l a. if a = 2 then 4 else last_write l a"
  let ?d = "blank_dev\<lparr>nOpenPaths := 1, locked_tx_engine_state := 3, bus_state := 1\<rparr>"
  let ?p = "\<lparr>tx_msg = zero_msg\<lparr>msg_type := 1, msg_id := 0x123, data_len := 2\<rparr>, tx_tv = zero_timeval\<rparr>"
  have f: "ring_inv (writeFifo ?d)" "fifo_items (writeFifo ?d) = []" "fifo_cap (writeFifo ?d) = 4"
    using blank_fifo_inv [of "\<lparr>tx_msg = zero_msg, tx_tv = zero_timeval\<rparr>"] by (simp_all add: blank_dev_def)
  have ok: "send_result ?d (tx_msg ?p) = 0"
    using f(2,3) by (simp add: send_result_def send_type_def ext_refused_def usable_def blank_dev_def zero_init_def
        zero_msg_def del: length_fifo_items)
  have lb: "loopback ?chip" "has_flag (?chip l 2) SJA1000_SR_TBS" for l
    by (simp_all add: loopback_def has_flag_def)
  have m: "msg_type (tx_msg ?p) = PCANFD_TYPE_CAN20_MSG" "length (msg_data (tx_msg ?p)) = 64"
      "unat (msg_id (tx_msg ?p)) < (if has_flag (msg_flags (tx_msg ?p)) PCANFD_MSG_EXT then 2 ^ 29 else 2 ^ 11)"
    by (simp_all add: zero_msg_def)
  have s: "locked_tx_engine_state ?d = TX_ENGINE_STOPPED" "bus_state ?d \<noteq> PCANFD_UNKNOWN"
      "has_flag O_NONBLOCK O_NONBLOCK" by (simp_all add: has_flag_def)
  show ?thesis using send_reaches_controller [OF f(1,2) s ok m lb] by blast
qed

end
