(* ===== verification/Pcan_Ucan.thy ===== *)
theory Pcan_Ucan
  imports Pcan_Open
begin

text \<open>
  The command side of the uCAN firmware interface (\<^verbatim>\<open>driver/src/pcanfd_ucan.c\<close>,
  \<^verbatim>\<open>pcanfd_ucan.h\<close>): the length code tables of CAN FD, the buffer the driver builds lists of
  64-bit commands in, the requests it sends to a controller, and the opening of a channel. A
  \<^verbatim>\<open>ucandev\<close> is a channel together with the members \<^verbatim>\<open>cmd_xxx\<close> of its \<^verbatim>\<open>struct ucan_engine\<close>;
  the device drivers extend it with their own state. Memory is a function from addresses to bytes
  and packed little-endian structures are read and written at their offsets. What leaves the driver is
  recorded in \<open>io_out\<close>, oldest first: the 32-bit registers written.
\<close>

section \<open>Memory\<close>

type_synonym mem = "nat \<Rightarrow> u8"

definition bytes :: "mem \<Rightarrow> nat \<Rightarrow> nat \<Rightarrow> u8 list" where
  "bytes m a n = map m [a..<a + n]"

definition wr :: "mem \<Rightarrow> nat \<Rightarrow> u8 list \<Rightarrow> mem" where
  "wr m a bs = (\<lambda>x. if a \<le> x \<and> x < a + length bs then bs ! (x - a) else m x)"

definition rd16 :: "mem \<Rightarrow> nat \<Rightarrow> u16" where
  "rd16 m a = ucast (m a) OR push_bit 8 (ucast (m (a + 1)))"

definition rd32 :: "mem \<Rightarrow> nat \<Rightarrow> u32" where
  "rd32 m a = ucast (m a) OR push_bit 8 (ucast (m (a + 1)))
     OR push_bit 16 (ucast (m (a + 2))) OR push_bit 24 (ucast (m (a + 3)))"

section \<open>Length codes\<close>

definition pcan_fd_dlc2len :: "u8 list" where
  "pcan_fd_dlc2len = [0, 1, 2, 3, 4, 5, 6, 7, 8, 12, 16, 20, 24, 32, 48, 64]"

definition pcan_dlc2len :: "u8 \<Rightarrow> u8" where
  "pcan_dlc2len can_dlc = pcan_fd_dlc2len ! unat (can_dlc AND 0x0f)"

definition pcan_fd_len2dlc :: "u8 list" where
  "pcan_fd_len2dlc = [0, 1, 2, 3, 4, 5, 6, 7, 8] @ replicate 4 9 @ replicate 4 10 @ replicate 4 11
     @ replicate 4 12 @ replicate 8 13 @ replicate 16 14 @ replicate 16 15"

definition pcan_len2dlc :: "u8 \<Rightarrow> u8" where
  "pcan_len2dlc len = (if 64 < len then 0xf else pcan_fd_len2dlc ! unat len)"

section \<open>Commands\<close>

abbreviation (input) UCAN_CMD_NOP :: u16 where "UCAN_CMD_NOP \<equiv> 0x000"
abbreviation (input) UCAN_CMD_RESET_MODE :: u16 where "UCAN_CMD_RESET_MODE \<equiv> 0x001"
abbreviation (input) UCAN_CMD_NORMAL_MODE :: u16 where "UCAN_CMD_NORMAL_MODE \<equiv> 0x002"
abbreviation (input) UCAN_CMD_LISTEN_ONLY_MODE :: u16 where "UCAN_CMD_LISTEN_ONLY_MODE \<equiv> 0x003"
abbreviation (input) UCAN_CMD_TIMING_SLOW :: u16 where "UCAN_CMD_TIMING_SLOW \<equiv> 0x004"
abbreviation (input) UCAN_CMD_TIMING_FAST :: u16 where "UCAN_CMD_TIMING_FAST \<equiv> 0x005"
abbreviation (input) UCAN_CMD_SET_STD_FILTER :: u16 where "UCAN_CMD_SET_STD_FILTER \<equiv> 0x006"
abbreviation (input) UCAN_CMD_TX_ABORT :: u16 where "UCAN_CMD_TX_ABORT \<equiv> 0x009"
abbreviation (input) UCAN_CMD_WR_ERR_CNT :: u16 where "UCAN_CMD_WR_ERR_CNT \<equiv> 0x00a"
abbreviation (input) UCAN_CMD_SET_EN_OPTION :: u16 where "UCAN_CMD_SET_EN_OPTION \<equiv> 0x00b"
abbreviation (input) UCAN_CMD_CLR_DIS_OPTION :: u16 where "UCAN_CMD_CLR_DIS_OPTION \<equiv> 0x00c"
abbreviation (input) UCAN_CMD_RX_BARRIER :: u16 where "UCAN_CMD_RX_BARRIER \<equiv> 0x010"
abbreviation (input) UCAN_CMD_END_OF_COLLECTION :: u16 where "UCAN_CMD_END_OF_COLLECTION \<equiv> 0x3ff"

abbreviation (input) UCAN_TX_ABORT_FLUSH :: u16 where "UCAN_TX_ABORT_FLUSH \<equiv> 0x0001"
abbreviation (input) UCAN_WRERRCNT_TE :: u16 where "UCAN_WRERRCNT_TE \<equiv> 0x4000"
abbreviation (input) UCAN_WRERRCNT_RE :: u16 where "UCAN_WRERRCNT_RE \<equiv> 0x8000"
abbreviation (input) UCAN_OPTION_ERROR :: u16 where "UCAN_OPTION_ERROR \<equiv> 0x0001"
abbreviation (input) UCAN_OPTION_BUSLOAD :: u16 where "UCAN_OPTION_BUSLOAD \<equiv> 0x0002"
abbreviation (input) UCAN_OPTION_ISO_MODE :: u16 where "UCAN_OPTION_ISO_MODE \<equiv> 0x0004"
abbreviation (input) UCAN_OPTION_20AB_MODE :: u16 where "UCAN_OPTION_20AB_MODE \<equiv> 0x0010"
abbreviation (input) UCAN_FLTSTD_ROW_IDX_BITS :: nat where "UCAN_FLTSTD_ROW_IDX_BITS \<equiv> 6"
abbreviation (input) PCAN_DEV_LISTEN_ONLY :: u32 where "PCAN_DEV_LISTEN_ONLY \<equiv> 0x00000001"

datatype ucan_io = Writel u32 nat

record ucandev =
  pdev :: pcandev
  cmd_head :: mem
  cmd_size :: nat
  cmd_len :: nat
  io_out :: "ucan_io list"

text \<open>The argument the dispatcher hands to a message handler: no object, the channel of an index,
  or the USB interface.\<close>

datatype ucan_arg = Arg_null | Arg_dev nat | Arg_if

type_synonym 'd msg_handler = "mem \<Rightarrow> nat \<Rightarrow> ucan_arg \<Rightarrow> 'd list \<Rightarrow> 'd list \<times> int"

record 'd ucan_ops =
  set_clk_domain :: "('d \<Rightarrow> pcanfd_init \<Rightarrow> 'd \<times> int) option"
  send_cmd :: "'d \<Rightarrow> 'd \<times> int"
  handle_msg_table :: "nat \<Rightarrow> 'd msg_handler option"
  handle_msg_size :: nat
  handle_private_msg :: "'d msg_handler option"

definition ucan_init_cmd :: "'z ucandev_scheme \<Rightarrow> 'z ucandev_scheme" where
  "ucan_init_cmd dev = dev\<lparr>cmd_len := 0\<rparr>"

definition UCAN_CMD_OPCODE_CHANNEL :: "int \<Rightarrow> u16 \<Rightarrow> u16" where
  "UCAN_CMD_OPCODE_CHANNEL c o' = push_bit 12 (of_int c) OR (o' AND 0x3ff)"

definition ucan_add_cmd :: "u16 \<Rightarrow> 'z ucandev_scheme \<Rightarrow> 'z ucandev_scheme \<times> nat option" where
  "ucan_add_cmd cmd_op dev =
     (if cmd_size dev < cmd_len dev + 8 then (dev, None)
      else
        let cmd = cmd_len dev;
            m = wr (cmd_head dev) cmd (replicate 8 0);
            m = wr m cmd (le16 (UCAN_CMD_OPCODE_CHANNEL (nChannel (pdev dev)) cmd_op))
        in (dev\<lparr>cmd_head := m, cmd_len := cmd_len dev + 8\<rparr>, Some cmd))"

text \<open>Storing a field of the command that was added, when there is one.\<close>

definition put_field :: "nat \<Rightarrow> u8 list \<Rightarrow> 'z ucandev_scheme \<times> nat option \<Rightarrow> 'z ucandev_scheme \<times> nat option" where
  "put_field off bs r =
     (case r of (dev, None) \<Rightarrow> (dev, None)
      | (dev, Some cmd) \<Rightarrow> (dev\<lparr>cmd_head := wr (cmd_head dev) (cmd + off) bs\<rparr>, Some cmd))"

definition ucan_add_cmd_nop :: "'z ucandev_scheme \<Rightarrow> 'z ucandev_scheme \<times> nat option" where
  "ucan_add_cmd_nop = ucan_add_cmd UCAN_CMD_NOP"

definition ucan_add_cmd_reset_mode :: "'z ucandev_scheme \<Rightarrow> 'z ucandev_scheme \<times> nat option" where
  "ucan_add_cmd_reset_mode = ucan_add_cmd UCAN_CMD_RESET_MODE"

definition ucan_add_cmd_normal_mode :: "'z ucandev_scheme \<Rightarrow> 'z ucandev_scheme \<times> nat option" where
  "ucan_add_cmd_normal_mode = ucan_add_cmd UCAN_CMD_NORMAL_MODE"

definition ucan_add_cmd_listen_only_mode :: "'z ucandev_scheme \<Rightarrow> 'z ucandev_scheme \<times> nat option" where
  "ucan_add_cmd_listen_only_mode = ucan_add_cmd UCAN_CMD_LISTEN_ONLY_MODE"

definition UCAN_TSLOW_SJW_T :: "u32 \<Rightarrow> u32 \<Rightarrow> u8" where
  "UCAN_TSLOW_SJW_T s t = ucast ((s AND 0x7f) OR push_bit 7 (if t \<noteq> 0 then 1 else 0))"

definition ucan_add_cmd_timing_slow ::
  "'z ucandev_scheme \<Rightarrow> pcan_bittiming \<Rightarrow> 'z ucandev_scheme \<times> nat option" where
  "ucan_add_cmd_timing_slow dev pbr =
     put_field 2 [96]
       (put_field 6 (le16 (ucast ((brp pbr - 1) AND 0x3ff)))
         (put_field 4 [ucast ((tseg2 pbr - 1) AND 0x7f)]
           (put_field 5 [ucast ((tseg1 pbr - 1) AND 0xff)]
             (put_field 3 [UCAN_TSLOW_SJW_T (sjw pbr - 1) (tsam pbr)]
               (ucan_add_cmd UCAN_CMD_TIMING_SLOW dev)))))"

definition ucan_add_cmd_timing_fast ::
  "'z ucandev_scheme \<Rightarrow> pcan_bittiming \<Rightarrow> 'z ucandev_scheme \<times> nat option" where
  "ucan_add_cmd_timing_fast dev pbr =
     put_field 6 (le16 (ucast ((brp pbr - 1) AND 0x3ff)))
       (put_field 4 [ucast ((tseg2 pbr - 1) AND 0x0f)]
         (put_field 5 [ucast ((tseg1 pbr - 1) AND 0x1f)]
           (put_field 3 [ucast ((sjw pbr - 1) AND 0x0f)]
             (ucan_add_cmd UCAN_CMD_TIMING_FAST dev))))"

definition ucan_add_cmd_tx_abort :: "'z ucandev_scheme \<Rightarrow> u16 \<Rightarrow> 'z ucandev_scheme \<times> nat option" where
  "ucan_add_cmd_tx_abort dev fl = put_field 2 (le16 fl) (ucan_add_cmd UCAN_CMD_TX_ABORT dev)"

definition ucan_add_cmd_rx_barrier :: "'z ucandev_scheme \<Rightarrow> 'z ucandev_scheme \<times> nat option" where
  "ucan_add_cmd_rx_barrier = ucan_add_cmd UCAN_CMD_RX_BARRIER"

definition ucan_add_cmd_wr_err_cnt ::
  "'z ucandev_scheme \<Rightarrow> u16 \<Rightarrow> u8 \<Rightarrow> u8 \<Rightarrow> 'z ucandev_scheme \<times> nat option" where
  "ucan_add_cmd_wr_err_cnt dev sel_mask tx_counter rx_counter =
     put_field 5 [rx_counter] (put_field 4 [tx_counter] (put_field 2 (le16 sel_mask)
       (ucan_add_cmd UCAN_CMD_WR_ERR_CNT dev)))"

definition ucan_add_cmd_set_en_option :: "'z ucandev_scheme \<Rightarrow> u16 \<Rightarrow> 'z ucandev_scheme \<times> nat option" where
  "ucan_add_cmd_set_en_option dev msk = put_field 2 (le16 msk) (ucan_add_cmd UCAN_CMD_SET_EN_OPTION dev)"

definition ucan_add_cmd_clr_dis_option :: "'z ucandev_scheme \<Rightarrow> u16 \<Rightarrow> 'z ucandev_scheme \<times> nat option" where
  "ucan_add_cmd_clr_dis_option dev msk = put_field 2 (le16 msk) (ucan_add_cmd UCAN_CMD_CLR_DIS_OPTION dev)"

section \<open>Requests\<close>

text \<open>The common end of the requests: \<^verbatim>\<open>-EINVAL\<close> when the command was not added, else the
  result of \<^verbatim>\<open>send_cmd\<close>.\<close>

definition send_added ::
  "('z ucandev_scheme) ucan_ops \<Rightarrow> 'z ucandev_scheme \<times> nat option \<Rightarrow> 'z ucandev_scheme \<times> int" where
  "send_added ops r = (case r of (dev, None) \<Rightarrow> (dev, - EINVAL) | (dev, Some _) \<Rightarrow> send_cmd ops dev)"

definition ucan_clr_err_counters :: "('z ucandev_scheme) ucan_ops \<Rightarrow> 'z ucandev_scheme \<Rightarrow> 'z ucandev_scheme \<times> int" where
  "ucan_clr_err_counters ops dev =
     (case ucan_add_cmd_wr_err_cnt (ucan_init_cmd dev) (UCAN_WRERRCNT_TE OR UCAN_WRERRCNT_RE) 0 0 of
        (dev, None) \<Rightarrow> (dev, - EINVAL)
      | (dev, Some _) \<Rightarrow>
          send_cmd ops (dev\<lparr>pdev := (pdev dev)\<lparr>tx_error_counter := 0, rx_error_counter := 0\<rparr>\<rparr>))"

text \<open>The \<^verbatim>\<open>while (1)\<close> loop that adds one filter row: when the buffer is full it is sent and
  emptied. It never ends when the buffer cannot hold a command and the transfers succeed, the value
  \<^verbatim>\<open>None\<close>.\<close>

partial_function (option) add_row ::
  "('z ucandev_scheme) ucan_ops \<Rightarrow> 'z ucandev_scheme \<Rightarrow> ('z ucandev_scheme \<times> nat \<times> int) option" where
  "add_row ops dev =
     (case ucan_add_cmd UCAN_CMD_SET_STD_FILTER dev of
        (dev, Some cmd) \<Rightarrow> Some (dev, cmd, 0)
      | (dev, None) \<Rightarrow>
          (let (dev, err) = send_cmd ops dev
           in if err \<noteq> 0 then Some (dev, 0, err) else add_row ops (ucan_init_cmd dev)))"

fun filter_rows ::
  "('z ucandev_scheme) ucan_ops \<Rightarrow> nat list \<Rightarrow> 'z ucandev_scheme \<Rightarrow> ('z ucandev_scheme \<times> int) option" where
  "filter_rows ops [] dev = Some (send_cmd ops dev)"
| "filter_rows ops (i # is) dev =
     do {
       (dev, cmd, err) \<leftarrow> add_row ops dev;
       if err \<noteq> 0 then Some (dev, err)
       else filter_rows ops is (fst (put_field 4 (le32 0xffffffff) (put_field 3 [of_nat i] (dev, Some cmd))))
     }"

definition ucan_set_all_acceptance_filter ::
  "('z ucandev_scheme) ucan_ops \<Rightarrow> 'z ucandev_scheme \<Rightarrow> ('z ucandev_scheme \<times> int) option" where
  "ucan_set_all_acceptance_filter ops dev =
     filter_rows ops [0..<2 ^ UCAN_FLTSTD_ROW_IDX_BITS] (ucan_init_cmd dev)"

definition ucan_set_msg_filters ::
  "('z ucandev_scheme) ucan_ops \<Rightarrow> 'z ucandev_scheme \<Rightarrow> u16 \<Rightarrow> 'z ucandev_scheme \<times> int" where
  "ucan_set_msg_filters ops dev msk = send_added ops (ucan_add_cmd_set_en_option (ucan_init_cmd dev) msk)"

definition ucan_clr_msg_filters ::
  "('z ucandev_scheme) ucan_ops \<Rightarrow> 'z ucandev_scheme \<Rightarrow> u16 \<Rightarrow> 'z ucandev_scheme \<times> int" where
  "ucan_clr_msg_filters ops dev msk = send_added ops (ucan_add_cmd_clr_dis_option (ucan_init_cmd dev) msk)"

definition ucan_tx_abort :: "('z ucandev_scheme) ucan_ops \<Rightarrow> 'z ucandev_scheme \<Rightarrow> u16 \<Rightarrow> 'z ucandev_scheme \<times> int" where
  "ucan_tx_abort ops dev fl = send_added ops (ucan_add_cmd_tx_abort (ucan_init_cmd dev) fl)"

definition ucan_rx_barrier :: "('z ucandev_scheme) ucan_ops \<Rightarrow> 'z ucandev_scheme \<Rightarrow> 'z ucandev_scheme \<times> int" where
  "ucan_rx_barrier ops dev = send_added ops (ucan_add_cmd_rx_barrier (ucan_init_cmd dev))"

definition ucan_set_bus_on :: "('z ucandev_scheme) ucan_ops \<Rightarrow> 'z ucandev_scheme \<Rightarrow> 'z ucandev_scheme \<times> int" where
  "ucan_set_bus_on ops dev =
     (case (if has_flag (dev_flags (pdev dev)) PCAN_DEV_LISTEN_ONLY
            then ucan_add_cmd_listen_only_mode (ucan_init_cmd dev)
            else ucan_add_cmd_normal_mode (ucan_init_cmd dev)) of
        (dev, None) \<Rightarrow> (dev, - EINVAL)
      | (dev, Some _) \<Rightarrow>
          (let (dev, err) = send_cmd ops dev
           in if err = 0
              then (dev\<lparr>pdev := (pdev dev)\<lparr>dev_flags := set_flag (dev_flags (pdev dev)) PCAN_DEV_BUS_ON\<rparr>\<rparr>, err)
              else (dev, err)))"

definition ucan_set_bus_off :: "('z ucandev_scheme) ucan_ops \<Rightarrow> 'z ucandev_scheme \<Rightarrow> 'z ucandev_scheme \<times> int" where
  "ucan_set_bus_off ops dev =
     (case ucan_add_cmd_reset_mode (ucan_init_cmd dev) of
        (dev, None) \<Rightarrow> (dev, - EINVAL)
      | (dev, Some _) \<Rightarrow>
          (let (dev, err) = send_cmd ops dev
           in if err = 0
              then (dev\<lparr>pdev := (pdev dev)\<lparr>dev_flags := clr_flag (dev_flags (pdev dev)) PCAN_DEV_BUS_ON\<rparr>\<rparr>, err)
              else (dev, err)))"

definition ucan_set_options :: "('z ucandev_scheme) ucan_ops \<Rightarrow> 'z ucandev_scheme \<Rightarrow> u16 \<Rightarrow> 'z ucandev_scheme \<times> int" where
  "ucan_set_options ops dev opt_mask = send_added ops (ucan_add_cmd_set_en_option (ucan_init_cmd dev) opt_mask)"

definition ucan_clr_options :: "('z ucandev_scheme) ucan_ops \<Rightarrow> 'z ucandev_scheme \<Rightarrow> u16 \<Rightarrow> 'z ucandev_scheme \<times> int" where
  "ucan_clr_options ops dev opt_mask = send_added ops (ucan_add_cmd_clr_dis_option (ucan_init_cmd dev) opt_mask)"

definition ucan_set_timing_slow ::
  "('z ucandev_scheme) ucan_ops \<Rightarrow> 'z ucandev_scheme \<Rightarrow> pcan_bittiming \<Rightarrow> 'z ucandev_scheme \<times> int" where
  "ucan_set_timing_slow ops dev pbr = send_added ops (ucan_add_cmd_timing_slow (ucan_init_cmd dev) pbr)"

definition ucan_set_timing_fast ::
  "('z ucandev_scheme) ucan_ops \<Rightarrow> 'z ucandev_scheme \<Rightarrow> pcan_bittiming \<Rightarrow> 'z ucandev_scheme \<times> int" where
  "ucan_set_timing_fast ops dev pbr = send_added ops (ucan_add_cmd_timing_fast (ucan_init_cmd dev) pbr)"

definition ucan_set_iso_mode :: "('z ucandev_scheme) ucan_ops \<Rightarrow> 'z ucandev_scheme \<Rightarrow> 'z ucandev_scheme \<times> int" where
  "ucan_set_iso_mode ops dev = ucan_set_options ops dev UCAN_OPTION_ISO_MODE"

definition ucan_clr_iso_mode :: "('z ucandev_scheme) ucan_ops \<Rightarrow> 'z ucandev_scheme \<Rightarrow> 'z ucandev_scheme \<times> int" where
  "ucan_clr_iso_mode ops dev = ucan_clr_options ops dev UCAN_OPTION_ISO_MODE"

definition ucan_set_can20ab_mode :: "('z ucandev_scheme) ucan_ops \<Rightarrow> 'z ucandev_scheme \<Rightarrow> 'z ucandev_scheme \<times> int" where
  "ucan_set_can20ab_mode ops dev = ucan_set_options ops dev UCAN_OPTION_20AB_MODE"

definition ucan_clr_can20ab_mode :: "('z ucandev_scheme) ucan_ops \<Rightarrow> 'z ucandev_scheme \<Rightarrow> 'z ucandev_scheme \<times> int" where
  "ucan_clr_can20ab_mode ops dev = ucan_clr_options ops dev UCAN_OPTION_20AB_MODE"

section \<open>Timings of old applications\<close>

text \<open>The two local variables hold whatever was on the stack. \<^verbatim>\<open>pcan_abstract_to_bittiming\<close>
  and \<^verbatim>\<open>pcan_convert_abstract\<close> return 1 on success.\<close>

definition ucan_convert_BTR0BTR1 ::
  "pcan_bittiming_abs \<Rightarrow> u16 \<Rightarrow> pcanfd_bittiming_range \<Rightarrow> pcan_bittiming \<Rightarrow> (pcan_bittiming \<times> int) option" where
  "ucan_convert_BTR0BTR1 stack btr0btr1 pcap pbr =
     do {
       at_original \<leftarrow> pcan_btr0btr1_to_abstract btr0btr1;
       (at_convert, ok) \<leftarrow> pcan_convert_abstract stack at_original pcap (80 * MHz);
       if ok = 0 then Some (pbr, - EINVAL)
       else pcan_abstract_to_bittiming pbr at_convert (80 * MHz)
     }"

definition ucan_set_BTR0BTR1 ::
  "('z ucandev_scheme) ucan_ops \<Rightarrow> pcan_bittiming_abs \<Rightarrow> pcan_bittiming \<Rightarrow> 'z ucandev_scheme \<Rightarrow> u16
     \<Rightarrow> ('z ucandev_scheme \<times> int) option" where
  "ucan_set_BTR0BTR1 ops stack_abs stack_bt dev btr0btr1 =
     do {
       (bt, r) \<leftarrow> ucan_convert_BTR0BTR1 stack_abs btr0btr1 ucan_slow_capabilities stack_bt;
       if r = 0 then Some (dev, - EINVAL) else Some (ucan_set_timing_slow ops dev bt)
     }"

section \<open>Opening a channel\<close>

definition ucan_clocks :: "u32 list" where
  "ucan_clocks = [80 * MHz, 20 * MHz, 24 * MHz, 30 * MHz, 40 * MHz, 60 * MHz]"

text \<open>A clock the device refuses is replaced by the default one, the timings are computed again,
  whatever the result of that computation is, and the device is asked once more.\<close>

definition ucan_set_clock_domain ::
  "('z ucandev_scheme) ucan_ops \<Rightarrow> 'z ucandev_scheme \<Rightarrow> pcanfd_init
     \<Rightarrow> ('z ucandev_scheme \<times> pcanfd_init \<times> int) option" where
  "ucan_set_clock_domain ops dev pfdi =
     (case set_clk_domain ops of
        None \<Rightarrow> Some (dev, pfdi, 0)
      | Some f \<Rightarrow>
          (let (dev, err) = f dev pfdi
           in if err = - EINVAL then
                do {
                  let pfdi = pfdi\<lparr>clock_Hz := ucan_clocks ! 0\<rparr>;
                  (bt, _) \<leftarrow> pcan_bitrate_to_bittiming (nominal pfdi) (Some (bittiming_caps (pdev dev))) (clock_Hz pfdi);
                  let pfdi = pfdi\<lparr>nominal := bt\<rparr>;
                  pfdi \<leftarrow> (if has_flag (init_flags pfdi) PCANFD_INIT_FD then do {
                            (bt, _) \<leftarrow> pcan_bitrate_to_bittiming (data_bt pfdi) (dbittiming_caps (pdev dev)) (clock_Hz pfdi);
                            Some (pfdi\<lparr>data_bt := bt\<rparr>)
                          } else Some pfdi);
                  let (dev, err) = f dev pfdi;
                  Some (dev, pfdi, err)
                }
              else Some (dev, pfdi, err)))"

text \<open>Steps that are done in order until one fails.\<close>

fun run_steps :: "('s \<Rightarrow> ('s \<times> int) option) list \<Rightarrow> 's \<Rightarrow> ('s \<times> int) option" where
  "run_steps [] s = Some (s, 0)"
| "run_steps (f # fs) s = do { (s, err) \<leftarrow> f s; if err \<noteq> 0 then Some (s, err) else run_steps fs s }"

definition set_listen_only :: "pcanfd_init \<Rightarrow> 'z ucandev_scheme \<Rightarrow> 'z ucandev_scheme" where
  "set_listen_only pfdi dev =
     (let fl = dev_flags (pdev dev)
      in dev\<lparr>pdev := (pdev dev)\<lparr>dev_flags :=
           (if has_flag (init_flags pfdi) PCANFD_INIT_LISTEN_ONLY then set_flag fl PCAN_DEV_LISTEN_ONLY
            else clr_flag fl PCAN_DEV_LISTEN_ONLY)\<rparr>\<rparr>)"

text \<open>The part of \<^verbatim>\<open>ucan_device_open_fd\<close> after the choice of the clock. The results of the
  two requests about the CAN 2.0 mode are ignored.\<close>

definition ucan_open_steps ::
  "('z ucandev_scheme) ucan_ops \<Rightarrow> pcanfd_init \<Rightarrow> ('z ucandev_scheme \<Rightarrow> ('z ucandev_scheme \<times> int) option) list" where
  "ucan_open_steps ops pfdi =
     [\<lambda>d. Some (ucan_clr_err_counters ops d)]
     @ (if has_flag (init_flags pfdi) PCANFD_INIT_FD then
          [\<lambda>d. Some (if has_flag (init_flags pfdi) PCANFD_INIT_FD_NON_ISO
                     then ucan_clr_iso_mode ops d else ucan_set_iso_mode ops d),
           \<lambda>d. Some (ucan_set_timing_fast ops d (data_bt pfdi)),
           \<lambda>d. Some (fst (ucan_clr_can20ab_mode ops d), 0)]
        else [\<lambda>d. Some (fst (ucan_set_can20ab_mode ops d), 0)])
     @ [\<lambda>d. Some (ucan_set_timing_slow ops d (nominal pfdi)),
        ucan_set_all_acceptance_filter ops,
        \<lambda>d. Some (set_listen_only pfdi d, 0)]"

definition ucan_device_open_fd ::
  "('z ucandev_scheme) ucan_ops \<Rightarrow> 'z ucandev_scheme \<Rightarrow> pcanfd_init
     \<Rightarrow> ('z ucandev_scheme \<times> pcanfd_init \<times> int) option" where
  "ucan_device_open_fd ops dev pfdi =
     do {
       (dev, pfdi, err) \<leftarrow> ucan_set_clock_domain ops dev pfdi;
       if err \<noteq> 0 then Some (dev, pfdi, err)
       else do {
         (dev, err) \<leftarrow> run_steps (ucan_open_steps ops pfdi) dev;
         Some (dev, pfdi, err)
       }
     }"

definition ucan_reset_path :: "('z ucandev_scheme) ucan_ops \<Rightarrow> 'z ucandev_scheme \<Rightarrow> 'z ucandev_scheme \<times> int" where
  "ucan_reset_path ops dev =
     (let (dev, err) = ucan_tx_abort ops dev UCAN_TX_ABORT_FLUSH
      in if err \<noteq> 0 then (dev, err) else ucan_rx_barrier ops dev)"

section \<open>Specification: the commands a controller receives\<close>

text \<open>The commands in the buffer, the opcode of a command, and the 8 bytes of each request.\<close>

definition cmds :: "'z ucandev_scheme \<Rightarrow> u8 list list" where
  "cmds d = map (\<lambda>i. bytes (cmd_head d) (8 * i) 8) [0..<cmd_len d div 8]"

definition opcode :: "u8 list \<Rightarrow> u16" where
  "opcode c = (ucast (c ! 0) OR push_bit 8 (ucast (c ! 1))) AND 0x3ff"

definition cmd_image :: "int \<Rightarrow> u16 \<Rightarrow> u8 list \<Rightarrow> u8 list" where
  "cmd_image ch op args = le16 (UCAN_CMD_OPCODE_CHANNEL ch op) @ args"

definition slow_image :: "int \<Rightarrow> pcan_bittiming \<Rightarrow> u8 list" where
  "slow_image ch bt = cmd_image ch UCAN_CMD_TIMING_SLOW
     ([96, UCAN_TSLOW_SJW_T (sjw bt - 1) (tsam bt), ucast ((tseg2 bt - 1) AND 0x7f), ucast ((tseg1 bt - 1) AND 0xff)]
      @ le16 (ucast ((brp bt - 1) AND 0x3ff)))"

definition fast_image :: "int \<Rightarrow> pcan_bittiming \<Rightarrow> u8 list" where
  "fast_image ch bt = cmd_image ch UCAN_CMD_TIMING_FAST
     ([0, ucast ((sjw bt - 1) AND 0x0f), ucast ((tseg2 bt - 1) AND 0x0f), ucast ((tseg1 bt - 1) AND 0x1f)]
      @ le16 (ucast ((brp bt - 1) AND 0x3ff)))"

definition option_image :: "int \<Rightarrow> u16 \<Rightarrow> u16 \<Rightarrow> u8 list" where
  "option_image ch op msk = cmd_image ch op (le16 msk @ [0, 0, 0, 0])"

definition row_image :: "int \<Rightarrow> nat \<Rightarrow> u8 list" where
  "row_image ch i = cmd_image ch UCAN_CMD_SET_STD_FILTER ([0, of_nat i] @ le32 0xffffffff)"

definition open_images :: "int \<Rightarrow> pcanfd_init \<Rightarrow> u8 list list" where
  "open_images ch pfdi =
     [cmd_image ch UCAN_CMD_WR_ERR_CNT (le16 (UCAN_WRERRCNT_TE OR UCAN_WRERRCNT_RE) @ [0, 0, 0, 0])]
     @ (if has_flag (init_flags pfdi) PCANFD_INIT_FD then
          [option_image ch (if has_flag (init_flags pfdi) PCANFD_INIT_FD_NON_ISO
                            then UCAN_CMD_CLR_DIS_OPTION else UCAN_CMD_SET_EN_OPTION) UCAN_OPTION_ISO_MODE,
           fast_image ch (data_bt pfdi),
           option_image ch UCAN_CMD_CLR_DIS_OPTION UCAN_OPTION_20AB_MODE]
        else [option_image ch UCAN_CMD_SET_EN_OPTION UCAN_OPTION_20AB_MODE])
     @ [slow_image ch (nominal pfdi)] @ map (row_image ch) [0..<64]"

text \<open>What the opening changes in the channel itself.\<close>

definition clr_counters :: "pcandev \<Rightarrow> pcandev" where
  "clr_counters p = p\<lparr>tx_error_counter := 0, rx_error_counter := 0\<rparr>"

definition listen_flags :: "pcanfd_init \<Rightarrow> pcandev \<Rightarrow> pcandev" where
  "listen_flags pfdi p = p\<lparr>dev_flags :=
     (if has_flag (init_flags pfdi) PCANFD_INIT_LISTEN_ONLY then set_flag (dev_flags p) PCAN_DEV_LISTEN_ONLY
      else clr_flag (dev_flags p) PCAN_DEV_LISTEN_ONLY)\<rparr>"

section \<open>Lemmas\<close>

subsection \<open>Memory\<close>

lemma length_bytes [simp]: "length (bytes m a n) = n"
  by (simp add: bytes_def)

lemma nth_bytes [simp]: "i < n \<Longrightarrow> bytes m a n ! i = m (a + i)"
  by (simp add: bytes_def)

lemma bytes_append: "bytes m a (n + k) = bytes m a n @ bytes m (a + n) k"
  by (rule nth_equalityI) (auto simp: nth_append)

lemma bytes_cong: "(\<And>x. a \<le> x \<Longrightarrow> x < a + n \<Longrightarrow> m x = m' x) \<Longrightarrow> bytes m a n = bytes m' a n"
  by (simp add: bytes_def)

lemma wr_outside: "x < a \<or> a + length bs \<le> x \<Longrightarrow> wr m a bs x = m x"
  by (auto simp: wr_def)

lemma wr_inside: "i < length bs \<Longrightarrow> wr m a bs (a + i) = bs ! i"
  by (simp add: wr_def)

lemma bytes_wr_same [simp]: "bytes (wr m a bs) a (length bs) = bs"
  by (rule nth_equalityI) (auto simp: wr_def)

lemma bytes_wr_other: "a + n \<le> b \<or> b + length bs \<le> a \<Longrightarrow> bytes (wr m b bs) a n = bytes m a n"
  by (rule bytes_cong) (auto simp: wr_def)

text \<open>Writing inside a structure.\<close>

lemma bytes_wr_patch:
  assumes "off + length bs \<le> n"
  shows "bytes (wr m (a + off) bs) a n = take off (bytes m a n) @ bs @ drop (off + length bs) (bytes m a n)"
  using assms by (intro nth_equalityI) (auto simp: nth_append wr_def)

lemma rd16_le16: "bytes m a 2 = le16 x \<Longrightarrow> rd16 m a = x"
proof -
  assume "bytes m a 2 = le16 x"
  then have "m a = ucast x" "m (a + 1) = ucast (drop_bit 8 x)"
    by (simp_all add: bytes_def le16_def upt_conv_Cons numeral_2_eq_2)
  then show ?thesis using get_le16_le16 [of x "[]"] by (simp add: rd16_def get_le16_def le16_def)
qed

lemma rd32_le32: "bytes m a 4 = le32 x \<Longrightarrow> rd32 m a = x"
proof -
  assume h: "bytes m a 4 = le32 x"
  have "m (a + i) = le32 x ! i" if "i < 4" for i using that h nth_bytes [of i 4 m a] by simp
  from this [of 0] this [of 1] this [of 2] this [of 3]
  have "m a = ucast x" "m (a + 1) = ucast (drop_bit 8 x)" "m (a + 2) = ucast (drop_bit 16 x)"
    "m (a + 3) = ucast (drop_bit 24 x)"
    by (simp_all add: le32_def)
  then show ?thesis by (simp add: rd32_def le32_assemble)
qed

lemma le32_rd32: "le32 (rd32 m a) = bytes m a 4"
proof -
  have b: "ucast (rd32 m a) = m a" "ucast (drop_bit 8 (rd32 m a)) = m (a + 1)"
    "ucast (drop_bit 16 (rd32 m a)) = m (a + 2)" "ucast (drop_bit 24 (rd32 m a)) = m (a + 3)"
    by (rule bit_word_eqI; auto simp: rd32_def bit_simps dest: bit_imp_le_length)+
  have "bytes m a 4 = [m a, m (a + 1), m (a + 2), m (a + 3)]"
    by (rule nth_equalityI) (auto simp: less_Suc_eq numeral_eq_Suc)
  then show ?thesis by (simp only: le32_def b)
qed

subsection \<open>Building commands\<close>

text \<open>\<open>added d c r\<close>: the result \<open>r\<close> is \<open>d\<close> with the command \<open>c\<close> appended to its buffer.\<close>

definition added :: "'z ucandev_scheme \<Rightarrow> u8 list \<Rightarrow> 'z ucandev_scheme \<times> nat option \<Rightarrow> bool" where
  "added d c r \<longleftrightarrow> (\<exists>m. r = (d\<lparr>cmd_head := m, cmd_len := cmd_len d + 8\<rparr>, Some (cmd_len d)) \<and>
     (\<forall>x < cmd_len d. m x = cmd_head d x) \<and> bytes m (cmd_len d) 8 = c \<and> cmd_len d + 8 \<le> cmd_size d)"

definition patch :: "nat \<Rightarrow> u8 list \<Rightarrow> u8 list \<Rightarrow> u8 list" where
  "patch off bs c = take off c @ bs @ drop (off + length bs) c"

lemma added_add:
  assumes "cmd_len d + 8 \<le> cmd_size d"
  shows "added d (cmd_image (nChannel (pdev d)) op (replicate 6 0)) (ucan_add_cmd op d)"
proof -
  let ?op = "le16 (UCAN_CMD_OPCODE_CHANNEL (nChannel (pdev d)) op)"
  let ?m = "wr (wr (cmd_head d) (cmd_len d) (replicate 8 0)) (cmd_len d) ?op"
  have "bytes ?m (cmd_len d) 8 = ?op @ replicate 6 0"
    using bytes_wr_patch [of 0 ?op 8 "wr (cmd_head d) (cmd_len d) (replicate 8 0)" "cmd_len d"]
      bytes_wr_same [of "cmd_head d" "cmd_len d" "replicate 8 0"] by simp
  then show ?thesis using assms
    by (auto simp: added_def ucan_add_cmd_def cmd_image_def Let_def wr_outside intro!: exI [of _ ?m])
qed

lemma added_put:
  assumes "added d c r" "off + length bs \<le> 8"
  shows "added d (patch off bs c) (put_field off bs r)"
proof -
  obtain m where m: "r = (d\<lparr>cmd_head := m, cmd_len := cmd_len d + 8\<rparr>, Some (cmd_len d))"
    "\<forall>x < cmd_len d. m x = cmd_head d x" "bytes m (cmd_len d) 8 = c" "cmd_len d + 8 \<le> cmd_size d"
    using assms(1) by (auto simp: added_def)
  then show ?thesis using assms(2) bytes_wr_patch [OF assms(2), of m "cmd_len d"]
    by (auto simp: added_def put_field_def patch_def wr_outside intro!: exI [of _ "wr m (cmd_len d + off) bs"])
qed

lemma replicate_six: "replicate 6 x = [x, x, x, x, x, x]"
  by (simp add: eval_nat_numeral)

lemmas patch_simps = patch_def cmd_image_def le16_def replicate_six

lemma added_option:
  assumes "cmd_len d + 8 \<le> cmd_size d"
  shows "added d (option_image (nChannel (pdev d)) UCAN_CMD_SET_EN_OPTION msk) (ucan_add_cmd_set_en_option d msk)"
    and "added d (option_image (nChannel (pdev d)) UCAN_CMD_CLR_DIS_OPTION msk) (ucan_add_cmd_clr_dis_option d msk)"
  using added_put [OF added_add [OF assms, of UCAN_CMD_SET_EN_OPTION], of 2 "le16 msk"]
    added_put [OF added_add [OF assms, of UCAN_CMD_CLR_DIS_OPTION], of 2 "le16 msk"]
  by (simp_all add: ucan_add_cmd_set_en_option_def ucan_add_cmd_clr_dis_option_def option_image_def patch_simps)

lemma added_err_cnt:
  assumes "cmd_len d + 8 \<le> cmd_size d"
  shows "added d (cmd_image (nChannel (pdev d)) UCAN_CMD_WR_ERR_CNT (le16 s @ [t, r, 0, 0])) (ucan_add_cmd_wr_err_cnt d s t r)"
  using added_put [OF added_put [OF added_put [OF added_add [OF assms, of UCAN_CMD_WR_ERR_CNT], of 2 "le16 s"],
      of 4 "[t]"], of 5 "[r]"]
  by (simp add: ucan_add_cmd_wr_err_cnt_def patch_simps)

lemma added_slow:
  assumes "cmd_len d + 8 \<le> cmd_size d"
  shows "added d (slow_image (nChannel (pdev d)) bt) (ucan_add_cmd_timing_slow d bt)"
  using added_put [OF added_put [OF added_put [OF added_put [OF added_put [OF
    added_add [OF assms, of UCAN_CMD_TIMING_SLOW],
    of 3 "[UCAN_TSLOW_SJW_T (sjw bt - 1) (tsam bt)]"], of 5 "[ucast ((tseg1 bt - 1) AND 0xff)]"],
    of 4 "[ucast ((tseg2 bt - 1) AND 0x7f)]"], of 6 "le16 (ucast ((brp bt - 1) AND 0x3ff))"], of 2 "[96]"]
  by (simp add: ucan_add_cmd_timing_slow_def slow_image_def patch_simps)

lemma added_fast:
  assumes "cmd_len d + 8 \<le> cmd_size d"
  shows "added d (fast_image (nChannel (pdev d)) bt) (ucan_add_cmd_timing_fast d bt)"
  using added_put [OF added_put [OF added_put [OF added_put [OF
    added_add [OF assms, of UCAN_CMD_TIMING_FAST],
    of 3 "[ucast ((sjw bt - 1) AND 0x0f)]"], of 5 "[ucast ((tseg1 bt - 1) AND 0x1f)]"],
    of 4 "[ucast ((tseg2 bt - 1) AND 0x0f)]"], of 6 "le16 (ucast ((brp bt - 1) AND 0x3ff))"]
  by (simp add: ucan_add_cmd_timing_fast_def fast_image_def patch_simps)

lemma added_row:
  assumes "added d (cmd_image ch UCAN_CMD_SET_STD_FILTER (replicate 6 0)) r"
  shows "added d (row_image ch i) (put_field 4 (le32 0xffffffff) (put_field 3 [of_nat i] r))"
  using added_put [OF added_put [OF assms, of 3 "[of_nat i]"], of 4 "le32 0xffffffff"]
  by (simp add: row_image_def patch_simps)

lemma cmds_added:
  assumes "added d c r" "8 dvd cmd_len d"
  shows "cmds (fst r) = cmds d @ [c]"
proof -
  obtain m where m: "fst r = d\<lparr>cmd_head := m, cmd_len := cmd_len d + 8\<rparr>"
    "\<forall>x < cmd_len d. m x = cmd_head d x" "bytes m (cmd_len d) 8 = c"
    using assms(1) by (auto simp: added_def)
  obtain k where k: "cmd_len d = 8 * k" using assms(2) by (elim dvdE)
  have "bytes m (8 * i) 8 = bytes (cmd_head d) (8 * i) 8" if "i < k" for i
    using that m(2) k by (intro bytes_cong) auto
  then show ?thesis using m k by (simp add: cmds_def)
qed

lemma cmds_init [simp]: "cmds (ucan_init_cmd d) = []"
  by (simp add: cmds_def ucan_init_cmd_def)

lemma init_cmd_simps [simp]:
  "pdev (ucan_init_cmd d) = pdev d" "cmd_size (ucan_init_cmd d) = cmd_size d" "cmd_len (ucan_init_cmd d) = 0"
  "io_out (ucan_init_cmd d) = io_out d"
  by (simp_all add: ucan_init_cmd_def)

lemma opcode_image [simp]: "opcode (cmd_image ch op args) = op AND 0x3ff"
proof -
  let ?x = "UCAN_CMD_OPCODE_CHANNEL ch op"
  have "ucast (ucast ?x :: u8) OR push_bit 8 (ucast (ucast (drop_bit 8 ?x) :: u8)) = ?x"
    using get_le16_le16 [of ?x "[]"] by (simp add: get_le16_def le16_def)
  moreover have "?x AND 0x3ff = op AND 0x3ff"
    by (rule bit_word_eqI) (auto simp: UCAN_CMD_OPCODE_CHANNEL_def bit_simps dest: bit_u16_cases)
  ultimately show ?thesis by (simp add: opcode_def cmd_image_def le16_def)
qed

subsection \<open>What a command port promises\<close>

text \<open>A well-formed buffer of real commands.\<close>

definition cmd_wf :: "'z ucandev_scheme \<Rightarrow> bool" where
  "cmd_wf d \<longleftrightarrow> 8 dvd cmd_len d \<and> cmd_len d \<le> cmd_size d \<and>
     (\<forall>c \<in> set (cmds d). opcode c \<noteq> UCAN_CMD_END_OF_COLLECTION)"

lemma cmd_wf_init [simp]: "cmd_wf (ucan_init_cmd d)"
  by (simp add: cmd_wf_def)

lemma cmd_wf_added:
  assumes "added d c r" "cmd_wf d" "opcode c \<noteq> UCAN_CMD_END_OF_COLLECTION"
  shows "cmd_wf (fst r)" "cmd_len (fst r) \<noteq> 0" "pdev (fst r) = pdev d" "cmd_size (fst r) = cmd_size d"
    "snd r \<noteq> None" "cmds (fst r) = cmds d @ [c]"
  using assms cmds_added [OF assms(1)] by (auto simp: added_def cmd_wf_def)

locale cmd_port =
  fixes ops :: "('z ucandev_scheme) ucan_ops"
    and port :: "'z ucandev_scheme \<Rightarrow> bool"
    and sent :: "'z ucandev_scheme \<Rightarrow> u8 list list"
    and reliable :: bool
  assumes port_room: "port d \<Longrightarrow> 8 \<le> cmd_size d"
    and port_buffer: "port d \<Longrightarrow> is_plugged p = is_plugged (pdev d) \<Longrightarrow> port (d\<lparr>cmd_head := m, cmd_len := n, pdev := p\<rparr>)"
    and sent_buffer: "sent (d\<lparr>cmd_head := m, cmd_len := n, pdev := p\<rparr>) = sent d"
    and send_port: "\<lbrakk>port d; cmd_wf d; cmd_len d \<noteq> 0; send_cmd ops d = (d', e)\<rbrakk>
      \<Longrightarrow> port d' \<and> pdev d' = pdev d \<and> cmd_size d' = cmd_size d \<and>
        (e = 0 \<longrightarrow> sent d' = sent d @ cmds d) \<and> (reliable \<longrightarrow> e = 0)"
begin

text \<open>\<open>step\<close> relates a channel to the result of a request that hands over the commands \<open>cs\<close> and
  changes the channel by \<open>g\<close>;
  it always succeeds when the transfers of the port never fail (\<open>reliable\<close>).\<close>

definition step :: "(pcandev \<Rightarrow> pcandev) \<Rightarrow> 'z ucandev_scheme \<Rightarrow> u8 list list \<Rightarrow> 'z ucandev_scheme \<times> int \<Rightarrow> bool" where
  "step g d cs r \<longleftrightarrow> port (fst r) \<and> pdev (fst r) = g (pdev d) \<and>
     (snd r = 0 \<longrightarrow> sent (fst r) = sent d @ cs) \<and> (reliable \<longrightarrow> snd r = 0)"

lemma port_init: "port d \<Longrightarrow> port (ucan_init_cmd d)"
  using port_buffer [where d = d and m = "cmd_head d" and n = 0 and p = "pdev d"] by (simp add: ucan_init_cmd_def)

lemma sent_init [simp]: "sent (ucan_init_cmd d) = sent d"
  using sent_buffer [where d = d and m = "cmd_head d" and n = 0 and p = "pdev d"] by (simp add: ucan_init_cmd_def)

lemma port_added:
  assumes "added d c r" "port d"
  shows "port (fst r)" "sent (fst r) = sent d"
proof -
  obtain m where m: "fst r = d\<lparr>cmd_head := m, cmd_len := cmd_len d + 8\<rparr>"
    using assms(1) by (auto simp: added_def)
  show "port (fst r)" "sent (fst r) = sent d"
    using port_buffer [OF assms(2), where m = m and n = "cmd_len d + 8" and p = "pdev d"]
      sent_buffer [where d = d and m = m and n = "cmd_len d + 8" and p = "pdev d"]
    by (simp_all add: m)
qed

lemma send_step:
  assumes "port d" "added (ucan_init_cmd d) c r" "opcode c \<noteq> UCAN_CMD_END_OF_COLLECTION"
  shows "step id d [c] (send_added ops r)" "step id d [c] (send_cmd ops (fst r))"
proof -
  obtain d1 p where r: "r = (d1, Some p)" using assms(2) by (auto simp: added_def)
  note w = cmd_wf_added [OF assms(2) cmd_wf_init assms(3)]
  note q = port_added [OF assms(2) port_init [OF assms(1)]]
  obtain d2 e where s: "send_cmd ops d1 = (d2, e)" using prod.exhaust by blast
  have "port d1" "cmd_wf d1" "cmd_len d1 \<noteq> 0" using q w r by auto
  from send_port [OF this s] show "step id d [c] (send_added ops r)" "step id d [c] (send_cmd ops (fst r))"
    using w q r s by (auto simp: step_def send_added_def)
qed

lemma init_room: "port d \<Longrightarrow> cmd_len (ucan_init_cmd d) + 8 \<le> cmd_size (ucan_init_cmd d)"
  using port_room by simp

lemma option_steps:
  assumes "port d"
  shows "step id d [option_image (nChannel (pdev d)) UCAN_CMD_SET_EN_OPTION msk] (ucan_set_options ops d msk)"
    and "step id d [option_image (nChannel (pdev d)) UCAN_CMD_CLR_DIS_OPTION msk] (ucan_clr_options ops d msk)"
  using send_step(1) [OF assms added_option(1) [OF init_room [OF assms], of msk]]
    send_step(1) [OF assms added_option(2) [OF init_room [OF assms], of msk]]
  by (simp_all add: ucan_set_options_def ucan_clr_options_def option_image_def)

lemma timing_steps:
  assumes "port d"
  shows "step id d [slow_image (nChannel (pdev d)) bt] (ucan_set_timing_slow ops d bt)"
    and "step id d [fast_image (nChannel (pdev d)) bt] (ucan_set_timing_fast ops d bt)"
  using send_step(1) [OF assms added_slow [OF init_room [OF assms], of bt]]
    send_step(1) [OF assms added_fast [OF init_room [OF assms], of bt]]
  by (simp_all add: ucan_set_timing_slow_def ucan_set_timing_fast_def slow_image_def fast_image_def)

lemma clr_err_step:
  assumes "port d"
  shows "step clr_counters d [cmd_image (nChannel (pdev d)) UCAN_CMD_WR_ERR_CNT (le16 0xc000 @ [0, 0, 0, 0])] (ucan_clr_err_counters ops d)"
proof -
  let ?r = "ucan_add_cmd_wr_err_cnt (ucan_init_cmd d) 0xc000 0 0"
  note a = added_err_cnt [OF init_room [OF assms], where s = "0xc000" and t = 0 and r = 0]
  obtain d1 p where r: "?r = (d1, Some p)" using a by (auto simp: added_def)
  let ?d = "d1\<lparr>pdev := (pdev d1)\<lparr>tx_error_counter := 0, rx_error_counter := 0\<rparr>\<rparr>"
  note w = cmd_wf_added [OF a cmd_wf_init] and q = port_added [OF a port_init [OF assms]]
  obtain d2 e where s: "send_cmd ops ?d = (d2, e)" using prod.exhaust by blast
  have c: "cmds ?d = cmds d1" by (simp add: cmds_def)
  have "port ?d" "sent ?d = sent d"
    using q r port_buffer [where d = d1 and m = "cmd_head d1" and n = "cmd_len d1" and p = "pdev ?d"]
      sent_buffer [where d = d1 and m = "cmd_head d1" and n = "cmd_len d1" and p = "pdev ?d"]
    by simp_all
  moreover have "cmd_wf ?d" "cmd_len ?d \<noteq> 0" using w r c by (simp_all add: cmd_wf_def)
  ultimately show ?thesis using send_port [OF _ _ _ s] w r s c
    by (simp add: step_def ucan_clr_err_counters_def clr_counters_def)
qed

end

context cmd_port
begin

text \<open>One filter row: the loop ends, and on success what was sent and what is in the buffer grow
  by the command.\<close>

lemma add_row_ok:
  assumes "port d" "cmd_wf d"
  obtains d' p e where "add_row ops d = Some (d', p, e)" "port d'" "pdev d' = pdev d"
    "e = 0 \<Longrightarrow> \<exists>d0. added d0 (cmd_image (nChannel (pdev d)) UCAN_CMD_SET_STD_FILTER (replicate 6 0)) (d', Some p) \<and>
       cmd_wf d0 \<and> port d0 \<and> pdev d0 = pdev d \<and> sent d0 @ cmds d0 = sent d @ cmds d"
    "reliable \<Longrightarrow> e = 0"
proof (cases "cmd_len d + 8 \<le> cmd_size d")
  case True
  note a = added_add [OF True, of UCAN_CMD_SET_STD_FILTER]
  obtain d1 p where r: "ucan_add_cmd UCAN_CMD_SET_STD_FILTER d = (d1, Some p)" using a by (auto simp: added_def)
  show ?thesis
  proof (rule that)
    show "add_row ops d = Some (d1, p, 0)" by (subst add_row.simps) (simp add: r)
    show "port d1" "pdev d1 = pdev d"
      using port_added [OF a assms(1)] a r by (auto simp: added_def)
  qed (use a assms r in auto)
next
  case False
  then have full: "ucan_add_cmd UCAN_CMD_SET_STD_FILTER d = (d, None)" and ne: "cmd_len d \<noteq> 0"
    using port_room [OF assms(1)] by (auto simp: ucan_add_cmd_def)
  obtain d1 e where s: "send_cmd ops d = (d1, e)" using prod.exhaust by blast
  note k = send_port [OF assms ne s]
  show ?thesis
  proof (cases "e = 0")
    case err: False
    show ?thesis
    proof (rule that)
      show "add_row ops d = Some (d1, 0, e)" by (subst add_row.simps) (simp add: full s err)
    qed (use k err in simp_all)
  next
    case ok: True
    let ?d = "ucan_init_cmd d1"
    have p: "port ?d" using k port_init by blast
    note a = added_add [OF init_room, of d1 UCAN_CMD_SET_STD_FILTER]
    obtain d2 q where r: "ucan_add_cmd UCAN_CMD_SET_STD_FILTER ?d = (d2, Some q)"
      using a k by (auto simp: added_def)
    show ?thesis
    proof (rule that)
      have "add_row ops ?d = Some (d2, q, 0)" by (subst add_row.simps) (simp add: r)
      then show "add_row ops d = Some (d2, q, 0)" by (subst add_row.simps) (simp add: full s ok)
      show "port d2" "pdev d2 = pdev d"
        using port_added [OF a p] a k r by (auto simp: added_def)
      show "\<exists>d0. added d0 (cmd_image (nChannel (pdev d)) UCAN_CMD_SET_STD_FILTER (replicate 6 0)) (d2, Some q) \<and>
        cmd_wf d0 \<and> port d0 \<and> pdev d0 = pdev d \<and> sent d0 @ cmds d0 = sent d @ cmds d"
        using a k p r ok by (intro exI [of _ ?d]) auto
    qed simp
  qed
qed

lemma filter_rows_ok:
  assumes "port d" "cmd_wf d" "is \<noteq> [] \<or> cmd_len d \<noteq> 0"
  shows "\<exists>r. filter_rows ops is d = Some r \<and> step id d (cmds d @ map (row_image (nChannel (pdev d))) is) r"
  using assms
proof (induction "is" arbitrary: d)
  case Nil
  then show ?case using send_port [of d] by (cases "send_cmd ops d") (auto simp: step_def)
next
  case (Cons i "is")
  obtain d1 p e where row: "add_row ops d = Some (d1, p, e)" "port d1" "pdev d1 = pdev d"
    and ok: "e = 0 \<Longrightarrow> \<exists>d0. added d0 (cmd_image (nChannel (pdev d)) UCAN_CMD_SET_STD_FILTER (replicate 6 0)) (d1, Some p) \<and>
       cmd_wf d0 \<and> port d0 \<and> pdev d0 = pdev d \<and> sent d0 @ cmds d0 = sent d @ cmds d"
    and rel: "reliable \<Longrightarrow> e = 0"
    using add_row_ok [OF Cons.prems(1,2)] by blast
  show ?case
  proof (cases "e = 0")
    case False
    then show ?thesis using row rel by (auto simp: step_def)
  next
    case True
    obtain d0 where d0: "added d0 (cmd_image (nChannel (pdev d)) UCAN_CMD_SET_STD_FILTER (replicate 6 0)) (d1, Some p)"
      "cmd_wf d0" "port d0" "pdev d0 = pdev d" "sent d0 @ cmds d0 = sent d @ cmds d"
      using ok [OF True] by (elim exE conjE)
    let ?r = "put_field 4 (le32 0xffffffff) (put_field 3 [of_nat i] (d1, Some p))"
    have a: "added d0 (row_image (nChannel (pdev d)) i) ?r" by (rule added_row [OF d0(1)])
    have op: "opcode (row_image (nChannel (pdev d)) i) \<noteq> UCAN_CMD_END_OF_COLLECTION" by (simp add: row_image_def)
    note w = cmd_wf_added [OF a d0(2) op] and q = port_added [OF a d0(3)]
    obtain r where r: "filter_rows ops is (fst ?r) = Some r"
      "step id (fst ?r) (cmds (fst ?r) @ map (row_image (nChannel (pdev (fst ?r)))) is) r"
      using Cons.IH [OF q(1) w(1)] w(2) by blast
    have eq: "sent (fst ?r) @ cmds (fst ?r) = (sent d0 @ cmds d0) @ [row_image (nChannel (pdev d)) i]"
      using q w by simp
    have "filter_rows ops (i # is) d = Some r" using row(1) True r(1) by simp
    moreover have "step id d (cmds d @ map (row_image (nChannel (pdev d))) (i # is)) r"
      using r(2) eq w(3) d0(4,5) by (simp add: step_def)
    ultimately show ?thesis by blast
  qed
qed

lemma set_all_filters:
  assumes "port d"
  obtains r where "ucan_set_all_acceptance_filter ops d = Some r"
    "step id d (map (row_image (nChannel (pdev d))) [0..<64]) r"
proof -
  obtain r where r: "filter_rows ops [0..<2 ^ 6] (ucan_init_cmd d) = Some r"
    "step id (ucan_init_cmd d) (cmds (ucan_init_cmd d) @ map (row_image (nChannel (pdev (ucan_init_cmd d)))) [0..<2 ^ 6]) r"
    using filter_rows_ok [OF port_init [OF assms] cmd_wf_init, of "[0..<2 ^ 6]"] by auto
  have "step id d (map (row_image (nChannel (pdev d))) [0..<2 ^ 6]) r"
    using r(2) unfolding step_def sent_init init_cmd_simps cmds_init append_Nil by blast
  then show ?thesis using that [of r] r(1) by (simp add: ucan_set_all_acceptance_filter_def)
qed

text \<open>A sequence of steps on a port whose transfers never fail.\<close>

definition sends ::
  "int \<Rightarrow> u8 list list \<Rightarrow> (pcandev \<Rightarrow> pcandev) \<Rightarrow> ('z ucandev_scheme \<Rightarrow> ('z ucandev_scheme \<times> int) option) \<Rightarrow> bool" where
  "sends ch cs g f \<longleftrightarrow> (\<forall>d. port d \<and> nChannel (pdev d) = ch \<longrightarrow>
     (\<exists>d'. f d = Some (d', 0) \<and> port d' \<and> nChannel (pdev d') = ch \<and> pdev d' = g (pdev d) \<and> sent d' = sent d @ cs))"

lemma sendsD:
  assumes "sends ch cs g f" "port d" "nChannel (pdev d) = ch"
  obtains d' where "f d = Some (d', 0)" "port d'" "nChannel (pdev d') = ch" "pdev d' = g (pdev d)" "sent d' = sent d @ cs"
  using assms unfolding sends_def by blast

lemma run_steps_sends:
  "list_all2 (\<lambda>x f. sends ch (fst x) (snd x) f) xs fs \<Longrightarrow> sends ch (concat (map fst xs)) (fold snd xs) (run_steps fs)"
proof (induction xs fs rule: list_all2_induct)
  case Nil
  then show ?case by (simp add: sends_def)
next
  case (Cons x xs f fs)
  show ?case unfolding sends_def
  proof (intro allI impI)
    fix d assume d: "port d \<and> nChannel (pdev d) = ch"
    obtain d1 where d1: "f d = Some (d1, 0)" "port d1" "nChannel (pdev d1) = ch" "pdev d1 = snd x (pdev d)"
      "sent d1 = sent d @ fst x" using sendsD [OF Cons(1)] d by blast
    obtain d2 where "run_steps fs d1 = Some (d2, 0)" "port d2" "nChannel (pdev d2) = ch" "pdev d2 = fold snd xs (pdev d1)"
      "sent d2 = sent d1 @ concat (map fst xs)" using sendsD [OF Cons(3) d1(2,3)] by blast
    then show "\<exists>d'. run_steps (f # fs) d = Some (d', 0) \<and> port d' \<and> nChannel (pdev d') = ch \<and>
      pdev d' = fold snd (x # xs) (pdev d) \<and> sent d' = sent d @ concat (map fst (x # xs))" using d1 by simp
  qed
qed

lemma step_reliable:
  assumes "step g d cs (d', e)" "reliable"
  shows "e = 0" "port d'" "pdev d' = g (pdev d)" "sent d' = sent d @ cs"
  using assms unfolding step_def by auto

lemma step_sends:
  assumes "reliable" "\<And>d. port d \<Longrightarrow> nChannel (pdev d) = ch \<Longrightarrow> \<exists>r. f d = Some r \<and> step g d cs r"
    and "\<And>p. nChannel (g p) = nChannel p"
  shows "sends ch cs g f"
  unfolding sends_def
proof (intro allI impI)
  fix d assume d: "port d \<and> nChannel (pdev d) = ch"
  then obtain d' e where f: "f d = Some (d', e)" "step g d cs (d', e)" using assms(2) by (metis prod.collapse)
  note r = step_reliable [OF f(2) assms(1)]
  then show "\<exists>d'. f d = Some (d', 0) \<and> port d' \<and> nChannel (pdev d') = ch \<and> pdev d' = g (pdev d) \<and> sent d' = sent d @ cs"
    using d f(1) assms(3) by simp
qed

lemma ignored_sends:
  assumes "reliable" "\<And>d. port d \<Longrightarrow> nChannel (pdev d) = ch \<Longrightarrow> step id d cs (h d)"
  shows "sends ch cs id (\<lambda>d. Some (fst (h d), 0))"
proof (rule step_sends [OF assms(1)])
  fix d assume "port d" "nChannel (pdev d) = ch"
  then show "\<exists>r. Some (fst (h d), 0) = Some r \<and> step id d cs r"
    using assms(2) [of d] step_reliable(1) [OF _ assms(1), of id d cs] by (metis prod.collapse)
qed simp

lemma listen_only_sends: "sends ch [] (listen_flags pfdi) (\<lambda>d. Some (set_listen_only pfdi d, 0))"
proof -
  have "port (set_listen_only pfdi d)" "sent (set_listen_only pfdi d) = sent d" if "port d" for d
    using port_buffer [OF that, where m = "cmd_head d" and n = "cmd_len d" and p = "pdev (set_listen_only pfdi d)"]
      sent_buffer [where d = d and m = "cmd_head d" and n = "cmd_len d" and p = "pdev (set_listen_only pfdi d)"]
    by (simp_all add: set_listen_only_def Let_def)
  then show ?thesis by (auto simp: sends_def set_listen_only_def listen_flags_def Let_def)
qed

lemma open_steps_sends:
  assumes "reliable"
  shows "sends ch (open_images ch pfdi) (\<lambda>p. listen_flags pfdi (clr_counters p)) (run_steps (ucan_open_steps ops pfdi))"
proof -
  let ?e = "[cmd_image ch UCAN_CMD_WR_ERR_CNT (le16 0xc000 @ [0, 0, 0, 0])]"
  let ?iso = "[option_image ch (if has_flag (init_flags pfdi) PCANFD_INIT_FD_NON_ISO
    then UCAN_CMD_CLR_DIS_OPTION else UCAN_CMD_SET_EN_OPTION) UCAN_OPTION_ISO_MODE]"
  let ?o = "\<lambda>op. [option_image ch op UCAN_OPTION_20AB_MODE]"
  let ?fd = "has_flag (init_flags pfdi) PCANFD_INIT_FD"
  have "sends ch ?e clr_counters (\<lambda>d. Some (ucan_clr_err_counters ops d))"
    using assms clr_err_step by (intro step_sends) (auto simp: clr_counters_def)
  moreover have "sends ch ?iso id (\<lambda>d. Some (if has_flag (init_flags pfdi) PCANFD_INIT_FD_NON_ISO
      then ucan_clr_iso_mode ops d else ucan_set_iso_mode ops d))"
    using assms option_steps by (intro step_sends) (auto simp: ucan_clr_iso_mode_def ucan_set_iso_mode_def)
  moreover have "sends ch [fast_image ch (data_bt pfdi)] id (\<lambda>d. Some (ucan_set_timing_fast ops d (data_bt pfdi)))"
    and "sends ch [slow_image ch (nominal pfdi)] id (\<lambda>d. Some (ucan_set_timing_slow ops d (nominal pfdi)))"
    using assms timing_steps by (auto intro!: step_sends)
  moreover have "sends ch (?o UCAN_CMD_CLR_DIS_OPTION) id (\<lambda>d. Some (fst (ucan_clr_can20ab_mode ops d), 0))"
    and "sends ch (?o UCAN_CMD_SET_EN_OPTION) id (\<lambda>d. Some (fst (ucan_set_can20ab_mode ops d), 0))"
    using assms option_steps
    by (auto intro!: ignored_sends simp: ucan_clr_can20ab_mode_def ucan_set_can20ab_mode_def)
  moreover have "sends ch (map (row_image ch) [0..<64]) id (ucan_set_all_acceptance_filter ops)"
    using assms set_all_filters by (intro step_sends) (metis | simp)+
  ultimately have "list_all2 (\<lambda>x f. sends ch (fst x) (snd x) f)
      ([(?e, clr_counters)] @ (if ?fd then [(?iso, id), ([fast_image ch (data_bt pfdi)], id), (?o UCAN_CMD_CLR_DIS_OPTION, id)]
         else [(?o UCAN_CMD_SET_EN_OPTION, id)])
       @ [([slow_image ch (nominal pfdi)], id), (map (row_image ch) [0..<64], id), ([], listen_flags pfdi)]) (ucan_open_steps ops pfdi)"
    using listen_only_sends by (simp add: ucan_open_steps_def)
  from run_steps_sends [OF this] show ?thesis by (cases ?fd) (simp_all add: open_images_def comp_def)
qed

end

context cmd_port
begin

text \<open>Commands without arguments.\<close>

lemma plain_cmd:
  assumes "port d" "reliable" "op AND 0x3ff \<noteq> UCAN_CMD_END_OF_COLLECTION"
  obtains d1 p d' where "ucan_add_cmd op (ucan_init_cmd d) = (d1, Some p)" "send_cmd ops d1 = (d', 0)" "port d'"
    "pdev d' = pdev d" "sent d' = sent d @ [cmd_image (nChannel (pdev d)) op (replicate 6 0)]"
proof -
  note a = added_add [OF init_room [OF assms(1)], of op]
  obtain d1 p where r: "ucan_add_cmd op (ucan_init_cmd d) = (d1, Some p)" using a by (auto simp: added_def)
  have n: "nChannel (pdev (ucan_init_cmd d)) = nChannel (pdev d)" by simp
  have op: "opcode (cmd_image (nChannel (pdev (ucan_init_cmd d))) op (replicate 6 0)) \<noteq> UCAN_CMD_END_OF_COLLECTION"
    using assms(3) by simp
  note w = cmd_wf_added [OF a cmd_wf_init op] and q = port_added [OF a port_init [OF assms(1)]]
  obtain d' e where s: "send_cmd ops d1 = (d', e)" using prod.exhaust by blast
  have "port d1" "cmd_wf d1" "cmd_len d1 \<noteq> 0" using q w r by simp_all
  from send_port [OF this s] have "e = 0" "port d'" "pdev d' = pdev d"
    "sent d' = sent d @ [cmd_image (nChannel (pdev d)) op (replicate 6 0)]"
    using assms(2) w q r by simp_all
  then show ?thesis using that r s by blast
qed

lemma rx_barrier_sends:
  assumes "port d" "reliable"
  obtains d' where "ucan_rx_barrier ops d = (d', 0)" "port d'" "pdev d' = pdev d"
    "sent d' = sent d @ [cmd_image (nChannel (pdev d)) UCAN_CMD_RX_BARRIER (replicate 6 0)]"
proof -
  obtain d1 p d' where r: "ucan_add_cmd UCAN_CMD_RX_BARRIER (ucan_init_cmd d) = (d1, Some p)" "send_cmd ops d1 = (d', 0)"
    "port d'" "pdev d' = pdev d" "sent d' = sent d @ [cmd_image (nChannel (pdev d)) UCAN_CMD_RX_BARRIER (replicate 6 0)]"
    using plain_cmd [OF assms, of UCAN_CMD_RX_BARRIER] by auto
  then show ?thesis using that [of d'] by (simp add: ucan_rx_barrier_def ucan_add_cmd_rx_barrier_def send_added_def)
qed

lemma bus_off_sends:
  assumes "port d" "reliable"
  obtains d' where "ucan_set_bus_off ops d = (d', 0)" "port d'"
    "pdev d' = (pdev d)\<lparr>dev_flags := clr_flag (dev_flags (pdev d)) PCAN_DEV_BUS_ON\<rparr>"
    "sent d' = sent d @ [cmd_image (nChannel (pdev d)) UCAN_CMD_RESET_MODE (replicate 6 0)]"
proof -
  obtain d1 p d' where r: "ucan_add_cmd UCAN_CMD_RESET_MODE (ucan_init_cmd d) = (d1, Some p)" "send_cmd ops d1 = (d', 0)"
    "port d'" "pdev d' = pdev d" "sent d' = sent d @ [cmd_image (nChannel (pdev d)) UCAN_CMD_RESET_MODE (replicate 6 0)]"
    using plain_cmd [OF assms, of UCAN_CMD_RESET_MODE] by auto
  let ?p = "(pdev d)\<lparr>dev_flags := clr_flag (dev_flags (pdev d)) PCAN_DEV_BUS_ON\<rparr>"
  show ?thesis using r that [of "d'\<lparr>pdev := ?p\<rparr>"]
      port_buffer [OF r(3), where m = "cmd_head d'" and n = "cmd_len d'" and p = ?p]
      sent_buffer [where d = d' and m = "cmd_head d'" and n = "cmd_len d'" and p = ?p]
    by (simp add: ucan_set_bus_off_def ucan_add_cmd_reset_mode_def)
qed

lemma bus_on_sends:
  assumes "port d" "reliable"
  obtains d' where "ucan_set_bus_on ops d = (d', 0)" "port d'"
    "pdev d' = (pdev d)\<lparr>dev_flags := set_flag (dev_flags (pdev d)) PCAN_DEV_BUS_ON\<rparr>"
    "sent d' = sent d @ [cmd_image (nChannel (pdev d)) (if has_flag (dev_flags (pdev d)) PCAN_DEV_LISTEN_ONLY
       then UCAN_CMD_LISTEN_ONLY_MODE else UCAN_CMD_NORMAL_MODE) (replicate 6 0)]"
proof -
  let ?op = "if has_flag (dev_flags (pdev d)) PCAN_DEV_LISTEN_ONLY then UCAN_CMD_LISTEN_ONLY_MODE else UCAN_CMD_NORMAL_MODE"
  have op: "?op AND 0x3ff \<noteq> UCAN_CMD_END_OF_COLLECTION" by simp
  obtain d1 p d' where r: "ucan_add_cmd ?op (ucan_init_cmd d) = (d1, Some p)" "send_cmd ops d1 = (d', 0)"
    "port d'" "pdev d' = pdev d" "sent d' = sent d @ [cmd_image (nChannel (pdev d)) ?op (replicate 6 0)]"
    using plain_cmd [OF assms op] by blast
  have m: "(if has_flag (dev_flags (pdev d)) PCAN_DEV_LISTEN_ONLY then ucan_add_cmd_listen_only_mode (ucan_init_cmd d)
      else ucan_add_cmd_normal_mode (ucan_init_cmd d)) = (d1, Some p)"
    using r(1) by (simp add: ucan_add_cmd_listen_only_mode_def ucan_add_cmd_normal_mode_def split: if_splits)
  let ?p = "(pdev d)\<lparr>dev_flags := set_flag (dev_flags (pdev d)) PCAN_DEV_BUS_ON\<rparr>"
  show ?thesis
  proof (rule that)
    show "ucan_set_bus_on ops d = (d'\<lparr>pdev := ?p\<rparr>, 0)" unfolding ucan_set_bus_on_def m using r(2,4) by simp
    show "port (d'\<lparr>pdev := ?p\<rparr>)" using r(4) port_buffer [OF r(3), where m = "cmd_head d'" and n = "cmd_len d'" and p = ?p] by simp
    show "sent (d'\<lparr>pdev := ?p\<rparr>) = sent d @ [cmd_image (nChannel (pdev d)) ?op (replicate 6 0)]"
      using r(5) sent_buffer [where d = d' and m = "cmd_head d'" and n = "cmd_len d'" and p = ?p] by simp
  qed simp
qed

end

subsection \<open>Length codes\<close>

text \<open>The tables, checked entry by entry: the code of a length is the least one whose length is not
  shorter.\<close>

lemma len2dlc_table:
  "list_all (\<lambda>n. let c = unat (pcan_fd_len2dlc ! n)
     in c < 16 \<and> n \<le> unat (pcan_fd_dlc2len ! c) \<and> (c = 0 \<or> unat (pcan_fd_dlc2len ! (c - 1)) < n)) [0..<65]"
  by code_simp

lemma dlc2len_table:
  "list_all (\<lambda>c. unat (pcan_fd_dlc2len ! c) \<le> 64 \<and> unat (pcan_fd_len2dlc ! unat (pcan_fd_dlc2len ! c)) = c \<and>
     list_all (\<lambda>b. unat (pcan_fd_dlc2len ! b) < unat (pcan_fd_dlc2len ! c)) [0..<c]) [0..<16]"
  by code_simp

lemma len2dlc_entry:
  assumes "n < 65"
  shows "unat (pcan_fd_len2dlc ! n) < 16" "n \<le> unat (pcan_fd_dlc2len ! unat (pcan_fd_len2dlc ! n))"
    "unat (pcan_fd_len2dlc ! n) = 0 \<or> unat (pcan_fd_dlc2len ! (unat (pcan_fd_len2dlc ! n) - 1)) < n"
proof -
  have "n \<in> set [0..<65]" using assms by simp
  then show "unat (pcan_fd_len2dlc ! n) < 16" "n \<le> unat (pcan_fd_dlc2len ! unat (pcan_fd_len2dlc ! n))"
    "unat (pcan_fd_len2dlc ! n) = 0 \<or> unat (pcan_fd_dlc2len ! (unat (pcan_fd_len2dlc ! n) - 1)) < n"
    using len2dlc_table unfolding list_all_iff Let_def by blast+
qed

lemma dlc2len_entry:
  assumes "c < 16"
  shows "unat (pcan_fd_dlc2len ! c) \<le> 64" "unat (pcan_fd_len2dlc ! unat (pcan_fd_dlc2len ! c)) = c"
    "b < c \<Longrightarrow> unat (pcan_fd_dlc2len ! b) < unat (pcan_fd_dlc2len ! c)"
proof -
  have "c \<in> set [0..<16]" using assms by simp
  then show "unat (pcan_fd_dlc2len ! c) \<le> 64" "unat (pcan_fd_len2dlc ! unat (pcan_fd_dlc2len ! c)) = c"
    "b < c \<Longrightarrow> unat (pcan_fd_dlc2len ! b) < unat (pcan_fd_dlc2len ! c)"
    using dlc2len_table unfolding list_all_iff by (auto simp: Ball_def)
qed

lemma and_0f_less: "unat (c AND 0x0f :: u8) < 16"
proof -
  have "c AND 0x0f \<le> (0x0f :: u8)" by (rule word_and_le1)
  then show ?thesis by (simp add: word_le_nat_alt)
qed

lemma dlc_and_0f: "unat (x :: u8) < 16 \<Longrightarrow> x AND 0x0f = x"
proof -
  assume "unat x < 16"
  then have "x AND 0x0f = take_bit 4 x" by (simp add: take_bit_eq_mask mask_eq_exp_minus_1)
  also have "\<dots> = x" using \<open>unat x < 16\<close> by (simp add: word_unat_eq_iff unsigned_take_bit_eq take_bit_nat_eq_self)
  finally show ?thesis .
qed

lemma len2dlc_fits: "unat (pcan_len2dlc n) < 16"
proof (cases "unat n < 65")
  case True
  then show ?thesis using len2dlc_entry [OF True] by (auto simp: pcan_len2dlc_def word_less_nat_alt)
qed (simp add: pcan_len2dlc_def word_less_nat_alt)

lemma dlc2len_len2dlc: "unat n \<le> 64 \<Longrightarrow> unat n \<le> unat (pcan_dlc2len (pcan_len2dlc n))"
  using len2dlc_entry [of "unat n"] dlc_and_0f [OF len2dlc_fits [of n]]
  by (auto simp: pcan_dlc2len_def pcan_len2dlc_def word_less_nat_alt)

lemma dlc2len_bound: "unat (pcan_dlc2len c) \<le> 64"
  using dlc2len_entry(1) [OF and_0f_less] by (simp add: pcan_dlc2len_def)

subsection \<open>Timing fields\<close>

definition timing_in :: "pcanfd_bittiming_range \<Rightarrow> pcan_bittiming \<Rightarrow> bool" where
  "timing_in caps bt \<longleftrightarrow> brp_min caps \<le> brp bt \<and> brp bt \<le> brp_max caps \<and>
     tseg1_min caps \<le> tseg1 bt \<and> tseg1 bt \<le> tseg1_max caps \<and>
     tseg2_min caps \<le> tseg2 bt \<and> tseg2 bt \<le> tseg2_max caps \<and> sjw_min caps \<le> sjw bt \<and> sjw bt \<le> sjw_max caps"

lemma field_exact:
  fixes x :: u32
  assumes "1 \<le> unat x" "unat x \<le> 2 ^ k" "k \<le> LENGTH('a::len)"
  shows "unat (ucast ((x - 1) AND mask k) :: 'a word) + 1 = unat x"
proof -
  have "x \<noteq> 0" using assms(1) by auto
  then have x: "unat (x - 1) = unat x - 1" by (rule unat_pred_u32)
  then have less: "unat (x - 1) < 2 ^ k" using assms by linarith
  then have m: "(x - 1) AND mask k = x - 1"
    by (simp add: take_bit_eq_mask [symmetric] word_unat_eq_iff unsigned_take_bit_eq take_bit_nat_eq_self)
  have "(2::nat) ^ k \<le> 2 ^ LENGTH('a)" using assms(3) by (intro power_increasing) simp_all
  then have "unat (x - 1) < 2 ^ LENGTH('a)" using less by linarith
  then have "unat (ucast (x - 1) :: 'a word) = unat (x - 1)"
    by (simp add: unsigned_ucast_eq take_bit_nat_eq_self)
  then show ?thesis using m x assms(1) by simp
qed

lemma mask_values:
  "(0xff :: u32) = mask 8" "(0x7f :: u32) = mask 7" "(0x1f :: u32) = mask 5" "(0x0f :: u32) = mask 4" "(0x3ff :: u32) = mask 10"
  by (simp_all add: mask_eq_exp_minus_1)

lemma sjw_t_fields:
  assumes "1 \<le> unat s" "unat s \<le> 128"
  shows "unat (UCAN_TSLOW_SJW_T (s - 1) t AND 0x7f) + 1 = unat s" "has_flag (UCAN_TSLOW_SJW_T (s - 1) t) 0x80 \<longleftrightarrow> t \<noteq> 0"
proof -
  have "UCAN_TSLOW_SJW_T (s - 1) t AND 0x7f = ucast ((s - 1) AND 0x7f)"
  proof (rule bit_word_eqI)
    fix n assume "n < LENGTH(8)"
    then have "n < 7 \<or> n = 7" by auto
    then show "bit (UCAN_TSLOW_SJW_T (s - 1) t AND 0x7f) n = bit (ucast ((s - 1) AND 0x7f) :: u8) n"
      by (auto simp: UCAN_TSLOW_SJW_T_def bit_simps)
  qed
  then show "unat (UCAN_TSLOW_SJW_T (s - 1) t AND 0x7f) + 1 = unat s"
    using field_exact [of s 7, where 'a = 8] assms by (simp add: mask_values)
  have "bit (UCAN_TSLOW_SJW_T (s - 1) t) 7 \<longleftrightarrow> t \<noteq> 0"
    by (auto simp: UCAN_TSLOW_SJW_T_def bit_simps)
  moreover have "has_flag x 0x80 \<longleftrightarrow> bit x 7" for x :: u8
    using and_exp_eq_0_iff_not_bit [of x 7] by (simp add: has_flag_def)
  ultimately show "has_flag (UCAN_TSLOW_SJW_T (s - 1) t) 0x80 \<longleftrightarrow> t \<noteq> 0" by simp
qed

lemma bytes_drop: "k \<le> n \<Longrightarrow> bytes m (a + k) (n - k) = drop k (bytes m a n)"
  by (rule nth_equalityI) (auto simp: add.assoc)

lemma timing_fields:
  assumes "bytes m a 8 = cmd_image ch op ([x2, x3, x4, x5] @ le16 y)"
  shows "m (a + 3) = x3" "m (a + 4) = x4" "m (a + 5) = x5" "rd16 m (a + 6) = y"
proof -
  have e: "m (a + i) = cmd_image ch op ([x2, x3, x4, x5] @ le16 y) ! i" if "i < 8" for i
    using that assms nth_bytes [of i 8 m a] by simp
  show "m (a + 3) = x3" "m (a + 4) = x4" "m (a + 5) = x5"
    using e [of 3] e [of 4] e [of 5] by (simp_all add: cmd_image_def le16_def)
  show "rd16 m (a + 6) = y"
    using bytes_drop [of 6 8 m a] assms by (intro rd16_le16) (simp add: cmd_image_def le16_def)
qed

section \<open>Properties\<close>

text \<open>The length codes of CAN FD: the code chosen for a length designates the shortest frame that
  holds it, a longer length gets the longest frame, and the length of a code has that code.\<close>

theorem dlc_of_length:
  "(unat len \<le> 64 \<longrightarrow> unat len \<le> unat (pcan_dlc2len (pcan_len2dlc len)) \<and>
      (\<forall>c. unat len \<le> unat (pcan_dlc2len c) \<longrightarrow> unat (pcan_dlc2len (pcan_len2dlc len)) \<le> unat (pcan_dlc2len c))) \<and>
   (64 < unat len \<longrightarrow> pcan_dlc2len (pcan_len2dlc len) = 64) \<and> pcan_len2dlc (pcan_dlc2len dlc) = dlc AND 0x0f"
proof (intro conjI impI allI)
  assume l: "unat len \<le> 64"
  then show "unat len \<le> unat (pcan_dlc2len (pcan_len2dlc len))" by (rule dlc2len_len2dlc)
  fix c assume c: "unat len \<le> unat (pcan_dlc2len c)"
  let ?k = "unat (pcan_fd_len2dlc ! unat len)" and ?c = "unat (c AND 0x0f)"
  note e = len2dlc_entry [of "unat len"]
  have k: "pcan_dlc2len (pcan_len2dlc len) = pcan_fd_dlc2len ! ?k"
    using l dlc_and_0f [OF len2dlc_fits [of len]] by (auto simp: pcan_dlc2len_def pcan_len2dlc_def word_less_nat_alt)
  have "\<not> ?c < ?k"
  proof
    assume less: "?c < ?k"
    then have "unat (pcan_fd_dlc2len ! ?c) \<le> unat (pcan_fd_dlc2len ! (?k - 1))"
      using dlc2len_entry(3) [of "?k - 1" ?c] e(1) l by (cases "?c = ?k - 1") (simp_all, linarith)
    moreover have "unat (pcan_fd_dlc2len ! (?k - 1)) < unat len" using e(3) l less by linarith
    ultimately show False using c by (simp add: pcan_dlc2len_def)
  qed
  then show "unat (pcan_dlc2len (pcan_len2dlc len)) \<le> unat (pcan_dlc2len c)"
    using dlc2len_entry(3) [OF and_0f_less, of ?k c] k
    by (cases "?c = ?k") (auto simp: pcan_dlc2len_def)
next
  assume "64 < unat len"
  then show "pcan_dlc2len (pcan_len2dlc len) = 64"
    by (simp add: pcan_len2dlc_def word_less_nat_alt pcan_dlc2len_def pcan_fd_dlc2len_def)
next
  show "pcan_len2dlc (pcan_dlc2len dlc) = dlc AND 0x0f"
    using dlc2len_entry(1,2) [OF and_0f_less [of dlc]]
    by (simp add: pcan_len2dlc_def pcan_dlc2len_def word_less_nat_alt word_unat_eq_iff)
qed

theorem dlc_of_length_witness: "unat (12 :: u8) \<le> unat (pcan_dlc2len (pcan_len2dlc 12))"
  using dlc_of_length [of 12 0] by simp

text \<open>A timing within the ranges of the controller reaches it unchanged: the fields of the two
  timing commands, read back the way the controller reads them, are the values of the timing.\<close>

theorem timing_command_exact:
  assumes "cmd_len d + 8 \<le> cmd_size d"
  shows "(timing_in ucan_slow_capabilities bt \<longrightarrow>
      (\<exists>m. ucan_add_cmd_timing_slow d bt = (d\<lparr>cmd_head := m, cmd_len := cmd_len d + 8\<rparr>, Some (cmd_len d)) \<and>
        unat (rd16 m (cmd_len d + 6)) + 1 = unat (brp bt) \<and> unat (m (cmd_len d + 5)) + 1 = unat (tseg1 bt) \<and>
        unat (m (cmd_len d + 4)) + 1 = unat (tseg2 bt) \<and> unat (m (cmd_len d + 3) AND 0x7f) + 1 = unat (sjw bt) \<and>
        (has_flag (m (cmd_len d + 3)) 0x80 \<longleftrightarrow> tsam bt \<noteq> 0))) \<and>
    (timing_in ucan_fast_capabilities bt \<longrightarrow>
      (\<exists>m. ucan_add_cmd_timing_fast d bt = (d\<lparr>cmd_head := m, cmd_len := cmd_len d + 8\<rparr>, Some (cmd_len d)) \<and>
        unat (rd16 m (cmd_len d + 6)) + 1 = unat (brp bt) \<and> unat (m (cmd_len d + 5)) + 1 = unat (tseg1 bt) \<and>
        unat (m (cmd_len d + 4)) + 1 = unat (tseg2 bt) \<and> unat (m (cmd_len d + 3)) + 1 = unat (sjw bt)))"
proof (intro conjI impI)
  assume r: "timing_in ucan_slow_capabilities bt"
  obtain m where m: "ucan_add_cmd_timing_slow d bt = (d\<lparr>cmd_head := m, cmd_len := cmd_len d + 8\<rparr>, Some (cmd_len d))"
    "bytes m (cmd_len d) 8 = slow_image (nChannel (pdev d)) bt"
    using added_slow [OF assms, of bt] by (auto simp: added_def)
  note f = timing_fields [OF m(2) [unfolded slow_image_def]]
  have "unat (rd16 m (cmd_len d + 6)) + 1 = unat (brp bt)"
    using r field_exact [of "brp bt" 10, where 'a = 16] f(4)
    by (simp add: timing_in_def ucan_slow_capabilities_def word_le_nat_alt mask_values)
  moreover have "unat (m (cmd_len d + 5)) + 1 = unat (tseg1 bt)"
    using r field_exact [of "tseg1 bt" 8, where 'a = 8] f(3)
    by (simp add: timing_in_def ucan_slow_capabilities_def word_le_nat_alt mask_values)
  moreover have "unat (m (cmd_len d + 4)) + 1 = unat (tseg2 bt)"
    using r field_exact [of "tseg2 bt" 7, where 'a = 8] f(2)
    by (simp add: timing_in_def ucan_slow_capabilities_def word_le_nat_alt mask_values)
  moreover have "1 \<le> unat (sjw bt)" "unat (sjw bt) \<le> 128"
    using r by (simp_all add: timing_in_def ucan_slow_capabilities_def word_le_nat_alt)
  ultimately show "\<exists>m. ucan_add_cmd_timing_slow d bt = (d\<lparr>cmd_head := m, cmd_len := cmd_len d + 8\<rparr>, Some (cmd_len d)) \<and>
        unat (rd16 m (cmd_len d + 6)) + 1 = unat (brp bt) \<and> unat (m (cmd_len d + 5)) + 1 = unat (tseg1 bt) \<and>
        unat (m (cmd_len d + 4)) + 1 = unat (tseg2 bt) \<and> unat (m (cmd_len d + 3) AND 0x7f) + 1 = unat (sjw bt) \<and>
        (has_flag (m (cmd_len d + 3)) 0x80 \<longleftrightarrow> tsam bt \<noteq> 0)"
    using m(1) f(1) sjw_t_fields by (intro exI [of _ m]) simp
next
  assume r: "timing_in ucan_fast_capabilities bt"
  obtain m where m: "ucan_add_cmd_timing_fast d bt = (d\<lparr>cmd_head := m, cmd_len := cmd_len d + 8\<rparr>, Some (cmd_len d))"
    "bytes m (cmd_len d) 8 = fast_image (nChannel (pdev d)) bt"
    using added_fast [OF assms, of bt] by (auto simp: added_def)
  note f = timing_fields [OF m(2) [unfolded fast_image_def]]
  have "unat (rd16 m (cmd_len d + 6)) + 1 = unat (brp bt)"
    using r field_exact [of "brp bt" 10, where 'a = 16] f(4)
    by (simp add: timing_in_def ucan_fast_capabilities_def word_le_nat_alt mask_values)
  moreover have "unat (m (cmd_len d + 5)) + 1 = unat (tseg1 bt)"
    using r field_exact [of "tseg1 bt" 5, where 'a = 8] f(3)
    by (simp add: timing_in_def ucan_fast_capabilities_def word_le_nat_alt mask_values)
  moreover have "unat (m (cmd_len d + 4)) + 1 = unat (tseg2 bt)" "unat (m (cmd_len d + 3)) + 1 = unat (sjw bt)"
    using r field_exact [of "tseg2 bt" 4, where 'a = 8] field_exact [of "sjw bt" 4, where 'a = 8] f(1,2)
    by (simp_all add: timing_in_def ucan_fast_capabilities_def word_le_nat_alt mask_values)
  ultimately show "\<exists>m. ucan_add_cmd_timing_fast d bt = (d\<lparr>cmd_head := m, cmd_len := cmd_len d + 8\<rparr>, Some (cmd_len d)) \<and>
        unat (rd16 m (cmd_len d + 6)) + 1 = unat (brp bt) \<and> unat (m (cmd_len d + 5)) + 1 = unat (tseg1 bt) \<and>
        unat (m (cmd_len d + 4)) + 1 = unat (tseg2 bt) \<and> unat (m (cmd_len d + 3)) + 1 = unat (sjw bt)"
    using m(1) by (intro exI [of _ m]) simp
qed

theorem timing_command_exact_witness:
  "\<exists>m. ucan_add_cmd_timing_slow
       \<lparr>pdev = blank_dev, cmd_head = (\<lambda>_. 0), cmd_size = 8, cmd_len = 0, io_out = []\<rparr>
       (zero_bittiming\<lparr>brp := 10, tseg1 := 12, tseg2 := 3, sjw := 1\<rparr>) =
     (\<lparr>pdev = blank_dev, cmd_head = m, cmd_size = 8, cmd_len = 8, io_out = []\<rparr>, Some 0) \<and>
     unat (rd16 m 6) + 1 = 10"
proof -
  let ?d = "\<lparr>pdev = blank_dev, cmd_head = (\<lambda>_. 0), cmd_size = 8, cmd_len = 0, io_out = []\<rparr>"
  let ?bt = "zero_bittiming\<lparr>brp := 10, tseg1 := 12, tseg2 := 3, sjw := 1\<rparr>"
  have "timing_in ucan_slow_capabilities ?bt"
    by (simp add: timing_in_def ucan_slow_capabilities_def zero_bittiming_def)
  then show ?thesis using timing_command_exact [of ?d ?bt] by auto
qed

end
