(* ===== verification/Pcan_Ucan_Msg.thy ===== *)
theory Pcan_Ucan_Msg
  imports Pcan_Ucan Pcan_Xfer
begin

text \<open>
  The message side of the uCAN interface (\<^verbatim>\<open>driver/src/pcanfd_ucan.c\<close>): the handlers of the
  records a device writes into its receive buffer, the dispatcher that walks such a buffer, and the
  encoding of the transmit queue into records. Records are read from memory at their address, which
  is never checked against the size of the buffer before they are handled. The configuration is the one
  of the character device, with \<^verbatim>\<open>USB_SUPPORT\<close>; \<^verbatim>\<open>PCANFD_RAWTIMESTAMP\<close> is not defined.
\<close>

section \<open>Record types and flags\<close>

abbreviation (input) UCAN_MSG_CAN_RX :: u16 where "UCAN_MSG_CAN_RX \<equiv> 0x0001"
abbreviation (input) UCAN_MSG_ERROR :: u16 where "UCAN_MSG_ERROR \<equiv> 0x0002"
abbreviation (input) UCAN_MSG_STATUS :: u16 where "UCAN_MSG_STATUS \<equiv> 0x0003"
abbreviation (input) UCAN_MSG_BUSLOAD :: u16 where "UCAN_MSG_BUSLOAD \<equiv> 0x0004"
abbreviation (input) UCAN_MSG_CAN_TX :: u16 where "UCAN_MSG_CAN_TX \<equiv> 0x1000"
abbreviation (input) UCAN_MSG_CAN_TX_PAUSE :: u16 where "UCAN_MSG_CAN_TX_PAUSE \<equiv> 0x1002"
abbreviation (input) UCAN_USB_MSG_CALIBRATION :: u16 where "UCAN_USB_MSG_CALIBRATION \<equiv> 0x100"
abbreviation (input) UCAN_USB_MSG_OVERRUN :: u16 where "UCAN_USB_MSG_OVERRUN \<equiv> 0x101"

abbreviation (input) UCAN_MSG_API_SRR :: u16 where "UCAN_MSG_API_SRR \<equiv> 0x80"
abbreviation (input) UCAN_MSG_ERROR_STATE_IND :: u16 where "UCAN_MSG_ERROR_STATE_IND \<equiv> 0x40"
abbreviation (input) UCAN_MSG_BITRATE_SWITCH :: u16 where "UCAN_MSG_BITRATE_SWITCH \<equiv> 0x20"
abbreviation (input) UCAN_MSG_EXT_DATA_LEN :: u16 where "UCAN_MSG_EXT_DATA_LEN \<equiv> 0x10"
abbreviation (input) UCAN_MSG_SINGLE_SHOT :: u16 where "UCAN_MSG_SINGLE_SHOT \<equiv> 0x08"
abbreviation (input) UCAN_MSG_HW_SRR :: u16 where "UCAN_MSG_HW_SRR \<equiv> 0x04"
abbreviation (input) UCAN_MSG_EXT_ID :: u16 where "UCAN_MSG_EXT_ID \<equiv> 0x02"
abbreviation (input) UCAN_MSG_RTR :: u16 where "UCAN_MSG_RTR \<equiv> 0x01"

abbreviation (input) UCAN_TXPAUSE_DELAY_MAX :: u32 where "UCAN_TXPAUSE_DELAY_MAX \<equiv> 0x3ff"
abbreviation (input) CAN_EFF_MASK :: u32 where "CAN_EFF_MASK \<equiv> 0x1fffffff"
abbreviation (input) CAN_SFF_MASK :: u32 where "CAN_SFF_MASK \<equiv> 0x7ff"

section \<open>Handlers\<close>

definition zero_rxmsg :: pcanfd_rxmsg where
  "zero_rxmsg = \<lparr>rx_msg = zero_msg, rx_hwtv = zero_hwtv\<rparr>"

definition or_flag :: "bool \<Rightarrow> u32 \<Rightarrow> pcanfd_msg \<Rightarrow> pcanfd_msg" where
  "or_flag b fl m = (if b then m\<lparr>msg_flags := set_flag (msg_flags m) fl\<rparr> else m)"

text \<open>A time stamp that could be decoded is stored with the message.\<close>

definition put_hwtv :: "pcan_timeval option \<Rightarrow> pcanfd_rxmsg \<Rightarrow> pcanfd_rxmsg" where
  "put_hwtv ptv rx =
     (case ptv of None \<Rightarrow> rx
      | Some tv \<Rightarrow> rx\<lparr>rx_msg := or_flag True (PCANFD_TIMESTAMP OR PCANFD_HWTIMESTAMP) (rx_msg rx), rx_hwtv := tv\<rparr>)"

definition UCAN_MSG_DLC :: "mem \<Rightarrow> nat \<Rightarrow> u8" where
  "UCAN_MSG_DLC mem rm = drop_bit 4 (mem (rm + 20))"

definition get_can_dlc :: "u8 \<Rightarrow> u8" where
  "get_can_dlc i = min i 8"

text \<open>The message \<^verbatim>\<open>ucan_post_canrx_msg\<close> builds from the record at \<open>rm\<close>.\<close>

definition canrx_head :: "mem \<Rightarrow> nat \<Rightarrow> pcanfd_msg" where
  "canrx_head mem rm =
     (let fl = rd16 mem (rm + 22)
      in if has_flag fl UCAN_MSG_EXT_DATA_LEN then
           or_flag (has_flag fl UCAN_MSG_ERROR_STATE_IND) PCANFD_MSG_ESI
             (or_flag (has_flag fl UCAN_MSG_BITRATE_SWITCH) PCANFD_MSG_BRS
               (zero_msg\<lparr>msg_type := PCANFD_TYPE_CANFD_MSG, data_len := ucast (pcan_dlc2len (UCAN_MSG_DLC mem rm))\<rparr>))
         else zero_msg\<lparr>msg_type := PCANFD_TYPE_CAN20_MSG, data_len := ucast (get_can_dlc (UCAN_MSG_DLC mem rm))\<rparr>)"

definition canrx_msg :: "mem \<Rightarrow> nat \<Rightarrow> pcan_timeval option \<Rightarrow> pcanfd_rxmsg" where
  "canrx_msg mem rm ptv =
     (let fl = rd16 mem (rm + 22);
          rx = zero_rxmsg\<lparr>rx_msg := (canrx_head mem rm)\<lparr>msg_id := rd32 mem (rm + 24)\<rparr>\<rparr>;
          rx = put_hwtv ptv rx;
          m = or_flag (has_flag fl UCAN_MSG_EXT_ID) PCANFD_MSG_EXT (rx_msg rx);
          n = unat (data_len m);
          m = (if has_flag fl UCAN_MSG_RTR then or_flag True PCANFD_MSG_RTR m
               else m\<lparr>msg_data := bytes mem (rm + 28) n @ drop n (msg_data m)\<rparr>);
          m = or_flag (has_flag fl UCAN_MSG_HW_SRR \<and> has_flag fl UCAN_MSG_API_SRR) PCANFD_MSG_ECHO m;
          m = or_flag (has_flag fl UCAN_MSG_HW_SRR \<and> \<not> has_flag fl UCAN_MSG_API_SRR) PCANFD_MSG_SLF m;
          m = or_flag (has_flag fl UCAN_MSG_SINGLE_SHOT) PCANFD_MSG_SNG m
      in rx\<lparr>rx_msg := m\<rparr>)"

text \<open>The end of the handlers: \<^verbatim>\<open>pcan_xxxdev_rx\<close> is \<^verbatim>\<open>pcan_chardev_rx\<close>.\<close>

definition post_rx :: "timeval \<Rightarrow> timeval \<Rightarrow> pcandev \<Rightarrow> pcanfd_rxmsg \<Rightarrow> pcandev \<times> int" where
  "post_rx now drv dev rx = (let (dev, _, err) = pcan_chardev_rx now drv dev rx in (dev, err))"

definition ucan_post_canrx_msg ::
  "timeval \<Rightarrow> timeval \<Rightarrow> mem \<Rightarrow> nat \<Rightarrow> pcan_timeval option \<Rightarrow> pcandev \<Rightarrow> pcandev \<times> int" where
  "ucan_post_canrx_msg now drv mem rm ptv dev =
     (let dev = pcan_clear_status_bit now drv dev CAN_ERR_QOVERRUN
      in if bus_state dev = PCANFD_UNKNOWN \<or> bus_state dev = PCANFD_ERROR_BUSOFF then (dev, 0)
         else post_rx now drv dev (canrx_msg mem rm ptv))"

definition ucan_handle_error :: "mem \<Rightarrow> nat \<Rightarrow> pcandev \<Rightarrow> pcandev \<times> int" where
  "ucan_handle_error mem er dev =
     (dev\<lparr>rx_error_counter := mem (er + 15), tx_error_counter := mem (er + 14)\<rparr>, 0)"

definition UCAN_ERMSG_ERRTYPE :: "mem \<Rightarrow> nat \<Rightarrow> u8" where
  "UCAN_ERMSG_ERRTYPE mem er = drop_bit 4 (mem (er + 12)) AND 0x07"

definition ucan_post_error_msg ::
  "timeval \<Rightarrow> timeval \<Rightarrow> mem \<Rightarrow> nat \<Rightarrow> pcan_timeval option \<Rightarrow> pcandev \<Rightarrow> pcandev \<times> int" where
  "ucan_post_error_msg now drv mem er ptv dev =
     (let (dev, _) = ucan_handle_error mem er dev;
          (dev, rx) =
            (if PCANFD_ERRMSG_OTHER < ucast (UCAN_ERMSG_ERRTYPE mem er) then
               (dev, Some (zero_rxmsg\<lparr>rx_msg := zero_msg\<lparr>msg_type := PCANFD_TYPE_STATUS,
                   msg_flags := PCANFD_ERROR_BUS, msg_id := bus_state dev\<rparr>\<rparr>))
             else pcan_handle_error_msg dev (Some zero_rxmsg) (ucast (UCAN_ERMSG_ERRTYPE mem er))
                    (mem (er + 13) AND 0x7f) (has_flag (mem (er + 12)) 0x80) (has_flag (mem (er + 13)) 0x80))
      in post_rx now drv dev (put_hwtv ptv (the rx)))"

text \<open>Returning to the error-active state may start the transmission, which concerns the whole
  state of a device: \<^verbatim>\<open>pcan_handle_error_active\<close> is run without it, then
  \<^verbatim>\<open>pcan_dev_start_writing\<close> on that state, when the bus state was unknown.\<close>

definition no_write :: dev_ops where
  "no_write = \<lparr>op_device_open = (\<lambda>d _ _ _. Some (d, 0)), op_device_open_fd = (\<lambda>d i. Some (d, i, 0)),
     op_device_release = None, op_device_write = (\<lambda>d. (d, 0)), op_open = None, op_release = None,
     op_req_irq = None, op_free_irq = None, op_cleanup = None\<rparr>"

definition ucan_start_writing ::
  "('z ucandev_scheme \<Rightarrow> 'z ucandev_scheme \<times> int) \<Rightarrow> 'z ucandev_scheme \<Rightarrow> 'z ucandev_scheme \<times> int" where
  "ucan_start_writing wrt dev =
     (if bus_state (pdev dev) = PCANFD_UNKNOWN then (dev, 0)
      else
        let (dev, err) = (if locked_tx_engine_state (pdev dev) = TX_ENGINE_STOPPED then wrt dev else (dev, 0))
        in (dev, if err = - ENODATA then 0 else err))"

definition ucan_error_active ::
  "('z ucandev_scheme \<Rightarrow> 'z ucandev_scheme \<times> int) \<Rightarrow> 'z ucandev_scheme \<Rightarrow> pcanfd_rxmsg
     \<Rightarrow> 'z ucandev_scheme \<times> pcanfd_rxmsg" where
  "ucan_error_active wrt dev rx =
     (let bs = bus_state (pdev dev);
          (p, rx) = pcan_handle_error_active no_write (pdev dev) (Some rx);
          dev = dev\<lparr>pdev := p\<rparr>;
          dev = (if bs = PCANFD_UNKNOWN then fst (ucan_start_writing wrt dev) else dev)
      in (dev, the rx))"

text \<open>The message on the stack is not initialised.\<close>

definition ucan_post_status_msg ::
  "timeval \<Rightarrow> timeval \<Rightarrow> ('z ucandev_scheme \<Rightarrow> 'z ucandev_scheme \<times> int) \<Rightarrow> pcanfd_rxmsg \<Rightarrow> mem \<Rightarrow> nat
     \<Rightarrow> pcan_timeval option \<Rightarrow> 'z ucandev_scheme \<Rightarrow> 'z ucandev_scheme \<times> int" where
  "ucan_post_status_msg now drv wrt stack mem st ptv dev =
     (let b = mem (st + 12);
          (dev, rx) =
            (if has_flag b 0x80 then
               let (p, rx, _) = pcan_handle_busoff (pdev dev) stack in (dev\<lparr>pdev := p\<rparr>, rx)
             else
               let (p, rx, r) = pcan_handle_error_status (pdev dev) stack (has_flag b 0x40) (has_flag b 0x20);
                   dev = dev\<lparr>pdev := p\<rparr>
               in if r = 0 then ucan_error_active wrt dev rx else (dev, rx))
      in if msg_type (rx_msg rx) = PCANFD_TYPE_NOP then (dev, 0)
         else let (p, err) = post_rx now drv (pdev dev) (put_hwtv ptv rx) in (dev\<lparr>pdev := p\<rparr>, err))"

text \<open>The product of the bus load has the width of an \<^verbatim>\<open>unsigned long\<close>; it fits.\<close>

definition ucan_handle_bus_load :: "mem \<Rightarrow> nat \<Rightarrow> pcandev \<Rightarrow> pcandev \<times> int" where
  "ucan_handle_bus_load mem bl dev =
     (dev\<lparr>bus_load := int (10000 * unat (rd16 mem (bl + 14)) div 2 ^ 12)\<rparr>, 0)"

definition ucan_post_bus_load_msg ::
  "timeval \<Rightarrow> timeval \<Rightarrow> mem \<Rightarrow> nat \<Rightarrow> pcan_timeval option \<Rightarrow> pcandev \<Rightarrow> pcandev \<times> int" where
  "ucan_post_bus_load_msg now drv mem bl ptv dev =
     (let rx = zero_rxmsg\<lparr>rx_msg := zero_msg\<lparr>msg_type := PCANFD_TYPE_STATUS, msg_id := PCANFD_BUS_LOAD\<rparr>\<rparr>;
          (dev, _) = ucan_handle_bus_load mem bl dev
      in post_rx now drv dev (put_hwtv ptv rx))"

definition ucan_post_overflow_msg ::
  "timeval \<Rightarrow> timeval \<Rightarrow> pcan_timeval option \<Rightarrow> pcandev \<Rightarrow> pcandev \<times> int" where
  "ucan_post_overflow_msg now drv ptv dev =
     (let rx = zero_rxmsg\<lparr>rx_msg := zero_msg\<lparr>msg_type := PCANFD_TYPE_STATUS,
                 msg_flags := PCANFD_ERROR_CTRLR, msg_id := PCANFD_RX_OVERFLOW\<rparr>\<rparr>;
          dev = dev\<lparr>dwErrorCounter := dwErrorCounter dev + 1\<rparr>
      in if has_flag (wCANStatus dev) CAN_ERR_QOVERRUN then (dev, 0)
         else post_rx now drv (dev\<lparr>wCANStatus := set_flag (wCANStatus dev) CAN_ERR_QOVERRUN\<rparr>) (put_hwtv ptv rx))"

section \<open>The dispatcher\<close>

text \<open>Whom a record is for: nobody (\<open>Stop\<close> ends the list, \<open>Skip\<close> goes on), a channel, the USB
  interface, or the adapter.\<close>

datatype msg_dest = Stop | Skip | Chan nat | Iface | Adapter

definition msg_target :: "bool \<Rightarrow> mem \<Rightarrow> nat \<Rightarrow> msg_dest" where
  "msg_target usb_if mem msg =
     (let ty = rd16 mem (msg + 2); ch = \<lambda>off. Chan (unat (mem (msg + off) AND 0x0f))
      in if ty = UCAN_MSG_CAN_RX then ch 20
         else if ty = UCAN_MSG_ERROR \<or> ty = UCAN_MSG_STATUS \<or> ty = UCAN_MSG_BUSLOAD \<or> ty = UCAN_USB_MSG_OVERRUN
         then ch 12
         else if ty = UCAN_CMD_END_OF_COLLECTION \<or> ty = 0xffff then Stop
         else if ty = UCAN_USB_MSG_CALIBRATION then (if usb_if then Iface else Skip)
         else Adapter)"

definition msg_cb :: "'d ucan_ops \<Rightarrow> u16 \<Rightarrow> 'd msg_handler option" where
  "msg_cb ops ty =
     (if unat ty < handle_msg_size ops then handle_msg_table ops (unat ty) else handle_private_msg ops)"

definition ucan_handle_msg :: "bool \<Rightarrow> 'd ucan_ops \<Rightarrow> mem \<Rightarrow> nat \<Rightarrow> 'd list \<Rightarrow> 'd list \<times> int" where
  "ucan_handle_msg usb_if ops mem msg devs =
     (let msg_size = int (unat (rd16 mem msg)); ty = rd16 mem (msg + 2)
      in if rd16 mem msg = 0 \<or> ty = 0 then (devs, msg_size)
         else
           let run = (\<lambda>arg. case msg_cb ops ty of
                 None \<Rightarrow> (devs, - EBADMSG)
               | Some cb \<Rightarrow> (let (devs, err) = cb mem msg arg devs
                             in (devs, if err < 0 then err else msg_size)))
           in case msg_target usb_if mem msg of
                Stop \<Rightarrow> (devs, 0)
              | Skip \<Rightarrow> (devs, msg_size)
              | Chan ci \<Rightarrow> (if msg_cb ops ty \<noteq> None \<and> length devs \<le> ci then (devs, msg_size) else run (Arg_dev ci))
              | Iface \<Rightarrow> run Arg_if
              | Adapter \<Rightarrow> run Arg_null)"

text \<open>The loop over a buffer of \<open>len\<close> bytes; every turn that goes on advances by at least 4 bytes.
  The result is the position and the size of the last record, or the error.\<close>

function msgs_buffer_loop ::
  "bool \<Rightarrow> 'd ucan_ops \<Rightarrow> mem \<Rightarrow> nat \<Rightarrow> nat \<Rightarrow> int \<Rightarrow> 'd list \<Rightarrow> 'd list \<times> nat \<times> int" where
  "msgs_buffer_loop usb_if ops mem len ptr msg_size devs =
     (if ptr < len then
        let r = ucan_handle_msg usb_if ops mem ptr devs
        in if snd r \<le> 0 then (fst r, ptr, snd r)
           else msgs_buffer_loop usb_if ops mem len (ptr + align4 (nat (snd r))) (snd r) (fst r)
      else (devs, ptr, msg_size))"
  by pat_completeness auto

termination
proof (relation "measure (\<lambda>(_, _, _, len, ptr, _, _). len - ptr)")
  fix usb_if and ops :: "'d ucan_ops" and mem len ptr msg_size devs and x :: "'d list \<times> int"
  assume "ptr < len" "x = ucan_handle_msg usb_if ops mem ptr devs" "\<not> snd x \<le> 0"
  then show "((usb_if, ops, mem, len, ptr + align4 (nat (snd x)), snd x, fst x), usb_if, ops, mem, len, ptr, msg_size, devs)
      \<in> measure (\<lambda>(_, _, _, len, ptr, _, _). len - ptr)"
    using align4_pos [of "nat (snd x)"] by simp
qed simp

declare msgs_buffer_loop.simps [simp del]

definition ucan_handle_msgs_buffer ::
  "bool \<Rightarrow> 'd ucan_ops \<Rightarrow> mem \<Rightarrow> nat \<Rightarrow> 'd list \<Rightarrow> 'd list \<times> int" where
  "ucan_handle_msgs_buffer usb_if ops mem msg_len devs =
     (let (devs, ptr, msg_size) = msgs_buffer_loop usb_if ops mem msg_len 0 0 devs;
          msg_size = (if msg_len < ptr then - EBADMSG else msg_size)
      in (devs, if msg_size < 0 then msg_size else 0))"

fun msgs_list_loop ::
  "bool \<Rightarrow> 'd ucan_ops \<Rightarrow> mem \<Rightarrow> nat \<Rightarrow> nat \<Rightarrow> nat \<Rightarrow> int \<Rightarrow> 'd list \<Rightarrow> 'd list \<times> nat \<times> int" where
  "msgs_list_loop usb_if ops mem 0 i ptr msg_size devs = (devs, i, msg_size)"
| "msgs_list_loop usb_if ops mem (Suc k) i ptr msg_size devs =
     (let (devs, msg_size) = ucan_handle_msg usb_if ops mem ptr devs
      in if msg_size \<le> 0 then (devs, i, msg_size)
         else let msg_size = align4 (nat msg_size)
              in msgs_list_loop usb_if ops mem k (i + 1) (ptr + msg_size) (int msg_size) devs)"

definition ucan_handle_msgs_list ::
  "bool \<Rightarrow> 'd ucan_ops \<Rightarrow> mem \<Rightarrow> nat \<Rightarrow> nat \<Rightarrow> 'd list \<Rightarrow> 'd list \<times> nat \<times> int" where
  "ucan_handle_msgs_list usb_if ops mem msg_addr msg_count devs =
     (let (devs, i, msg_size) = msgs_list_loop usb_if ops mem msg_count 0 msg_addr 0 devs
      in (devs, i, if msg_size < 0 then msg_size else 0))"

text \<open>A handler works on the channel it is given; the dispatcher never calls it without one.\<close>

definition on_chan :: "('d \<Rightarrow> 'd \<times> int) \<Rightarrow> ucan_arg \<Rightarrow> 'd list \<Rightarrow> 'd list \<times> int" where
  "on_chan f arg devs =
     (case arg of Arg_dev ci \<Rightarrow> (let (d, err) = f (devs ! ci) in (devs[ci := d], err)) | _ \<Rightarrow> (devs, 0))"

section \<open>Encoding the transmit queue\<close>

definition tx_flags :: "pcanfd_msg \<Rightarrow> u16" where
  "tx_flags m =
     (let fl = (if has_flag (msg_flags m) PCANFD_MSG_EXT then UCAN_MSG_EXT_ID else 0);
          fl = (if has_flag (msg_flags m) PCANFD_MSG_SLF then set_flag fl UCAN_MSG_HW_SRR
                else if has_flag (msg_flags m) PCANFD_MSG_ECHO then set_flag fl (UCAN_MSG_HW_SRR OR UCAN_MSG_API_SRR)
                else fl);
          fl = (if has_flag (msg_flags m) PCANFD_MSG_SNG then set_flag fl UCAN_MSG_SINGLE_SHOT else fl)
      in if msg_type m = PCANFD_TYPE_CANFD_MSG then
           (let fl = set_flag fl UCAN_MSG_EXT_DATA_LEN;
                fl = (if has_flag (msg_flags m) PCANFD_MSG_BRS then set_flag fl UCAN_MSG_BITRATE_SWITCH else fl)
            in if has_flag (msg_flags m) PCANFD_MSG_ESI then set_flag fl UCAN_MSG_ERROR_STATE_IND else fl)
         else if msg_type m = PCANFD_TYPE_CAN20_MSG then
           (if has_flag (msg_flags m) PCANFD_MSG_RTR then set_flag fl UCAN_MSG_RTR else fl)
         else fl)"

text \<open>Writing the record of a message at \<open>a\<close>: the area is cleared, then the fields are stored. The
  first two are the type and the size.\<close>

definition write_tx_record :: "int \<Rightarrow> u8 \<Rightarrow> nat \<Rightarrow> pcanfd_msg \<Rightarrow> nat \<Rightarrow> mem \<Rightarrow> mem" where
  "write_tx_record ch dlc sz m a mem =
     (let mem = wr mem a (replicate sz 0);
          mem = wr mem (a + 2) (le16 UCAN_MSG_CAN_TX);
          mem = wr mem (a + 0) (le16 (of_nat sz));
          mem = wr mem (a + 16) (le32 (msg_id m AND (if has_flag (msg_flags m) PCANFD_MSG_EXT then CAN_EFF_MASK else CAN_SFF_MASK)));
          mem = wr mem (a + 12) [(of_int ch AND 0xf) OR push_bit 4 dlc];
          mem = wr mem (a + 14) (le16 (tx_flags m))
      in wr mem (a + 20) (take (unat (data_len m)) (msg_data m)))"

definition write_tx_pause :: "u32 \<Rightarrow> nat \<Rightarrow> mem \<Rightarrow> mem" where
  "write_tx_pause delay p mem =
     (let mem = wr mem (p + 2) (le16 UCAN_MSG_CAN_TX_PAUSE);
          mem = wr mem (p + 0) (le16 8);
          mem = wr mem (p + 4) (le16 (ucast delay))
      in wr mem (p + 6) (le16 0))"

definition ucan_encode_msg :: "pcandev \<Rightarrow> mem \<Rightarrow> nat \<Rightarrow> nat \<Rightarrow> pcandev \<times> mem \<times> int" where
  "ucan_encode_msg dev mem buffer_addr buffer_size =
     (case pcan_fifo_peek (writeFifo dev) of
        (err, None) \<Rightarrow> (dev, mem, err)
      | (err, Some tx) \<Rightarrow>
          (let m = tx_msg tx;
               dlc = pcan_len2dlc (ucast (data_len m));
               tx_msg_size = align4 (20 + unat (pcan_dlc2len dlc));
               needed = (if tx_iframe_delay_us dev \<noteq> 0 then tx_msg_size + align4 8 else tx_msg_size)
           in if buffer_size < needed then (dev, mem, - ENOSPC)
              else
                let dev = dev\<lparr>writeFifo := fst (pcan_fifo_get False (writeFifo dev))\<rparr>;
                    mem = write_tx_record (nChannel dev) dlc tx_msg_size m buffer_addr mem
                in if tx_iframe_delay_us dev \<noteq> 0 then
                     (let dev = (if UCAN_TXPAUSE_DELAY_MAX < tx_iframe_delay_us dev
                                 then dev\<lparr>tx_iframe_delay_us := UCAN_TXPAUSE_DELAY_MAX\<rparr> else dev)
                      in (dev, write_tx_pause (tx_iframe_delay_us dev) (buffer_addr + tx_msg_size) mem, int needed))
                   else (dev, mem, int needed)))"

lemma encode_msg_pos:
  assumes "ucan_encode_msg dev mem a n = (dev', mem', err)" "0 \<le> err"
  shows "20 \<le> err"
proof (cases "pcan_fifo_peek (writeFifo dev)")
  case (Pair e t)
  have "20 \<le> int (align4 (20 + k))" "20 \<le> int (align4 (20 + k) + align4 8)" for k
    using align4_bounds [of "20 + k"] by linarith+
  then show ?thesis using assms Pair
    by (auto simp: ucan_encode_msg_def Let_def pcan_fifo_peek_def split: if_splits)
qed

text \<open>The loop that fills a buffer: a message that took no room would be encoded again at the same
  place, which does not happen.\<close>

function encode_loop :: "pcandev \<Rightarrow> mem \<Rightarrow> nat \<Rightarrow> nat \<Rightarrow> nat \<Rightarrow> nat \<Rightarrow> int \<Rightarrow> pcandev \<times> mem \<times> nat \<times> nat \<times> int" where
  "encode_loop dev mem a buffer_size msg_len msg_count err =
     (if msg_len < buffer_size then
        let r = ucan_encode_msg dev mem (a + msg_len) (buffer_size - msg_len)
        in if snd (snd r) < 0 then (fst r, fst (snd r), msg_len, msg_count, snd (snd r))
           else if snd (snd r) = 0 then encode_loop (fst r) (fst (snd r)) a buffer_size msg_len msg_count (snd (snd r))
           else encode_loop (fst r) (fst (snd r)) a buffer_size (msg_len + nat (snd (snd r))) (msg_count + 1) (snd (snd r))
      else (dev, mem, msg_len, msg_count, err))"
  by pat_completeness auto

termination
proof (relation "measure (\<lambda>(_, _, _, buffer_size, msg_len, _, _). buffer_size - msg_len)")
  fix dev mem and a buffer_size msg_len msg_count :: nat and err :: int and r
  assume r: "msg_len < buffer_size" "r = ucan_encode_msg dev mem (a + msg_len) (buffer_size - msg_len)" "\<not> snd (snd r) < 0"
  have "20 \<le> snd (snd r)"
    using encode_msg_pos [of dev mem "a + msg_len" "buffer_size - msg_len" "fst r" "fst (snd r)" "snd (snd r)"] r(2,3) by simp
  then show "snd (snd r) = 0 \<Longrightarrow> ((fst r, fst (snd r), a, buffer_size, msg_len, msg_count, snd (snd r)), dev, mem, a, buffer_size, msg_len, msg_count, err)
      \<in> measure (\<lambda>(_, _, _, buffer_size, msg_len, _, _). buffer_size - msg_len)"
    and "((fst r, fst (snd r), a, buffer_size, msg_len + nat (snd (snd r)), msg_count + 1, snd (snd r)), dev, mem, a, buffer_size, msg_len, msg_count, err)
      \<in> measure (\<lambda>(_, _, _, buffer_size, msg_len, _, _). buffer_size - msg_len)"
    using r(1) by auto
qed simp

declare encode_loop.simps [simp del]

definition ucan_encode_msgs_buffer :: "pcandev \<Rightarrow> mem \<Rightarrow> nat \<Rightarrow> nat \<Rightarrow> pcandev \<times> mem \<times> nat \<times> int" where
  "ucan_encode_msgs_buffer dev mem buffer_addr buffer_size =
     (let (dev, mem, msg_len, msg_count, err) = encode_loop dev mem buffer_addr buffer_size 0 0 0
      in if msg_len = 0 then (dev, mem, 0, - ENODATA)
         else
           let (mem, msg_len) = (if msg_len < buffer_size then (wr mem (buffer_addr + msg_len) (le32 0), msg_len + 4)
                                 else (mem, msg_len));
               dev = dev\<lparr>tx_frames_counter := tx_frames_counter dev + of_nat msg_count\<rparr>
           in (dev, mem, msg_len, if err = 0 then int msg_count else err))"

section \<open>Specification of the transmit records\<close>

definition tx_record :: "int \<Rightarrow> pcanfd_msg \<Rightarrow> u8 list" where
  "tx_record ch m =
     (let n = unat (data_len m); dlc = pcan_len2dlc (ucast (data_len m));
          sz = align4 (20 + unat (pcan_dlc2len dlc))
      in le16 (of_nat sz) @ le16 UCAN_MSG_CAN_TX @ replicate 8 0 @ [(of_int ch AND 0xf) OR push_bit 4 dlc, 0]
         @ le16 (tx_flags m)
         @ le32 (msg_id m AND (if has_flag (msg_flags m) PCANFD_MSG_EXT then CAN_EFF_MASK else CAN_SFF_MASK))
         @ take n (msg_data m) @ replicate (sz - 20 - n) 0)"

definition pause_record :: "u32 \<Rightarrow> u8 list" where
  "pause_record delay = le16 8 @ le16 UCAN_MSG_CAN_TX_PAUSE @ le16 (ucast delay) @ le16 0"

definition tx_bytes :: "int \<Rightarrow> u32 \<Rightarrow> pcanfd_msg \<Rightarrow> u8 list" where
  "tx_bytes ch delay m = tx_record ch m @ (if delay = 0 then [] else pause_record (min delay UCAN_TXPAUSE_DELAY_MAX))"

text \<open>The messages the requests of a task accept: at most 64 bytes of data.\<close>

definition msg_sane :: "pcanfd_msg \<Rightarrow> bool" where
  "msg_sane m \<longleftrightarrow> length (msg_data m) = 64 \<and> unat (data_len m) \<le> 64"

text \<open>How many records fit into \<open>n\<close> bytes.\<close>

fun fitting :: "nat \<Rightarrow> 'a list list \<Rightarrow> nat" where
  "fitting n [] = 0"
| "fitting n (r # rs) = (if n < length r then 0 else Suc (fitting (n - length r) rs))"

section \<open>Lemmas on the transmit records\<close>

lemma wr_patch: "off + length bs \<le> length c \<Longrightarrow> wr (wr m a c) (a + off) bs = wr m a (patch off bs c)"
  by (rule ext) (auto simp: wr_def patch_def nth_append)

lemma wr_append: "wr (wr m a xs) (a + length xs) ys = wr m a (xs @ ys)"
  by (rule ext) (auto simp: wr_def nth_append)

lemma wr_Nil [simp]: "wr m a [] = m"
  by (rule ext) (auto simp: wr_def)

lemma length_patch [simp]: "off + length bs \<le> length c \<Longrightarrow> length (patch off bs c) = length c"
  by (simp add: patch_def)

lemma patch_left: "off + length bs \<le> length xs \<Longrightarrow> patch off bs (xs @ ys) = patch off bs xs @ ys"
  by (simp add: patch_def)

lemma patch_right: "patch (length xs) bs (xs @ ys) = xs @ patch 0 bs ys"
  by (simp add: patch_def)

lemma tx_size_bounds:
  assumes "msg_sane m"
  shows "20 + unat (data_len m) \<le> align4 (20 + unat (pcan_dlc2len (pcan_len2dlc (ucast (data_len m)))))"
proof -
  have u: "unat (ucast (data_len m) :: u8) = unat (data_len m)"
    using assms by (simp add: msg_sane_def unsigned_ucast_eq take_bit_nat_eq_self)
  then show ?thesis
    using dlc2len_len2dlc [of "ucast (data_len m)"] assms
      align4_bounds [of "20 + unat (pcan_dlc2len (pcan_len2dlc (ucast (data_len m))))"]
    by (simp add: msg_sane_def)
qed

lemma length_tx_record [simp]:
  "msg_sane m \<Longrightarrow> length (tx_record ch m) = align4 (20 + unat (pcan_dlc2len (pcan_len2dlc (ucast (data_len m)))))"
  using tx_size_bounds [of m] by (simp add: tx_record_def Let_def msg_sane_def)

lemma length_pause_record [simp]: "length (pause_record d) = 8"
  by (simp add: pause_record_def)

lemma replicate_twenty: "replicate 20 x = [x, x, x, x, x, x, x, x, x, x, x, x, x, x, x, x, x, x, x, x]"
  by (simp add: eval_nat_numeral)

lemma replicate_eight: "replicate 8 x = [x, x, x, x, x, x, x, x]"
  by (simp add: eval_nat_numeral)

lemma write_tx_record_eq:
  fixes m defines "dlc \<equiv> pcan_len2dlc (ucast (data_len m))"
  defines "sz \<equiv> align4 (20 + unat (pcan_dlc2len dlc))"
  assumes "msg_sane m"
  shows "write_tx_record ch dlc sz m a mem = wr mem a (tx_record ch m)"
proof -
  let ?id = "msg_id m AND (if has_flag (msg_flags m) PCANFD_MSG_EXT then CAN_EFF_MASK else CAN_SFF_MASK)"
  let ?d = "take (unat (data_len m)) (msg_data m)"
  have sz: "20 + unat (data_len m) \<le> sz" using tx_size_bounds [OF assms(3)] by (simp add: sz_def dlc_def)
  have ld: "length ?d = unat (data_len m)" using assms(3) by (simp add: msg_sane_def)
  have z: "replicate sz 0 = replicate 20 (0 :: u8) @ replicate (sz - 20) 0"
    using sz by (simp flip: replicate_add)
  let ?h = "patch 14 (le16 (tx_flags m)) (patch 12 [(of_int ch AND 0xf) OR push_bit 4 dlc] (patch 16 (le32 ?id)
    (patch 0 (le16 (of_nat sz)) (patch 2 (le16 UCAN_MSG_CAN_TX) (replicate 20 0)))))"
  have "write_tx_record ch dlc sz m a mem = wr mem a (patch 20 ?d (?h @ replicate (sz - 20) 0))"
    using sz ld by (simp add: write_tx_record_def Let_def wr_patch z patch_left split del: if_split
      del: replicate_add add_2_eq_Suc' Nat.add_0_right add_0_right)
  also have "length ?h = 20" by simp
  then have "patch 20 ?d (?h @ replicate (sz - 20) 0) = ?h @ ?d @ replicate (sz - 20 - unat (data_len m)) 0"
    using patch_right [of ?h ?d "replicate (sz - 20) 0"] ld by (simp add: patch_def)
  also have "?h = le16 (of_nat sz) @ le16 UCAN_MSG_CAN_TX @ replicate 8 0 @ [(of_int ch AND 0xf) OR push_bit 4 dlc, 0]
      @ le16 (tx_flags m) @ le32 ?id"
    by (simp add: patch_def le16_def le32_def replicate_twenty replicate_eight)
  finally show ?thesis by (simp add: tx_record_def Let_def sz_def dlc_def)
qed

lemma write_tx_pause_eq: "write_tx_pause d p mem = wr mem p (pause_record d)"
proof -
  have "write_tx_pause d p mem = wr (wr (wr (wr mem (p + 2) (le16 0x1002)) (p + 0) (le16 8)) (p + 4) (le16 (ucast d))) (p + 6) (le16 0)"
    by (simp add: write_tx_pause_def Let_def)
  also have "\<dots> = wr mem p (pause_record d)"
  proof (rule ext)
    fix x
    consider "x < p" | "x = p" | "x = p + 1" | "x = p + 2" | "x = p + 3" | "x = p + 4" | "x = p + 5" | "x = p + 6"
      | "x = p + 7" | "p + 8 \<le> x" by linarith
    then show "wr (wr (wr (wr mem (p + 2) (le16 0x1002)) (p + 0) (le16 8)) (p + 4) (le16 (ucast d))) (p + 6) (le16 0) x =
      wr mem p (pause_record d) x"
      by cases (simp_all add: wr_def pause_record_def le16_def)
  qed
  finally show ?thesis .
qed

lemma fifo_peek_item:
  assumes "fifo_inv f" "fifo_items f = x # xs"
  shows "pcan_fifo_peek f = (0, Some x)"
  using fifo_get_item [OF assms, of True] by (auto simp: pcan_fifo_peek_def pcan_fifo_get_def split: if_splits)

lemma fifo_peek_none: "fifo_items f = [] \<Longrightarrow> pcan_fifo_peek f = (- ENODATA, None)"
  using fifo_get_none [of f True] by (auto simp: pcan_fifo_peek_def pcan_fifo_get_def split: if_splits)

definition clamp_delay :: "u32 \<Rightarrow> u32" where
  "clamp_delay d = min d UCAN_TXPAUSE_DELAY_MAX"

lemma clamp_delay_simps [simp]:
  "clamp_delay (clamp_delay d) = clamp_delay d" "clamp_delay d = 0 \<longleftrightarrow> d = 0" "clamp_delay 0 = 0"
  "tx_bytes ch (clamp_delay d) m = tx_bytes ch d m"
  by (auto simp: clamp_delay_def tx_bytes_def min_def)

lemma delay_same [simp]: "dev\<lparr>tx_iframe_delay_us := tx_iframe_delay_us dev\<rparr> = dev"
  by (cases dev) simp

text \<open>One message: it is taken from the queue exactly when its records fit.\<close>

lemma encode_peek:
  assumes "pcan_fifo_peek (writeFifo dev) = (0, Some x)" "pcan_fifo_get False (writeFifo dev) = (w, 0, None)"
    and "msg_sane (tx_msg x)"
  defines "bs \<equiv> tx_bytes (nChannel dev) (tx_iframe_delay_us dev) (tx_msg x)"
  shows "ucan_encode_msg dev mem a n = (if n < length bs then (dev, mem, - ENOSPC)
    else (dev\<lparr>writeFifo := w, tx_iframe_delay_us := clamp_delay (tx_iframe_delay_us dev)\<rparr>, wr mem a bs, int (length bs)))"
proof -
  let ?dlc = "pcan_len2dlc (ucast (data_len (tx_msg x)))"
  let ?sz = "align4 (20 + unat (pcan_dlc2len ?dlc))" and ?d = "tx_iframe_delay_us dev"
  let ?r = "tx_record (nChannel dev) (tx_msg x)"
  have rec: "write_tx_record (nChannel dev) ?dlc ?sz (tx_msg x) a mem = wr mem a ?r"
    by (rule write_tx_record_eq [OF assms(3)])
  have al: "align4 8 = 8" by (simp add: align4_def)
  have ap: "wr (wr mem a ?r) (a + ?sz) ys = wr mem a (?r @ ys)" for ys
    using wr_append [of mem a ?r ys] assms(3) by simp
  show ?thesis
  proof (cases "?d = 0")
    case True
    then have "bs = ?r" "length bs = ?sz" "clamp_delay ?d = ?d" using assms(3) by (simp_all add: bs_def tx_bytes_def)
    then show ?thesis using True assms(1,2) rec
      by (simp add: ucan_encode_msg_def Let_def)
  next
    case False
    then have bs: "bs = ?r @ pause_record (clamp_delay ?d)" "length bs = ?sz + 8"
      using assms(3) by (simp_all add: bs_def tx_bytes_def clamp_delay_def)
    show ?thesis
    proof (cases "UCAN_TXPAUSE_DELAY_MAX < ?d")
      case True
      then have "clamp_delay ?d = UCAN_TXPAUSE_DELAY_MAX" unfolding clamp_delay_def by (rule min.absorb4)
      then show ?thesis using False True assms(1,2) rec bs ap
        by (simp add: ucan_encode_msg_def Let_def al write_tx_pause_eq)
    next
      case small: False
      then have "clamp_delay ?d = ?d" by (simp add: clamp_delay_def min_absorb1)
      then show ?thesis using False small assms(1,2) rec bs ap
        by (simp add: ucan_encode_msg_def Let_def al write_tx_pause_eq)
    qed
  qed
qed

lemma encode_item:
  assumes "ring_inv (writeFifo dev)" "fifo_items (writeFifo dev) = x # xs" "msg_sane (tx_msg x)"
  obtains w where "ring_inv w" "fifo_items w = xs"
    "\<And>n mem a. ucan_encode_msg dev mem a n =
       (if n < length (tx_bytes (nChannel dev) (tx_iframe_delay_us dev) (tx_msg x)) then (dev, mem, - ENOSPC)
        else (dev\<lparr>writeFifo := w, tx_iframe_delay_us := clamp_delay (tx_iframe_delay_us dev)\<rparr>,
              wr mem a (tx_bytes (nChannel dev) (tx_iframe_delay_us dev) (tx_msg x)),
              int (length (tx_bytes (nChannel dev) (tx_iframe_delay_us dev) (tx_msg x)))))"
proof -
  have fi: "fifo_inv (writeFifo dev)" using assms(1) by (simp add: ring_inv_def)
  obtain w where w: "pcan_fifo_get False (writeFifo dev) = (w, 0, None)" "ring_inv w" "fifo_items w = xs"
    using fifo_get_item [OF fi assms(2), of False] assms(1) by (auto simp: ring_inv_def)
  show ?thesis by (rule that [OF w(2,3) encode_peek [OF fifo_peek_item [OF fi assms(2)] w(1) assms(3)]])
qed

lemma encode_empty: "fifo_items (writeFifo dev) = [] \<Longrightarrow> ucan_encode_msg dev mem a n = (dev, mem, - ENODATA)"
  by (simp add: ucan_encode_msg_def fifo_peek_none)

text \<open>What the loop does: as many messages as fit are written, in order. \<open>rs\<close> are the records of
  the queue.\<close>

definition encoded ::
  "pcandev \<Rightarrow> mem \<Rightarrow> nat \<Rightarrow> nat \<Rightarrow> nat \<Rightarrow> nat \<Rightarrow> int \<Rightarrow> u8 list list \<Rightarrow> pcandev \<times> mem \<times> nat \<times> nat \<times> int \<Rightarrow> bool" where
  "encoded dev mem a n l c err rs r \<longleftrightarrow>
     (\<exists>w d e. let k = fitting (n - l) rs; bs = concat (take k rs) in
        r = (dev\<lparr>writeFifo := w, tx_iframe_delay_us := d\<rparr>, wr mem (a + l) bs, l + length bs, c + k, e) \<and>
        ring_inv w \<and> fifo_items w = drop k (fifo_items (writeFifo dev)) \<and>
        d = (if k = 0 then tx_iframe_delay_us dev else clamp_delay (tx_iframe_delay_us dev)) \<and>
        (l + length bs < n \<longrightarrow> e = (if k = length rs then - ENODATA else - ENOSPC)) \<and>
        (l + length bs = n \<longrightarrow> (if k = 0 then e = err else 0 < e)))"

lemma same_dev: "dev\<lparr>writeFifo := writeFifo dev, tx_iframe_delay_us := tx_iframe_delay_us dev\<rparr> = dev"
  by (cases dev) simp

lemma encoded_stop:
  assumes "fitting (n - l) rs = 0" "ring_inv (writeFifo dev)" "l < n \<longrightarrow> e = (if rs = [] then - ENODATA else - ENOSPC)"
    and "l = n \<longrightarrow> e = err"
  shows "encoded dev mem a n l c err rs (dev, mem, l, c, e)"
  unfolding encoded_def assms(1) Let_def
  using assms(2-4)
  by (intro exI [of _ "writeFifo dev"] exI [of _ "tx_iframe_delay_us dev"] exI [of _ e]) (simp add: same_dev)

lemma encoded_more:
  assumes "encoded (dev\<lparr>writeFifo := w, tx_iframe_delay_us := clamp_delay (tx_iframe_delay_us dev)\<rparr>)
      (wr mem (a + l) b) a n (l + length b) (c + 1) (int (length b)) rs r"
    and "length b \<le> n - l" "0 < length b" "fifo_items (writeFifo dev) = x # fifo_items w"
  shows "encoded dev mem a n l c err (b # rs) r"
proof -
  let ?k = "fitting (n - (l + length b)) rs"
  let ?bs = "concat (take ?k rs)"
  obtain w' d e where ih: "r = (dev\<lparr>writeFifo := w, tx_iframe_delay_us := clamp_delay (tx_iframe_delay_us dev)\<rparr>
      \<lparr>writeFifo := w', tx_iframe_delay_us := d\<rparr>, wr (wr mem (a + l) b) (a + (l + length b)) ?bs,
      l + length b + length ?bs, c + 1 + ?k, e)" "ring_inv w'"
    and it: "fifo_items w' = drop ?k (fifo_items (writeFifo
      (dev\<lparr>writeFifo := w, tx_iframe_delay_us := clamp_delay (tx_iframe_delay_us dev)\<rparr>)))"
    and d: "d = (if ?k = 0 then tx_iframe_delay_us (dev\<lparr>writeFifo := w, tx_iframe_delay_us := clamp_delay (tx_iframe_delay_us dev)\<rparr>)
      else clamp_delay (tx_iframe_delay_us (dev\<lparr>writeFifo := w, tx_iframe_delay_us := clamp_delay (tx_iframe_delay_us dev)\<rparr>)))"
    and e: "l + length b + length ?bs < n \<longrightarrow> e = (if ?k = length rs then - ENODATA else - ENOSPC)"
    "l + length b + length ?bs = n \<longrightarrow> (if ?k = 0 then e = int (length b) else 0 < e)"
    using assms(1) unfolding encoded_def Let_def by (elim exE conjE)
  have k: "fitting (n - l) (b # rs) = Suc ?k" using assms(2) by (simp add: diff_diff_left)
  have m: "wr (wr mem (a + l) b) (a + (l + length b)) ?bs = wr mem (a + l) (b @ ?bs)"
    using wr_append [of mem "a + l" b ?bs] by (simp add: add.assoc)
  have bs: "concat (take (Suc ?k) (b # rs)) = b @ ?bs" by simp
  have e': "l + length b + length ?bs = n \<longrightarrow> 0 < e" using e(2) assms(3) by (auto split: if_splits)
  show ?thesis
    unfolding encoded_def k Let_def bs
  proof (intro exI [of _ w'] exI [of _ d] exI [of _ e] conjI)
    show "r = (dev\<lparr>writeFifo := w', tx_iframe_delay_us := d\<rparr>, wr mem (a + l) (b @ ?bs), l + length (b @ ?bs), c + Suc ?k, e)"
      unfolding ih(1) m by simp
    show "fifo_items w' = drop (Suc ?k) (fifo_items (writeFifo dev))" using it assms(4) by simp
    show "l + length (b @ ?bs) < n \<longrightarrow> e = (if Suc ?k = length (b # rs) then - ENODATA else - ENOSPC)"
      using e(1) by (simp add: add.assoc)
    show "l + length (b @ ?bs) = n \<longrightarrow> (if Suc ?k = 0 then e = err else 0 < e)" using e' by (simp add: add.assoc)
  qed (use ih(2) d in simp_all)
qed

lemma encode_loop_ok:
  assumes "ring_inv (writeFifo dev)" "list_all (\<lambda>x. msg_sane (tx_msg x)) (fifo_items (writeFifo dev))" "l \<le> n"
  shows "encoded dev mem a n l c err
     (map (\<lambda>x. tx_bytes (nChannel dev) (tx_iframe_delay_us dev) (tx_msg x)) (fifo_items (writeFifo dev)))
     (encode_loop dev mem a n l c err)"
  using assms
proof (induction "fifo_items (writeFifo dev)" arbitrary: dev mem l c err)
  case Nil
  note it = Nil.hyps [symmetric]
  have "encode_loop dev mem a n l c err = (dev, mem, l, c, if l < n then - ENODATA else err)"
    using encode_empty [OF it] by (subst encode_loop.simps) (simp add: Let_def)
  then show ?case using Nil.prems it by (simp add: encoded_stop)
next
  case (Cons x xs)
  let ?f = "\<lambda>x. tx_bytes (nChannel dev) (tx_iframe_delay_us dev) (tx_msg x)"
  note it = Cons.hyps(2) [symmetric]
  have sane: "msg_sane (tx_msg x)" using Cons.prems(2) by (simp add: it)
  have pos: "0 < length (?f x)"
    using align4_bounds [of "20 + unat (pcan_dlc2len (pcan_len2dlc (ucast (data_len (tx_msg x)))))"] sane
    by (simp add: tx_bytes_def)
  obtain w where w: "ring_inv w" "fifo_items w = xs"
    and en: "\<And>n mem a. ucan_encode_msg dev mem a n = (if n < length (?f x) then (dev, mem, - ENOSPC)
        else (dev\<lparr>writeFifo := w, tx_iframe_delay_us := clamp_delay (tx_iframe_delay_us dev)\<rparr>, wr mem a (?f x), int (length (?f x))))"
    using encode_item [OF Cons.prems(1) it sane] by blast
  let ?dev = "dev\<lparr>writeFifo := w, tx_iframe_delay_us := clamp_delay (tx_iframe_delay_us dev)\<rparr>"
  show ?case
  proof (cases "n - l < length (?f x)")
    case True
    have "encode_loop dev mem a n l c err = (dev, mem, l, c, if l < n then - ENOSPC else err)"
      using en True by (subst encode_loop.simps) (simp add: Let_def)
    then show ?thesis using Cons.prems it True by (simp add: encoded_stop)
  next
    case False
    then have "l < n" using pos by linarith
    then have step: "encode_loop dev mem a n l c err =
        encode_loop ?dev (wr mem (a + l) (?f x)) a n (l + length (?f x)) (c + 1) (int (length (?f x)))"
      using en pos False by (subst encode_loop.simps) (simp add: Let_def)
    have "encoded ?dev (wr mem (a + l) (?f x)) a n (l + length (?f x)) (c + 1) (int (length (?f x))) (map ?f xs)
        (encode_loop dev mem a n l c err)"
      using Cons.hyps(1) [of ?dev "l + length (?f x)"] w Cons.prems(2,3) False it step by simp
    then show ?thesis using encoded_more [of dev w mem a l "?f x" n c "map ?f xs"] False pos it w(2) by simp
  qed
qed

lemma fitting_le: "fitting n rs \<le> length rs"
  by (induction n rs rule: fitting.induct) auto

lemma fitting_bound: "length (concat (take (fitting n rs) rs)) \<le> n"
  by (induction n rs rule: fitting.induct) (auto simp del: length_concat)

lemma fitting_max: "fitting n rs < length rs \<Longrightarrow> n < length (concat (take (Suc (fitting n rs)) rs))"
  by (induction n rs rule: fitting.induct) (auto simp del: length_concat split: if_splits)

lemma tx_bytes_dvd: "msg_sane m \<Longrightarrow> 4 dvd length (tx_bytes ch d m)"
  by (simp add: tx_bytes_def)

lemma concat_dvd: "(\<And>r. r \<in> set rs \<Longrightarrow> 4 dvd length r) \<Longrightarrow> 4 dvd length (concat rs)"
  by (induction rs) auto

lemma tx_records_dvd:
  "list_all (\<lambda>x. msg_sane (tx_msg x)) xs \<Longrightarrow>
    4 dvd length (concat (take k (map (\<lambda>x. tx_bytes ch d (tx_msg x)) xs)))"
  by (rule concat_dvd) (auto simp: list_all_iff dest!: in_set_takeD intro!: tx_bytes_dvd)

lemma has_flag_set_flag: "has_flag (set_flag x m) k \<longleftrightarrow> has_flag x k \<or> has_flag m k"
  by (auto simp: has_flag_def set_flag_def word_ao_dist or_eq_0_iff)

lemma has_flag_if: "has_flag (if b then x else y) k \<longleftrightarrow> (if b then has_flag x k else has_flag y k)"
  by simp

lemma has_flag_numeral:
  "has_flag (numeral a :: 'a::len word) (numeral b) \<longleftrightarrow> (numeral a :: 'a word) AND numeral b \<noteq> 0"
  "has_flag (1 :: 'a::len word) (numeral b) \<longleftrightarrow> (1 :: 'a word) AND numeral b \<noteq> 0"
  "has_flag (numeral a :: 'a::len word) 1 \<longleftrightarrow> (numeral a :: 'a word) AND 1 \<noteq> 0" "has_flag (1 :: 'a::len word) 1"
  by (simp_all add: has_flag_def)

lemmas tx_flag_simps = tx_flags_def Let_def has_flag_if has_flag_set_flag has_flag_numeral

lemma tx_flags_bits:
  fixes m defines "f \<equiv> has_flag (msg_flags m)"
  shows "has_flag (tx_flags m) UCAN_MSG_EXT_ID \<longleftrightarrow> f PCANFD_MSG_EXT"
    "has_flag (tx_flags m) UCAN_MSG_HW_SRR \<longleftrightarrow> f PCANFD_MSG_SLF \<or> f PCANFD_MSG_ECHO"
    "has_flag (tx_flags m) UCAN_MSG_API_SRR \<longleftrightarrow> f PCANFD_MSG_ECHO \<and> \<not> f PCANFD_MSG_SLF"
    "has_flag (tx_flags m) UCAN_MSG_SINGLE_SHOT \<longleftrightarrow> f PCANFD_MSG_SNG"
    "has_flag (tx_flags m) UCAN_MSG_EXT_DATA_LEN \<longleftrightarrow> msg_type m = PCANFD_TYPE_CANFD_MSG"
    "has_flag (tx_flags m) UCAN_MSG_BITRATE_SWITCH \<longleftrightarrow> msg_type m = PCANFD_TYPE_CANFD_MSG \<and> f PCANFD_MSG_BRS"
    "has_flag (tx_flags m) UCAN_MSG_ERROR_STATE_IND \<longleftrightarrow> msg_type m = PCANFD_TYPE_CANFD_MSG \<and> f PCANFD_MSG_ESI"
    "has_flag (tx_flags m) UCAN_MSG_RTR \<longleftrightarrow> msg_type m = PCANFD_TYPE_CAN20_MSG \<and> f PCANFD_MSG_RTR"
  by (simp_all add: tx_flag_simps f_def)

subsection \<open>The received message\<close>

lemma or_flag_simps [simp]:
  "msg_type (or_flag b f m) = msg_type m" "data_len (or_flag b f m) = data_len m" "msg_id (or_flag b f m) = msg_id m"
  "msg_data (or_flag b f m) = msg_data m"
  by (simp_all add: or_flag_def)

lemma or_flag_has: "has_flag (msg_flags (or_flag b f m)) k \<longleftrightarrow> has_flag (msg_flags m) k \<or> b \<and> has_flag f k"
  by (simp add: or_flag_def has_flag_set_flag)

lemma put_hwtv_simps [simp]:
  "msg_type (rx_msg (put_hwtv t r)) = msg_type (rx_msg r)" "data_len (rx_msg (put_hwtv t r)) = data_len (rx_msg r)"
  "msg_id (rx_msg (put_hwtv t r)) = msg_id (rx_msg r)" "msg_data (rx_msg (put_hwtv t r)) = msg_data (rx_msg r)"
  by (simp_all add: put_hwtv_def split: option.splits)

lemma put_hwtv_has:
  "\<not> has_flag 0x03000000 k \<Longrightarrow> has_flag (msg_flags (rx_msg (put_hwtv t r))) k = has_flag (msg_flags (rx_msg r)) k"
  by (cases t) (simp_all add: put_hwtv_def or_flag_has)

lemma head_fields [simp]:
  "msg_data (canrx_head mem rm) = replicate 64 0"
  "msg_type (canrx_head mem rm) =
     (if has_flag (rd16 mem (rm + 22)) UCAN_MSG_EXT_DATA_LEN then PCANFD_TYPE_CANFD_MSG else PCANFD_TYPE_CAN20_MSG)"
  "data_len (canrx_head mem rm) =
     (if has_flag (rd16 mem (rm + 22)) UCAN_MSG_EXT_DATA_LEN then ucast (pcan_dlc2len (UCAN_MSG_DLC mem rm))
      else ucast (get_can_dlc (UCAN_MSG_DLC mem rm)))"
  by (simp_all add: canrx_head_def Let_def zero_msg_def)

lemma head_flags:
  "has_flag (msg_flags (canrx_head mem rm)) k \<longleftrightarrow> has_flag (rd16 mem (rm + 22)) UCAN_MSG_EXT_DATA_LEN \<and>
     (has_flag (rd16 mem (rm + 22)) UCAN_MSG_ERROR_STATE_IND \<and> has_flag PCANFD_MSG_ESI k \<or>
      has_flag (rd16 mem (rm + 22)) UCAN_MSG_BITRATE_SWITCH \<and> has_flag PCANFD_MSG_BRS k)"
  by (auto simp: canrx_head_def Let_def or_flag_has zero_msg_def)

lemma canrx_fields:
  fixes mem rm ptv defines "fl \<equiv> has_flag (rd16 mem (rm + 22))"
  defines "x \<equiv> rx_msg (canrx_msg mem rm ptv)"
  shows "msg_type x = (if fl UCAN_MSG_EXT_DATA_LEN then PCANFD_TYPE_CANFD_MSG else PCANFD_TYPE_CAN20_MSG)"
    "data_len x = (if fl UCAN_MSG_EXT_DATA_LEN then ucast (pcan_dlc2len (UCAN_MSG_DLC mem rm))
      else ucast (get_can_dlc (UCAN_MSG_DLC mem rm)))"
    "msg_id x = rd32 mem (rm + 24)"
    "msg_data x = (if fl UCAN_MSG_RTR then replicate 64 0
      else bytes mem (rm + 28) (unat (data_len x)) @ replicate (64 - unat (data_len x)) 0)"
  by (simp_all add: canrx_msg_def Let_def x_def fl_def)

lemma canrx_flags:
  fixes mem rm ptv defines "fl \<equiv> has_flag (rd16 mem (rm + 22))"
  defines "f \<equiv> has_flag (msg_flags (rx_msg (canrx_msg mem rm ptv)))"
  shows "f PCANFD_MSG_EXT \<longleftrightarrow> fl UCAN_MSG_EXT_ID" "f PCANFD_MSG_RTR \<longleftrightarrow> fl UCAN_MSG_RTR"
    "f PCANFD_MSG_ECHO \<longleftrightarrow> fl UCAN_MSG_HW_SRR \<and> fl UCAN_MSG_API_SRR"
    "f PCANFD_MSG_SLF \<longleftrightarrow> fl UCAN_MSG_HW_SRR \<and> \<not> fl UCAN_MSG_API_SRR"
    "f PCANFD_MSG_SNG \<longleftrightarrow> fl UCAN_MSG_SINGLE_SHOT"
    "f PCANFD_MSG_BRS \<longleftrightarrow> fl UCAN_MSG_EXT_DATA_LEN \<and> fl UCAN_MSG_BITRATE_SWITCH"
    "f PCANFD_MSG_ESI \<longleftrightarrow> fl UCAN_MSG_EXT_DATA_LEN \<and> fl UCAN_MSG_ERROR_STATE_IND"
  unfolding f_def fl_def canrx_msg_def Let_def
  by (simp_all add: or_flag_has put_hwtv_has head_flags has_flag_numeral)

subsection \<open>A record that comes back\<close>

text \<open>The device copies the channel and length code, the flags, the identifier and the data of a
  transmit record of \<open>n\<close> bytes at \<open>a\<close> into a receive record at \<open>rm\<close>.\<close>

definition echoes :: "mem \<Rightarrow> nat \<Rightarrow> nat \<Rightarrow> mem \<Rightarrow> nat \<Rightarrow> bool" where
  "echoes tx a n rx rm \<longleftrightarrow> rx (rm + 20) = tx (a + 12) \<and> bytes rx (rm + 22) 2 = bytes tx (a + 14) 2 \<and>
     bytes rx (rm + 24) 4 = bytes tx (a + 16) 4 \<and> bytes rx (rm + 28) (n - 20) = bytes tx (a + 20) (n - 20)"

lemma bytes_sub: "k + j \<le> n \<Longrightarrow> bytes m (a + k) j = take j (drop k (bytes m a n))"
  by (rule nth_equalityI) (auto simp: add.assoc)

lemma bytes_take: "k \<le> n \<Longrightarrow> bytes m a k = take k (bytes m a n)"
  using bytes_sub [of 0 k n m a] by simp

lemma small_len: "unat (data_len m) \<le> 64 \<Longrightarrow> unat (ucast (data_len m) :: u8) = unat (data_len m)"
  by (simp add: unsigned_ucast_eq take_bit_nat_eq_self)

lemma dlc_nibble:
  fixes dlc c :: u8
  assumes "unat dlc < 16"
  shows "drop_bit 4 ((c AND 0xf) OR push_bit 4 dlc) = dlc"
proof (rule bit_word_eqI)
  fix n assume n: "n < LENGTH(8)"
  have high: "\<not> bit dlc k" if "4 \<le> k" "k < 8" for k
  proof -
    have "dlc = take_bit 4 dlc" using assms by (simp add: word_unat_eq_iff unsigned_take_bit_eq take_bit_nat_eq_self)
    then have "bit dlc k \<longleftrightarrow> bit (take_bit 4 dlc) k" by simp
    then show ?thesis using that by (simp add: bit_simps)
  qed
  have "\<not> bit (0xf :: u8) (n + 4)"
    using n bit_take_bit_iff [of 4 "- 1 :: u8" "n + 4"] by (simp flip: mask_eq_take_bit_minus_one add: mask_eq_exp_minus_1)
  then show "bit (drop_bit 4 ((c AND 0xf) OR push_bit 4 dlc)) n = bit dlc n"
    using n high [of n] by (cases "n < 4") (auto simp: bit_simps)
qed

lemma echoed_fields:
  assumes "msg_sane m" "bytes tx a (length (tx_record ch m)) = tx_record ch m"
    and "echoes tx a (length (tx_record ch m)) rx rm"
  defines "dlc \<equiv> pcan_len2dlc (ucast (data_len m))"
  shows "rd16 rx (rm + 22) = tx_flags m" "UCAN_MSG_DLC rx rm = dlc"
    "rd32 rx (rm + 24) = msg_id m AND (if has_flag (msg_flags m) PCANFD_MSG_EXT then CAN_EFF_MASK else CAN_SFF_MASK)"
    "k \<le> unat (pcan_dlc2len dlc) \<Longrightarrow> bytes rx (rm + 28) k =
      take k (take (unat (data_len m)) (msg_data m) @ replicate (length (tx_record ch m) - 20 - unat (data_len m)) 0)"
proof -
  let ?r = "tx_record ch m"
  have len: "20 + unat (pcan_dlc2len dlc) \<le> length ?r"
    using assms(1) align4_bounds [of "20 + unat (pcan_dlc2len dlc)"] by (simp add: dlc_def)
  have sub: "bytes tx (a + i) j = take j (drop i ?r)" if "i + j \<le> length ?r" for i j
    using bytes_sub [OF that, of tx a] assms(2) by simp
  have s: "min (length (msg_data m)) (unat (data_len m)) = unat (data_len m)" using assms(1) by (simp add: msg_sane_def)
  have d: "drop 14 ?r = le16 (tx_flags m) @ drop 16 ?r" "drop 16 ?r = le32 (msg_id m AND
      (if has_flag (msg_flags m) PCANFD_MSG_EXT then CAN_EFF_MASK else CAN_SFF_MASK)) @ drop 20 ?r"
    "drop 20 ?r = take (unat (data_len m)) (msg_data m) @ replicate (length ?r - 20 - unat (data_len m)) 0"
    "?r ! 12 = (of_int ch AND 0xf) OR push_bit 4 dlc"
    using assms(1) by (simp_all add: tx_record_def Let_def le16_def le32_def replicate_eight dlc_def s)
  have "bytes rx (rm + 22) 2 = le16 (tx_flags m)" using assms(3) sub [of 14 2] len d(1) by (simp add: echoes_def)
  then show "rd16 rx (rm + 22) = tx_flags m" by (rule rd16_le16)
  have "bytes rx (rm + 24) 4 = take 4 (drop 16 ?r)" using assms(3) sub [of 16 4] len by (simp add: echoes_def)
  also have "\<dots> = le32 (msg_id m AND (if has_flag (msg_flags m) PCANFD_MSG_EXT then CAN_EFF_MASK else CAN_SFF_MASK))"
    by (subst d(2)) simp
  finally show "rd32 rx (rm + 24) = msg_id m AND (if has_flag (msg_flags m) PCANFD_MSG_EXT then CAN_EFF_MASK else CAN_SFF_MASK)"
    by (rule rd32_le32)
  have "rx (rm + 20) = ?r ! 12"
    using assms(2,3) len nth_bytes [of 12 "length ?r" tx a] by (simp add: echoes_def)
  then show "UCAN_MSG_DLC rx rm = dlc"
    using d(4) dlc_nibble [OF len2dlc_fits] by (simp add: UCAN_MSG_DLC_def dlc_def)
  assume k: "k \<le> unat (pcan_dlc2len dlc)"
  have "bytes rx (rm + 28) (length ?r - 20) = drop 20 ?r"
    using assms(3) sub [of 20 "length ?r - 20"] len by (simp add: echoes_def)
  then show "bytes rx (rm + 28) k =
      take k (take (unat (data_len m)) (msg_data m) @ replicate (length (tx_record ch m) - 20 - unat (data_len m)) 0)"
    using bytes_take [of k "length ?r - 20" rx "rm + 28"] k len d(3) by simp
qed

lemma padded_data:
  assumes "n \<le> k" "k \<le> 64" "k \<le> n + z" "length d = 64"
  shows "take k (take n d @ replicate z 0) @ replicate (64 - k) 0 = take n d @ replicate (64 - n) 0"
  using assms by (intro nth_equalityI) (auto simp: nth_append)

lemma small_dlc: "n \<le> 8 \<Longrightarrow> pcan_fd_len2dlc ! n = of_nat n"
proof -
  assume "n \<le> 8"
  then have "n \<in> set [0..<9]" by simp
  moreover have "list_all (\<lambda>n. pcan_fd_len2dlc ! n = of_nat n) [0..<9]" by code_simp
  ultimately show ?thesis by (simp only: list_all_iff)
qed

lemma can20_len:
  assumes "unat (data_len m) \<le> 8"
  shows "get_can_dlc (pcan_len2dlc (ucast (data_len m))) = ucast (data_len m)"
    "pcan_dlc2len (pcan_len2dlc (ucast (data_len m))) = ucast (data_len m)"
proof -
  have u: "unat (ucast (data_len m) :: u8) = unat (data_len m)" using small_len [of m] assms by simp
  then have c: "pcan_len2dlc (ucast (data_len m)) = ucast (data_len m)"
    using small_dlc [OF assms] assms by (simp add: pcan_len2dlc_def word_less_nat_alt word_unat_eq_iff unsigned_of_nat take_bit_nat_eq_self)
  show "get_can_dlc (pcan_len2dlc (ucast (data_len m))) = ucast (data_len m)"
    using u assms by (simp add: c get_can_dlc_def min_def word_le_nat_alt)
  have "list_all (\<lambda>n. pcan_fd_dlc2len ! n = of_nat n) [0..<9]" by code_simp
  then have "pcan_fd_dlc2len ! unat (data_len m) = of_nat (unat (data_len m))"
    using assms by (auto simp: list_all_iff)
  then show "pcan_dlc2len (pcan_len2dlc (ucast (data_len m))) = ucast (data_len m)"
    using u assms by (simp add: c pcan_dlc2len_def dlc_and_0f word_unat_eq_iff unsigned_of_nat take_bit_nat_eq_self)
qed

lemma tx_bytes_ne: "[] \<noteq> tx_bytes ch d m"
  by (simp add: tx_bytes_def tx_record_def Let_def le16_def)

subsection \<open>Walking a buffer\<close>

text \<open>The addresses of the records from \<open>p\<close> to \<open>q\<close>, and what handling them one after the other
  does.\<close>

fun rec_chain :: "mem \<Rightarrow> nat \<Rightarrow> nat list \<Rightarrow> nat \<Rightarrow> bool" where
  "rec_chain mem p [] q \<longleftrightarrow> p = q"
| "rec_chain mem p (a # as) q \<longleftrightarrow> a = p \<and> 0 < unat (rd16 mem p) \<and> rec_chain mem (p + align4 (unat (rd16 mem p))) as q"

fun deliver :: "bool \<Rightarrow> 'd ucan_ops \<Rightarrow> mem \<Rightarrow> nat list \<Rightarrow> 'd list \<Rightarrow> 'd list \<times> nat \<times> int" where
  "deliver usb_if ops mem [] devs = (devs, 0, 0)"
| "deliver usb_if ops mem (a # as) devs =
     (let (devs, n) = ucan_handle_msg usb_if ops mem a devs
      in if n \<le> 0 then (devs, 0, n)
         else let (devs, k, n) = deliver usb_if ops mem as devs in (devs, Suc k, n))"

lemma handle_msg_size: "0 < snd (ucan_handle_msg u ops mem a devs) \<Longrightarrow> snd (ucan_handle_msg u ops mem a devs) = int (unat (rd16 mem a))"
  by (auto simp: ucan_handle_msg_def Let_def split_def split: msg_dest.splits option.splits if_splits)

lemma deliver_nonpos: "snd (snd (deliver u ops mem as devs)) \<le> 0"
  by (induction as arbitrary: devs) (auto simp: Let_def split_def)

lemma rec_chain_le: "rec_chain mem p as q \<Longrightarrow> p \<le> q"
  by (induction as arbitrary: p) (auto intro: order_trans [OF le_add1])

lemma buffer_loop_deliver:
  assumes "rec_chain mem p as len" "0 \<le> s"
  obtains s' q where "msgs_buffer_loop u ops mem len p s devs = (fst (deliver u ops mem as devs), q, s')" "q \<le> len"
    "(if s' < 0 then s' else 0) = snd (snd (deliver u ops mem as devs))"
proof -
  have "\<exists>s' q. msgs_buffer_loop u ops mem len p s devs = (fst (deliver u ops mem as devs), q, s') \<and> q \<le> len \<and>
      (if s' < 0 then s' else 0) = snd (snd (deliver u ops mem as devs))"
    using assms
  proof (induction as arbitrary: p s devs)
    case Nil
    then show ?case by (subst msgs_buffer_loop.simps) auto
  next
    case (Cons a as)
    let ?r = "ucan_handle_msg u ops mem p devs"
    have p: "a = p" "0 < unat (rd16 mem p)" "rec_chain mem (p + align4 (unat (rd16 mem p))) as len"
      using Cons.prems(1) by simp_all
    then have less: "p < len" using rec_chain_le [OF p(3)] align4_pos [OF p(2)] by simp
    show ?case
    proof (cases "snd ?r \<le> 0")
      case True
      then show ?thesis using less p(1) by (subst msgs_buffer_loop.simps) (auto simp: Let_def split_def)
    next
      case False
      then have "nat (snd ?r) = unat (rd16 mem p)" using handle_msg_size [of u ops mem p devs] by simp
      then have "msgs_buffer_loop u ops mem len p s devs =
          msgs_buffer_loop u ops mem len (p + align4 (unat (rd16 mem p))) (snd ?r) (fst ?r)"
        using less False by (subst msgs_buffer_loop.simps) (simp add: Let_def)
      then show ?thesis using Cons.IH [OF p(3), of "snd ?r" "fst ?r"] False p(1) by (auto simp: Let_def split_def)
    qed
  qed
  then show ?thesis using that by blast
qed

lemma list_loop_deliver:
  assumes "rec_chain mem p as len" "0 \<le> s"
  shows "\<exists>s'. msgs_list_loop u ops mem (length as) i p s devs =
      (fst (deliver u ops mem as devs), i + fst (snd (deliver u ops mem as devs)), s') \<and>
      (if s' < 0 then s' else 0) = snd (snd (deliver u ops mem as devs))"
  using assms
proof (induction as arbitrary: p s i devs)
  case Nil
  then show ?case by auto
next
  case (Cons a as)
  let ?r = "ucan_handle_msg u ops mem p devs"
  have p: "a = p" "rec_chain mem (p + align4 (unat (rd16 mem p))) as len" using Cons.prems(1) by simp_all
  show ?case
  proof (cases "snd ?r \<le> 0")
    case True
    then show ?thesis using p(1) by (auto simp: Let_def split_def)
  next
    case False
    then have n: "nat (snd ?r) = unat (rd16 mem p)" using handle_msg_size [of u ops mem p devs] by simp
    show ?thesis using Cons.IH [OF p(2), of "int (align4 (unat (rd16 mem p)))" "i + 1" "fst ?r"] False p(1) n
      by (auto simp: Let_def split_def)
  qed
qed

definition queue_of :: "pcanfd_txmsg \<Rightarrow> pcanfd_txmsg FIFO_MANAGER" where
  "queue_of x = fst (pcan_fifo_put x (writeFifo blank_dev))"

lemma queue_of_item: "ring_inv (queue_of x)" "fifo_items (queue_of x) = [x]"
proof -
  have b: "ring_inv (writeFifo blank_dev)" "fifo_items (writeFifo blank_dev) = []" "fifo_cap (writeFifo blank_dev) = 4"
    using blank_fifo_inv [of "\<lparr>tx_msg = zero_msg, tx_tv = zero_timeval\<rparr>"] by (simp_all add: blank_dev_def)
  moreover have "unat (nStored (writeFifo blank_dev)) = 0" using b(2) length_fifo_items [of "writeFifo blank_dev"] by simp
  ultimately show "ring_inv (queue_of x)" "fifo_items (queue_of x) = [x]"
    using ring_put_room [of "writeFifo blank_dev" x] by (auto simp: queue_of_def)
qed

text \<open>A record of 28 bytes, and handlers that count the records.\<close>

definition one_record :: mem where
  "one_record = wr (\<lambda>_. 0) 0 (le16 28 @ le16 UCAN_MSG_CAN_RX)"

definition counting_ops :: "nat ucan_ops" where
  "counting_ops = \<lparr>set_clk_domain = None, send_cmd = (\<lambda>d. (d, 0)),
     handle_msg_table = (\<lambda>i. if i = 1 then Some (\<lambda>_ _ _ ds. (map Suc ds, 0)) else None), handle_msg_size = 5,
     handle_private_msg = None\<rparr>"

lemma one_record_size: "rd16 one_record 0 = 28" "rd16 one_record (Suc (Suc 0)) = UCAN_MSG_CAN_RX" "one_record 20 = 0"
  by (simp_all add: one_record_def rd16_def wr_def le16_def)

lemma one_record_handled: "ucan_handle_msg True counting_ops one_record 0 [0] = ([1], 28)"
  by (simp add: ucan_handle_msg_def one_record_size msg_cb_def counting_ops_def msg_target_def Let_def)

section \<open>Properties\<close>

text \<open>C8. The encoder of the transmit queue against a reference definition: it writes the records of the
  longest prefix of the queue that fits the buffer, in order and nothing else, adds an end mark when there
  is room, and leaves the rest of the queue; it stays within a buffer whose size is a multiple of 4.\<close>

theorem encode_buffer_prefix:
  assumes inv: "ring_inv (writeFifo dev)" and sane: "list_all (\<lambda>x. msg_sane (tx_msg x)) (fifo_items (writeFifo dev))"
    and rs: "rs = map (\<lambda>x. tx_bytes (nChannel dev) (tx_iframe_delay_us dev) (tx_msg x)) (fifo_items (writeFifo dev))"
    and run: "ucan_encode_msgs_buffer dev mem a n = (dev', mem', len, r)"
  shows "\<exists>k \<le> length rs. let bs = concat (take k rs) in
      length bs \<le> n \<and> (k < length rs \<longrightarrow> n < length (concat (take (Suc k) rs))) \<and>
      ring_inv (writeFifo dev') \<and> fifo_items (writeFifo dev') = drop k (fifo_items (writeFifo dev)) \<and>
      tx_frames_counter dev' = tx_frames_counter dev + of_nat k \<and> (4 dvd n \<longrightarrow> len \<le> n) \<and>
      (if bs = [] then mem' = mem \<and> len = 0 \<and> r = - ENODATA
       else mem' = wr mem a (bs @ (if length bs < n then le32 0 else [])) \<and>
         len = length bs + (if length bs < n then 4 else 0) \<and> (r < 0 \<longleftrightarrow> length bs < n))"
proof -
  let ?k = "fitting n rs"
  let ?bs = "concat (take ?k rs)"
  have "encoded dev mem a n 0 0 0 rs (encode_loop dev mem a n 0 0 0)"
    using encode_loop_ok [OF inv sane, of 0 n] by (simp add: rs)
  then obtain w d e where l: "encode_loop dev mem a n 0 0 0 =
      (dev\<lparr>writeFifo := w, tx_iframe_delay_us := d\<rparr>, wr mem (a + 0) (concat (take (fitting (n - 0) rs) rs)),
       0 + length (concat (take (fitting (n - 0) rs) rs)), 0 + fitting (n - 0) rs, e)"
    "ring_inv w" "fifo_items w = drop (fitting (n - 0) rs) (fifo_items (writeFifo dev))"
    and e: "0 + length (concat (take (fitting (n - 0) rs) rs)) < n \<longrightarrow> e = (if fitting (n - 0) rs = length rs then - ENODATA else - ENOSPC)"
    "0 + length (concat (take (fitting (n - 0) rs) rs)) = n \<longrightarrow> (if fitting (n - 0) rs = 0 then e = 0 else 0 < e)"
    unfolding encoded_def Let_def by (elim exE conjE)
  define D where "D = dev\<lparr>writeFifo := w, tx_iframe_delay_us := d\<rparr>"
  have l1: "encode_loop dev mem a n 0 0 0 = (D, wr mem a ?bs, length ?bs, ?k, e)"
    using l(1) by (simp add: D_def del: length_concat)
  have D: "writeFifo D = w" "tx_frames_counter D = tx_frames_counter dev" by (simp_all add: D_def)
  have dv: "4 dvd length ?bs" unfolding rs by (rule tx_records_dvd [OF sane])
  have b: "length ?bs \<le> n" by (rule fitting_bound)
  have four: "4 dvd n \<longrightarrow> length ?bs < n \<longrightarrow> length ?bs + 4 \<le> n" using dv by presburger
  have pos: "[] \<notin> set rs" using tx_bytes_ne by (auto simp: rs)
  have k0: "?bs = [] \<longleftrightarrow> ?k = 0" using pos fitting_le [of n rs] by (cases rs; cases ?k) auto
  have res: "(dev', mem', len, r) = (if ?bs = [] then (D, mem, 0, - ENODATA)
      else (D\<lparr>tx_frames_counter := tx_frames_counter D + of_nat ?k\<rparr>,
            wr mem a (?bs @ (if length ?bs < n then le32 0 else [])),
            length ?bs + (if length ?bs < n then 4 else 0), if e = 0 then int ?k else e))"
    unfolding run [symmetric] ucan_encode_msgs_buffer_def l1
    by (cases "?bs = []") (simp_all add: wr_append del: length_concat concat_eq_Nil_conv)
  have neg: "(if e = 0 then int ?k else e) < 0 \<longleftrightarrow> length ?bs < n" if "?bs \<noteq> []"
    using e b k0 that by (auto simp del: length_concat concat_eq_Nil_conv split: if_splits)
  have "length ?bs \<le> n \<and> (?k < length rs \<longrightarrow> n < length (concat (take (Suc ?k) rs))) \<and>
      ring_inv (writeFifo dev') \<and> fifo_items (writeFifo dev') = drop ?k (fifo_items (writeFifo dev)) \<and>
      tx_frames_counter dev' = tx_frames_counter dev + of_nat ?k \<and> (4 dvd n \<longrightarrow> len \<le> n) \<and>
      (if ?bs = [] then mem' = mem \<and> len = 0 \<and> r = - ENODATA
       else mem' = wr mem a (?bs @ (if length ?bs < n then le32 0 else [])) \<and>
         len = length ?bs + (if length ?bs < n then 4 else 0) \<and> (r < 0 \<longleftrightarrow> length ?bs < n))"
  proof (cases "?bs = []")
    case True
    then have "?k = 0" and "dev' = D" "mem' = mem" "len = 0" "r = - ENODATA" using res k0 by (simp_all del: concat_eq_Nil_conv length_concat)
    then show ?thesis using D l(2,3) fitting_max [of n rs] by simp
  next
    case False
    then have "dev' = D\<lparr>tx_frames_counter := tx_frames_counter D + of_nat ?k\<rparr>"
        "mem' = wr mem a (?bs @ (if length ?bs < n then le32 0 else []))"
        "len = length ?bs + (if length ?bs < n then 4 else 0)" "r = (if e = 0 then int ?k else e)"
      using res by (simp_all del: concat_eq_Nil_conv length_concat)
    then show ?thesis using D l(2,3) fitting_max [of n rs] b four neg False by (simp del: length_concat concat_eq_Nil_conv)
  qed
  then show ?thesis unfolding Let_def using fitting_le [of n rs] by blast
qed

lemma masked_id:
  assumes "unat (i :: u32) < (if b then 2 ^ 29 else 2 ^ 11)"
  shows "i AND (if b then CAN_EFF_MASK else CAN_SFF_MASK) = i"
proof -
  have "i AND mask k = i" if "unat i < 2 ^ k" for k
    using that by (simp add: take_bit_eq_mask [symmetric] word_unat_eq_iff unsigned_take_bit_eq take_bit_nat_eq_self)
  from this [of 29] this [of 11] show ?thesis using assms by (simp add: mask_eq_exp_minus_1 split: if_splits)
qed

text \<open>C9. From the transmit record to the received message: a frame the device echoes is received with
  its type, identifier, flags and data, in a frame of the shortest length that holds the data, filled up
  with zeros.\<close>

theorem ucan_frame_roundtrip:
  assumes sane: "msg_sane m" and id: "unat (msg_id m) < (if has_flag (msg_flags m) PCANFD_MSG_EXT then 2 ^ 29 else 2 ^ 11)"
    and ty: "msg_type m = PCANFD_TYPE_CANFD_MSG \<or> msg_type m = PCANFD_TYPE_CAN20_MSG \<and> unat (data_len m) \<le> 8"
    and dlc: "dlc = pcan_len2dlc (ucast (data_len m))" and sz: "sz = align4 (20 + unat (pcan_dlc2len dlc))"
    and tx: "tx = write_tx_record ch dlc sz m a mem" and echo: "echoes tx a sz rx rm"
    and x: "x = rx_msg (canrx_msg rx rm ptv)"
  shows "msg_type x = msg_type m \<and> msg_id x = msg_id m \<and> data_len x = ucast (pcan_dlc2len dlc) \<and>
    (\<not> (msg_type m = PCANFD_TYPE_CAN20_MSG \<and> has_flag (msg_flags m) PCANFD_MSG_RTR) \<longrightarrow>
       msg_data x = take (unat (data_len m)) (msg_data m) @ replicate (64 - unat (data_len m)) 0) \<and>
    (has_flag (msg_flags x) PCANFD_MSG_EXT \<longleftrightarrow> has_flag (msg_flags m) PCANFD_MSG_EXT) \<and>
    (has_flag (msg_flags x) PCANFD_MSG_SNG \<longleftrightarrow> has_flag (msg_flags m) PCANFD_MSG_SNG) \<and>
    (has_flag (msg_flags x) PCANFD_MSG_SLF \<longleftrightarrow> has_flag (msg_flags m) PCANFD_MSG_SLF) \<and>
    (has_flag (msg_flags x) PCANFD_MSG_ECHO \<longleftrightarrow>
       has_flag (msg_flags m) PCANFD_MSG_ECHO \<and> \<not> has_flag (msg_flags m) PCANFD_MSG_SLF) \<and>
    (has_flag (msg_flags x) PCANFD_MSG_RTR \<longleftrightarrow>
       msg_type m = PCANFD_TYPE_CAN20_MSG \<and> has_flag (msg_flags m) PCANFD_MSG_RTR) \<and>
    (has_flag (msg_flags x) PCANFD_MSG_BRS \<longleftrightarrow>
       msg_type m = PCANFD_TYPE_CANFD_MSG \<and> has_flag (msg_flags m) PCANFD_MSG_BRS) \<and>
    (has_flag (msg_flags x) PCANFD_MSG_ESI \<longleftrightarrow>
       msg_type m = PCANFD_TYPE_CANFD_MSG \<and> has_flag (msg_flags m) PCANFD_MSG_ESI)"
proof -
  have r: "tx = wr mem a (tx_record ch m)" "sz = length (tx_record ch m)"
    using write_tx_record_eq [OF sane] sane by (simp_all add: tx sz dlc)
  have b: "bytes tx a (length (tx_record ch m)) = tx_record ch m" by (simp only: r(1) bytes_wr_same)
  note f = echoed_fields [OF sane b echo [unfolded r(2)]]
  note g = canrx_fields [of rx rm ptv, folded x] and h = canrx_flags [of rx rm ptv, folded x]
  have len: "data_len x = ucast (pcan_dlc2len dlc)"
    using ty can20_len [of m] by (auto simp: g f tx_flags_bits dlc)
  have ul: "unat (data_len x) = unat (pcan_dlc2len dlc)"
    by (simp add: len unsigned_ucast_eq take_bit_nat_eq_self less_trans [OF unat_u8_less])
  have le: "unat (data_len m) \<le> unat (pcan_dlc2len dlc)" "unat (pcan_dlc2len dlc) \<le> 64"
    using dlc2len_len2dlc [of "ucast (data_len m)"] small_len [of m] sane dlc2len_bound [of dlc]
    by (simp_all add: dlc msg_sane_def)
  have room: "20 + unat (pcan_dlc2len dlc) \<le> length (tx_record ch m)"
    using align4_bounds [of "20 + unat (pcan_dlc2len dlc)"] by (simp add: sz flip: r(2))
  have data: "msg_data x = take (unat (data_len m)) (msg_data m) @ replicate (64 - unat (data_len m)) 0"
    if "\<not> (msg_type m = PCANFD_TYPE_CAN20_MSG \<and> has_flag (msg_flags m) PCANFD_MSG_RTR)"
  proof -
    have "msg_data x = bytes rx (rm + 28) (unat (data_len x)) @ replicate (64 - unat (data_len x)) 0"
      using that by (auto simp: g(4) f(1) tx_flags_bits)
    also have "bytes rx (rm + 28) (unat (data_len x)) = take (unat (pcan_dlc2len dlc)) (take (unat (data_len m)) (msg_data m) @
        replicate (length (tx_record ch m) - 20 - unat (data_len m)) 0)"
      unfolding ul by (rule f(4)) (simp add: dlc)
    also have "\<dots> @ replicate (64 - unat (data_len x)) 0 = take (unat (data_len m)) (msg_data m) @ replicate (64 - unat (data_len m)) 0"
      unfolding ul using room sane le by (intro padded_data) (simp_all add: msg_sane_def)
    finally show ?thesis .
  qed
  have "msg_type x = msg_type m" using ty by (auto simp: g f tx_flags_bits)
  moreover have "msg_id x = msg_id m" using masked_id [OF id] by (simp add: g f)
  ultimately show ?thesis using len data by (auto simp: h f tx_flags_bits)
qed

theorem ucan_frame_roundtrip_witness:
  "msg_id (rx_msg (canrx_msg (\<lambda>y. write_tx_record 0 9 32
      (zero_msg\<lparr>msg_type := 2, data_len := 10, msg_id := 5\<rparr>) 0 (\<lambda>_. 0) (y - 8)) 0 None)) = 5"
proof -
  let ?m = "zero_msg\<lparr>msg_type := 2, data_len := 10, msg_id := 5\<rparr>"
  let ?tx = "write_tx_record 0 9 32 ?m 0 (\<lambda>_. 0)"
  have c: "pcan_len2dlc (ucast (data_len ?m)) = 9" "align4 (20 + unat (pcan_dlc2len 9)) = 32"
    by (simp_all add: pcan_len2dlc_def pcan_dlc2len_def pcan_fd_len2dlc_def pcan_fd_dlc2len_def align4_def nth_append)
  have s: "msg_sane ?m" by (simp add: msg_sane_def zero_msg_def)
  have "echoes ?tx 0 32 (\<lambda>y. ?tx (y - 8)) 0"
    unfolding echoes_def by (simp add: bytes_def)
  then show ?thesis
    using ucan_frame_roundtrip [OF s _ _ c(1) [symmetric] c(2) [symmetric] HOL.refl _ HOL.refl, of 0 0 "\<lambda>_. 0" "\<lambda>y. ?tx (y - 8)" 0 None]
    by (simp add: zero_msg_def)
qed

theorem encode_buffer_prefix_witness:
  "\<exists>dev' mem' r. ucan_encode_msgs_buffer
      (blank_dev\<lparr>writeFifo := queue_of \<lparr>tx_msg = zero_msg\<lparr>msg_type := 1\<rparr>, tx_tv = zero_timeval\<rparr>\<rparr>) (\<lambda>_. 0) 0 64 =
      (dev', mem', 24, r) \<and> fifo_items (writeFifo dev') = []"
proof -
  let ?x = "\<lparr>tx_msg = zero_msg\<lparr>msg_type := 1\<rparr>, tx_tv = zero_timeval\<rparr>"
  let ?d = "blank_dev\<lparr>writeFifo := queue_of ?x\<rparr>"
  obtain dev' mem' len r where run: "ucan_encode_msgs_buffer ?d (\<lambda>_. 0) 0 64 = (dev', mem', len, r)"
    using prod_cases4 by blast
  let ?b = "tx_bytes (nChannel ?d) (tx_iframe_delay_us ?d) (tx_msg ?x)"
  have s: "msg_sane (tx_msg ?x)" by (simp add: msg_sane_def zero_msg_def)
  have b: "length ?b = 20" using s
    by (simp add: tx_bytes_def blank_dev_def zero_msg_def pcan_len2dlc_def pcan_fd_len2dlc_def pcan_dlc2len_def
        pcan_fd_dlc2len_def align4_def)
  have inv: "ring_inv (writeFifo ?d)" "fifo_items (writeFifo ?d) = [?x]" using queue_of_item by simp_all
  have "list_all (\<lambda>x. msg_sane (tx_msg x)) (fifo_items (writeFifo ?d))" using inv(2) s by simp
  from encode_buffer_prefix [OF inv(1) this HOL.refl run] obtain k where k: "k \<le> 1" "k < 1 \<longrightarrow> 64 < length (concat (take (Suc k) [?b]))"
    "fifo_items (writeFifo dev') = drop k [?x]" "concat (take k [?b]) \<noteq> [] \<longrightarrow> len = length (concat (take k [?b])) +
       (if length (concat (take k [?b])) < 64 then 4 else 0)"
    unfolding Let_def inv(2) by (auto split: if_splits)
  have "k = 1" using k(1,2) b by (cases k) auto
  then show ?thesis using k(3,4) run b tx_bytes_ne [of "nChannel ?d" "tx_iframe_delay_us ?d" "tx_msg ?x"] by auto
qed

text \<open>C29. The two ways to walk a receive buffer do the same: on a buffer that is a sequence of records, both
  hand the records to the handlers one after the other, each one once, until a handler fails or an end
  record is met, and the count of the second one tells how many were handled.\<close>

theorem msgs_in_order:
  assumes "rec_chain mem 0 as len"
  shows "deliver usb_if ops mem as devs =
      (fst (ucan_handle_msgs_buffer usb_if ops mem len devs),
       fst (snd (ucan_handle_msgs_list usb_if ops mem 0 (length as) devs)),
       snd (ucan_handle_msgs_buffer usb_if ops mem len devs)) \<and>
    ucan_handle_msgs_list usb_if ops mem 0 (length as) devs = deliver usb_if ops mem as devs"
proof -
  obtain s q where b: "msgs_buffer_loop usb_if ops mem len 0 0 devs = (fst (deliver usb_if ops mem as devs), q, s)" "q \<le> len"
    "(if s < 0 then s else 0) = snd (snd (deliver usb_if ops mem as devs))"
    using buffer_loop_deliver [OF assms order_refl] by blast
  obtain s' where "msgs_list_loop usb_if ops mem (length as) 0 0 0 devs =
      (fst (deliver usb_if ops mem as devs), 0 + fst (snd (deliver usb_if ops mem as devs)), s')"
    "(if s' < 0 then s' else 0) = snd (snd (deliver usb_if ops mem as devs))"
    using list_loop_deliver [OF assms order_refl] by blast
  then show ?thesis using b by (simp add: ucan_handle_msgs_buffer_def ucan_handle_msgs_list_def)
qed

theorem msgs_in_order_witness:
  "ucan_handle_msgs_list True counting_ops one_record 0 1 [0] = ([1], 1, 0) \<and>
   ucan_handle_msgs_buffer True counting_ops one_record 28 [0] = ([1], 0)"
proof -
  have c: "rec_chain one_record 0 [0] 28" by (simp add: one_record_size align4_def)
  have "deliver True counting_ops one_record [0] [0] = ([1], 1, 0)" by (simp add: one_record_handled)
  then show ?thesis
    using msgs_in_order [OF c, of True counting_ops "[0]"]
    by (cases "ucan_handle_msgs_buffer True counting_ops one_record 28 [0]") simp
qed

text \<open>A record that ends behind the buffer is reported as an error only after its handler has run: what the
  handler did with bytes outside the buffer is kept.\<close>

theorem fragment_handled_first:
  assumes "len < align4 (unat (rd16 mem 0))" "0 < len"
    and "ucan_handle_msg usb_if ops mem 0 devs = (devs', int (unat (rd16 mem 0)))"
  shows "ucan_handle_msgs_buffer usb_if ops mem len devs = (devs', - EBADMSG)"
proof -
  define n where "n = unat (rd16 mem 0)"
  note h = assms [folded n_def]
  have "0 < n" using h(1) by (cases "n = 0") (simp_all add: align4_def)
  then have "msgs_buffer_loop usb_if ops mem len 0 0 devs = msgs_buffer_loop usb_if ops mem len (align4 n) (int n) devs'"
    using h by (subst msgs_buffer_loop.simps) (simp add: Let_def)
  also have "\<dots> = (devs', align4 n, int n)"
    using h(1) by (subst msgs_buffer_loop.simps) simp
  finally show ?thesis using h(1) by (simp add: ucan_handle_msgs_buffer_def)
qed

theorem fragment_handled_first_witness:
  "ucan_handle_msgs_buffer True counting_ops one_record 8 [0] = ([1], - EBADMSG)"
  by (rule fragment_handled_first) (simp_all add: one_record_size one_record_handled align4_def)

end
