(* ===== verification/Pcan_Pcifd.thy ===== *)
theory Pcan_Pcifd
  imports Pcan_Ucan_Msg
begin

text \<open>
  The driver of the PCAN-PCI Express FD boards (\<^verbatim>\<open>driver/src/pcanfd_pci.c\<close>): the command port, the
  clock selection, the transmission through two linked DMA pages, the handlers of the receive DMA area, the
  interrupt handler, and the callbacks that open and release a channel. The switches of the file are the
  defined ones: \<^verbatim>\<open>PCIEFD_USES_RX_BARRIER\<close>, \<^verbatim>\<open>PCIEFD_INIT_SET_TX_PATH\<close> and
  \<^verbatim>\<open>PCAN_DECODE_BUS_LOAD_TS\<close>, with 64-bit DMA addresses. Addresses in the transmit area are relative to
  its start. Reads of registers have no effect on the driver and are left out.
\<close>

section \<open>State\<close>

abbreviation (input) PCIEFD_REG_MISC :: nat where "PCIEFD_REG_MISC \<equiv> 0x0000"
abbreviation (input) PCIEFD_REG_CLK_SEL :: nat where "PCIEFD_REG_CLK_SEL \<equiv> 0x0008"
abbreviation (input) PCIEFD_REG_CMD_PORT_L :: nat where "PCIEFD_REG_CMD_PORT_L \<equiv> 0x0010"
abbreviation (input) PCIEFD_REG_CMD_PORT_H :: nat where "PCIEFD_REG_CMD_PORT_H \<equiv> 0x0014"
abbreviation (input) PCIEFD_REG_TX_REQ_ACC :: nat where "PCIEFD_REG_TX_REQ_ACC \<equiv> 0x0020"
abbreviation (input) PCIEFD_REG_TX_CTL_SET :: nat where "PCIEFD_REG_TX_CTL_SET \<equiv> 0x0030"
abbreviation (input) PCIEFD_REG_TX_CTL_CLR :: nat where "PCIEFD_REG_TX_CTL_CLR \<equiv> 0x0038"
abbreviation (input) PCIEFD_REG_TX_DMA_ADDR_L :: nat where "PCIEFD_REG_TX_DMA_ADDR_L \<equiv> 0x0040"
abbreviation (input) PCIEFD_REG_TX_DMA_ADDR_H :: nat where "PCIEFD_REG_TX_DMA_ADDR_H \<equiv> 0x0044"
abbreviation (input) PCIEFD_REG_RX_CTL_SET :: nat where "PCIEFD_REG_RX_CTL_SET \<equiv> 0x0050"
abbreviation (input) PCIEFD_REG_RX_CTL_CLR :: nat where "PCIEFD_REG_RX_CTL_CLR \<equiv> 0x0058"
abbreviation (input) PCIEFD_REG_RX_CTL_WRT :: nat where "PCIEFD_REG_RX_CTL_WRT \<equiv> 0x0060"
abbreviation (input) PCIEFD_REG_RX_CTL_ACK :: nat where "PCIEFD_REG_RX_CTL_ACK \<equiv> 0x0068"
abbreviation (input) PCIEFD_REG_RX_DMA_ADDR_L :: nat where "PCIEFD_REG_RX_DMA_ADDR_L \<equiv> 0x0070"
abbreviation (input) PCIEFD_REG_RX_DMA_ADDR_H :: nat where "PCIEFD_REG_RX_DMA_ADDR_H \<equiv> 0x0074"

abbreviation (input) PCIEFD_CTL_UNC_BIT :: u32 where "PCIEFD_CTL_UNC_BIT \<equiv> 0x00010000"
abbreviation (input) PCIEFD_CTL_RST_BIT :: u32 where "PCIEFD_CTL_RST_BIT \<equiv> 0x00020000"
abbreviation (input) PCIEFD_CTL_IEN_BIT :: u32 where "PCIEFD_CTL_IEN_BIT \<equiv> 0x00040000"
abbreviation (input) PCIEFD_OPTIONS_ALL :: u16 where "PCIEFD_OPTIONS_ALL \<equiv> 0x0003"
abbreviation (input) PCIEFD_TX_PAGE_SIZE :: nat where "PCIEFD_TX_PAGE_SIZE \<equiv> 2048"
abbreviation (input) PCIEFD_LNK_COUNT :: nat where "PCIEFD_LNK_COUNT \<equiv> 2"
abbreviation (input) PCIEFD_MSG_LNK_TX :: u16 where "PCIEFD_MSG_LNK_TX \<equiv> 0x1001"
abbreviation (input) UCAN_MSG_CACHE_CRITICAL :: u16 where "UCAN_MSG_CACHE_CRITICAL \<equiv> 0x0102"

record ucan_pci_page =
  page_vbase :: nat
  page_lbase :: u64
  page_offset :: u32
  page_size :: u32

text \<open>The members of \<^verbatim>\<open>PCI_PORT\<close>; \<^verbatim>\<open>tx_pages\<close> is a null pointer or the table of two pages.\<close>

record pcifddev = ucandev +
  irq_tag :: u32
  rx_dma_laddr :: u64
  tx_dma_laddr :: u64
  tx_dma :: mem
  tx_pages_free :: u16
  tx_page_index :: u16
  tx_pages :: "ucan_pci_page list option"

definition ucan_x_writel :: "u32 \<Rightarrow> nat \<Rightarrow> 'z ucandev_scheme \<Rightarrow> 'z ucandev_scheme" where
  "ucan_x_writel v addr dev = dev\<lparr>io_out := io_out dev @ [Writel v addr]\<rparr>"

definition pcifd_send_cmd :: "'z ucandev_scheme \<Rightarrow> 'z ucandev_scheme \<times> int" where
  "pcifd_send_cmd dev =
     (let dev = ucan_x_writel (rd32 (cmd_head dev) 0) PCIEFD_REG_CMD_PORT_L dev
      in (ucan_x_writel (rd32 (cmd_head dev) 4) PCIEFD_REG_CMD_PORT_H dev, 0))"

definition pcifd_set_clk_domain :: "'z ucandev_scheme \<Rightarrow> pcanfd_init \<Rightarrow> 'z ucandev_scheme \<times> int" where
  "pcifd_set_clk_domain dev pfdi =
     (let set = (\<lambda>v. (ucan_x_writel v PCIEFD_REG_CLK_SEL dev, 0 :: int)); c = clock_Hz pfdi
      in if c = 20000000 then set 0xc
         else if c = 24000000 then set 0xb
         else if c = 30000000 then set 0xa
         else if c = 40000000 then set 0x9
         else if c = 60000000 then set 0x8
         else if c = 80000000 then set 0x0
         else (dev, - EINVAL))"

section \<open>DMA areas\<close>

definition pcifd_dma_init_tx :: "pcifddev \<Rightarrow> pcifddev" where
  "pcifd_dma_init_tx dev =
     (case tx_pages dev of
        None \<Rightarrow> dev
      | Some _ \<Rightarrow>
          dev\<lparr>pdev := (pdev dev)\<lparr>wCANStatus := clr_flag (wCANStatus (pdev dev)) CAN_ERR_QXMTFULL\<rparr>,
              tx_pages_free := of_nat (PCIEFD_LNK_COUNT - 1), tx_page_index := 0,
              tx_pages := Some (map (\<lambda>i. \<lparr>page_vbase = i * PCIEFD_TX_PAGE_SIZE,
                 page_lbase = tx_dma_laddr dev + of_nat (i * PCIEFD_TX_PAGE_SIZE), page_offset = 0,
                 page_size = of_nat (PCIEFD_TX_PAGE_SIZE - 12)\<rparr>) [0..<PCIEFD_LNK_COUNT])\<rparr>)"

definition pcifd_dma_clr_rx :: "pcifddev \<Rightarrow> pcifddev" where
  "pcifd_dma_clr_rx dev =
     ucan_x_writel 0 PCIEFD_REG_RX_DMA_ADDR_H (ucan_x_writel 0 PCIEFD_REG_RX_DMA_ADDR_L
       (ucan_x_writel PCIEFD_CTL_RST_BIT PCIEFD_REG_RX_CTL_SET dev))"

definition pcifd_dma_clr_tx :: "pcifddev \<Rightarrow> pcifddev" where
  "pcifd_dma_clr_tx dev =
     ucan_x_writel 0 PCIEFD_REG_TX_DMA_ADDR_H (ucan_x_writel 0 PCIEFD_REG_TX_DMA_ADDR_L
       (ucan_x_writel PCIEFD_CTL_RST_BIT PCIEFD_REG_TX_CTL_SET dev))"

definition pcifd_dma_set_rx :: "pcifddev \<Rightarrow> pcifddev" where
  "pcifd_dma_set_rx dev =
     ucan_x_writel PCIEFD_CTL_UNC_BIT PCIEFD_REG_RX_CTL_CLR
       (ucan_x_writel (ucast (drop_bit 32 (rx_dma_laddr dev))) PCIEFD_REG_RX_DMA_ADDR_H
         (ucan_x_writel (ucast (rx_dma_laddr dev)) PCIEFD_REG_RX_DMA_ADDR_L
           (ucan_x_writel PCIEFD_CTL_RST_BIT PCIEFD_REG_RX_CTL_SET dev)))"

definition pcifd_dma_set_tx :: "pcifddev \<Rightarrow> pcifddev" where
  "pcifd_dma_set_tx dev =
     ucan_x_writel PCIEFD_CTL_UNC_BIT PCIEFD_REG_TX_CTL_CLR
       (ucan_x_writel (ucast (drop_bit 32 (tx_dma_laddr dev))) PCIEFD_REG_TX_DMA_ADDR_H
         (ucan_x_writel (ucast (tx_dma_laddr dev)) PCIEFD_REG_TX_DMA_ADDR_L
           (ucan_x_writel PCIEFD_CTL_RST_BIT PCIEFD_REG_TX_CTL_SET dev)))"

section \<open>Transmission\<close>

text \<open>The page in use; its index is 0 or 1.\<close>

definition cur_page :: "pcifddev \<Rightarrow> ucan_pci_page" where
  "cur_page dev = the (tx_pages dev) ! unat (tx_page_index dev)"

definition set_page :: "ucan_pci_page \<Rightarrow> pcifddev \<Rightarrow> pcifddev" where
  "set_page p dev = dev\<lparr>tx_pages := Some ((the (tx_pages dev))[unat (tx_page_index dev) := p])\<rparr>"

text \<open>A message was written: the page advances and the device is told.\<close>

definition page_written :: "nat \<Rightarrow> pcifddev \<Rightarrow> pcifddev" where
  "page_written n dev =
     (let p = cur_page dev;
          dev = set_page (p\<lparr>page_offset := page_offset p + of_nat n\<rparr>) dev;
          dev = dev\<lparr>pdev := (pdev dev)\<lparr>tx_frames_counter := tx_frames_counter (pdev dev) + 1\<rparr>\<rparr>;
          dev = ucan_x_writel 1 PCIEFD_REG_TX_REQ_ACC dev
      in if tx_iframe_delay_us (pdev dev) \<noteq> 0 then ucan_x_writel 1 PCIEFD_REG_TX_REQ_ACC dev else dev)"

definition link_record :: "u64 \<Rightarrow> u8 list" where
  "link_record laddr = le16 12 @ le16 PCIEFD_MSG_LNK_TX @ le32 (ucast laddr) @ le32 (ucast (drop_bit 32 laddr))"

text \<open>The other page is taken and a link to it is put at the end of the old one.\<close>

definition change_page :: "pcifddev \<Rightarrow> pcifddev" where
  "change_page dev =
     (let lk = page_vbase (cur_page dev) + unat (page_offset (cur_page dev));
          dev = dev\<lparr>tx_pages_free := tx_pages_free dev - 1, tx_page_index := 1 - tx_page_index dev\<rparr>;
          p = cur_page dev;
          dev = dev\<lparr>tx_dma := wr (tx_dma dev) lk (link_record (page_lbase p))\<rparr>;
          dev = set_page (p\<lparr>page_offset := 0\<rparr>) dev
      in dev\<lparr>pdev := pcan_set_tx_engine TX_ENGINE_STARTED (pdev dev)\<rparr>)"

text \<open>No page is free: the first time, an overflow STATUS is posted.\<close>

definition no_free_page :: "timeval \<Rightarrow> timeval \<Rightarrow> pcanfd_rxmsg \<Rightarrow> pcifddev \<Rightarrow> pcifddev" where
  "no_free_page now drv stack dev =
     (if has_flag (wCANStatus (pdev dev)) CAN_ERR_QXMTFULL then dev
      else
        let (p, ef) = pcan_handle_error_ctrl (pdev dev) (Some stack) PCANFD_TX_OVERFLOW
        in dev\<lparr>pdev := rx_deliver now drv p (the ef)\<rparr>)"

definition encode_here :: "pcifddev \<Rightarrow> pcifddev \<times> int" where
  "encode_here dev =
     (let p = cur_page dev;
          (d, m, err) = ucan_encode_msg (pdev dev) (tx_dma dev) (page_vbase p + unat (page_offset p))
                          (unat (page_size p) - unat (page_offset p))
      in (dev\<lparr>pdev := d, tx_dma := m\<rparr>, err))"

lemma encode_msg_takes:
  assumes "ucan_encode_msg dev mem a n = (dev', mem', err)" "0 \<le> err"
  shows "unat (nStored (writeFifo dev')) < unat (nStored (writeFifo dev))"
proof -
  have "nStored (fst (pcan_fifo_get False f)) = nStored f - 1" "0 < unat (nStored f)" if "pcan_fifo_peek f = (e, Some x)" for f e x
    using that by (auto simp: pcan_fifo_peek_def pcan_fifo_get_def word_less_nat_alt split: if_splits)
  then have "unat (nStored (fst (pcan_fifo_get False (writeFifo dev)))) < unat (nStored (writeFifo dev))"
    if "pcan_fifo_peek (writeFifo dev) = (e, Some x)" for e x
    using that unat_minus_one [of "nStored (writeFifo dev)"] by (metis diff_less less_numeral_extra(1) unat_0 less_not_refl)
  then show ?thesis using assms
    by (auto simp: ucan_encode_msg_def Let_def pcan_fifo_peek_def split: if_splits)
qed

lemma encode_msg_err:
  assumes "ucan_encode_msg dev mem a n = (dev', mem', err)" "err < 0"
  shows "dev' = dev \<and> mem' = mem"
  using assms by (auto simp: ucan_encode_msg_def Let_def pcan_fifo_peek_def split: if_splits)

text \<open>The loop of \<^verbatim>\<open>__pcifd_device_write\<close>. Every turn takes a message from the queue or a free page,
  so it ends. The flag tells whether a link was inserted.\<close>

function write_loop ::
  "timeval \<Rightarrow> timeval \<Rightarrow> pcanfd_rxmsg \<Rightarrow> bool \<Rightarrow> pcifddev \<Rightarrow> pcifddev \<times> bool \<times> int" where
  "write_loop now drv stack lk dev =
     (let r = encode_here dev
      in if snd r < 0 then
           if snd r \<noteq> - ENOSPC then (fst r, lk, snd r)
           else if tx_pages_free dev = 0 then (no_free_page now drv stack (fst r), lk, 0)
           else write_loop now drv stack True (change_page (fst r))
         else if 0 < snd r then write_loop now drv stack lk (page_written (nat (snd r)) (fst r))
         else write_loop now drv stack lk (fst r))"
  by pat_completeness auto

termination
proof (relation "measure (\<lambda>(_, _, _, _, dev). unat (nStored (writeFifo (pdev dev))) + unat (tx_pages_free dev))")
  fix now drv :: timeval and stack :: pcanfd_rxmsg and lk :: bool and dev :: pcifddev and r
  assume r: "r = encode_here dev"
  let ?p = "cur_page dev"
  obtain d m e where en: "ucan_encode_msg (pdev dev) (tx_dma dev) (page_vbase ?p + unat (page_offset ?p))
      (unat (page_size ?p) - unat (page_offset ?p)) = (d, m, e)" using prod_cases3 by blast
  have fr: "r = (dev\<lparr>pdev := d, tx_dma := m\<rparr>, e)" using r en by (simp add: encode_here_def Let_def)
  { assume "snd r < 0" "tx_pages_free dev \<noteq> 0"
    then show "((now, drv, stack, True, change_page (fst r)), now, drv, stack, lk, dev)
        \<in> measure (\<lambda>(_, _, _, _, dev). unat (nStored (writeFifo (pdev dev))) + unat (tx_pages_free dev))"
      using fr encode_msg_err [OF en] unat_minus_one [of "tx_pages_free dev"]
      by (simp add: change_page_def Let_def set_page_def pcan_set_tx_engine_def unat_gt_0 diff_less) }
  { assume "\<not> snd r < 0"
    then have "unat (nStored (writeFifo d)) < unat (nStored (writeFifo (pdev dev)))"
      using encode_msg_takes [OF en] fr by simp
    then show "((now, drv, stack, lk, page_written (nat (snd r)) (fst r)), now, drv, stack, lk, dev)
        \<in> measure (\<lambda>(_, _, _, _, dev). unat (nStored (writeFifo (pdev dev))) + unat (tx_pages_free dev))"
      and "((now, drv, stack, lk, fst r), now, drv, stack, lk, dev)
        \<in> measure (\<lambda>(_, _, _, _, dev). unat (nStored (writeFifo (pdev dev))) + unat (tx_pages_free dev))"
      using fr by (simp_all add: page_written_def Let_def set_page_def ucan_x_writel_def) }
qed simp

declare write_loop.simps [simp del]

definition pcifd_device_write :: "timeval \<Rightarrow> timeval \<Rightarrow> pcanfd_rxmsg \<Rightarrow> pcifddev \<Rightarrow> pcifddev \<times> int" where
  "pcifd_device_write now drv stack dev =
     (case tx_pages dev of
        None \<Rightarrow> (dev, - EINVAL)
      | Some _ \<Rightarrow>
          (let (dev, lk, err) = write_loop now drv stack False dev
           in (if lk then dev else dev\<lparr>pdev := pcan_set_tx_engine TX_ENGINE_STOPPED (pdev dev)\<rparr>, err)))"

definition pcifd_enable_tx_path :: "pcifddev \<Rightarrow> pcifddev" where
  "pcifd_enable_tx_path dev =
     (let dev = (if bus_state (pdev dev) \<noteq> PCANFD_ERROR_BUSOFF
                 then ucan_x_writel PCIEFD_CTL_RST_BIT PCIEFD_REG_TX_CTL_CLR (pcifd_dma_init_tx dev) else dev)
      in dev\<lparr>pdev := pcan_set_tx_engine TX_ENGINE_STOPPED (pdev dev)\<rparr>)"

section \<open>Reception\<close>

definition pcifd_decode_timestamp :: "timeval \<Rightarrow> pcan_timeval \<Rightarrow> pcandev \<Rightarrow> u32 \<Rightarrow> u32 \<Rightarrow> pcan_timeval option" where
  "pcifd_decode_timestamp now tv dev ts_low ts_high =
     (let (tv, ok) = pcan_sync_decode now dev ts_low ts_high tv in if ok \<noteq> 0 then Some tv else None)"

definition on_pdev :: "(pcandev \<Rightarrow> pcandev \<times> int) \<Rightarrow> 'z ucandev_scheme \<Rightarrow> 'z ucandev_scheme \<times> int" where
  "on_pdev f dev = (let (p, err) = f (pdev dev) in (dev\<lparr>pdev := p\<rparr>, err))"

definition pcifd_handle_canrx :: "timeval \<Rightarrow> timeval \<Rightarrow> pcan_timeval \<Rightarrow> pcifddev msg_handler" where
  "pcifd_handle_canrx now drv tv mem rm = on_chan (on_pdev (\<lambda>dev.
     ucan_post_canrx_msg now drv mem rm
       (pcifd_decode_timestamp now tv dev (rd32 mem (rm + 4)) (rd32 mem (rm + 8))) dev))"

definition pcifd_handle_error :: "timeval \<Rightarrow> timeval \<Rightarrow> pcan_timeval \<Rightarrow> pcifddev msg_handler" where
  "pcifd_handle_error now drv tv mem er = on_chan (on_pdev (\<lambda>dev.
     ucan_post_error_msg now drv mem er
       (pcifd_decode_timestamp now tv dev (rd32 mem (er + 4)) (rd32 mem (er + 8))) dev))"

definition pcifd_handle_bus_load :: "timeval \<Rightarrow> timeval \<Rightarrow> pcan_timeval \<Rightarrow> pcifddev msg_handler" where
  "pcifd_handle_bus_load now drv tv mem bl = on_chan (on_pdev (\<lambda>dev.
     ucan_post_bus_load_msg now drv mem bl
       (pcifd_decode_timestamp now tv dev (rd32 mem (bl + 4)) (rd32 mem (bl + 8))) dev))"

text \<open>The confirmation of a barrier (\<^verbatim>\<open>RB\<close>) enables the transmission.\<close>

definition barrier_confirmed :: "timeval \<Rightarrow> timeval \<Rightarrow> pcanfd_rxmsg \<Rightarrow> pcifddev \<Rightarrow> pcifddev" where
  "barrier_confirmed now drv stack dev =
     (let (dev, err) = (if locked_tx_engine_state (pdev dev) = TX_ENGINE_IDLE
                        then pcifd_device_write now drv stack (pcifd_enable_tx_path dev) else (dev, 0))
      in if err \<noteq> 0 then dev\<lparr>pdev := signal_out (pdev dev)\<rparr> else dev)"

definition pcifd_handle_status :: "timeval \<Rightarrow> timeval \<Rightarrow> pcan_timeval \<Rightarrow> pcanfd_rxmsg \<Rightarrow> pcifddev msg_handler" where
  "pcifd_handle_status now drv tv stack mem st = on_chan (\<lambda>dev.
     if has_flag (mem (st + 12)) 0x10 then (barrier_confirmed now drv stack dev, 0)
     else ucan_post_status_msg now drv (pcifd_device_write now drv stack) stack mem st
            (pcifd_decode_timestamp now tv (pdev dev) (rd32 mem (st + 4)) (rd32 mem (st + 8))) dev)"

text \<open>The board tells that the receive buffer of a channel overflowed.\<close>

definition ucan_pcie_handle_private_msg :: "timeval \<Rightarrow> timeval \<Rightarrow> pcanfd_rxmsg \<Rightarrow> pcifddev msg_handler" where
  "ucan_pcie_handle_private_msg now drv stack mem msg arg devs =
     (let ci = unat (mem (msg + 12) AND 0x0f)
      in if rd16 mem (msg + 2) = UCAN_MSG_CACHE_CRITICAL \<and> ci < length devs then
           (let dev = devs ! ci;
                (p, s) = pcan_handle_error_ctrl (pdev dev) (Some stack) PCANFD_RX_OVERFLOW
            in (devs[ci := dev\<lparr>pdev := rx_deliver now drv p (the s)\<rparr>], 0))
         else (devs, 0))"

definition pcifd_driver_ops :: "timeval \<Rightarrow> timeval \<Rightarrow> pcan_timeval \<Rightarrow> pcanfd_rxmsg \<Rightarrow> pcifddev ucan_ops" where
  "pcifd_driver_ops now drv tv stack = \<lparr>
     set_clk_domain = Some pcifd_set_clk_domain,
     send_cmd = pcifd_send_cmd,
     handle_msg_table = (\<lambda>i. if i = 1 then Some (pcifd_handle_canrx now drv tv)
       else if i = 2 then Some (pcifd_handle_error now drv tv)
       else if i = 3 then Some (pcifd_handle_status now drv tv stack)
       else if i = 4 then Some (pcifd_handle_bus_load now drv tv) else None),
     handle_msg_size = 5,
     handle_private_msg = Some (ucan_pcie_handle_private_msg now drv stack)\<rparr>"

section \<open>The interrupt handler\<close>

definition pcifd_dma_ack :: "mem \<Rightarrow> pcifddev \<Rightarrow> pcifddev" where
  "pcifd_dma_ack rx_dma dev =
     (let tag = (rd32 rx_dma 0 + 1) AND 0xf
      in ucan_x_writel tag PCIEFD_REG_RX_CTL_ACK (dev\<lparr>irq_tag := tag\<rparr>))"

text \<open>The part of the handler for the end of a page.\<close>

definition page_done :: "timeval \<Rightarrow> timeval \<Rightarrow> pcanfd_rxmsg \<Rightarrow> pcifddev \<Rightarrow> pcifddev" where
  "page_done now drv stack dev =
     (let (dev, err) =
        (if locked_tx_engine_state (pdev dev) = TX_ENGINE_STARTED then
           pcifd_device_write now drv stack
             (dev\<lparr>tx_pages_free := tx_pages_free dev + 1,
                  pdev := pcan_clear_status_bit now drv (pdev dev) CAN_ERR_QXMTFULL\<rparr>)
         else (dev, 0))
      in if err \<noteq> 0 then dev\<lparr>pdev := signal_out (pdev dev)\<rparr> else dev)"

text \<open>The interrupt of the channel \<open>c\<close> of an adapter; the result tells whether it was for that channel.\<close>

definition pcifd_irq_handler ::
  "timeval \<Rightarrow> u64 \<Rightarrow> timeval \<Rightarrow> pcan_timeval \<Rightarrow> pcanfd_rxmsg \<Rightarrow> bool \<Rightarrow> mem \<Rightarrow> nat \<Rightarrow> pcifddev list \<Rightarrow> pcifddev list \<times> bool" where
  "pcifd_irq_handler now now_ns drv tv stack usb_if rx_dma c devs =
     (let st = rd32 rx_dma 0; tag = st AND 0xf; rx_cnt = drop_bit 4 st AND 0x7f; lnk = drop_bit 16 st AND 1;
          upd = (\<lambda>f devs. devs[c := f (devs ! c)])
      in if tag \<noteq> irq_tag (devs ! c) \<or> rx_cnt = 0 \<and> lnk = 0 then (devs, False)
         else
           let devs = upd (\<lambda>d. d\<lparr>pdev := fst (pcan_sync_times now now_ns (pdev d) (rd32 rx_dma 4) (rd32 rx_dma 8) 0)\<rparr>) devs;
               (devs, n, _) = ucan_handle_msgs_list usb_if (pcifd_driver_ops now drv tv stack) rx_dma 12 (unat rx_cnt) devs;
               devs = (if 0 < n then upd (\<lambda>d. d\<lparr>pdev := signal_in (pdev d)\<rparr>) devs else devs);
               devs = (if lnk \<noteq> 0 then upd (page_done now drv stack) devs else devs);
               devs = upd (\<lambda>d. d\<lparr>pdev := (pdev d)\<lparr>dwInterruptCounter := dwInterruptCounter (pdev d) + 1\<rparr>\<rparr>) devs
           in (upd (pcifd_dma_ack rx_dma) devs, True))"

section \<open>Opening and releasing a channel\<close>

definition pcifd_driver_free_irq :: "pcifddev \<Rightarrow> pcifddev" where
  "pcifd_driver_free_irq dev =
     pcifd_dma_clr_tx (pcifd_dma_clr_rx (ucan_x_writel PCIEFD_CTL_IEN_BIT PCIEFD_REG_RX_CTL_CLR dev))"

definition pcifd_device_release :: "pcifddev ucan_ops \<Rightarrow> pcifddev \<Rightarrow> pcifddev" where
  "pcifd_device_release ops dev =
     (let dev = fst (ucan_set_bus_off ops dev);
          dev = fst (ucan_clr_options ops dev PCIEFD_OPTIONS_ALL);
          dev = ucan_x_writel PCIEFD_CTL_RST_BIT PCIEFD_REG_TX_CTL_SET dev
      in fst (ucan_tx_abort ops dev UCAN_TX_ABORT_FLUSH))"

definition pcifd_driver_open :: "pcifddev ucan_ops \<Rightarrow> pcifddev \<Rightarrow> pcifddev \<times> int" where
  "pcifd_driver_open ops dev =
     (let dev = (if has_flag (dev_flags (pdev dev)) PCAN_DEV_BUS_ON then fst (ucan_set_bus_off ops dev) else dev);
          dev = dev\<lparr>pdev := pcan_sync_init (pdev dev)\<rparr>;
          dev = ucan_x_writel 0 PCIEFD_REG_MISC dev
      in (pcifd_dma_set_tx (pcifd_dma_set_rx dev), 0))"

text \<open>\<^verbatim>\<open>request_irq\<close> succeeds or gives an error; \<open>fdirqtl\<close> and \<open>fdirqcl\<close> are the module parameters.\<close>

definition pcifd_driver_req_irq :: "int \<Rightarrow> u32 \<Rightarrow> u32 \<Rightarrow> mem \<Rightarrow> pcifddev \<Rightarrow> pcifddev \<times> int" where
  "pcifd_driver_req_irq request_irq fdirqtl fdirqcl rx_dma dev =
     (if request_irq \<noteq> 0 then (dev, request_irq)
      else
        let dev = ucan_x_writel (push_bit 8 fdirqtl OR fdirqcl) PCIEFD_REG_RX_CTL_WRT dev;
            dev = ucan_x_writel PCIEFD_CTL_RST_BIT PCIEFD_REG_RX_CTL_CLR dev;
            dev = pcifd_dma_ack rx_dma dev
        in (ucan_x_writel PCIEFD_CTL_IEN_BIT PCIEFD_REG_RX_CTL_SET dev, 0))"

definition pcifd_device_open_fd ::
  "pcifddev ucan_ops \<Rightarrow> pcifddev \<Rightarrow> pcanfd_init \<Rightarrow> (pcifddev \<times> pcanfd_init \<times> int) option" where
  "pcifd_device_open_fd ops dev pfdi =
     (if bus_state (pdev dev) = PCANFD_ERROR_BUSOFF then
        (let dev = fst (ucan_clr_err_counters ops dev);
             dev = dev\<lparr>pdev := pcan_set_tx_engine TX_ENGINE_STARTED (pdev dev)\<rparr>
         in Some (fst (ucan_set_bus_on ops dev), pfdi, 0))
      else do {
        let dev = dev\<lparr>pdev := pcan_set_tx_engine TX_ENGINE_IDLE (pdev dev)\<rparr>;
        let dev = (if has_flag (dev_flags (pdev dev)) PCAN_DEV_BUS_ON then fst (ucan_set_bus_off ops dev) else dev);
        (dev, pfdi, err) \<leftarrow> ucan_device_open_fd ops dev pfdi;
        if err \<noteq> 0 then Some (pcifd_driver_free_irq dev, pfdi, err)
        else
          (let options_mask = (if has_flag (init_flags pfdi) PCANFD_INIT_BUS_LOAD_INFO
                               then UCAN_OPTION_ERROR OR UCAN_OPTION_BUSLOAD else UCAN_OPTION_ERROR);
               dev = fst (ucan_set_options ops dev options_mask);
               (dev, err) = ucan_set_bus_on ops dev
           in if err \<noteq> 0 then Some (pcifd_driver_free_irq dev, pfdi, err)
              else Some (fst (ucan_rx_barrier ops dev), pfdi, 0))
      })"

section \<open>Commands of a PCI board\<close>

text \<open>The commands a board received: every pair of writes to the two halves of the command port.\<close>

fun pci_cmds :: "ucan_io list \<Rightarrow> u8 list list" where
  "pci_cmds (x # y # io) =
     (case (x, y) of
        (Writel v a, Writel w b) \<Rightarrow>
          if a = PCIEFD_REG_CMD_PORT_L \<and> b = PCIEFD_REG_CMD_PORT_H then (le32 v @ le32 w) # pci_cmds io
          else pci_cmds (y # io))"
| "pci_cmds [x] = []"
| "pci_cmds [] = []"

definition pci_port :: "'z ucandev_scheme \<Rightarrow> bool" where
  "pci_port d \<longleftrightarrow> cmd_size d = 8"

definition pci_sent :: "'z ucandev_scheme \<Rightarrow> u8 list list" where
  "pci_sent d = pci_cmds (io_out d)"

lemma pci_cmds_send:
  "pci_cmds (io @ [Writel v PCIEFD_REG_CMD_PORT_L, Writel w PCIEFD_REG_CMD_PORT_H]) = pci_cmds io @ [le32 v @ le32 w]"
proof (induction io rule: pci_cmds.induct)
  case (1 x y io)
  then show ?case by (cases x; cases y) auto
next
  case (2 x)
  then show ?case by (cases x) auto
qed simp

lemma pci_cmds_other: "a \<noteq> PCIEFD_REG_CMD_PORT_H \<Longrightarrow> pci_cmds (io @ [Writel v a]) = pci_cmds io"
proof (induction io rule: pci_cmds.induct)
  case (1 x y io)
  then show ?case by (cases x; cases y) auto
next
  case (2 x)
  then show ?case by (cases x) auto
qed simp

interpretation pci: cmd_port "pcifd_driver_ops now drv tv stack" pci_port pci_sent True
  for now drv :: timeval and tv stack
proof unfold_locales
  fix d d' :: pcifddev and e
  assume p: "pci_port d" "cmd_wf d" "cmd_len d \<noteq> 0" "send_cmd (pcifd_driver_ops now drv tv stack) d = (d', e)"
  have "cmd_len d = 8" using p(1-3) by (auto simp: pci_port_def cmd_wf_def dest: dvd_imp_le)
  then have c: "cmds d = [bytes (cmd_head d) 0 8]" by (simp add: cmds_def)
  have "bytes (cmd_head d) 0 8 = le32 (rd32 (cmd_head d) 0) @ le32 (rd32 (cmd_head d) 4)"
    using bytes_append [of "cmd_head d" 0 4 4] by (simp add: le32_rd32)
  moreover have "d' = d\<lparr>io_out := io_out d @ [Writel (rd32 (cmd_head d) 0) 0x10, Writel (rd32 (cmd_head d) 4) 0x14]\<rparr>" "e = 0"
    using p(4) by (auto simp: pcifd_driver_ops_def pcifd_send_cmd_def ucan_x_writel_def)
  ultimately show "pci_port d' \<and> pdev d' = pdev d \<and> cmd_size d' = cmd_size d \<and>
      (e = 0 \<longrightarrow> pci_sent d' = pci_sent d @ cmds d) \<and> (True \<longrightarrow> e = 0)"
    using p(1) c pci_cmds_send by (simp add: pci_port_def pci_sent_def)
qed (simp_all add: pci_port_def pci_sent_def)
section \<open>Opening\<close>

lemma pci_clock:
  assumes "clock_Hz pfdi \<in> set ucan_clocks"
  obtains v where "pcifd_set_clk_domain dev pfdi = (ucan_x_writel v PCIEFD_REG_CLK_SEL dev, 0)"
  using assms by (auto simp: ucan_clocks_def pcifd_set_clk_domain_def Let_def)

lemma mode_reset:
  fixes dev :: pcifddev
  assumes "cmd_size dev = 8" "ch = nChannel (pdev dev)"
  obtains d1 where
    "(if has_flag (dev_flags (pdev dev)) PCAN_DEV_BUS_ON
      then fst (ucan_set_bus_off (pcifd_driver_ops now drv tv stack) (dev\<lparr>pdev := pcan_set_tx_engine TX_ENGINE_IDLE (pdev dev)\<rparr>))
      else dev\<lparr>pdev := pcan_set_tx_engine TX_ENGINE_IDLE (pdev dev)\<rparr>) = d1"
    "pci_port d1 \<and> nChannel (pdev d1) = ch" "locked_tx_engine_state (pdev d1) = TX_ENGINE_IDLE"
    "pci_sent d1 = pci_sent dev @ (if has_flag (dev_flags (pdev dev)) PCAN_DEV_BUS_ON
       then [cmd_image ch UCAN_CMD_RESET_MODE (replicate 6 0)] else [])"
proof -
  let ?d0 = "dev\<lparr>pdev := pcan_set_tx_engine TX_ENGINE_IDLE (pdev dev)\<rparr>"
  have p: "pci_port ?d0" "pci_sent ?d0 = pci_sent dev" "nChannel (pdev ?d0) = ch" "locked_tx_engine_state (pdev ?d0) = TX_ENGINE_IDLE"
    using assms by (simp_all add: pci_port_def pci_sent_def pcan_set_tx_engine_def)
  obtain d where d: "ucan_set_bus_off (pcifd_driver_ops now drv tv stack) ?d0 = (d, 0)" "pci_port d"
    "pdev d = (pdev ?d0)\<lparr>dev_flags := clr_flag (dev_flags (pdev ?d0)) PCAN_DEV_BUS_ON\<rparr>"
    "pci_sent d = pci_sent ?d0 @ [cmd_image (nChannel (pdev ?d0)) UCAN_CMD_RESET_MODE (replicate 6 0)]"
    by (rule pci.bus_off_sends [OF p(1) TrueI])
  show ?thesis
  proof (cases "has_flag (dev_flags (pdev dev)) PCAN_DEV_BUS_ON")
    case True
    show ?thesis by (rule that [of d]) (use True d p in simp_all)
  next
    case False
    show ?thesis by (rule that [of ?d0]) (use False p in simp_all)
  qed
qed

lemma pci_open_fd:
  assumes "pci_port d \<and> nChannel (pdev d) = ch" "clock_Hz pfdi \<in> set ucan_clocks"
  obtains d' where "ucan_device_open_fd (pcifd_driver_ops now drv tv stack) d pfdi = Some (d', pfdi, 0)"
    "pci_port d' \<and> nChannel (pdev d') = ch"
    "pdev d' = listen_flags pfdi (clr_counters (pdev d))" "pci_sent d' = pci_sent d @ open_images ch pfdi"
proof -
  let ?ops = "pcifd_driver_ops now drv tv stack"
  obtain v where v: "pcifd_set_clk_domain d pfdi = (ucan_x_writel v PCIEFD_REG_CLK_SEL d, 0)" using pci_clock [OF assms(2)] by blast
  let ?d = "ucan_x_writel v PCIEFD_REG_CLK_SEL d"
  have s: "pci_port ?d" "nChannel (pdev ?d) = ch" "pdev ?d = pdev d" "pci_sent ?d = pci_sent d"
    using assms(1) pci_cmds_other by (simp_all add: ucan_x_writel_def pci_port_def pci_sent_def)
  have c: "ucan_set_clock_domain ?ops d pfdi = Some (?d, pfdi, 0)"
    using v by (simp add: ucan_set_clock_domain_def pcifd_driver_ops_def)
  obtain d' where "run_steps (ucan_open_steps ?ops pfdi) ?d = Some (d', 0)" "pci_port d'" "nChannel (pdev d') = ch"
    "pdev d' = listen_flags pfdi (clr_counters (pdev ?d))" "pci_sent d' = pci_sent ?d @ open_images ch pfdi"
    by (rule pci.sendsD [OF pci.open_steps_sends [OF TrueI, where ch = ch and pfdi = pfdi] s(1,2)])
  then show ?thesis using that [of d'] s(3,4) c by (simp add: ucan_device_open_fd_def)
qed

section \<open>Properties\<close>

text \<open>C7. Opening a channel of a PCI board: it succeeds for the clocks the board has and the board
  receives exactly these commands, in order: the mode is reset if the bus was on, the error counters are
  cleared, the format and the timings of the settings are set, all 64 filter rows are opened, the
  notifications are selected, the bus goes on, listening only if asked for, and a barrier is requested
  whose confirmation will enable the transmission.\<close>

theorem pcifd_open_commands:
  assumes "cmd_size dev = 8" "bus_state (pdev dev) \<noteq> PCANFD_ERROR_BUSOFF" "clock_Hz pfdi \<in> set ucan_clocks"
    and "ch = nChannel (pdev dev)"
  shows "\<exists>dev'. pcifd_device_open_fd (pcifd_driver_ops now drv tv stack) dev pfdi = Some (dev', pfdi, 0) \<and>
    pci_cmds (io_out dev') = pci_cmds (io_out dev)
      @ (if has_flag (dev_flags (pdev dev)) PCAN_DEV_BUS_ON then [cmd_image ch UCAN_CMD_RESET_MODE (replicate 6 0)] else [])
      @ open_images ch pfdi
      @ [option_image ch UCAN_CMD_SET_EN_OPTION (if has_flag (init_flags pfdi) PCANFD_INIT_BUS_LOAD_INFO
           then UCAN_OPTION_ERROR OR UCAN_OPTION_BUSLOAD else UCAN_OPTION_ERROR),
         cmd_image ch (if has_flag (init_flags pfdi) PCANFD_INIT_LISTEN_ONLY then UCAN_CMD_LISTEN_ONLY_MODE
           else UCAN_CMD_NORMAL_MODE) (replicate 6 0),
         cmd_image ch UCAN_CMD_RX_BARRIER (replicate 6 0)] \<and>
    has_flag (dev_flags (pdev dev')) PCAN_DEV_BUS_ON \<and> locked_tx_engine_state (pdev dev') = TX_ENGINE_IDLE"
proof -
  let ?ops = "pcifd_driver_ops now drv tv stack"
  let ?s = "\<lambda>d. pci_port d \<and> nChannel (pdev d) = ch"
  let ?off = "has_flag (dev_flags (pdev dev)) PCAN_DEV_BUS_ON"
  let ?opt = "if has_flag (init_flags pfdi) PCANFD_INIT_BUS_LOAD_INFO then UCAN_OPTION_ERROR OR UCAN_OPTION_BUSLOAD else UCAN_OPTION_ERROR"
  let ?d0 = "dev\<lparr>pdev := pcan_set_tx_engine TX_ENGINE_IDLE (pdev dev)\<rparr>"
  obtain d1 where d1: "(if ?off then fst (ucan_set_bus_off ?ops ?d0) else ?d0) = d1" "?s d1"
    "locked_tx_engine_state (pdev d1) = TX_ENGINE_IDLE"
    "pci_sent d1 = pci_sent dev @ (if ?off then [cmd_image ch UCAN_CMD_RESET_MODE (replicate 6 0)] else [])"
    by (rule mode_reset [OF assms(1,4)])
  obtain d2 where d2: "ucan_device_open_fd ?ops d1 pfdi = Some (d2, pfdi, 0)" "?s d2"
    "pdev d2 = listen_flags pfdi (clr_counters (pdev d1))" "pci_sent d2 = pci_sent d1 @ open_images ch pfdi"
    by (rule pci_open_fd [OF d1(2) assms(3)])
  obtain d3 e where d3: "ucan_set_options ?ops d2 ?opt = (d3, e)" using prod.exhaust by blast
  have "pci_port d2" using d2(2) ..
  note s3 = pci.step_reliable [OF pci.option_steps(1) [OF this, where msk = ?opt and now = now and drv = drv and tv = tv and stack = stack, unfolded d3] TrueI]
  obtain d4 where d4: "ucan_set_bus_on ?ops d3 = (d4, 0)" "pci_port d4"
    "pdev d4 = (pdev d3)\<lparr>dev_flags := set_flag (dev_flags (pdev d3)) PCAN_DEV_BUS_ON\<rparr>"
    "pci_sent d4 = pci_sent d3 @ [cmd_image (nChannel (pdev d3)) (if has_flag (dev_flags (pdev d3)) PCAN_DEV_LISTEN_ONLY
       then UCAN_CMD_LISTEN_ONLY_MODE else UCAN_CMD_NORMAL_MODE) (replicate 6 0)]"
    by (rule pci.bus_on_sends [OF s3(2) TrueI])
  obtain d5 where d5: "ucan_rx_barrier ?ops d4 = (d5, 0)" "pdev d5 = pdev d4"
    "pci_sent d5 = pci_sent d4 @ [cmd_image (nChannel (pdev d4)) UCAN_CMD_RX_BARRIER (replicate 6 0)]"
    by (rule pci.rx_barrier_sends [OF d4(2) TrueI])
  have f: "dev_flags (pdev ?d0) = dev_flags (pdev dev)" by (simp add: pcan_set_tx_engine_def)
  have "pcifd_device_open_fd ?ops dev pfdi = Some (d5, pfdi, 0)"
    unfolding pcifd_device_open_fd_def Let_def if_not_P [OF assms(2)] f d1(1) d2(1)
    using d3 d4(1) d5(1) by simp
  moreover have "has_flag (dev_flags (pdev d3)) PCAN_DEV_LISTEN_ONLY = has_flag (init_flags pfdi) PCANFD_INIT_LISTEN_ONLY"
    using s3(3) d2(3) by (simp add: listen_flags_def flag_simps)
  moreover have "pci_sent d5 = pci_sent dev @ (if ?off then [cmd_image ch UCAN_CMD_RESET_MODE (replicate 6 0)] else []) @
      open_images ch pfdi @ [option_image ch UCAN_CMD_SET_EN_OPTION ?opt,
        cmd_image ch (if has_flag (dev_flags (pdev d3)) PCAN_DEV_LISTEN_ONLY then UCAN_CMD_LISTEN_ONLY_MODE
          else UCAN_CMD_NORMAL_MODE) (replicate 6 0), cmd_image ch UCAN_CMD_RX_BARRIER (replicate 6 0)]"
    using d1(4) d2(2,4) s3(3,4) d4(3,4) d5(3) by simp
  moreover have "has_flag (dev_flags (pdev d5)) PCAN_DEV_BUS_ON" "locked_tx_engine_state (pdev d5) = TX_ENGINE_IDLE"
    using d1(3) d2(3) s3(3) d4(3) d5(2) by (simp_all add: flag_simps listen_flags_def clr_counters_def)
  ultimately show ?thesis by (simp add: pci_sent_def)
qed

section \<open>The transmit pages\<close>

text \<open>Two pages of 2048 bytes, in each of which 12 bytes are kept for a link; at most one of them is
  free; the queue holds messages a task may write.\<close>

definition pages_ok :: "pcifddev \<Rightarrow> bool" where
  "pages_ok dev \<longleftrightarrow> (\<exists>p0 p1. tx_pages dev = Some [p0, p1] \<and> page_vbase p0 = 0 \<and> page_vbase p1 = 2048 \<and>
       page_size p0 = 2036 \<and> page_size p1 = 2036 \<and> unat (page_offset p0) \<le> 2036 \<and> unat (page_offset p1) \<le> 2036) \<and>
     (tx_page_index dev = 0 \<or> tx_page_index dev = 1) \<and> (tx_pages_free dev = 0 \<or> tx_pages_free dev = 1)"

definition tx_ready :: "pcifddev \<Rightarrow> bool" where
  "tx_ready dev \<longleftrightarrow> pages_ok dev \<and> ring_inv (writeFifo (pdev dev)) \<and>
     list_all (\<lambda>x. msg_sane (tx_msg x)) (fifo_items (writeFifo (pdev dev)))"

text \<open>The records of the queue, and the room in the page in use.\<close>

definition tx_recs :: "pcifddev \<Rightarrow> u8 list list" where
  "tx_recs dev = map (\<lambda>x. tx_bytes (nChannel (pdev dev)) (tx_iframe_delay_us (pdev dev)) (tx_msg x))
     (fifo_items (writeFifo (pdev dev)))"

definition page_end :: "pcifddev \<Rightarrow> nat" where
  "page_end dev = page_vbase (cur_page dev) + unat (page_offset (cur_page dev))"

definition page_room :: "pcifddev \<Rightarrow> nat" where
  "page_room dev = 2036 - unat (page_offset (cur_page dev))"

text \<open>\<open>filled k dev dev'\<close>: \<open>dev'\<close> is \<open>dev\<close> with the first \<open>k\<close> messages of the queue put into the page;
  the board is told of every record.\<close>

definition filled :: "nat \<Rightarrow> pcifddev \<Rightarrow> pcifddev \<Rightarrow> bool" where
  "filled k dev dev' \<longleftrightarrow>
     (\<exists>w d. let q = pdev dev; p = cur_page dev; bs = concat (take k (tx_recs dev)) in
        dev' = dev\<lparr>
          pdev := q\<lparr>writeFifo := w, tx_iframe_delay_us := d, tx_frames_counter := tx_frames_counter q + of_nat k\<rparr>,
          tx_dma := wr (tx_dma dev) (page_end dev) bs,
          tx_pages := Some ((the (tx_pages dev))[unat (tx_page_index dev) := p\<lparr>page_offset := page_offset p + of_nat (length bs)\<rparr>]),
          io_out := io_out dev @ replicate (k * (if tx_iframe_delay_us q = 0 then 1 else 2)) (Writel 1 PCIEFD_REG_TX_REQ_ACC)\<rparr> \<and>
        ring_inv w \<and> fifo_items w = drop k (fifo_items (writeFifo q)) \<and>
        (d = tx_iframe_delay_us q \<or> d = clamp_delay (tx_iframe_delay_us q)))"

lemma pages_cases:
  assumes "pages_ok dev"
  obtains p0 p1 where "tx_pages dev = Some [p0, p1]" "page_vbase p0 = 0" "page_vbase p1 = 2048" "page_size p0 = 2036"
    "page_size p1 = 2036" "unat (page_offset p0) \<le> 2036" "unat (page_offset p1) \<le> 2036" "tx_page_index dev = 0" "cur_page dev = p0"
  | p0 p1 where "tx_pages dev = Some [p0, p1]" "page_vbase p0 = 0" "page_vbase p1 = 2048" "page_size p0 = 2036"
    "page_size p1 = 2036" "unat (page_offset p0) \<le> 2036" "unat (page_offset p1) \<le> 2036" "tx_page_index dev = 1" "cur_page dev = p1"
  using assms unfolding pages_ok_def by (elim exE conjE disjE) (simp_all add: cur_page_def)

lemma cur_page_ok:
  assumes "pages_ok dev"
  shows "page_size (cur_page dev) = 2036" "unat (page_offset (cur_page dev)) \<le> 2036"
    "unat (tx_page_index dev) < length (the (tx_pages dev))" "page_end dev + page_room dev + 12 \<le> 4096"
    "page_vbase (cur_page dev) = unat (tx_page_index dev) * 2048"
  using assms by (cases rule: pages_cases; simp add: page_end_def page_room_def)+

lemma pages_ok_move:
  assumes "pages_ok dev" "n \<le> page_room dev"
    and "tx_pages d = Some ((the (tx_pages dev))[unat (tx_page_index dev) := (cur_page dev)\<lparr>page_offset := page_offset (cur_page dev) + of_nat n\<rparr>])"
    and "tx_page_index d = tx_page_index dev" "tx_pages_free d = tx_pages_free dev"
  shows "pages_ok d" "page_room d = page_room dev - n" "page_end d = page_end dev + n"
proof -
  have le: "unat (page_offset (cur_page dev)) + n \<le> 2036" using assms(2) cur_page_ok(2) [OF assms(1)] by (simp add: page_room_def)
  have u: "unat (page_offset (cur_page dev) + of_nat n) = unat (page_offset (cur_page dev)) + n"
    using le by (simp add: unat_word_ariths unat_of_nat)
  have c: "cur_page d = (cur_page dev)\<lparr>page_offset := page_offset (cur_page dev) + of_nat n\<rparr>"
    using assms(3,4) cur_page_ok(3) [OF assms(1)] by (simp add: cur_page_def)
  show "page_room d = page_room dev - n" "page_end d = page_end dev + n" by (simp_all add: page_room_def page_end_def c u)
  show "pages_ok d"
    using assms(1)
  proof (cases rule: pages_cases)
    case (1 p0 p1)
    then show ?thesis using assms(1,3-5) u le by (simp add: pages_ok_def)
  next
    case (2 p0 p1)
    then show ?thesis using assms(1,3-5) u le by (simp add: pages_ok_def)
  qed
qed

lemma tx_bytes_delay: "d' = d \<or> d' = clamp_delay d \<Longrightarrow> tx_bytes ch d' m = tx_bytes ch d m"
  by auto

lemma filled_keeps:
  assumes "filled k dev dev'" "tx_ready dev" "length (concat (take k (tx_recs dev))) \<le> page_room dev"
  shows "tx_ready dev'" "tx_recs dev' = drop k (tx_recs dev)"
    "page_room dev' = page_room dev - length (concat (take k (tx_recs dev)))"
    "page_end dev' = page_end dev + length (concat (take k (tx_recs dev)))"
proof -
  let ?bs = "concat (take k (tx_recs dev))"
  obtain w d where f: "dev' = dev\<lparr>
      pdev := (pdev dev)\<lparr>writeFifo := w, tx_iframe_delay_us := d, tx_frames_counter := tx_frames_counter (pdev dev) + of_nat k\<rparr>,
      tx_dma := wr (tx_dma dev) (page_end dev) ?bs,
      tx_pages := Some ((the (tx_pages dev))[unat (tx_page_index dev) := (cur_page dev)\<lparr>page_offset := page_offset (cur_page dev) + of_nat (length ?bs)\<rparr>]),
      io_out := io_out dev @ replicate (k * (if tx_iframe_delay_us (pdev dev) = 0 then 1 else 2)) (Writel 1 PCIEFD_REG_TX_REQ_ACC)\<rparr>"
    "ring_inv w" "fifo_items w = drop k (fifo_items (writeFifo (pdev dev)))"
    "d = tx_iframe_delay_us (pdev dev) \<or> d = clamp_delay (tx_iframe_delay_us (pdev dev))"
    using assms(1) unfolding filled_def Let_def by (elim exE conjE)
  have po: "pages_ok dev" and sane: "list_all (\<lambda>x. msg_sane (tx_msg x)) (fifo_items (writeFifo (pdev dev)))"
    using assms(2) by (simp_all add: tx_ready_def)
  have fs: "tx_pages dev' = Some ((the (tx_pages dev))[unat (tx_page_index dev) :=
      (cur_page dev)\<lparr>page_offset := page_offset (cur_page dev) + of_nat (length ?bs)\<rparr>])"
    "tx_page_index dev' = tx_page_index dev" "tx_pages_free dev' = tx_pages_free dev"
    unfolding f(1) by simp_all
  note m = pages_ok_move [OF po assms(3) fs]
  show "page_room dev' = page_room dev - length ?bs" "page_end dev' = page_end dev + length ?bs" by (rule m)+
  have q: "writeFifo (pdev dev') = w" "nChannel (pdev dev') = nChannel (pdev dev)" "tx_iframe_delay_us (pdev dev') = d"
    unfolding f(1) by simp_all
  show "tx_recs dev' = drop k (tx_recs dev)" using f(3,4) by (auto simp: tx_recs_def q drop_map tx_bytes_delay)
  show "tx_ready dev'" using m(1) f(2,3) sane by (simp add: tx_ready_def q list_all_iff) (meson in_set_dropD)
qed

lemma filled_none:
  assumes "pages_ok dev" "ring_inv (writeFifo (pdev dev))"
  shows "filled 0 dev dev"
proof -
  have "the (tx_pages dev) = (the (tx_pages dev))[unat (tx_page_index dev) := cur_page dev]"
    by (simp add: cur_page_def)
  moreover have "tx_pages dev \<noteq> None" using assms(1) by (auto simp: pages_ok_def)
  ultimately show ?thesis unfolding filled_def Let_def
    using assms(2) by (intro exI [of _ "writeFifo (pdev dev)"] exI [of _ "tx_iframe_delay_us (pdev dev)"]) (auto simp: same_dev)
qed

lemma encode_here_fits:
  assumes "tx_ready dev" "fifo_items (writeFifo (pdev dev)) = x # xs"
  defines "b \<equiv> tx_bytes (nChannel (pdev dev)) (tx_iframe_delay_us (pdev dev)) (tx_msg x)"
  obtains (full) "page_room dev < length b" "encode_here dev = (dev, - ENOSPC)"
  | (fits) "length b \<le> page_room dev" "0 < length b" "0 \<le> snd (encode_here dev)" "snd (encode_here dev) \<noteq> 0"
    "filled 1 dev (page_written (nat (snd (encode_here dev))) (fst (encode_here dev)))"
proof -
  let ?q = "pdev dev"
  have i: "ring_inv (writeFifo ?q)" "msg_sane (tx_msg x)" using assms(1,2) by (simp_all add: tx_ready_def)
  have sz: "page_size (cur_page dev) = 2036" using assms(1) cur_page_ok(1) by (simp add: tx_ready_def)
  obtain w where w: "ring_inv w" "fifo_items w = xs" "\<And>n mem a. ucan_encode_msg ?q mem a n = (if n < length b then (?q, mem, - ENOSPC)
      else (?q\<lparr>writeFifo := w, tx_iframe_delay_us := clamp_delay (tx_iframe_delay_us ?q)\<rparr>, wr mem a b, int (length b)))"
    using encode_item [OF i(1) assms(2) i(2)] unfolding b_def by blast
  have pos: "0 < length b"
    using align4_bounds [of "20 + unat (pcan_dlc2len (pcan_len2dlc (ucast (data_len (tx_msg x)))))"] i(2)
    by (simp add: b_def tx_bytes_def)
  have same: "dev\<lparr>pdev := pdev dev, tx_dma := tx_dma dev\<rparr> = dev" by (cases dev) simp
  have eh: "encode_here dev = (if page_room dev < length b then (dev, - ENOSPC)
      else (dev\<lparr>pdev := ?q\<lparr>writeFifo := w, tx_iframe_delay_us := clamp_delay (tx_iframe_delay_us ?q)\<rparr>,
             tx_dma := wr (tx_dma dev) (page_end dev) b\<rparr>, int (length b)))"
    by (simp add: encode_here_def Let_def w(3) sz page_room_def page_end_def same)
  show ?thesis
  proof (cases "page_room dev < length b")
    case True
    then show ?thesis using full eh by simp
  next
    case False
    have "filled 1 dev (page_written (nat (snd (encode_here dev))) (fst (encode_here dev)))"
      unfolding filled_def Let_def
      using False eh w(1,2) assms(2)
      by (intro exI [of _ w] exI [of _ "clamp_delay (tx_iframe_delay_us ?q)"])
        (auto simp: page_written_def Let_def set_page_def ucan_x_writel_def cur_page_def tx_recs_def numeral_2_eq_2 simp flip: b_def)
    then show ?thesis using fits eh False pos by simp
  qed
qed

lemma filled_trans:
  assumes "filled 1 dev d1" "filled k d1 d2" "tx_recs dev = b # tx_recs d1" "page_end d1 = page_end dev + length b"
    and "unat (tx_page_index dev) < length (the (tx_pages dev))"
  shows "filled (Suc k) dev d2"
proof -
  have b: "concat (take 1 (tx_recs dev)) = b" using assms(3) by simp
  obtain w d where f: "d1 = dev\<lparr>
      pdev := (pdev dev)\<lparr>writeFifo := w, tx_iframe_delay_us := d, tx_frames_counter := tx_frames_counter (pdev dev) + of_nat 1\<rparr>,
      tx_dma := wr (tx_dma dev) (page_end dev) b,
      tx_pages := Some ((the (tx_pages dev))[unat (tx_page_index dev) := (cur_page dev)\<lparr>page_offset := page_offset (cur_page dev) + of_nat (length b)\<rparr>]),
      io_out := io_out dev @ replicate (1 * (if tx_iframe_delay_us (pdev dev) = 0 then 1 else 2)) (Writel 1 PCIEFD_REG_TX_REQ_ACC)\<rparr>"
    "fifo_items w = drop 1 (fifo_items (writeFifo (pdev dev)))"
    "d = tx_iframe_delay_us (pdev dev) \<or> d = clamp_delay (tx_iframe_delay_us (pdev dev))"
    using assms(1) unfolding filled_def Let_def b by (elim exE conjE)
  define bs where "bs = concat (take k (tx_recs d1))"
  obtain w' d' where g: "d2 = d1\<lparr>
      pdev := (pdev d1)\<lparr>writeFifo := w', tx_iframe_delay_us := d', tx_frames_counter := tx_frames_counter (pdev d1) + of_nat k\<rparr>,
      tx_dma := wr (tx_dma d1) (page_end d1) bs,
      tx_pages := Some ((the (tx_pages d1))[unat (tx_page_index d1) := (cur_page d1)\<lparr>page_offset := page_offset (cur_page d1) + of_nat (length bs)\<rparr>]),
      io_out := io_out d1 @ replicate (k * (if tx_iframe_delay_us (pdev d1) = 0 then 1 else 2)) (Writel 1 PCIEFD_REG_TX_REQ_ACC)\<rparr>"
    "ring_inv w'" "fifo_items w' = drop k (fifo_items (writeFifo (pdev d1)))"
    "d' = tx_iframe_delay_us (pdev d1) \<or> d' = clamp_delay (tx_iframe_delay_us (pdev d1))"
    using assms(2) unfolding filled_def Let_def bs_def by (elim exE conjE)
  have c: "cur_page d1 = (cur_page dev)\<lparr>page_offset := page_offset (cur_page dev) + of_nat (length b)\<rparr>"
    using assms(5) by (simp add: f(1) cur_page_def)
  have z: "(if tx_iframe_delay_us (pdev d1) = 0 then 1 else 2) = (if tx_iframe_delay_us (pdev dev) = 0 then 1 else 2 :: nat)"
    using f(3) by (auto simp: f(1))
  have bs: "concat (take (Suc k) (tx_recs dev)) = b @ bs" by (simp add: assms(3) bs_def)
  have t: "tx_dma d1 = wr (tx_dma dev) (page_end dev) b" by (simp add: f(1))
  have m: "wr (tx_dma d1) (page_end d1) bs = wr (tx_dma dev) (page_end dev) (b @ bs)"
    unfolding t assms(4) by (rule wr_append)
  show ?thesis unfolding filled_def Let_def bs
  proof (intro exI [of _ w'] exI [of _ d'] conjI)
    show "d2 = dev\<lparr>
      pdev := (pdev dev)\<lparr>writeFifo := w', tx_iframe_delay_us := d', tx_frames_counter := tx_frames_counter (pdev dev) + of_nat (Suc k)\<rparr>,
      tx_dma := wr (tx_dma dev) (page_end dev) (b @ bs),
      tx_pages := Some ((the (tx_pages dev))[unat (tx_page_index dev) := (cur_page dev)\<lparr>page_offset := page_offset (cur_page dev) + of_nat (length (b @ bs))\<rparr>]),
      io_out := io_out dev @ replicate (Suc k * (if tx_iframe_delay_us (pdev dev) = 0 then 1 else 2)) (Writel 1 PCIEFD_REG_TX_REQ_ACC)\<rparr>"
      unfolding g(1) m z c by (simp add: f(1) replicate_add add.assoc)
    show "fifo_items w' = drop (Suc k) (fifo_items (writeFifo (pdev dev)))" using g(3) f(1,2) by simp
    show "d' = tx_iframe_delay_us (pdev dev) \<or> d' = clamp_delay (tx_iframe_delay_us (pdev dev))"
      using g(4) f(1,3) by auto
  qed (rule g(2))
qed

text \<open>The loop fills the page.\<close>

lemma write_fill:
  assumes "tx_ready dev"
  shows "\<exists>dev1. write_loop now drv stack lk dev = write_loop now drv stack lk dev1 \<and>
    filled (fitting (page_room dev) (tx_recs dev)) dev dev1"
  using assms
proof (induction "fifo_items (writeFifo (pdev dev))" arbitrary: dev)
  case Nil
  then have "tx_recs dev = []" by (simp add: tx_recs_def)
  then show ?case using filled_none Nil.prems by (auto simp: tx_ready_def)
next
  case (Cons x xs)
  let ?b = "tx_bytes (nChannel (pdev dev)) (tx_iframe_delay_us (pdev dev)) (tx_msg x)"
  note it = Cons.hyps(2) [symmetric]
  have hd: "tx_recs dev = ?b # drop 1 (tx_recs dev)" by (simp add: tx_recs_def it)
  show ?case
  proof (rule encode_here_fits [OF Cons.prems it])
    assume "page_room dev < length ?b"
    then have "fitting (page_room dev) (tx_recs dev) = 0" by (subst hd) simp
    then show ?thesis using filled_none Cons.prems by (auto simp: tx_ready_def)
  next
    let ?e = "encode_here dev" and ?d = "page_written (nat (snd (encode_here dev))) (fst (encode_here dev))"
    assume e: "length ?b \<le> page_room dev" "0 < length ?b" "0 \<le> snd ?e" "snd ?e \<noteq> 0" "filled 1 dev ?d"
    have b: "concat (take 1 (tx_recs dev)) = ?b" by (subst hd) simp
    note k = filled_keeps [OF e(5) Cons.prems, unfolded b, OF e(1)]
    have "xs = fifo_items (writeFifo (pdev ?d))"
      using e(5) it unfolding filled_def Let_def by (elim exE conjE) simp
    then obtain d1 where d1: "write_loop now drv stack lk ?d = write_loop now drv stack lk d1"
      "filled (fitting (page_room ?d) (tx_recs ?d)) ?d d1" using Cons.hyps(1) k(1) by blast
    have step: "write_loop now drv stack lk dev = write_loop now drv stack lk ?d"
      using e(3,4) by (subst write_loop.simps) (simp add: Let_def)
    have fit: "fitting (page_room dev) (tx_recs dev) = Suc (fitting (page_room ?d) (tx_recs ?d))"
      using e(1) by (subst hd) (simp add: k(2,3))
    have "unat (tx_page_index dev) < length (the (tx_pages dev))"
      using Cons.prems cur_page_ok(3) by (simp add: tx_ready_def)
    from filled_trans [OF e(5) d1(2) _ k(4) this] have "filled (fitting (page_room dev) (tx_recs dev)) dev d1"
      unfolding fit using hd k(2) by simp
    then show ?thesis using step d1(1) by auto
  qed
qed

lemma fitting_drop: "fitting (n - length (concat (take (fitting n rs) rs))) (drop (fitting n rs) rs) = 0"
proof (induction n rs rule: fitting.induct)
  case (2 n r rs)
  show ?case
  proof (cases "n < length r")
    case False
    let ?k = "fitting (n - length r) rs"
    have "length (concat (take (Suc ?k) (r # rs))) = length r + length (concat (take ?k rs))"
      unfolding take_Suc_Cons concat.simps length_append ..
    then show ?thesis using 2 [OF False] False by (simp only: fitting.simps if_False drop_Suc_Cons diff_diff_left)
  qed simp
qed simp

text \<open>No more message fits.\<close>

lemma write_stop:
  assumes "tx_ready dev" "fitting (page_room dev) (tx_recs dev) = 0"
  shows "write_loop now drv stack lk dev =
    (if tx_recs dev = [] then (dev, lk, - ENODATA)
     else if tx_pages_free dev = 0 then (no_free_page now drv stack dev, lk, 0)
     else write_loop now drv stack True (change_page dev))"
proof (cases "fifo_items (writeFifo (pdev dev))")
  case Nil
  have same: "dev\<lparr>pdev := pdev dev, tx_dma := tx_dma dev\<rparr> = dev" by (cases dev) simp
  have "encode_here dev = (dev, - ENODATA)" using encode_empty [OF Nil] by (simp add: encode_here_def Let_def same)
  then show ?thesis using Nil by (subst write_loop.simps) (simp add: Let_def tx_recs_def)
next
  case (Cons x xs)
  show ?thesis
  proof (rule encode_here_fits [OF assms(1) Cons])
    assume "encode_here dev = (dev, - ENOSPC)"
    then show ?thesis using Cons by (subst write_loop.simps) (simp add: Let_def tx_recs_def)
  next
    assume "length (tx_bytes (nChannel (pdev dev)) (tx_iframe_delay_us (pdev dev)) (tx_msg x)) \<le> page_room dev"
    then show ?thesis using assms(2) Cons by (simp add: tx_recs_def)
  qed
qed

text \<open>The page in use after a change is the other one, from its start.\<close>

definition other_page :: "pcifddev \<Rightarrow> ucan_pci_page" where
  "other_page dev = the (tx_pages dev) ! (1 - unat (tx_page_index dev))"

lemma change_page_ok:
  assumes "tx_ready dev" "tx_pages_free dev \<noteq> 0"
  shows "tx_ready (change_page dev)" "tx_recs (change_page dev) = tx_recs dev" "page_room (change_page dev) = 2036"
    "page_end (change_page dev) = 2048 - page_vbase (cur_page dev)" "tx_pages_free (change_page dev) = 0"
    "tx_dma (change_page dev) = wr (tx_dma dev) (page_end dev) (link_record (page_lbase (other_page dev)))"
    "tx_page_index (change_page dev) = 1 - tx_page_index dev"
    "pdev (change_page dev) = pcan_set_tx_engine TX_ENGINE_STARTED (pdev dev)"
proof -
  have po: "pages_ok dev" and f: "tx_pages_free dev = 1" using assms by (auto simp: tx_ready_def pages_ok_def)
  note cp = change_page_def Let_def set_page_def pcan_set_tx_engine_def
  show q: "pdev (change_page dev) = pcan_set_tx_engine TX_ENGINE_STARTED (pdev dev)" and "tx_pages_free (change_page dev) = 0"
    "tx_page_index (change_page dev) = 1 - tx_page_index dev" by (simp_all add: cp f)
  show "tx_recs (change_page dev) = tx_recs dev" by (simp add: cp tx_recs_def)
  have "pages_ok (change_page dev) \<and> page_room (change_page dev) = 2036 \<and>
      page_end (change_page dev) = 2048 - page_vbase (cur_page dev) \<and>
      tx_dma (change_page dev) = wr (tx_dma dev) (page_end dev) (link_record (page_lbase (other_page dev)))"
    using po
  proof (cases rule: pages_cases)
    case (1 p0 p1)
    then show ?thesis using f by (simp add: cp pages_ok_def page_room_def page_end_def cur_page_def other_page_def)
  next
    case (2 p0 p1)
    then show ?thesis using f by (simp add: cp pages_ok_def page_room_def page_end_def cur_page_def other_page_def)
  qed
  then show "page_room (change_page dev) = 2036" "page_end (change_page dev) = 2048 - page_vbase (cur_page dev)"
    "tx_dma (change_page dev) = wr (tx_dma dev) (page_end dev) (link_record (page_lbase (other_page dev)))"
    "tx_ready (change_page dev)" using assms(1) by (simp_all add: tx_ready_def q pcan_set_tx_engine_def)
qed

text \<open>What the writer sees of the channel is not touched by the overflow report.\<close>

definition page_view :: "pcandev \<Rightarrow> pcanfd_txmsg FIFO_MANAGER \<times> int \<times> u32 \<times> u32 \<times> u32" where
  "page_view d = (writeFifo d, nChannel d, tx_iframe_delay_us d, tx_frames_counter d, locked_tx_engine_state d)"

interpretation pgv: rx_blind page_view
  by unfold_locales (simp_all add: page_view_def)

lemma no_free_page_view:
  obtains p where "no_free_page now drv stack dev = dev\<lparr>pdev := p\<rparr>" "page_view p = page_view (pdev dev)"
proof -
  have "page_view (fst (pcan_handle_error_ctrl d (Some s) PCANFD_TX_OVERFLOW)) = page_view d" for d s
    by (simp add: pcan_handle_error_ctrl_def Let_def)
  then show ?thesis
    using that [of "pdev (no_free_page now drv stack dev)"] pgv.deliver_blind
    by (auto simp: no_free_page_def Let_def split_def split: if_splits)
qed

lemma filled_fields:
  assumes "filled k dev dev'" "pages_ok dev"
  shows "tx_dma dev' = wr (tx_dma dev) (page_end dev) (concat (take k (tx_recs dev)))"
    "fifo_items (writeFifo (pdev dev')) = drop k (fifo_items (writeFifo (pdev dev)))"
    "tx_frames_counter (pdev dev') = tx_frames_counter (pdev dev) + of_nat k"
    "locked_tx_engine_state (pdev dev') = locked_tx_engine_state (pdev dev)"
    "tx_pages_free dev' = tx_pages_free dev" "other_page dev' = other_page dev"
    "page_vbase (cur_page dev') = page_vbase (cur_page dev)"
proof -
  have o: "((the (tx_pages dev))[unat (tx_page_index dev) := p]) ! (1 - unat (tx_page_index dev)) = other_page dev" for p
    using assms(2) by (cases rule: pages_cases) (simp_all add: other_page_def)
  note c = cur_page_ok(3) [OF assms(2)]
  obtain w d where f: "dev' = dev\<lparr>
      pdev := (pdev dev)\<lparr>writeFifo := w, tx_iframe_delay_us := d, tx_frames_counter := tx_frames_counter (pdev dev) + of_nat k\<rparr>,
      tx_dma := wr (tx_dma dev) (page_end dev) (concat (take k (tx_recs dev))),
      tx_pages := Some ((the (tx_pages dev))[unat (tx_page_index dev) := (cur_page dev)\<lparr>page_offset := page_offset (cur_page dev)
        + of_nat (length (concat (take k (tx_recs dev))))\<rparr>]),
      io_out := io_out dev @ replicate (k * (if tx_iframe_delay_us (pdev dev) = 0 then 1 else 2)) (Writel 1 PCIEFD_REG_TX_REQ_ACC)\<rparr>"
    "fifo_items w = drop k (fifo_items (writeFifo (pdev dev)))"
    using assms(1) unfolding filled_def Let_def by (elim exE conjE)
  show "tx_dma dev' = wr (tx_dma dev) (page_end dev) (concat (take k (tx_recs dev)))"
    "fifo_items (writeFifo (pdev dev')) = drop k (fifo_items (writeFifo (pdev dev)))"
    "tx_frames_counter (pdev dev') = tx_frames_counter (pdev dev) + of_nat k"
    "locked_tx_engine_state (pdev dev') = locked_tx_engine_state (pdev dev)"
    "tx_pages_free dev' = tx_pages_free dev" using f(2) unfolding f(1) by simp_all
  show "other_page dev' = other_page dev" unfolding f(1) other_page_def [of "_\<lparr>io_out := _\<rparr>"] using o by simp
  show "page_vbase (cur_page dev') = page_vbase (cur_page dev)" unfolding f(1) cur_page_def [of "_\<lparr>io_out := _\<rparr>"] using c by simp
qed

text \<open>One page: as many messages as fit are put into it, and then the loop ends or takes the other page.\<close>

lemma write_page:
  assumes "tx_ready dev"
  defines "k \<equiv> fitting (page_room dev) (tx_recs dev)"
  obtains d1 where "write_loop now drv stack lk dev =
      (if k = length (tx_recs dev) then (d1, lk, - ENODATA)
       else if tx_pages_free dev = 0 then (no_free_page now drv stack d1, lk, 0)
       else write_loop now drv stack True (change_page d1))"
    "filled k dev d1" "tx_ready d1" "tx_recs d1 = drop k (tx_recs dev)"
    "page_end d1 = page_end dev + length (concat (take k (tx_recs dev)))"
proof -
  have po: "pages_ok dev" using assms(1) by (simp add: tx_ready_def)
  obtain d1 where d1: "write_loop now drv stack lk dev = write_loop now drv stack lk d1" "filled k dev d1"
    using write_fill [OF assms(1)] unfolding k_def by blast
  have "length (concat (take k (tx_recs dev))) \<le> page_room dev" unfolding k_def by (rule fitting_bound)
  note r = filled_keeps [OF d1(2) assms(1) this]
  have z: "fitting (page_room d1) (tx_recs d1) = 0" unfolding r(2,3) k_def by (rule fitting_drop)
  have e: "tx_recs d1 = [] \<longleftrightarrow> k = length (tx_recs dev)" using r(2) fitting_le [of "page_room dev" "tx_recs dev"] by (auto simp: k_def)
  show ?thesis
    by (rule that [OF _ d1(2) r(1,2,4)]) (use d1(1) write_stop [OF r(1) z] e filled_fields(5) [OF d1(2) po] in simp)
qed

lemma ready_view:
  assumes "tx_ready dev" "page_view p = page_view (pdev dev)"
  shows "tx_ready (dev\<lparr>pdev := p\<rparr>)"
proof -
  have "pages_ok (dev\<lparr>pdev := p\<rparr>) = pages_ok dev" by (simp add: pages_ok_def)
  then show ?thesis using assms by (simp add: tx_ready_def page_view_def)
qed

text \<open>The loop, up to what the overflow report does to the rest of the channel.\<close>

definition written :: "nat \<Rightarrow> pcifddev \<Rightarrow> pcifddev \<Rightarrow> bool" where
  "written k dev dev' \<longleftrightarrow> tx_ready dev' \<and>
     tx_dma dev' = wr (tx_dma dev) (page_end dev) (concat (take k (tx_recs dev))) \<and>
     fifo_items (writeFifo (pdev dev')) = drop k (fifo_items (writeFifo (pdev dev))) \<and>
     tx_frames_counter (pdev dev') = tx_frames_counter (pdev dev) + of_nat k \<and>
     locked_tx_engine_state (pdev dev') = locked_tx_engine_state (pdev dev) \<and>
     tx_pages_free dev' = tx_pages_free dev"

lemma write_last:
  assumes "tx_ready dev" "tx_pages_free dev = 0 \<or> fitting (page_room dev) (tx_recs dev) = length (tx_recs dev)"
  defines "k \<equiv> fitting (page_room dev) (tx_recs dev)"
  obtains dev' where "write_loop now drv stack lk dev = (dev', lk, if k = length (tx_recs dev) then - ENODATA else 0)"
    "written k dev dev'"
proof -
  have po: "pages_ok dev" using assms(1) by (simp add: tx_ready_def)
  obtain d1 where d1: "write_loop now drv stack lk dev =
      (if k = length (tx_recs dev) then (d1, lk, - ENODATA)
       else if tx_pages_free dev = 0 then (no_free_page now drv stack d1, lk, 0)
       else write_loop now drv stack True (change_page d1))" "filled k dev d1" "tx_ready d1"
    using write_page [OF assms(1)] unfolding k_def by blast
  note f = filled_fields [OF d1(2) po]
  have w1: "written k dev d1" unfolding written_def using d1(3) f by simp
  obtain p where p: "no_free_page now drv stack d1 = d1\<lparr>pdev := p\<rparr>" "page_view p = page_view (pdev d1)"
    by (rule no_free_page_view)
  have w2: "written k dev (d1\<lparr>pdev := p\<rparr>)"
    using w1 ready_view [OF d1(3) p(2)] p(2) by (simp add: written_def page_view_def)
  show ?thesis
    by (rule that [of "if k = length (tx_recs dev) then d1 else d1\<lparr>pdev := p\<rparr>"]) (use d1(1) assms(2) w1 w2 p(1) k_def in auto)
qed

lemma length_link_record [simp]: "length (link_record a) = 12"
  by (simp add: link_record_def)

lemma write_linked:
  assumes "tx_ready dev" "fitting (page_room dev) (tx_recs dev) < length (tx_recs dev)" "tx_pages_free dev \<noteq> 0"
  defines "k1 \<equiv> fitting (page_room dev) (tx_recs dev)"
  defines "k2 \<equiv> fitting 2036 (drop k1 (tx_recs dev))"
  obtains dev' where "write_loop now drv stack lk dev = (dev', True, if k1 + k2 = length (tx_recs dev) then - ENODATA else 0)"
    "tx_dma dev' = wr (wr (wr (tx_dma dev) (page_end dev) (concat (take k1 (tx_recs dev))))
        (page_end dev + length (concat (take k1 (tx_recs dev)))) (link_record (page_lbase (other_page dev))))
      (2048 - page_vbase (cur_page dev)) (concat (take k2 (drop k1 (tx_recs dev))))"
    "fifo_items (writeFifo (pdev dev')) = drop (k1 + k2) (fifo_items (writeFifo (pdev dev)))"
    "tx_frames_counter (pdev dev') = tx_frames_counter (pdev dev) + of_nat (k1 + k2)"
    "locked_tx_engine_state (pdev dev') = TX_ENGINE_STARTED" "tx_pages_free dev' = 0" "tx_ready dev'"
proof -
  have po: "pages_ok dev" using assms(1) by (simp add: tx_ready_def)
  obtain d1 where d1: "write_loop now drv stack lk dev = write_loop now drv stack True (change_page d1)" "filled k1 dev d1" "tx_ready d1"
    "tx_recs d1 = drop k1 (tx_recs dev)" "page_end d1 = page_end dev + length (concat (take k1 (tx_recs dev)))"
    using write_page [OF assms(1), of now drv stack lk] assms(2,3) unfolding k1_def by (metis less_not_refl)
  note f = filled_fields [OF d1(2) po]
  have fr: "tx_pages_free d1 \<noteq> 0" using f(5) assms(3) by simp
  note c = change_page_ok [OF d1(3) fr]
  have k2: "k2 = fitting (page_room (change_page d1)) (tx_recs (change_page d1))" by (simp add: k2_def c(2,3) d1(4))
  obtain dev' where w: "write_loop now drv stack True (change_page d1) =
      (dev', True, if k2 = length (tx_recs (change_page d1)) then - ENODATA else 0)" "written k2 (change_page d1) dev'"
    using write_last [OF c(1) disjI1 [OF c(5)]] unfolding k2 by blast
  have e: "k2 = length (tx_recs (change_page d1)) \<longleftrightarrow> k1 + k2 = length (tx_recs dev)"
    using assms(2) by (auto simp: c(2) d1(4) k1_def)
  show ?thesis
  proof (rule that)
    show "write_loop now drv stack lk dev = (dev', True, if k1 + k2 = length (tx_recs dev) then - ENODATA else 0)"
      using d1(1) w(1) e by simp
    show "tx_dma dev' = wr (wr (wr (tx_dma dev) (page_end dev) (concat (take k1 (tx_recs dev))))
        (page_end dev + length (concat (take k1 (tx_recs dev)))) (link_record (page_lbase (other_page dev))))
      (2048 - page_vbase (cur_page dev)) (concat (take k2 (drop k1 (tx_recs dev))))"
      using w(2) unfolding written_def c(2,4,6) d1(4,5) f(1,6,7) by blast
    show "fifo_items (writeFifo (pdev dev')) = drop (k1 + k2) (fifo_items (writeFifo (pdev dev)))"
      using w(2) f(2) by (simp add: written_def c(8) pcan_set_tx_engine_def add.commute)
    show "tx_frames_counter (pdev dev') = tx_frames_counter (pdev dev) + of_nat (k1 + k2)"
      using w(2) f(3) by (simp add: written_def c(8) pcan_set_tx_engine_def)
  qed (use w(2) c(5,8) in \<open>simp_all add: written_def pcan_set_tx_engine_def\<close>)
qed

text \<open>C6. Everything the driver puts into the transmit area, and the state it leaves: the messages that fit
  into the page in use follow those that are there already; when one does not fit and the other page is
  free, a link to that page follows, and the messages that fit into it are put at its start; the rest
  stays in the queue. The transmission is reported as running exactly when a link was put, whose
  interrupt will continue it. No byte before the end of the page in use and none outside the area changes.\<close>

theorem pcifd_write_pages:
  assumes "tx_ready dev" "pcifd_device_write now drv stack dev = (dev', err)"
  shows "let recs = tx_recs dev; k1 = fitting (page_room dev) recs; rest = drop k1 recs;
      linked = (k1 < length recs \<and> tx_pages_free dev \<noteq> 0); k2 = (if linked then fitting 2036 rest else 0);
      lk = page_end dev + length (concat (take k1 recs));
      m = wr (tx_dma dev) (page_end dev) (concat (take k1 recs))
    in tx_dma dev' = (if linked then wr (wr m lk (link_record (page_lbase (other_page dev))))
                        (2048 - page_vbase (cur_page dev)) (concat (take k2 rest)) else m) \<and>
       (\<forall>x. page_vbase (cur_page dev) \<le> x \<and> x < page_end dev \<or> 4096 \<le> x \<longrightarrow> tx_dma dev' x = tx_dma dev x) \<and>
       fifo_items (writeFifo (pdev dev')) = drop (k1 + k2) (fifo_items (writeFifo (pdev dev))) \<and>
       tx_frames_counter (pdev dev') = tx_frames_counter (pdev dev) + of_nat (k1 + k2) \<and>
       locked_tx_engine_state (pdev dev') = (if linked then TX_ENGINE_STARTED else TX_ENGINE_STOPPED) \<and>
       tx_pages_free dev' = (if linked then 0 else tx_pages_free dev) \<and>
       err = (if k1 + k2 = length recs then - ENODATA else 0) \<and> tx_ready dev'"
proof -
  define recs k1 rest where "recs = tx_recs dev" and "k1 = fitting (page_room dev) recs" and "rest = drop k1 recs"
  have po: "pages_ok dev" and some: "tx_pages dev \<noteq> None" using assms(1) by (auto simp: tx_ready_def pages_ok_def)
  have len: "length (concat (take k1 recs)) \<le> page_room dev" unfolding k1_def by (rule fitting_bound)
  note p = cur_page_ok [OF po]
  have base: "page_vbase (cur_page dev) = 0 \<or> page_vbase (cur_page dev) = 2048" using po by (cases rule: pages_cases) simp_all
  show ?thesis
  proof (cases "k1 < length recs \<and> tx_pages_free dev \<noteq> 0")
    case True
    let ?k2 = "fitting 2036 rest"
    let ?m = "wr (wr (wr (tx_dma dev) (page_end dev) (concat (take k1 recs)))
        (page_end dev + length (concat (take k1 recs))) (link_record (page_lbase (other_page dev))))
      (2048 - page_vbase (cur_page dev)) (concat (take ?k2 rest))"
    obtain d where d: "write_loop now drv stack False dev = (d, True, if k1 + ?k2 = length recs then - ENODATA else 0)"
      "tx_dma d = ?m" "fifo_items (writeFifo (pdev d)) = drop (k1 + ?k2) (fifo_items (writeFifo (pdev dev)))"
      "tx_frames_counter (pdev d) = tx_frames_counter (pdev dev) + of_nat (k1 + ?k2)"
      "locked_tx_engine_state (pdev d) = TX_ENGINE_STARTED" "tx_pages_free d = 0" "tx_ready d"
      using write_linked [OF assms(1), of now drv stack False] True unfolding rest_def k1_def recs_def by blast
    have r: "dev' = d" "err = (if k1 + ?k2 = length recs then - ENODATA else 0)"
      using assms(2) some d(1) by (auto simp: pcifd_device_write_def split: option.splits if_splits)
    have "?m x = tx_dma dev x" if "page_vbase (cur_page dev) \<le> x \<and> x < page_end dev \<or> 4096 \<le> x" for x
    proof -
      have "length (concat (take ?k2 rest)) \<le> 2036" by (rule fitting_bound)
      then have "x < 2048 - page_vbase (cur_page dev) \<or> 2048 - page_vbase (cur_page dev) + length (concat (take ?k2 rest)) \<le> x"
        "x < page_end dev \<or> page_end dev + length (concat (take k1 recs)) + 12 \<le> x"
        using that len p(2,4) base by (auto simp: page_end_def simp del: length_concat)
      then show ?thesis by (subst wr_outside; (subst wr_outside)?; (subst wr_outside)?; (simp del: length_concat)?; linarith?)
    qed
    then show ?thesis using True d(2-7) r
      unfolding Let_def recs_def [symmetric] k1_def [symmetric] rest_def [symmetric] by simp
  next
    case False
    obtain d where d: "write_loop now drv stack False dev = (d, False, if k1 = length recs then - ENODATA else 0)" "written k1 dev d"
      using write_last [OF assms(1), of now drv stack False] False fitting_le [of "page_room dev" recs]
      unfolding k1_def recs_def by (metis le_neq_implies_less)
    have r: "dev' = d\<lparr>pdev := pcan_set_tx_engine TX_ENGINE_STOPPED (pdev d)\<rparr>" "err = (if k1 = length recs then - ENODATA else 0)"
      using assms(2) some d(1) by (auto simp: pcifd_device_write_def split: option.splits if_splits)
    have "wr (tx_dma dev) (page_end dev) (concat (take k1 recs)) x = tx_dma dev x"
      if "page_vbase (cur_page dev) \<le> x \<and> x < page_end dev \<or> 4096 \<le> x" for x
      using that len p(4) by (intro wr_outside) linarith
    moreover have "tx_ready d" using d(2) unfolding written_def by blast
    then have "tx_ready dev'" by (simp add: r(1) tx_ready_def pages_ok_def pcan_set_tx_engine_def)
    ultimately show ?thesis using False d(2) r
      unfolding Let_def recs_def [symmetric] k1_def [symmetric] rest_def [symmetric] if_not_P [OF False] add_0_right written_def
      by (simp add: pcan_set_tx_engine_def del: length_concat)
  qed
qed

text \<open>The engine and the pages: a link is under way, and no page is free, exactly while the engine is
  reported as started.\<close>

definition engine_ok :: "pcifddev \<Rightarrow> bool" where
  "engine_ok dev \<longleftrightarrow> tx_ready dev \<and>
     tx_pages_free dev = (if locked_tx_engine_state (pdev dev) = TX_ENGINE_STARTED then 0 else 1)"

lemma ready_engine: "tx_ready (dev\<lparr>pdev := pcan_set_tx_engine s (pdev dev)\<rparr>) = tx_ready dev"
  by (simp add: tx_ready_def pages_ok_def pcan_set_tx_engine_def)

lemma engine_ok_view:
  assumes "engine_ok dev" "page_view p = page_view (pdev dev)"
  shows "engine_ok (dev\<lparr>pdev := p\<rparr>)"
  using assms ready_view [of dev p] by (simp add: engine_ok_def page_view_def)

lemma device_write_engine:
  assumes "tx_ready dev" "tx_pages_free dev = 1"
  shows "engine_ok (fst (pcifd_device_write now drv stack dev))"
proof -
  have some: "tx_pages dev \<noteq> None" using assms(1) by (auto simp: tx_ready_def pages_ok_def)
  show ?thesis
  proof (cases "fitting (page_room dev) (tx_recs dev) < length (tx_recs dev)")
    case True
    then obtain d e where "write_loop now drv stack False dev = (d, True, e)" "tx_ready d" "tx_pages_free d = 0"
      "locked_tx_engine_state (pdev d) = TX_ENGINE_STARTED"
      using write_linked [OF assms(1) True, of now drv stack False] assms(2) by (metis zero_neq_one)
    then show ?thesis using some by (auto simp: pcifd_device_write_def engine_ok_def split: option.splits)
  next
    case False
    then have "fitting (page_room dev) (tx_recs dev) = length (tx_recs dev)"
      using fitting_le [of "page_room dev" "tx_recs dev"] by simp
    then obtain d e where "write_loop now drv stack False dev = (d, False, e)" "tx_ready d" "tx_pages_free d = tx_pages_free dev"
      using write_last [OF assms(1) disjI2] unfolding written_def by metis
    then show ?thesis using some assms(2) ready_engine [of TX_ENGINE_STOPPED d]
      by (auto simp: pcifd_device_write_def engine_ok_def pcan_set_tx_engine_def split: option.splits)
  qed
qed

lemma dma_init_ready:
  assumes "tx_pages dev \<noteq> None" "ring_inv (writeFifo (pdev dev))"
    and "list_all (\<lambda>x. msg_sane (tx_msg x)) (fifo_items (writeFifo (pdev dev)))"
  shows "tx_ready (pcifd_dma_init_tx dev)" "tx_pages_free (pcifd_dma_init_tx dev) = 1"
  using assms by (auto simp: pcifd_dma_init_tx_def tx_ready_def pages_ok_def upt_rec)

text \<open>C32. The pages and the engine agree after the transmission is enabled, and stay so when a task writes
  while the engine is stopped and when the interrupt of a page that was sent is handled.\<close>

theorem tx_engine_invariant:
  shows "(tx_pages dev \<noteq> None \<and> bus_state (pdev dev) \<noteq> PCANFD_ERROR_BUSOFF \<and> ring_inv (writeFifo (pdev dev)) \<and>
      list_all (\<lambda>x. msg_sane (tx_msg x)) (fifo_items (writeFifo (pdev dev)))
        \<longrightarrow> engine_ok (pcifd_enable_tx_path dev)) \<and>
    (engine_ok dev \<and> locked_tx_engine_state (pdev dev) = TX_ENGINE_STOPPED
        \<longrightarrow> engine_ok (fst (pcifd_device_write now drv stack dev))) \<and>
    (engine_ok dev \<longrightarrow> engine_ok (page_done now drv stack dev))"
proof (intro conjI impI)
  assume a: "tx_pages dev \<noteq> None \<and> bus_state (pdev dev) \<noteq> PCANFD_ERROR_BUSOFF \<and> ring_inv (writeFifo (pdev dev)) \<and>
      list_all (\<lambda>x. msg_sane (tx_msg x)) (fifo_items (writeFifo (pdev dev)))"
  let ?d = "ucan_x_writel PCIEFD_CTL_RST_BIT PCIEFD_REG_TX_CTL_CLR (pcifd_dma_init_tx dev)"
  have "tx_ready ?d" "tx_pages_free ?d = 1"
    using dma_init_ready [of dev] a by (auto simp: ucan_x_writel_def tx_ready_def pages_ok_def)
  then show "engine_ok (pcifd_enable_tx_path dev)"
    using a ready_engine [of TX_ENGINE_STOPPED ?d]
    by (simp add: pcifd_enable_tx_path_def Let_def engine_ok_def pcan_set_tx_engine_def)
next
  assume "engine_ok dev \<and> locked_tx_engine_state (pdev dev) = TX_ENGINE_STOPPED"
  then show "engine_ok (fst (pcifd_device_write now drv stack dev))"
    by (intro device_write_engine) (auto simp: engine_ok_def)
next
  assume ok: "engine_ok dev"
  have sig: "engine_ok (if b then d\<lparr>pdev := signal_out (pdev d)\<rparr> else d)" if "engine_ok d" for b d
    using engine_ok_view [OF that, of "signal_out (pdev d)"] that by (simp add: page_view_def signal_out_def)
  let ?d = "dev\<lparr>tx_pages_free := tx_pages_free dev + 1, pdev := pcan_clear_status_bit now drv (pdev dev) CAN_ERR_QXMTFULL\<rparr>"
  show "engine_ok (page_done now drv stack dev)"
  proof (cases "locked_tx_engine_state (pdev dev) = TX_ENGINE_STARTED")
    case True
    have "tx_ready (dev\<lparr>pdev := pcan_clear_status_bit now drv (pdev dev) CAN_ERR_QXMTFULL\<rparr>)"
      using ok pgv.clear_status_blind by (intro ready_view) (simp_all add: engine_ok_def)
    then have "tx_ready ?d" "tx_pages_free ?d = 1"
      using ok True by (auto simp: engine_ok_def tx_ready_def pages_ok_def)
    from device_write_engine [OF this] show ?thesis
      using sig True by (simp add: page_done_def split_def Let_def del: if_split)
  next
    case False
    then show ?thesis using ok by (simp add: page_done_def)
  qed
qed

section \<open>Witnesses\<close>

text \<open>A channel of a board with one message in its queue and its page tables allocated.\<close>

definition demo_tx :: pcanfd_txmsg where
  "demo_tx = \<lparr>tx_msg = zero_msg\<lparr>msg_type := 1\<rparr>, tx_tv = zero_timeval\<rparr>"

definition demo_pcifd :: pcifddev where
  "demo_pcifd = \<lparr>pdev = blank_dev\<lparr>writeFifo := queue_of demo_tx, dev_flags := PCAN_DEV_BUS_ON\<rparr>, cmd_head = (\<lambda>_. 0),
     cmd_size = 8, cmd_len = 0, io_out = [], irq_tag = 0, rx_dma_laddr = 0, tx_dma_laddr = 0x100001000, tx_dma = (\<lambda>_. 0),
     tx_pages_free = 0, tx_page_index = 0,
     tx_pages = Some (replicate 2 \<lparr>page_vbase = 0, page_lbase = 0, page_offset = 0, page_size = 0\<rparr>)\<rparr>"

lemma demo_ready: "tx_ready (pcifd_dma_init_tx demo_pcifd)" "tx_pages_free (pcifd_dma_init_tx demo_pcifd) = 1"
proof -
  have "msg_sane (tx_msg demo_tx)" by (simp add: demo_tx_def msg_sane_def zero_msg_def)
  then show "tx_ready (pcifd_dma_init_tx demo_pcifd)" "tx_pages_free (pcifd_dma_init_tx demo_pcifd) = 1"
    using dma_init_ready [of demo_pcifd] queue_of_item [of demo_tx] by (simp_all add: demo_pcifd_def)
qed

theorem pcifd_open_commands_witness:
  "\<exists>dev'. pcifd_device_open_fd (pcifd_driver_ops zero_timeval zero_timeval zero_hwtv zero_rxmsg) demo_pcifd
      (zero_init\<lparr>clock_Hz := 80000000\<rparr>) = Some (dev', zero_init\<lparr>clock_Hz := 80000000\<rparr>, 0) \<and>
    hd (pci_cmds (io_out dev')) = cmd_image 0 UCAN_CMD_RESET_MODE (replicate 6 0)"
proof -
  have "cmd_size demo_pcifd = 8" "bus_state (pdev demo_pcifd) \<noteq> PCANFD_ERROR_BUSOFF" "0 = nChannel (pdev demo_pcifd)"
    by (simp_all add: demo_pcifd_def blank_dev_def)
  moreover have "clock_Hz (zero_init\<lparr>clock_Hz := 80000000\<rparr>) \<in> set ucan_clocks" by (simp add: ucan_clocks_def)
  ultimately show ?thesis
    using pcifd_open_commands [where dev = demo_pcifd and ch = 0 and pfdi = "zero_init\<lparr>clock_Hz := 80000000\<rparr>"
      and now = zero_timeval and drv = zero_timeval and tv = zero_hwtv and stack = zero_rxmsg]
    by (elim meta_impE exE conjE; (assumption | rule exI conjI | simp add: demo_pcifd_def has_flag_def)+)
qed

theorem pcifd_write_pages_witness:
  "fifo_items (writeFifo (pdev (fst (pcifd_device_write zero_timeval zero_timeval zero_rxmsg (pcifd_dma_init_tx demo_pcifd))))) = []"
proof -
  let ?d = "pcifd_dma_init_tx demo_pcifd"
  obtain dev' err where w: "pcifd_device_write zero_timeval zero_timeval zero_rxmsg ?d = (dev', err)" using prod.exhaust by blast
  have q: "fifo_items (writeFifo (pdev ?d)) = [demo_tx]" using queue_of_item [of demo_tx]
    by (simp add: demo_pcifd_def pcifd_dma_init_tx_def)
  have r: "page_room ?d = 2036" by (simp add: demo_pcifd_def pcifd_dma_init_tx_def page_room_def cur_page_def upt_rec)
  let ?b = "tx_bytes (nChannel (pdev ?d)) (tx_iframe_delay_us (pdev ?d)) (tx_msg demo_tx)"
  have "length ?b = 20 \<or> length ?b = 28 \<or> length ?b = 24"
    by (simp add: tx_bytes_def demo_tx_def msg_sane_def zero_msg_def pcan_len2dlc_def pcan_dlc2len_def
        pcan_fd_len2dlc_def pcan_fd_dlc2len_def align4_def)
  then have k: "fitting 2036 (tx_recs ?d) = 1" "length (tx_recs ?d) = 1" by (auto simp: tx_recs_def q)
  show ?thesis using pcifd_write_pages [OF demo_ready(1) w] unfolding Let_def r k q w fst_conv by simp
qed

theorem tx_engine_invariant_witness:
  "engine_ok (page_done zero_timeval zero_timeval zero_rxmsg (pcifd_enable_tx_path demo_pcifd))"
proof -
  have "tx_pages demo_pcifd \<noteq> None" "bus_state (pdev demo_pcifd) \<noteq> PCANFD_ERROR_BUSOFF" "msg_sane (tx_msg demo_tx)"
    "writeFifo (pdev demo_pcifd) = queue_of demo_tx"
    by (simp_all add: demo_pcifd_def blank_dev_def demo_tx_def msg_sane_def zero_msg_def)
  then have "engine_ok (pcifd_enable_tx_path demo_pcifd)"
    using tx_engine_invariant [of demo_pcifd] queue_of_item [of demo_tx] by simp
  then show ?thesis using tx_engine_invariant [of "pcifd_enable_tx_path demo_pcifd"] by blast
qed

end
