(* ===== verification/Pcan_Text.thy ===== *)
theory Pcan_Text
  imports Pcan_Xfer "HOL-Library.Signed_Division"
begin

text \<open>
  The text interface of a channel: the formatter and the parsers of \<^verbatim>\<open>driver/src/pcan_parse.c\<close> and the
  \<^verbatim>\<open>read\<close> and \<^verbatim>\<open>write\<close> calls of \<^verbatim>\<open>driver/src/pcan_fops_linux.c\<close> that use them. A C string is the list of the
  characters before its end, and a pointer into it is the rest of the list; behind the end there is the
  null character. \<^verbatim>\<open>char\<close> is signed.
\<close>

section \<open>Numbers in C strings\<close>

text \<open>What the pointer \<open>s\<close> points to.\<close>

definition deref :: "string \<Rightarrow> char" where
  "deref s = (case s of [] \<Rightarrow> CHR 0x00 | c # _ \<Rightarrow> c)"

text \<open>\<^verbatim>\<open>simple_strtoul\<close> of the kernel with base 0, and a result that is stored into 32 bits. A leading
  \<^verbatim>\<open>0x\<close> counts only before a hexadecimal digit, another leading 0 means octal.\<close>

definition digit_val :: "char \<Rightarrow> nat option" where
  "digit_val c =
     (let n = of_char c :: nat
      in if 48 \<le> n \<and> n \<le> 57 then Some (n - 48)
         else if 97 \<le> n \<and> n \<le> 102 then Some (n - 87)
         else if 65 \<le> n \<and> n \<le> 70 then Some (n - 55)
         else None)"

fun parse_digits :: "nat \<Rightarrow> nat \<Rightarrow> string \<Rightarrow> nat \<times> string" where
  "parse_digits base acc [] = (acc, [])"
| "parse_digits base acc (c # s) =
     (case digit_val c of
        None \<Rightarrow> (acc, c # s)
      | Some d \<Rightarrow> if d < base then parse_digits base (acc * base + d) s else (acc, c # s))"

definition is_hex_prefix :: "string \<Rightarrow> bool" where
  "is_hex_prefix s \<longleftrightarrow> deref s = CHR ''0'' \<and> (deref (drop 1 s) = CHR ''x'' \<or> deref (drop 1 s) = CHR ''X'') \<and>
     digit_val (deref (drop 2 s)) \<noteq> None"

definition simple_strtoul :: "string \<Rightarrow> u32 \<times> string" where
  "simple_strtoul s =
     (let (n, r) = (if is_hex_prefix s then parse_digits 16 0 (drop 2 s)
                    else if deref s = CHR ''0'' then parse_digits 8 0 s
                    else parse_digits 10 0 s)
      in (of_nat n, r))"

text \<open>\<^verbatim>\<open>sprintf\<close> of unsigned numbers.\<close>

definition digit_char :: "nat \<Rightarrow> char" where
  "digit_char d = ''0123456789abcdef'' ! d"

function show_base :: "nat \<Rightarrow> nat \<Rightarrow> string" where
  "show_base b n = (if n < b \<or> b < 2 then [digit_char n] else show_base b (n div b) @ [digit_char (n mod b)])"
  by pat_completeness auto

termination
  by (relation "measure snd") (auto simp: div_less_dividend)

declare show_base.simps [simp del]

definition pad :: "nat \<Rightarrow> char \<Rightarrow> string \<Rightarrow> string" where
  "pad w c s = replicate (w - length s) c @ s"

section \<open>The formatter\<close>

definition status_chars :: "pcanfd_msg \<Rightarrow> char \<times> char" where
  "status_chars pf =
     (CHR ''x'',
      if has_flag (msg_flags pf) PCANFD_ERROR_BUS then CHR ''b''
      else if has_flag (msg_flags pf) PCANFD_ERROR_CTRLR then CHR ''c''
      else if has_flag (msg_flags pf) PCANFD_ERROR_INTERNAL then CHR ''i''
      else CHR ''x'')"

definition frame_chars :: "pcanfd_msg \<Rightarrow> char \<times> char" where
  "frame_chars pf =
     (let slf = has_flag (msg_flags pf) PCANFD_MSG_SLF
      in (if has_flag (msg_flags pf) PCANFD_MSG_RTR then (if slf then CHR ''R'' else CHR ''r'')
          else if has_flag (msg_flags pf) PCANFD_MSG_BRS then (if slf then CHR ''B'' else CHR ''b'')
          else (if slf then CHR ''M'' else CHR ''m''),
          if has_flag (msg_flags pf) PCANFD_MSG_EXT then CHR ''e'' else CHR ''s''))"

definition stamp_text :: "timeval \<Rightarrow> string" where
  "stamp_text tv =
     (let ms = of_int (tv_usec tv sdiv 1000) :: u32;
          us = of_int (tv_usec tv) - ms * 1000 :: u32;
          ms = ms + of_int (tv_sec tv * 1000)
      in '' '' @ pad 11 CHR '' '' (show_base 10 (unat ms)) @ '' '' @ pad 3 CHR ''0'' (show_base 10 (unat us)))"

definition pcan_make_output :: "pcanfd_msg \<Rightarrow> string" where
  "pcan_make_output pf =
     (let (r_or_m, s_or_e) =
        (if msg_type pf = PCANFD_TYPE_STATUS then status_chars pf
         else if msg_type pf = PCANFD_TYPE_CAN20_MSG \<or> msg_type pf = PCANFD_TYPE_CANFD_MSG then frame_chars pf
         else (CHR ''?'', CHR ''?''))
      in [r_or_m] @ '' '' @ [s_or_e] @ '' 0x'' @ pad 8 CHR ''0'' (show_base 16 (unat (msg_id pf)))
         @ '' '' @ pad 2 CHR '' '' (show_base 10 (unat (data_len pf))) @ ''  ''
         @ (if has_flag (msg_flags pf) PCANFD_MSG_RTR then []
            else concat (map (\<lambda>b. ''0x'' @ pad 2 CHR ''0'' (show_base 16 (unat b)) @ '' '')
                   (take (unat (data_len pf)) (msg_data pf))))
         @ (if has_flag (msg_flags pf) PCANFD_TIMESTAMP then stamp_text (timestamp pf) else [])
         @ [CHR 0x0A])"

section \<open>The parsers\<close>

definition is_blank :: "char \<Rightarrow> bool" where
  "is_blank c \<longleftrightarrow> c = CHR '' '' \<or> c = CHR 0x09"

definition is_eol :: "char \<Rightarrow> bool" where
  "is_eol c \<longleftrightarrow> c = CHR 0x00 \<or> c = CHR 0x0A \<or> c = CHR 0x0D"

definition is_eow :: "char \<Rightarrow> bool" where
  "is_eow c \<longleftrightarrow> is_blank c \<or> is_eol c"

definition skip_blanks :: "string \<Rightarrow> string" where
  "skip_blanks s = dropWhile is_blank s"

definition skip_blanks_and_test_for_CR :: "string \<Rightarrow> string \<times> bool" where
  "skip_blanks_and_test_for_CR s = (let s = skip_blanks s in (s, is_eol (deref s)))"

definition scan_unsigned_number :: "string \<Rightarrow> u32 \<times> string \<times> int" where
  "scan_unsigned_number p = (let (v, r) = simple_strtoul p in (v, r, if r \<noteq> p then 0 else - ERANGE))"

definition scan_char :: "string \<Rightarrow> char \<times> string" where
  "scan_char s = (deref s, drop 1 s)"

definition pcan_parse_input_idle :: "string \<Rightarrow> int" where
  "pcan_parse_input_idle buffer =
     (let (c, _) = scan_char (skip_blanks buffer)
      in if c = CHR ''#'' \<or> c = CHR 0x0A then 0 else - EINVAL)"

text \<open>The first letter of a message: the type and the flags; \<open>None\<close> is a rejected letter.\<close>

definition message_letter :: "char \<Rightarrow> (u16 \<times> u32) option" where
  "message_letter c =
     (if c = CHR ''B'' then Some (PCANFD_TYPE_CANFD_MSG, PCANFD_MSG_SLF OR PCANFD_MSG_BRS)
      else if c = CHR ''b'' then Some (PCANFD_TYPE_CANFD_MSG, PCANFD_MSG_BRS)
      else if c = CHR ''M'' then Some (PCANFD_TYPE_CAN20_MSG, PCANFD_MSG_SLF)
      else if c = CHR ''m'' then Some (PCANFD_TYPE_CAN20_MSG, 0)
      else if c = CHR ''R'' then Some (PCANFD_TYPE_CAN20_MSG, PCANFD_MSG_SLF OR PCANFD_MSG_RTR)
      else if c = CHR ''r'' then Some (PCANFD_TYPE_CAN20_MSG, PCANFD_MSG_RTR)
      else None)"

text \<open>The data bytes from the index \<open>i\<close> on; \<open>n\<close> are left. \<^verbatim>\<open>err\<close> is 0 when the loop starts and stays so
  unless a number has no digit.\<close>

fun parse_data :: "nat \<Rightarrow> nat \<Rightarrow> string \<Rightarrow> pcanfd_msg \<Rightarrow> pcanfd_msg \<times> int" where
  "parse_data 0 i s pf = (pf, 0)"
| "parse_data (Suc n) i s pf =
     (let (s, cr) = skip_blanks_and_test_for_CR s
      in if cr then (pf, 0)
         else
           let (v, s, err) = scan_unsigned_number s
           in if err \<noteq> 0 then (pf, err)
              else if 255 < v then (pf, 0)
              else parse_data n (i + 1) s (pf\<lparr>msg_data := (msg_data pf)[i := ucast v]\<rparr>))"

text \<open>The part behind the two letters, where \<^verbatim>\<open>err\<close> has the value of the last number that was scanned.\<close>

definition parse_numbers :: "string \<Rightarrow> pcanfd_msg \<Rightarrow> pcanfd_msg \<times> int" where
  "parse_numbers s pf =
     (let (id, s, err) = scan_unsigned_number s;
          pf = pf\<lparr>msg_id := id\<rparr>
      in if err \<noteq> 0 then (pf, err)
         else if (if has_flag (msg_flags pf) PCANFD_MSG_EXT then 0x3fffffff < id else 2047 < id) then (pf, err)
         else
           let (s, cr) = skip_blanks_and_test_for_CR s
           in if cr then (pf, err)
              else
                let (len, s, err) = scan_unsigned_number s
                in if err \<noteq> 0 then (pf, err)
                   else if of_nat PCANFD_MAXDATALEN < len then (pf, err)
                   else parse_data (unat len) 0 s (pf\<lparr>data_len := ucast len\<rparr>))"

definition pcan_parse_input_message :: "string \<Rightarrow> pcanfd_msg \<Rightarrow> pcanfd_msg \<times> int" where
  "pcan_parse_input_message buffer pf =
     (let (c, s) = scan_char (skip_blanks buffer);
          pf = pf\<lparr>msg_type := PCANFD_TYPE_CAN20_MSG, msg_flags := 0\<rparr>
      in case message_letter c of
           None \<Rightarrow> (pf, - EINVAL)
         | Some (ty, fl) \<Rightarrow>
             let pf = pf\<lparr>msg_type := ty, msg_flags := fl\<rparr>;
                 (s, cr) = skip_blanks_and_test_for_CR s
             in if cr then (pf, - EINVAL)
                else
                  let (c, s) = scan_char s
                  in if c \<noteq> CHR ''e'' \<and> c \<noteq> CHR ''s'' then (pf, - EINVAL)
                     else
                       let pf = (if c = CHR ''e'' then pf\<lparr>msg_flags := set_flag fl PCANFD_MSG_EXT\<rparr> else pf);
                           (s, cr) = skip_blanks_and_test_for_CR s
                       in if cr then (pf, - EINVAL) else parse_numbers s pf)"

text \<open>\<^verbatim>\<open>strtounit(str, pv, units)\<close>: the value, when it is stored, and the result.\<close>

fun unit_factor :: "char \<Rightarrow> string \<Rightarrow> u32 \<Rightarrow> u32 option" where
  "unit_factor c [] m = None"
| "unit_factor c (u # us) m = (let m = m * 1000 in if c = u then Some m else unit_factor c us m)"

definition strtounit :: "string \<Rightarrow> string \<Rightarrow> u32 option \<times> int" where
  "strtounit str units =
     (let (v, r) = simple_strtoul str
      in case r of
           [] \<Rightarrow> (Some v, int (length str))
         | c # _ \<Rightarrow>
             (case unit_factor c units 1 of
                Some m \<Rightarrow> (Some (v * m), int (length str - length r + 1))
              | None \<Rightarrow> (None, if (of_char c :: int) < 128 then - of_char c else 256 - of_char c)))"

text \<open>The value that a keyword stands for; unknown keywords are ignored.\<close>

definition store_key :: "string \<Rightarrow> u32 \<Rightarrow> pcanfd_init \<Rightarrow> pcanfd_init" where
  "store_key key v pfdi =
     (let nom = nominal pfdi; dat = data_bt pfdi
      in if key = ''f_clock'' then pfdi\<lparr>clock_Hz := v\<rparr>
         else if key = ''nom_bitrate'' then pfdi\<lparr>nominal := nom\<lparr>bitrate := v\<rparr>\<rparr>
         else if key = ''nom_brp'' then pfdi\<lparr>nominal := nom\<lparr>brp := v\<rparr>\<rparr>
         else if key = ''nom_tseg1'' then pfdi\<lparr>nominal := nom\<lparr>tseg1 := v\<rparr>\<rparr>
         else if key = ''nom_tseg2'' then pfdi\<lparr>nominal := nom\<lparr>tseg2 := v\<rparr>\<rparr>
         else if key = ''nom_sjw'' then pfdi\<lparr>nominal := nom\<lparr>sjw := v\<rparr>\<rparr>
         else if key = ''data_bitrate'' then pfdi\<lparr>data_bt := dat\<lparr>bitrate := v\<rparr>\<rparr>
         else if key = ''data_brp'' then pfdi\<lparr>data_bt := dat\<lparr>brp := v\<rparr>\<rparr>
         else if key = ''data_tseg1'' then pfdi\<lparr>data_bt := dat\<lparr>tseg1 := v\<rparr>\<rparr>
         else if key = ''data_tseg2'' then pfdi\<lparr>data_bt := dat\<lparr>tseg2 := v\<rparr>\<rparr>
         else if key = ''data_sjw'' then pfdi\<lparr>data_bt := dat\<lparr>sjw := v\<rparr>\<rparr>
         else pfdi)"

definition known_keys :: "string list" where
  "known_keys = [''f_clock'', ''nom_bitrate'', ''nom_brp'', ''nom_tseg1'', ''nom_tseg2'', ''nom_sjw'',
     ''data_bitrate'', ''data_brp'', ''data_tseg1'', ''data_tseg2'', ''data_sjw'']"

text \<open>A record ends before a comma or the end of the word; its keyword ends before its last \<^verbatim>\<open>=\<close>.\<close>

definition in_record :: "char \<Rightarrow> bool" where
  "in_record c \<longleftrightarrow> c \<noteq> CHR '','' \<and> \<not> is_eow c"

definition split_record :: "string \<Rightarrow> (string \<times> string) option" where
  "split_record r =
     (let val = rev (takeWhile (\<lambda>c. c \<noteq> CHR ''='') (rev r)); n = length r - length val
      in if n \<le> 1 then None else Some (take (n - 1) r, val))"

function scan_bitrate_string :: "string \<Rightarrow> pcanfd_init \<Rightarrow> pcanfd_init \<times> int" where
  "scan_bitrate_string pc pfdi =
     (if is_eow (deref pc) then (pfdi, 0)
      else
        let r = takeWhile in_record pc; ps = dropWhile in_record pc
        in case split_record r of
             None \<Rightarrow> (pfdi, - EINVAL)
           | Some (key, val) \<Rightarrow>
               let (v, err) = (if key \<in> set known_keys then strtounit val ''kM'' else (None, 0));
                   pfdi = (case v of Some v \<Rightarrow> store_key key v pfdi | None \<Rightarrow> pfdi)
               in if err < 0 then (pfdi, - EINVAL)
                  else if is_eow (deref ps) then (pfdi, 0)
                  else scan_bitrate_string (drop 1 ps) pfdi)"
  by pat_completeness auto

termination
proof (relation "measure (\<lambda>(pc, _). length pc)")
  fix pc :: string and pfdi r ps
  assume ps: "ps = dropWhile in_record pc" and ne: "\<not> is_eow (deref ps)"
  have "0 < length ps" using ne by (cases ps) (simp_all add: deref_def is_eow_def is_eol_def)
  moreover have "length ps \<le> length pc" unfolding ps by (rule length_dropWhile_le)
  ultimately have "length (drop 1 ps) < length pc" unfolding length_drop by linarith
  then show "((drop 1 ps, x), pc, pfdi) \<in> measure (\<lambda>(pc, _). length pc)" for x by simp
qed simp

declare scan_bitrate_string.simps [simp del]

text \<open>The two optional switches.\<close>

fun scan_switches :: "nat \<Rightarrow> string \<Rightarrow> u32 \<Rightarrow> u32" where
  "scan_switches 0 s fl = fl"
| "scan_switches (Suc n) s fl =
     (let (s, cr) = skip_blanks_and_test_for_CR s
      in if cr then fl
         else
           let (c, s) = scan_char s
           in scan_switches n s (if c = CHR ''s'' then set_flag fl PCANFD_INIT_STD_MSG_ONLY
                                 else if c = CHR ''l'' then set_flag fl PCANFD_INIT_LISTEN_ONLY else fl))"

definition has_data_timing :: "pcan_bittiming \<Rightarrow> bool" where
  "has_data_timing bt \<longleftrightarrow> bitrate bt \<noteq> 0 \<or> brp bt \<noteq> 0 \<or> tseg1 bt \<noteq> 0 \<or> tseg2 bt \<noteq> 0 \<or> sjw bt \<noteq> 0"

text \<open>The end of \<^verbatim>\<open>pcan_parse_input_init\<close>. \<^verbatim>\<open>scan_bitrate_string\<close> does not advance the pointer, so the
  switches are looked for at the start of a bit rate string.\<close>

definition init_end :: "string \<Rightarrow> pcanfd_init \<Rightarrow> pcanfd_init" where
  "init_end s pfdi =
     (let fl = scan_switches 2 s (init_flags pfdi)
      in pfdi\<lparr>init_flags := (if has_data_timing (data_bt pfdi) then set_flag fl PCANFD_INIT_FD else fl)\<rparr>)"

definition pcan_parse_input_init :: "string \<Rightarrow> pcanfd_init \<Rightarrow> (pcanfd_init \<times> int) option" where
  "pcan_parse_input_init buffer pfdi =
     (let (c, s) = scan_char (skip_blanks buffer)
      in if c \<noteq> CHR ''i'' then Some (pfdi, - EINVAL)
         else
           let (s, cr) = skip_blanks_and_test_for_CR s
           in if cr then Some (pfdi, - EINVAL)
              else
                let (btr0btr1, r, err) = scan_unsigned_number s
                in if err = 0 then
                     if 0xFFFF < btr0btr1 then Some (zero_init, - EINVAL)
                     else do {
                       bt \<leftarrow> pcan_btr0btr1_to_bittiming (nominal zero_init) (ucast btr0btr1);
                       Some (init_end r (zero_init\<lparr>clock_Hz := 8 * MHz, nominal := bt\<rparr>), 0)
                     }
                   else
                     let (pfdi, err) = scan_bitrate_string s zero_init
                     in if err \<noteq> 0 then Some (pfdi, - EINVAL) else Some (init_end s pfdi, 0))"

section \<open>Reading and writing text\<close>

abbreviation (input) READBUFFER_SIZE :: nat where "READBUFFER_SIZE \<equiv> 80"
abbreviation (input) WRITEBUFFER_SIZE :: nat where "WRITEBUFFER_SIZE \<equiv> 512"

text \<open>The fields of \<^verbatim>\<open>struct pcan_udata\<close>: \<open>read_rest\<close> are the \<^verbatim>\<open>nReadRest\<close> bytes at \<^verbatim>\<open>pcReadPointer\<close>, and
  \<open>write_text\<close> are those from \<^verbatim>\<open>pcWriteBuffer\<close> up to \<^verbatim>\<open>pcWritePointer\<close>.\<close>

record pcan_udata =
  open_flags :: u32
  read_rest :: string
  nTotalReadCount :: int
  write_text :: string

text \<open>The \<^verbatim>\<open>read\<close> call: the bytes given to the user and the result. A line that is longer than the read
  buffer destroys the memory behind it, which is a fault here.\<close>

definition give_text ::
  "pcandev \<Rightarrow> pcan_udata \<Rightarrow> task \<Rightarrow> nat \<Rightarrow> bool \<Rightarrow> (pcandev \<times> pcan_udata \<times> task \<times> string \<times> int) outcome" where
  "give_text dev priv task count copy_ok =
     (let rest = read_rest priv; len = (if length rest < count then length rest else count)
      in if \<not> copy_ok then Done (dev, priv\<lparr>read_rest := take (length rest - len) rest\<rparr>, task, [], - EFAULT)
         else Done (dev, priv\<lparr>read_rest := drop len rest, nTotalReadCount := nTotalReadCount priv + int len\<rparr>,
                    task, take len rest, int len))"

definition pcan_read ::
  "timeval \<Rightarrow> pcanfd_rxmsg \<Rightarrow> task \<Rightarrow> pcandev \<Rightarrow> pcan_udata \<Rightarrow> nat \<Rightarrow> bool
     \<Rightarrow> (pcandev \<times> pcan_udata \<times> task \<times> string \<times> int) outcome" where
  "pcan_read drv stack task dev priv count copy_ok =
     (if read_rest priv \<noteq> [] then give_text dev priv task count copy_ok
      else
        outcome_bind (pcanfd_ioctl_recv_msg drv (open_flags priv) task dev stack)
          (\<lambda>(dev, rx, task, err).
             if err \<noteq> 0 then Done (dev, priv, task, [], err)
             else
               let line = pcan_make_output (rx_msg rx)
               in if READBUFFER_SIZE < length line then Fault
                  else give_text dev (priv\<lparr>read_rest := line\<rparr>) task count copy_ok))"

text \<open>What a line asks for: nothing, a message or new settings. The parsers see the buffer from its
  start; \<open>stack\<close> and \<open>fdi\<close> are the local variables of \<^verbatim>\<open>pcan_write_line\<close>.\<close>

definition run_line ::
  "dev_ops \<Rightarrow> timeval \<Rightarrow> u64 \<Rightarrow> pcanfd_rxmsg \<Rightarrow> pcanfd_txmsg \<Rightarrow> pcanfd_init \<Rightarrow> task \<Rightarrow> pcandev \<Rightarrow> pcan_udata
     \<Rightarrow> (pcandev \<times> task \<times> int) outcome" where
  "run_line ops drv jiffies ef stack fdi task dev priv =
     (let buf = write_text priv
      in if pcan_parse_input_idle buf = 0 then Done (dev, task, 0)
         else
           let (m, err) = pcan_parse_input_message buf (tx_msg stack)
           in if err \<noteq> 0 then
                case pcan_parse_input_init buf fdi of
                  None \<Rightarrow> Fault
                | Some (fdi, err) \<Rightarrow>
                    if err \<noteq> 0 then Done (dev, task, err)
                    else (case pcanfd_ioctl_set_init ops (task_now task) jiffies dev fdi of
                            None \<Rightarrow> Fault | Some (dev, _, err) \<Rightarrow> Done (dev, task, err))
              else
                outcome_bind (pcanfd_ioctl_send_msg ops drv ef (open_flags priv) task dev (stack\<lparr>tx_msg := m\<rparr>))
                  (\<lambda>(dev, task, err). Done (dev, task, if err = - ENODATA then 0 else err)))"

text \<open>\<^verbatim>\<open>pcan_write_line\<close> for a line that ends at the index \<open>ptr\<close>. The line is removed only when it was
  carried out.\<close>

definition pcan_write_line ::
  "dev_ops \<Rightarrow> timeval \<Rightarrow> u64 \<Rightarrow> pcanfd_rxmsg \<Rightarrow> pcanfd_txmsg \<Rightarrow> pcanfd_init \<Rightarrow> task \<Rightarrow> pcandev \<Rightarrow> pcan_udata \<Rightarrow> nat
     \<Rightarrow> (pcandev \<times> pcan_udata \<times> task \<times> int) outcome" where
  "pcan_write_line ops drv jiffies ef stack fdi task dev priv ptr =
     (if WRITEBUFFER_SIZE < length (write_text priv) - ptr - 1 \<or> WRITEBUFFER_SIZE < ptr + 1
      then Done (dev, priv, task, - EFAULT)
      else
        outcome_bind (run_line ops drv jiffies ef stack fdi task dev priv)
          (\<lambda>(dev, task, err).
             if err \<noteq> 0 then Done (dev, priv, task, err)
             else Done (dev, priv\<lparr>write_text := drop (ptr + 1) (write_text priv)\<rparr>, task, 0)))"

text \<open>The index of the first line feed.\<close>

definition find_LF :: "string \<Rightarrow> nat" where
  "find_LF s = length (takeWhile (\<lambda>c. c \<noteq> CHR 0x0A) s)"

lemma write_line_drops:
  assumes "pcan_write_line ops drv jiffies ef stack fdi task dev priv ptr = Done (dev', priv', task', 0)"
  shows "priv' = priv\<lparr>write_text := drop (ptr + 1) (write_text priv)\<rparr>"
proof (cases "run_line ops drv jiffies ef stack fdi task dev priv")
  case (Done x)
  then show ?thesis using assms by (cases x) (auto simp: pcan_write_line_def split: if_splits)
qed (use assms in \<open>auto simp: pcan_write_line_def split: if_splits\<close>)

function write_lines ::
  "dev_ops \<Rightarrow> timeval \<Rightarrow> u64 \<Rightarrow> pcanfd_rxmsg \<Rightarrow> pcanfd_txmsg \<Rightarrow> pcanfd_init \<Rightarrow> task \<Rightarrow> pcandev \<Rightarrow> pcan_udata
     \<Rightarrow> (pcandev \<times> pcan_udata \<times> task \<times> int) outcome" where
  "write_lines ops drv jiffies ef stack fdi task dev priv =
     (let ptr = find_LF (write_text priv)
      in if ptr < length (write_text priv) then
           case pcan_write_line ops drv jiffies ef stack fdi task dev priv ptr of
             Done (dev, priv', task, err) \<Rightarrow>
               if err \<noteq> 0 then Done (dev, priv', task, err)
               else write_lines ops drv jiffies ef stack fdi task dev priv'
           | Sleeping d \<Rightarrow> Sleeping d
           | Fault \<Rightarrow> Fault
         else Done (dev, priv, task, 0))"
  by pat_completeness auto

termination
proof (relation "measure (\<lambda>(_, _, _, _, _, _, _, _, priv). length (write_text priv))")
  fix ops :: dev_ops and drv :: timeval and jiffies :: u64 and ef :: pcanfd_rxmsg and stack :: pcanfd_txmsg
    and fdi :: pcanfd_init and task :: task and dev :: pcandev and priv :: pcan_udata and ptr x dev' y priv' z task' err
  assume ptr: "ptr < length (write_text priv)"
    and r: "pcan_write_line ops drv jiffies ef stack fdi task dev priv ptr = Done x"
    and p: "(dev', y) = x" "(priv', z) = y" "(task', err) = z" and e: "\<not> err \<noteq> 0"
  have "priv' = priv\<lparr>write_text := drop (ptr + 1) (write_text priv)\<rparr>"
    using write_line_drops [of ops drv jiffies ef stack fdi task dev priv ptr dev' priv' task'] r p e by simp
  then show "((ops, drv, jiffies, ef, stack, fdi, task', dev', priv'), ops, drv, jiffies, ef, stack, fdi, task, dev, priv)
      \<in> measure (\<lambda>(_, _, _, _, _, _, _, _, priv). length (write_text priv))"
    using ptr by simp
qed simp

declare write_lines.simps [simp del]

text \<open>The \<^verbatim>\<open>write\<close> call. What does not fit into the buffer is not taken; a full buffer without a line feed
  is discarded.\<close>

definition pcan_write ::
  "dev_ops \<Rightarrow> timeval \<Rightarrow> u64 \<Rightarrow> pcanfd_rxmsg \<Rightarrow> pcanfd_txmsg \<Rightarrow> pcanfd_init \<Rightarrow> task \<Rightarrow> pcandev \<Rightarrow> pcan_udata
     \<Rightarrow> string \<Rightarrow> bool \<Rightarrow> (pcandev \<times> pcan_udata \<times> task \<times> int) outcome" where
  "pcan_write ops drv jiffies ef stack fdi task dev priv buf copy_ok =
     (let dwRest = WRITEBUFFER_SIZE - length (write_text priv);
          count = (if dwRest < length buf then dwRest else length buf)
      in if \<not> copy_ok then Done (dev, priv, task, - EFAULT)
         else
           outcome_bind (write_lines ops drv jiffies ef stack fdi task dev
               (priv\<lparr>write_text := write_text priv @ take count buf\<rparr>))
             (\<lambda>(dev, priv, task, err).
                if err \<noteq> 0 then Done (dev, priv, task, err)
                else if WRITEBUFFER_SIZE \<le> length (write_text priv)
                then Done (dev, priv\<lparr>write_text := []\<rparr>, task, - EINVAL)
                else Done (dev, priv, task, int count)))"

section \<open>Lemmas on numbers\<close>

lemma digit_val_char: "d < 16 \<Longrightarrow> digit_val (digit_char d) = Some d"
proof -
  have "list_all (\<lambda>d. digit_val (digit_char d) = Some d) [0..<16]" by code_simp
  then show "d < 16 \<Longrightarrow> digit_val (digit_char d) = Some d" by (simp add: list_all_iff)
qed

lemma parse_show:
  assumes "2 \<le> b" "b \<le> 16"
  shows "parse_digits b acc (show_base b n @ s) = parse_digits b (acc * b ^ length (show_base b n) + n) s"
  using assms
proof (induction b n arbitrary: acc s rule: show_base.induct)
  case (1 b n)
  show ?case
  proof (cases "n < b")
    case True
    then show ?thesis using 1 digit_val_char [of n] by (simp add: show_base.simps [of b n])
  next
    case False
    have m: "n mod b < b" using 1(2) by simp
    then have "n mod b < 16" using 1(3) by linarith
    note m = m this
    have "parse_digits b acc (show_base b n @ s) =
        parse_digits b (acc * b ^ length (show_base b (n div b)) + n div b) (digit_char (n mod b) # s)"
      using 1 False by (simp add: show_base.simps [of b n])
    also have "\<dots> = parse_digits b ((acc * b ^ length (show_base b (n div b)) + n div b) * b + n mod b) s"
      using m by (simp add: digit_val_char)
    also have "(acc * b ^ length (show_base b (n div b)) + n div b) * b + n mod b = acc * b ^ length (show_base b n) + n"
      using False 1(2) by (simp add: show_base.simps [of b n] algebra_simps)
    finally show ?thesis .
  qed
qed

lemma parse_zeros: "0 < b \<Longrightarrow> parse_digits b 0 (replicate k CHR ''0'' @ s) = parse_digits b 0 s"
proof (induction k)
  case (Suc k)
  moreover have "digit_val CHR ''0'' = Some 0" by code_simp
  ultimately show ?case by simp
qed simp

lemma parse_stop: "digit_val (deref s) = None \<Longrightarrow> parse_digits b acc s = (acc, s)"
  by (cases s) (simp_all add: deref_def)

lemma show_base_hd:
  assumes "2 \<le> b" "b \<le> 16"
  obtains d t where "show_base b n = digit_char d # t" "d < b" "0 < n \<Longrightarrow> 0 < d"
proof -
  have "\<exists>d t. show_base b n = digit_char d # t \<and> d < b \<and> (0 < n \<longrightarrow> 0 < d)"
    using assms
  proof (induction b n rule: show_base.induct)
    case (1 b n)
    show ?case
    proof (cases "n < b")
      case True
      then show ?thesis using 1(2) by (intro exI [of _ n] exI [of _ "[]"]) (simp add: show_base.simps [of b n])
    next
      case False
      then obtain d t where "show_base b (n div b) = digit_char d # t" "d < b" "0 < n div b \<longrightarrow> 0 < d"
        using 1 by auto
      moreover have "0 < n div b" using False 1(2) by (simp add: div_greater_zero_iff)
      ultimately show ?thesis using False 1(2)
        by (intro exI [of _ d] exI [of _ "t @ [digit_char (n mod b)]"]) (simp add: show_base.simps [of b n])
    qed
  qed
  then show ?thesis using that by blast
qed

lemma show_base_nonempty: "show_base b n \<noteq> []"
  by (simp add: show_base.simps [of b n])

text \<open>A number in the format \<^verbatim>\<open>0x%0<w>x\<close> or \<^verbatim>\<open>%d\<close>, before a character that is no digit, is read back.\<close>

lemma strtoul_hex:
  assumes "digit_val (deref s) = None"
  shows "simple_strtoul (''0x'' @ pad w CHR ''0'' (show_base 16 n) @ s) = (of_nat n, s)"
proof -
  obtain d t where d: "show_base 16 n = digit_char d # t" "d < 16" by (rule show_base_hd [of 16 n]) auto
  have zero: "digit_val CHR ''0'' = Some 0" by code_simp
  have "digit_val (deref (pad w CHR ''0'' (show_base 16 n) @ s)) \<noteq> None"
    using d digit_val_char [OF d(2)] zero by (cases "w - length (show_base 16 n)") (simp_all add: pad_def deref_def)
  then have "is_hex_prefix (''0x'' @ pad w CHR ''0'' (show_base 16 n) @ s)"
    by (simp add: is_hex_prefix_def deref_def)
  moreover have "parse_digits 16 0 (pad w CHR ''0'' (show_base 16 n) @ s) = (n, s)"
    using parse_show [of 16 0 n s] parse_stop [OF assms] by (simp add: pad_def parse_zeros)
  ultimately show ?thesis by (simp add: simple_strtoul_def)
qed

lemma digit_char_zero: "d < 16 \<Longrightarrow> digit_char d = CHR ''0'' \<Longrightarrow> d = 0"
proof -
  have "digit_val CHR ''0'' = Some 0" by code_simp
  then show "d < 16 \<Longrightarrow> digit_char d = CHR ''0'' \<Longrightarrow> d = 0" using digit_val_char [of d] by simp
qed

lemma strtoul_dec:
  assumes "digit_val (deref s) = None" "deref s \<noteq> CHR ''x''" "deref s \<noteq> CHR ''X''"
  shows "simple_strtoul (show_base 10 n @ s) = (of_nat n, s)"
proof (cases "n = 0")
  case True
  have z: "show_base 10 0 = ''0''" "digit_val CHR ''0'' = Some 0" by code_simp+
  have "\<not> is_hex_prefix (''0'' @ s)" using assms(2,3) by (simp add: is_hex_prefix_def)
  then show ?thesis using True z parse_stop [OF assms(1)] by (simp add: simple_strtoul_def deref_def)
next
  case False
  obtain d t where d: "show_base 10 n = digit_char d # t" "d < 10" "0 < n \<Longrightarrow> 0 < d" by (rule show_base_hd [of 10 n]) auto
  then have "digit_char d \<noteq> CHR ''0''" using digit_char_zero [of d] False by auto
  then have "deref (show_base 10 n @ s) \<noteq> CHR ''0''" using d(1) by (simp add: deref_def)
  moreover have "parse_digits 10 0 (show_base 10 n @ s) = (n, s)"
    using parse_show [of 10 0 n s] parse_stop [OF assms(1)] by simp
  ultimately show ?thesis by (simp add: simple_strtoul_def is_hex_prefix_def)
qed

lemma length_show_base:
  assumes "n < b ^ k" "0 < k" "2 \<le> b"
  shows "length (show_base b n) \<le> k"
  using assms
proof (induction b n arbitrary: k rule: show_base.induct)
  case (1 b n)
  show ?case
  proof (cases "n < b")
    case True
    then show ?thesis using 1(3) by (simp add: show_base.simps [of b n])
  next
    case False
    then obtain j where k: "k = Suc j" "0 < j" using 1(2,3) by (cases k; cases "k - 1") auto
    have "n div b < b ^ j" using 1(2,4) k by (simp add: div_less_iff_less_mult mult.commute)
    then show ?thesis using 1 False k by (simp add: show_base.simps [of b n])
  qed
qed

lemma length_pad: "length (pad w c s) = max w (length s)"
  by (simp add: pad_def)

section \<open>Lemmas on lines\<close>

lemma skip_blank [simp]: "skip_blanks (CHR '' '' # s) = skip_blanks s"
  by (simp add: skip_blanks_def is_blank_def)

lemma skip_blanks_stop: "\<not> is_blank (deref s) \<Longrightarrow> skip_blanks s = s"
  by (cases s) (simp_all add: skip_blanks_def deref_def)

lemma skip_blanks_zero [simp]: "skip_blanks (CHR ''0'' # s) = CHR ''0'' # s"
  by (simp add: skip_blanks_def is_blank_def)

lemma deref_simps [simp]: "deref [] = CHR 0x00" "deref (c # s) = c"
  by (simp_all add: deref_def)

lemma digit_val_blank: "digit_val CHR '' '' = None"
  by code_simp

lemma digit_val_tab: "digit_val CHR 0x09 = None"
  by code_simp

text \<open>One data byte, and the data bytes.\<close>

definition byte_text :: "u8 \<Rightarrow> string" where
  "byte_text b = ''0x'' @ pad 2 CHR ''0'' (show_base 16 (unat b)) @ '' ''"

lemma scan_byte: "scan_unsigned_number (byte_text b @ s) = (of_nat (unat b), CHR '' '' # s, 0)"
proof -
  have "simple_strtoul (byte_text b @ s) = (of_nat (unat b), CHR '' '' # s)"
    using strtoul_hex [of "CHR '' '' # s" 2 "unat b"] digit_val_blank by (simp add: byte_text_def)
  moreover have "length (byte_text b @ s) \<noteq> length (CHR '' '' # s)" by (simp add: byte_text_def)
  then have "CHR '' '' # s \<noteq> byte_text b @ s" by metis
  ultimately show ?thesis by (simp add: scan_unsigned_number_def)
qed

lemma skip_byte: "skip_blanks (byte_text b @ s) = byte_text b @ s"
  by (simp add: byte_text_def)

lemma deref_byte: "deref (byte_text b @ s) = CHR ''0''"
  by (simp add: byte_text_def)

definition overwrite :: "nat \<Rightarrow> 'a list \<Rightarrow> 'a list \<Rightarrow> 'a list" where
  "overwrite i bs xs = take i xs @ bs @ drop (i + length bs) xs"

lemma overwrite_step:
  assumes "i < length xs"
  shows "overwrite (Suc i) bs (xs[i := b]) = overwrite i (b # bs) xs"
  using assms by (simp add: overwrite_def take_Suc_conv_app_nth)

lemma parse_data_text:
  assumes "skip_blanks s = skip_blanks (concat (map byte_text bs) @ t)" "i + length bs \<le> length (msg_data pf)"
  shows "parse_data (length bs) i s pf = (pf\<lparr>msg_data := overwrite i bs (msg_data pf)\<rparr>, 0)"
  using assms
proof (induction bs arbitrary: i s pf)
  case Nil
  then show ?case by (simp add: overwrite_def)
next
  case (Cons b bs)
  have l: "unat b < 256" "unat b < 4294967296" using unat_u8_less [of b] by linarith+
  then have u: "unat (ucast b :: u32) = unat b" by (simp add: unsigned_ucast_eq take_bit_eq_mod)
  have c: "unat (255 :: u32) = 255" by simp
  have v: "\<not> 255 < (ucast b :: u32)" unfolding word_less_nat_alt u c using l(1) by linarith
  have w: "ucast (ucast b :: u32) = b" by (rule bit_word_eqI) (auto simp: bit_simps dest: bit_imp_le_length)
  let ?r = "concat (map byte_text bs) @ t"
  have sk: "skip_blanks s = byte_text b @ ?r"
    using Cons.prems(1) skip_byte [of b ?r] by simp
  have "parse_data (Suc (length bs)) i s pf = parse_data (length bs) (Suc i) (CHR '' '' # ?r) (pf\<lparr>msg_data := (msg_data pf)[i := b]\<rparr>)"
    using v w scan_byte [of b ?r] deref_byte [of b ?r]
    by (simp add: skip_blanks_and_test_for_CR_def Let_def sk is_eol_def)
  also have "\<dots> = (pf\<lparr>msg_data := overwrite (Suc i) bs ((msg_data pf)[i := b])\<rparr>, 0)"
    using Cons.IH [of "CHR '' '' # ?r" "Suc i" "pf\<lparr>msg_data := (msg_data pf)[i := b]\<rparr>"] Cons.prems(2) by simp
  finally show ?case using Cons.prems(2) overwrite_step [of i "msg_data pf" bs b] by simp
qed

text \<open>The first letters and the numbers of a line.\<close>

lemma skip_pad:
  "skip_blanks (pad w CHR '' '' (show_base 10 n) @ s) = show_base 10 n @ s"
proof -
  obtain d t where d: "show_base 10 n = digit_char d # t" "d < 10" by (rule show_base_hd [of 10 n]) auto
  have "digit_char d \<noteq> CHR '' ''" "digit_char d \<noteq> CHR 0x09"
    using digit_val_char [of d] d(2) digit_val_blank digit_val_tab by auto
  then have "skip_blanks (show_base 10 n @ s) = show_base 10 n @ s"
    using d(1) by (simp add: skip_blanks_def is_blank_def)
  moreover have "skip_blanks (replicate k CHR '' '' @ r) = skip_blanks r" for k r by (induction k) simp_all
  ultimately show ?thesis by (simp add: pad_def)
qed

lemma show_base_no_eol: "\<not> is_eol (deref (show_base 10 n @ s))"
proof -
  obtain d t where d: "show_base 10 n = digit_char d # t" "d < 10" by (rule show_base_hd [of 10 n]) auto
  have e: "digit_val CHR 0x00 = None" "digit_val CHR 0x0A = None" "digit_val CHR 0x0D = None" by code_simp+
  then show ?thesis using digit_val_char [of d] d by (auto simp: is_eol_def)
qed

lemma scan_hex:
  "scan_unsigned_number (''0x'' @ pad w CHR ''0'' (show_base 16 n) @ CHR '' '' # s) = (of_nat n, CHR '' '' # s, 0)"
proof -
  have "length (''0x'' @ pad w CHR ''0'' (show_base 16 n) @ CHR '' '' # s) \<noteq> length (CHR '' '' # s)" by simp
  then have "CHR '' '' # s \<noteq> ''0x'' @ pad w CHR ''0'' (show_base 16 n) @ CHR '' '' # s" by metis
  then show ?thesis
    using strtoul_hex [of "CHR '' '' # s" w n] digit_val_blank by (simp add: scan_unsigned_number_def)
qed

lemma scan_dec:
  "scan_unsigned_number (show_base 10 n @ CHR '' '' # s) = (of_nat n, CHR '' '' # s, 0)"
proof -
  have "length (show_base 10 n @ CHR '' '' # s) \<noteq> length (CHR '' '' # s)" by (simp add: show_base_nonempty)
  then have "CHR '' '' # s \<noteq> show_base 10 n @ CHR '' '' # s" by metis
  then show ?thesis
    using strtoul_dec [of "CHR '' '' # s" n] digit_val_blank by (simp add: scan_unsigned_number_def)
qed

definition id_fits :: "u32 \<Rightarrow> u32 \<Rightarrow> bool" where
  "id_fits fl v \<longleftrightarrow> (if has_flag fl PCANFD_MSG_EXT then v \<le> 0x3fffffff else v \<le> 2047)"

lemma parse_numbers_line:
  assumes "id_fits (msg_flags pf) (of_nat v)" "n \<le> 64"
  shows "parse_numbers (''0x'' @ pad 8 CHR ''0'' (show_base 16 v) @ CHR '' '' # pad 2 CHR '' '' (show_base 10 n)
             @ CHR '' '' # s) pf
           = parse_data n 0 (CHR '' '' # s) (pf\<lparr>msg_id := of_nat v, data_len := of_nat n\<rparr>)"
proof -
  have n: "unat (of_nat n :: u32) = n" using assms(2) by (simp add: unat_of_nat)
  then have "\<not> of_nat 64 < (of_nat n :: u32)" using assms(2) by (simp add: word_less_nat_alt)
  moreover have "ucast (of_nat n :: u32) = (of_nat n :: u16)"
    using n by (metis of_nat_unat)
  moreover have "\<not> (if has_flag (msg_flags pf) PCANFD_MSG_EXT then 0x3fffffff < (of_nat v :: u32) else 2047 < (of_nat v :: u32))"
    using assms(1) by (auto simp: id_fits_def split: if_splits)
  ultimately show ?thesis
    using scan_hex [of 8 v "pad 2 CHR '' '' (show_base 10 n) @ CHR '' '' # s"] scan_dec [of n s]
      skip_pad [of 2 n "CHR '' '' # s"] show_base_no_eol [of n "CHR '' '' # s"] n
    by (simp add: parse_numbers_def skip_blanks_and_test_for_CR_def Let_def del: of_nat_numeral)
qed

lemma parse_message_line:
  assumes "message_letter a = Some (ty, fl)" "c = CHR ''e'' \<or> c = CHR ''s''" "\<not> is_blank a"
  shows "pcan_parse_input_message (a # CHR '' '' # c # CHR '' '' # CHR ''0'' # s) pf
           = parse_numbers (CHR ''0'' # s)
               (pf\<lparr>msg_type := ty, msg_flags := (if c = CHR ''e'' then set_flag fl PCANFD_MSG_EXT else fl)\<rparr>)"
proof -
  have "\<not> is_eol c" "\<not> is_eol CHR ''0''" "\<not> is_blank c" using assms(2) by (auto simp: is_eol_def is_blank_def)
  then show ?thesis using assms
    by (auto simp: pcan_parse_input_message_def skip_blanks_and_test_for_CR_def scan_char_def skip_blanks_stop)
qed

section \<open>What is printed is read back\<close>

text \<open>The frames that the format can express: a CAN 2.0 frame without bit rate switch, or a CAN FD data
  frame with it, with an identifier that fits. A time behind a request without data would be taken for
  data.\<close>

definition text_frame :: "pcanfd_msg \<Rightarrow> bool" where
  "text_frame m \<longleftrightarrow>
     (let fl = msg_flags m
      in (msg_type m = PCANFD_TYPE_CAN20_MSG \<and> \<not> has_flag fl PCANFD_MSG_BRS \<or>
          msg_type m = PCANFD_TYPE_CANFD_MSG \<and> has_flag fl PCANFD_MSG_BRS \<and> \<not> has_flag fl PCANFD_MSG_RTR) \<and>
         (has_flag fl PCANFD_TIMESTAMP \<longrightarrow> \<not> has_flag fl PCANFD_MSG_RTR) \<and>
         id_fits fl (msg_id m) \<and> data_len m \<le> 64 \<and> length (msg_data m) = PCANFD_MAXDATALEN)"

definition text_flags :: "u32 \<Rightarrow> u32" where
  "text_flags fl = fl AND (PCANFD_MSG_RTR OR PCANFD_MSG_EXT OR PCANFD_MSG_SLF OR PCANFD_MSG_BRS)"

lemma text_flags_cases:
  "text_flags fl = (if has_flag fl 1 then 1 else 0) OR (if has_flag fl 2 then 2 else 0) OR
     (if has_flag fl 4 then 4 else 0) OR (if has_flag fl 0x100000 then 0x100000 else 0)"
proof -
  have "text_flags fl = (fl AND 1) OR (fl AND 2) OR (fl AND 4) OR (fl AND 0x100000)"
    unfolding text_flags_def by (simp only: and.commute [of fl] word_ao_dist)
  then show ?thesis
    using and_pow [of fl 0] and_pow [of fl 1] and_pow [of fl 2] and_pow [of fl 20] by simp
qed

lemma frame_letters:
  assumes "text_frame m" "frame_chars m = (a, c)"
  obtains fl where "message_letter a = Some (msg_type m, fl)" "c = CHR ''e'' \<or> c = CHR ''s''" "\<not> is_blank a"
    "(if c = CHR ''e'' then set_flag fl PCANFD_MSG_EXT else fl) = text_flags (msg_flags m)"
proof -
  have "\<exists>fl. message_letter a = Some (msg_type m, fl) \<and> (c = CHR ''e'' \<or> c = CHR ''s'') \<and> \<not> is_blank a \<and>
      (if c = CHR ''e'' then set_flag fl PCANFD_MSG_EXT else fl) = text_flags (msg_flags m)"
    using assms
    by (auto simp: text_frame_def frame_chars_def Let_def message_letter_def text_flags_cases is_blank_def set_flag_def
        split: if_splits)
  then show ?thesis using that by blast
qed

lemma text_frame_ids: "text_frame m \<Longrightarrow> id_fits (text_flags (msg_flags m)) (msg_id m)"
proof -
  have "has_flag (text_flags fl) PCANFD_MSG_EXT = has_flag fl PCANFD_MSG_EXT" for fl
    by (simp add: text_flags_cases has_flag_def)
  then show "text_frame m \<Longrightarrow> id_fits (text_flags (msg_flags m)) (msg_id m)"
    by (simp add: text_frame_def Let_def id_fits_def)
qed

lemma parse_data_end: "is_eol (deref (skip_blanks s)) \<Longrightarrow> parse_data n i s pf = (pf, 0)"
  by (cases n) (simp_all add: skip_blanks_and_test_for_CR_def)

lemma output_line:
  assumes "text_frame m" "frame_chars m = (a, c)"
  obtains t where "pcan_make_output m = a # CHR '' '' # c # CHR '' '' # ''0x'' @ pad 8 CHR ''0'' (show_base 16 (unat (msg_id m)))
      @ CHR '' '' # pad 2 CHR '' '' (show_base 10 (unat (data_len m))) @ CHR '' '' # CHR '' ''
      # (if has_flag (msg_flags m) PCANFD_MSG_RTR then [CHR 0x0A]
         else concat (map byte_text (take (unat (data_len m)) (msg_data m))) @ t)"
proof -
  have ty: "msg_type m = PCANFD_TYPE_CAN20_MSG \<or> msg_type m = PCANFD_TYPE_CANFD_MSG" "msg_type m \<noteq> PCANFD_TYPE_STATUS"
    "has_flag (msg_flags m) PCANFD_TIMESTAMP \<longrightarrow> \<not> has_flag (msg_flags m) PCANFD_MSG_RTR"
    using assms(1) by (auto simp: text_frame_def Let_def)
  show ?thesis
    by (rule that [of "(if has_flag (msg_flags m) PCANFD_TIMESTAMP then stamp_text (timestamp m) else []) @ [CHR 0x0A]"])
      (use ty assms(2) in \<open>simp add: pcan_make_output_def byte_text_def [abs_def]\<close>)
qed


section \<open>Lines that should be refused\<close>

text \<open>A line that ends too early is not refused: \<^verbatim>\<open>err\<close> still has the 0 of the last number when the parser
  jumps to \<^verbatim>\<open>reject\<close>, so a data frame without any data byte is accepted with the announced length, and its
  data are what the uninitialised message on the kernel's stack held.
\<close>

theorem short_line_accepted:
  assumes "v \<le> 2047" "n \<le> 64"
  shows "pcan_parse_input_message (''m s 0x'' @ pad 8 CHR ''0'' (show_base 16 v) @ '' '' @ pad 2 CHR '' '' (show_base 10 n)
             @ '' '' @ [CHR 0x0A]) stack
           = (stack\<lparr>msg_type := PCANFD_TYPE_CAN20_MSG, msg_flags := 0, msg_id := of_nat v, data_len := of_nat n\<rparr>, 0)"
proof -
  have "unat (of_nat v :: u32) = v" using assms(1) by (simp add: unat_of_nat)
  then have v: "id_fits 0 (of_nat v)" using assms(1) by (simp add: id_fits_def word_le_nat_alt)
  have l: "message_letter CHR ''m'' = Some (PCANFD_TYPE_CAN20_MSG, 0)" "\<not> is_blank CHR ''m''"
    by (simp_all add: message_letter_def is_blank_def)
  have e: "is_eol (deref (skip_blanks (CHR '' '' # [CHR 0x0A])))"
    by (simp add: skip_blanks_stop is_blank_def is_eol_def)
  show ?thesis
    using parse_message_line [OF l(1) _ l(2), of "CHR ''s''" _ stack] parse_data_end [OF e]
      parse_numbers_line [of "stack\<lparr>msg_type := 1, msg_flags := 0\<rparr>" v n "[CHR 0x0A]"] v assms(2)
    by simp
qed

text \<open>
  Nor is an identifier that is too large: the check of the range jumps to \<^verbatim>\<open>reject\<close> with \<^verbatim>\<open>err\<close> 0, and
  the frame is accepted with this identifier and with the data length that the stack held.
\<close>

theorem large_id_accepted:
  assumes "2047 < v" "v < 2 ^ 32"
  shows "pcan_parse_input_message (''m s 0x'' @ pad 8 CHR ''0'' (show_base 16 v) @ CHR '' '' # s) stack
           = (stack\<lparr>msg_type := PCANFD_TYPE_CAN20_MSG, msg_flags := 0, msg_id := of_nat v\<rparr>, 0)"
proof -
  have "unat (of_nat v :: u32) = v" using assms(2) by (simp add: unat_of_nat)
  then have v: "2047 < (of_nat v :: u32)" using assms(1) by (simp add: word_less_nat_alt)
  have l: "message_letter CHR ''m'' = Some (PCANFD_TYPE_CAN20_MSG, 0)" "\<not> is_blank CHR ''m''"
    by (simp_all add: message_letter_def is_blank_def)
  show ?thesis
    using parse_message_line [OF l(1) _ l(2), of "CHR ''s''" _ stack] scan_hex [of 8 v s] v
    by (simp add: parse_numbers_def)
qed

lemma find_LF_less: "CHR 0x0A \<in> set t \<Longrightarrow> find_LF t < length t"
  unfolding find_LF_def by (induction t) auto

text \<open>A line whose first letter no parser knows.\<close>

definition unknown_line :: "string \<Rightarrow> bool" where
  "unknown_line t \<longleftrightarrow> CHR 0x0A \<in> set t \<and> skip_blanks t \<noteq> [] \<and>
     deref (skip_blanks t) \<notin> set ''#BbMmRri'' \<union> {CHR 0x0A}"

lemma unknown_append: "unknown_line t \<Longrightarrow> unknown_line (t @ x)"
proof -
  have "skip_blanks t \<noteq> [] \<Longrightarrow> skip_blanks (t @ x) = skip_blanks t @ x"
    unfolding skip_blanks_def by (induction t) auto
  moreover have "s \<noteq> [] \<Longrightarrow> deref (s @ x) = deref s" for s by (cases s) simp_all
  ultimately show "unknown_line t \<Longrightarrow> unknown_line (t @ x)" by (simp add: unknown_line_def)
qed

lemma unknown_parsers:
  assumes "unknown_line t"
  shows "pcan_parse_input_idle t \<noteq> 0" "snd (pcan_parse_input_message t pf) = - EINVAL"
    "pcan_parse_input_init t fdi = Some (fdi, - EINVAL)"
  using assms
  by (auto simp: unknown_line_def pcan_parse_input_idle_def pcan_parse_input_message_def pcan_parse_input_init_def
      scan_char_def message_letter_def)

lemma unknown_run:
  assumes "unknown_line (write_text priv)" "ptr < length (write_text priv)" "length (write_text priv) \<le> WRITEBUFFER_SIZE"
  shows "pcan_write_line ops drv jiffies ef stack fdi task dev priv ptr = Done (dev, priv, task, - EINVAL)"
proof -
  have "run_line ops drv jiffies ef stack fdi task dev priv = Done (dev, task, - EINVAL)"
    using unknown_parsers [OF assms(1)] unknown_parsers(2) [OF assms(1), of "tx_msg stack"]
    by (cases "pcan_parse_input_message (write_text priv) (tx_msg stack)") (simp add: run_line_def Let_def)
  then show ?thesis using assms(2,3) by (simp add: pcan_write_line_def)
qed


section \<open>Settings in a line\<close>

lemma split_word:
  assumes "list_all (\<lambda>c. \<not> is_eow c) w" "is_eow (deref t)"
  shows "takeWhile in_record (w @ t) = takeWhile in_record w" "dropWhile in_record (w @ t) = dropWhile in_record w @ t"
proof -
  have "t = [] \<or> \<not> in_record (hd t)" using assms(2) by (cases t) (simp_all add: in_record_def)
  then have t: "takeWhile in_record t = []" "dropWhile in_record t = t" by (cases t; simp)+
  show "takeWhile in_record (w @ t) = takeWhile in_record w" "dropWhile in_record (w @ t) = dropWhile in_record w @ t"
    using t by (induction w) auto
qed

lemma scan_word:
  assumes "list_all (\<lambda>c. \<not> is_eow c) w" "is_eow (deref t)"
  shows "scan_bitrate_string (w @ t) pfdi = scan_bitrate_string w pfdi"
  using assms(1)
proof (induction w pfdi rule: scan_bitrate_string.induct)
  case (1 w pfdi)
  have zero: "is_eow (CHR 0x00)" by (simp add: is_eow_def is_eol_def)
  let ?ps = "dropWhile in_record w"
  have ps: "list_all (\<lambda>c. \<not> is_eow c) ?ps" using 1(2) by (auto simp: list_all_iff dest: set_dropWhileD)
  have d: "is_eow (deref (v @ t)) = is_eow (deref v)" if "list_all (\<lambda>c. \<not> is_eow c) v" for v
    using that assms(2) zero by (cases v) auto
  have IH: "scan_bitrate_string (drop 1 (?ps @ t)) p = scan_bitrate_string (drop 1 ?ps) p"
    if "\<not> is_eow (deref w)" "split_record (takeWhile in_record w) = Some (key, val)"
      "(v, err) = (if key \<in> set known_keys then strtounit val ''kM'' else (None, 0))"
      "p = (case v of None \<Rightarrow> pfdi | Some v \<Rightarrow> store_key key v pfdi)" "\<not> err < 0" "\<not> is_eow (deref ?ps)" for key val v err p
  proof -
    have "?ps \<noteq> []" using that(6) zero by (metis deref_simps(1))
    then have "drop 1 (?ps @ t) = drop 1 ?ps @ t" by (cases ?ps) simp_all
    moreover have "list_all (\<lambda>c. \<not> is_eow c) (drop 1 ?ps)" using ps by (auto simp: list_all_iff dest: in_set_dropD)
    ultimately show ?thesis
      using 1(1) [OF that(1) HOL.refl HOL.refl that(2) HOL.refl HOL.refl that(3-6)] by simp
  qed
  note eqs = scan_bitrate_string.simps [of "w @ t"] scan_bitrate_string.simps [of w] split_word [OF 1(2) assms(2)]
    d [OF 1(2)] d [OF ps] Let_def
  show ?case
  proof (cases "split_record (takeWhile in_record w)")
    case (Some kv)
    obtain key val where kv: "kv = (key, val)" by (cases kv)
    obtain v err where ve: "(v, err) = (if key \<in> set known_keys then strtounit val ''kM'' else (None, 0))"
      by (metis surj_pair)
    show ?thesis unfolding eqs Some kv using IH [OF _ Some [unfolded kv] ve HOL.refl] ve [symmetric] by simp
  qed (simp add: eqs)
qed

text \<open>Behind a bit rate string the switches have no effect: \<^verbatim>\<open>scan_bitrate_string\<close> does not move the
  caller's pointer, so the two switches are looked for in the first two letters of the string itself, and
  the settings are the same whatever follows the string.
\<close>

theorem bitrate_switches_ignored:
  assumes "list_all (\<lambda>c. \<not> is_eow c) w" "2 \<le> length w" "digit_val (deref w) = None"
  shows "pcan_parse_input_init (''i '' @ w @ '' '' @ rest) fdi = pcan_parse_input_init (''i '' @ w) fdi"
proof -
  obtain a b v where w: "w = a # b # v" using assms(2) by (cases w; cases "tl w") auto
  have ab: "\<not> is_blank a" "\<not> is_eol a" "\<not> is_blank b" "\<not> is_eol b" using assms(1) by (auto simp: w is_eow_def)
  have s: "is_eow (deref ('' '' @ rest))" by (simp add: is_eow_def is_blank_def)
  have a: "a \<noteq> CHR ''0''" using assms(3) by (auto simp: w digit_val_def)
  have n: "scan_unsigned_number (w @ x) = (0, w @ x, - ERANGE)" for x
    using assms(3) a by (simp add: w scan_unsigned_number_def simple_strtoul_def is_hex_prefix_def)
  have sw: "scan_switches 2 (w @ x) fl = scan_switches 2 w fl" for x fl
    using ab by (simp add: w numeral_2_eq_2 skip_blanks_and_test_for_CR_def skip_blanks_stop scan_char_def)
  have ie: "init_end (w @ x) p = init_end w p" for x p using sw [of x] by (simp add: init_end_def)
  have "pcan_parse_input_init (''i '' @ w @ x) fdi = pcan_parse_input_init (''i '' @ w) fdi"
    if "is_eow (deref x)" for x
    using n [of x] n [of "[]"] scan_word [OF assms(1) that] ab ie [of x]
    by (simp add: pcan_parse_input_init_def skip_blanks_and_test_for_CR_def scan_char_def skip_blanks_stop is_blank_def w
        split: prod.split)
  from this [OF s] show ?thesis by simp
qed

theorem bitrate_switches_ignored_witness:
  "list_all (\<lambda>c. \<not> is_eow c) ''nom_bitrate=500k'' \<and>
   pcan_parse_input_init (''i '' @ ''nom_bitrate=500k'' @ '' '' @ ''l'') zero_init
     = pcan_parse_input_init (''i '' @ ''nom_bitrate=500k'') zero_init"
proof -
  have h: "list_all (\<lambda>c. \<not> is_eow c) ''nom_bitrate=500k''" by (simp add: is_eow_def is_blank_def is_eol_def)
  have "digit_val (deref ''nom_bitrate=500k'') = None" by code_simp
  from bitrate_switches_ignored [OF h _ this] h show ?thesis by simp
qed

section \<open>The read buffer\<close>

lemma length_stamp:
  assumes "0 \<le> tv_usec tv" "tv_usec tv < 1000000"
  shows "length (stamp_text tv) = 16"
proof -
  let ?q = "tv_usec tv div 1000"
  have d: "tv_usec tv sdiv 1000 = ?q" using assms(1) by (cases "tv_usec tv = 0") (simp_all add: signed_divide_int_def)
  have "(of_int (tv_usec tv) - of_int ?q * 1000 :: u32) = of_int (tv_usec tv - ?q * 1000)" by simp
  also have "tv_usec tv - ?q * 1000 = int (nat (tv_usec tv mod 1000))" by (simp add: minus_div_mult_eq_mod)
  also have "of_int (int (nat (tv_usec tv mod 1000))) = (of_nat (nat (tv_usec tv mod 1000)) :: u32)" by simp
  finally have us: "(of_int (tv_usec tv) - of_int ?q * 1000 :: u32) = of_nat (nat (tv_usec tv mod 1000))" .
  have m: "nat (tv_usec tv mod 1000) < 1000" by simp
  have "length (show_base 10 (unat (of_nat k :: u32))) \<le> 3" if "k < 1000" for k
    using that by (intro length_show_base) (simp_all add: unat_of_nat)
  then have us3: "max 3 (length (show_base 10 (unat (of_nat (nat (tv_usec tv mod 1000)) :: u32)))) = 3"
    using m by (intro max_absorb1) blast
  have "length (show_base 10 (unat (x :: u32))) \<le> 10" for x
  proof (rule length_show_base)
    have "(4294967296 :: nat) \<le> 10 ^ 10" by simp
    then show "unat x < 10 ^ 10" using unat_u32_less [of x] by linarith
  qed simp_all
  then have "max 11 (length (show_base 10 (unat (x :: u32)))) = 11" for x by (simp add: max_absorb1 le_trans [of _ 10 11])
  then show ?thesis unfolding stamp_text_def Let_def d us using us3 by (simp only: length_append length_pad) simp
qed

lemma length_byte_text: "length (byte_text b) = 5"
proof -
  have "unat b < 16 ^ 2" using unat_u8_less [of b] by simp
  from length_show_base [OF this] show ?thesis by (simp add: byte_text_def length_pad max_def)
qed

lemma length_byte_texts: "length (concat (map byte_text bs)) = 5 * length bs"
  by (induction bs) (simp_all add: length_byte_text)

lemma length_output:
  assumes "data_len m \<le> 64" "length (msg_data m) = PCANFD_MAXDATALEN"
    "0 \<le> tv_usec (timestamp m)" "tv_usec (timestamp m) < 1000000"
  shows "length (pcan_make_output m) = 20 + (if has_flag (msg_flags m) PCANFD_MSG_RTR then 0 else 5 * unat (data_len m))
      + (if has_flag (msg_flags m) PCANFD_TIMESTAMP then 16 else 0)"
proof -
  have n: "unat (data_len m) \<le> 64" using assms(1) by (simp add: word_le_nat_alt)
  then have "unat (data_len m) < 10 ^ 2" by simp
  from length_show_base [OF this] have l: "length (show_base 10 (unat (data_len m))) \<le> 2" by simp
  have "unat (msg_id m) < 16 ^ 8" using unat_u32_less [of "msg_id m"] by (simp del: unat_u32_less)
  from length_show_base [OF this] have i: "length (show_base 16 (unat (msg_id m))) \<le> 8" by simp
  have b: "(\<lambda>b. ''0x'' @ pad 2 CHR ''0'' (show_base 16 (unat b)) @ '' '') = byte_text"
    by (rule ext) (simp only: byte_text_def)
  have bs: "length (concat (map byte_text (take (unat (data_len m)) (msg_data m)))) = 5 * unat (data_len m)"
    unfolding length_byte_texts using n assms(2) by simp
  show ?thesis
    unfolding pcan_make_output_def b
    using length_stamp [OF assms(3,4)] i l bs
    by (simp add: length_pad max_def split: prod.split del: length_concat)
qed

text \<open>The \<^verbatim>\<open>read\<close> call writes the line of a frame into a buffer of 80 bytes without a check: a line leaves it
  exactly when the frame carries more than 8 data bytes with a time, or more than 12 without one. Frames of
  CAN 2.0 always fit; larger CAN FD frames destroy the memory behind the buffer.
\<close>

theorem read_buffer_bound:
  assumes "read_rest priv = []"
    "pcanfd_ioctl_recv_msg drv (open_flags priv) task dev stack = Done (dev', rx, task', 0)"
    "data_len (rx_msg rx) \<le> 64" "length (msg_data (rx_msg rx)) = PCANFD_MAXDATALEN"
    "0 \<le> tv_usec (timestamp (rx_msg rx))" "tv_usec (timestamp (rx_msg rx)) < 1000000"
  shows "pcan_read drv stack task dev priv count copy_ok = Fault \<longleftrightarrow>
     \<not> has_flag (msg_flags (rx_msg rx)) PCANFD_MSG_RTR \<and>
     (if has_flag (msg_flags (rx_msg rx)) PCANFD_TIMESTAMP then 8 else 12) < unat (data_len (rx_msg rx))"
proof -
  have "give_text d p t count copy_ok \<noteq> Fault" for d p t by (simp add: give_text_def Let_def)
  then have "pcan_read drv stack task dev priv count copy_ok = Fault \<longleftrightarrow>
      READBUFFER_SIZE < length (pcan_make_output (rx_msg rx))"
    using assms(1,2) by (simp add: pcan_read_def Let_def)
  then show ?thesis unfolding length_output [OF assms(3-6)] by auto
qed

section \<open>Witnesses\<close>

text \<open>An extended data frame of three bytes, and a CAN FD frame of twelve.\<close>

definition text_msg :: pcanfd_msg where
  "text_msg = zero_msg\<lparr>msg_type := PCANFD_TYPE_CAN20_MSG, msg_flags := PCANFD_MSG_EXT, msg_id := 0x1ABCDE, data_len := 3,
     msg_data := [1, 0xFF, 0x10] @ replicate 61 0\<rparr>"

definition fd_msg :: pcanfd_msg where
  "fd_msg = zero_msg\<lparr>msg_type := PCANFD_TYPE_CANFD_MSG, data_len := 12\<rparr>"

definition null_ops :: dev_ops where
  "null_ops = \<lparr>op_device_open = (\<lambda>d _ _ _. Some (d, 0)), op_device_open_fd = (\<lambda>d p. Some (d, p, 0)),
     op_device_release = None, op_device_write = (\<lambda>d. (d, 0)), op_open = None, op_release = None,
     op_req_irq = None, op_free_irq = None, op_cleanup = None\<rparr>"


theorem short_line_accepted_witness:
  "pcan_parse_input_message (''m s 0x'' @ pad 8 CHR ''0'' (show_base 16 256) @ '' '' @ pad 2 CHR '' '' (show_base 10 8)
       @ '' '' @ [CHR 0x0A]) zero_msg
     = (zero_msg\<lparr>msg_type := PCANFD_TYPE_CAN20_MSG, msg_flags := 0, msg_id := 256, data_len := 8\<rparr>, 0)"
  using short_line_accepted [of 256 8 zero_msg] by simp

theorem large_id_accepted_witness:
  "pcan_parse_input_message (''m s 0x'' @ pad 8 CHR ''0'' (show_base 16 2048) @ '' 0'') zero_msg
     = (zero_msg\<lparr>msg_type := PCANFD_TYPE_CAN20_MSG, msg_flags := 0, msg_id := 2048\<rparr>, 0)"
  using large_id_accepted [of 2048 "''0''" zero_msg] by simp


definition fd_dev :: pcandev where
  "fd_dev = blank_dev\<lparr>nOpenPaths := 1,
     readFifo := fst (pcan_fifo_put \<lparr>rx_msg = fd_msg, rx_hwtv = zero_hwtv\<rparr> (readFifo blank_dev))\<rparr>"

lemma fd_dev_recv:
  "\<exists>dev' rx. pcanfd_ioctl_recv_msg zero_timeval 0 \<lparr>task_now = zero_timeval, task_wakes = []\<rparr> fd_dev
       \<lparr>rx_msg = zero_msg, rx_hwtv = zero_hwtv\<rparr> = Done (dev', rx, \<lparr>task_now = zero_timeval, task_wakes = []\<rparr>, 0) \<and>
     data_len (rx_msg rx) = 12 \<and> length (msg_data (rx_msg rx)) = 64 \<and> timestamp (rx_msg rx) = zero_timeval \<and>
     has_flag (msg_flags (rx_msg rx)) PCANFD_TIMESTAMP \<and> \<not> has_flag (msg_flags (rx_msg rx)) PCANFD_MSG_RTR"
proof -
  let ?x = "\<lparr>rx_msg = fd_msg, rx_hwtv = zero_hwtv\<rparr>" let ?f = "readFifo blank_dev"
  have f: "ring_inv ?f" "fifo_items ?f = []" "fifo_cap ?f = 4"
    using blank_fifo_inv [of "\<lparr>rx_msg = zero_msg, rx_hwtv = zero_hwtv\<rparr>"] by (simp_all add: blank_dev_def)
  obtain g where g: "pcan_fifo_put ?x ?f = (g, 0)" "ring_inv g" "fifo_items g = [?x]"
    using ring.put_room [OF f(1), of ?x] f by (auto simp del: length_fifo_items)
  obtain h where h: "pcan_fifo_get True g = (h, 0, Some ?x)" using ring.get_item [OF g(2,3)] by blast
  let ?y = "?x\<lparr>rx_msg := fd_msg\<lparr>msg_flags := PCANFD_TIMESTAMP\<rparr>\<rparr>"
  have "pcan_sync_timestamps zero_timeval d ?x = Some (d, ?y)" for d
    by (simp add: pcan_sync_timestamps_def zero_hwtv_def fd_msg_def zero_msg_def set_flag_def clr_flag_def)
  moreover have "readFifo fd_dev = g" "is_plugged fd_dev" "nOpenPaths fd_dev = 1" "wCANStatus fd_dev = 0"
    using g(1) by (simp_all add: fd_dev_def blank_dev_def)
  ultimately have "pcanfd_ioctl_recv_msg zero_timeval 0 \<lparr>task_now = zero_timeval, task_wakes = []\<rparr> fd_dev
       \<lparr>rx_msg = zero_msg, rx_hwtv = zero_hwtv\<rparr> = Done (fd_dev\<lparr>readFifo := h\<rparr>, ?y, \<lparr>task_now = zero_timeval, task_wakes = []\<rparr>, 0)"
    using h by (simp add: pcanfd_ioctl_recv_msg_def pcanfd_recv_msg_def recv_loop.simps [of _ 0] intr_def)
  then show ?thesis by (simp add: fd_msg_def zero_msg_def has_flag_def)
qed

theorem read_buffer_bound_witness:
  "pcan_read zero_timeval \<lparr>rx_msg = zero_msg, rx_hwtv = zero_hwtv\<rparr> \<lparr>task_now = zero_timeval, task_wakes = []\<rparr> fd_dev
     \<lparr>open_flags = 0, read_rest = [], nTotalReadCount = 0, write_text = []\<rparr> 100 True = Fault"
proof -
  obtain d rx where r: "pcanfd_ioctl_recv_msg zero_timeval 0 \<lparr>task_now = zero_timeval, task_wakes = []\<rparr> fd_dev
       \<lparr>rx_msg = zero_msg, rx_hwtv = zero_hwtv\<rparr> = Done (d, rx, \<lparr>task_now = zero_timeval, task_wakes = []\<rparr>, 0)"
     "data_len (rx_msg rx) = 12" "length (msg_data (rx_msg rx)) = 64" "timestamp (rx_msg rx) = zero_timeval"
     "has_flag (msg_flags (rx_msg rx)) PCANFD_TIMESTAMP" "\<not> has_flag (msg_flags (rx_msg rx)) PCANFD_MSG_RTR"
    using fd_dev_recv by blast
  then show ?thesis
    using read_buffer_bound [of "\<lparr>open_flags = 0, read_rest = [], nTotalReadCount = 0, write_text = []\<rparr>"
        zero_timeval _ fd_dev _ d rx]
    by (simp add: zero_timeval_def)
qed

end
