(* ===== verification/Pcan_Usb.thy ===== *)
theory Pcan_Usb
  imports Pcan_Ucan_Msg
begin

text \<open>
  The PCAN-USB adapter (\<^verbatim>\<open>driver/src/pcan_usb.c\<close>) and the transfers of USB adapters
  (\<^verbatim>\<open>driver/src/pcan_usb_core.c\<close>): the reconstruction of the device clock from 16-bit ticks, the commands,
  the decoding of received packets, the encoding of the transmit queue into telegrams, and the completion
  handlers of the transfers. The results of the USB calls of the kernel are functions of the history of the
  transfers, which is kept with the channel, oldest first. Delays have no effect. \<^verbatim>\<open>PCAN_USB_HANDLE_ERR_CNT\<close>,
  \<^verbatim>\<open>HANDLE_DLC_GT_THAN_8\<close>, \<^verbatim>\<open>BUS_STATE_ACTIVE_ON_1ST_TS\<close>, \<^verbatim>\<open>PCAN_USB_SIGNAL_ON_EACH_WRITE\<close> and
  \<^verbatim>\<open>PCAN_USB_ALLOC_URBS\<close> are defined, as in the sources; the machine is little-endian.
\<close>

section \<open>State\<close>

text \<open>What was sent to the command pipe and read from it, the halts that were cleared and the transfers that
  were submitted; each with the result of the call. A command that is sent by a transfer of its own
  (\<open>Cmd_urb\<close>) has the result of its submission, whether it was killed after the timeout, and the status of the
  transfer then. \<open>Ctrl\<close> is a vendor request with its identifier and value.\<close>

datatype usb_io = Cmd_out "u8 list" int | Cmd_in "u8 list" int | Clear_halt bool int | Urb "u8 list" int
  | Cmd_urb "u8 list" int bool int | Ctrl nat nat "u8 list" int

record usb_env =
  out_err :: "usb_io list \<Rightarrow> int"
  in_reply :: "usb_io list \<Rightarrow> u8 list \<times> int"
  halt_err :: "usb_io list \<Rightarrow> int"
  submit_err :: "usb_io list \<Rightarrow> int"
  cmd_wait :: "usb_io list \<Rightarrow> bool \<times> int"
  ctrl_reply :: "usb_io list \<Rightarrow> u8 list \<times> int"
  no_memory :: "usb_io list \<Rightarrow> bool"

record pcan_usb_time =
  ticks16 :: u16
  sync_ticks_init :: u16
  sync_ticks_low :: u16
  sync_ticks_high :: u32

text \<open>The members of \<^verbatim>\<open>struct pcan_usb_interface\<close> that the decoders of the USB Pro and FD adapters use. They are
  kept with the channel 0 of the interface.\<close>

record usb_if =
  if_state :: u32
  cm_ignore_count :: int
  dev_frame_index :: int
  bus_frame_index :: int
  if_ts_high :: u32
  if_ts_low :: u32
  frag_rec_offset :: nat
  dwSerialNumber :: u32

text \<open>A channel with its \<^verbatim>\<open>USB_PORT\<close>. Of the interface, it has the revision and its own share of the number
  of active write transfers.\<close>

record usbdev = ucandev +
  usb_log :: "usb_io list"
  usb_time :: pcan_usb_time
  dwTelegramCount :: u32
  ucHardcodedDevNr :: u8
  ucRevision :: u8
  write_packet_size :: nat
  write_buffer_size :: nat
  write_buffer :: mem
  w_active_urbs :: int
  usb_state :: u32
  usb_iface :: usb_if

definition on_pdev :: "(pcandev \<Rightarrow> pcandev) \<Rightarrow> 'z ucandev_scheme \<Rightarrow> 'z ucandev_scheme" where
  "on_pdev f dev = dev\<lparr>pdev := f (pdev dev)\<rparr>"

section \<open>The device clock\<close>

definition zero_usb_time :: pcan_usb_time where
  "zero_usb_time = \<lparr>ticks16 = 0, sync_ticks_init = 0, sync_ticks_low = 0, sync_ticks_high = 0\<rparr>"

definition pcan_reset_timestamp :: "usbdev \<Rightarrow> usbdev" where
  "pcan_reset_timestamp dev = dev\<lparr>usb_time := zero_usb_time\<rparr>"

abbreviation (input) PCAN_USB_SYNC_PERIOD_TICK :: int where "PCAN_USB_SYNC_PERIOD_TICK \<equiv> 23437"

text \<open>The time in microseconds, low and high part.\<close>

definition pcan_ticks_to_ts :: "u32 \<Rightarrow> u32 \<times> u32" where
  "pcan_ticks_to_ts ticks =
     (let ts = (ucast ticks * 42667 + 999) div 1000 :: u64
      in (ucast ts, ucast (drop_bit 32 ts)))"

text \<open>The comparison with the period is one of \<^verbatim>\<open>long\<close> values.\<close>

definition word_ticks :: "pcan_usb_time \<Rightarrow> u16 \<Rightarrow> u32" where
  "word_ticks t ticks =
     (let next_ticks = sync_ticks_low t + of_int PCAN_USB_SYNC_PERIOD_TICK;
          count = (if ticks < sync_ticks_low t \<and> uint ticks < PCAN_USB_SYNC_PERIOD_TICK \<and> next_ticks < sync_ticks_low t
                   then sync_ticks_high t + 0x10000 else sync_ticks_high t)
      in count + ucast ticks)"

definition pcan_updateTimeStampFromWord ::
  "timeval \<Rightarrow> usbdev \<Rightarrow> u16 \<Rightarrow> pcan_timeval \<Rightarrow> usbdev \<times> pcan_timeval" where
  "pcan_updateTimeStampFromWord now dev ticks tv =
     (let t = usb_time dev
      in if sync_ticks_init t = 0 then (dev, tv)
         else
           let dev' = dev\<lparr>usb_time := t\<lparr>ticks16 := ticks\<rparr>\<rparr>;
               (ts_low, ts_high) = pcan_ticks_to_ts (word_ticks t ticks)
           in (dev', fst (pcan_sync_decode now (pdev dev) ts_low ts_high tv)))"

definition byte_ticks :: "pcan_usb_time \<Rightarrow> u8 \<Rightarrow> u16" where
  "byte_ticks t ticks8 =
     (let hsb = ucast (drop_bit 8 (ticks16 t)) :: u8; lsb = ucast (ticks16 t) :: u8;
          hsb = (if ticks8 < lsb then hsb + 1 else hsb)
      in push_bit 8 (ucast hsb) OR ucast ticks8)"

definition pcan_updateTimeStampFromByte ::
  "timeval \<Rightarrow> usbdev \<Rightarrow> u8 \<Rightarrow> pcan_timeval \<Rightarrow> usbdev \<times> pcan_timeval" where
  "pcan_updateTimeStampFromByte now dev ticks8 tv =
     (if sync_ticks_init (usb_time dev) = 0 then (dev, tv)
      else pcan_updateTimeStampFromWord now dev (byte_ticks (usb_time dev) ticks8) tv)"

text \<open>The counter of the device after a calibration message.\<close>

definition sync_clock :: "pcan_usb_time \<Rightarrow> u16 \<Rightarrow> pcan_usb_time" where
  "sync_clock t ticks =
     (let t = (if sync_ticks_init t \<noteq> 0 then
                 (if ticks < sync_ticks_low t then t\<lparr>sync_ticks_high := sync_ticks_high t + 0x10000\<rparr> else t)
               else t\<lparr>sync_ticks_init := ticks, ticks16 := ticks\<rparr>)
      in t\<lparr>sync_ticks_low := ticks\<rparr>)"

definition pcan_usb_sync_times :: "timeval \<Rightarrow> u64 \<Rightarrow> usbdev \<Rightarrow> u16 \<Rightarrow> u32 \<Rightarrow> usbdev \<times> int" where
  "pcan_usb_sync_times now ns dev ticks dtv =
     (let t = sync_clock (usb_time dev) ticks;
          (ts_low, ts_high) = pcan_ticks_to_ts (sync_ticks_high t + ucast (sync_ticks_low t));
          (p, r) = pcan_sync_times now ns (pdev dev) ts_low ts_high (sint dtv)
      in (dev\<lparr>usb_time := t, pdev := p\<rparr>, r))"

section \<open>Commands\<close>

definition usb_param :: "u8 \<Rightarrow> u8 \<Rightarrow> u8 \<Rightarrow> u8 \<Rightarrow> u8 \<Rightarrow> u8 \<Rightarrow> u8 list" where
  "usb_param f n p0 p1 p2 p3 = [f, n, p0, p1, p2, p3] @ replicate 10 0"

definition pcan_usb_setcontrol_urb ::
  "usb_env \<Rightarrow> usbdev \<Rightarrow> u8 \<Rightarrow> u8 \<Rightarrow> u8 \<Rightarrow> u8 \<Rightarrow> u8 \<Rightarrow> u8 \<Rightarrow> usbdev \<times> int" where
  "pcan_usb_setcontrol_urb env dev f n p0 p1 p2 p3 =
     (if \<not> is_plugged (pdev dev) then (dev, - ENODEV)
      else let err = out_err env (usb_log dev)
           in (dev\<lparr>usb_log := usb_log dev @ [Cmd_out (usb_param f n p0 p1 p2 p3) err]\<rparr>, err))"

text \<open>The loop of \<^verbatim>\<open>pcan_usb_getcontrol_urb\<close>; the parameters start at the index 2 of the reply. \<open>None\<close> is a
  result that was not stored.\<close>

fun getcontrol_loop :: "nat \<Rightarrow> usb_env \<Rightarrow> usbdev \<Rightarrow> u8 \<Rightarrow> u8 \<Rightarrow> int \<Rightarrow> usbdev \<times> u8 list option \<times> int" where
  "getcontrol_loop 0 env dev f n err = (dev, None, err)"
| "getcontrol_loop (Suc i) env dev f n err =
     (if \<not> is_plugged (pdev dev) then (dev, None, - ENODEV)
      else
        let (dev, err) = pcan_usb_setcontrol_urb env dev f n 0 0 0 0
        in if err \<noteq> 0 then (dev, None, err)
           else
             let (r, err) = in_reply env (usb_log dev); dev = dev\<lparr>usb_log := usb_log dev @ [Cmd_in r err]\<rparr>
             in if err = 0 then (dev, Some (drop 2 r), 0)
                else if err \<noteq> - ETIMEDOUT then (dev, None, err)
                else getcontrol_loop i env dev f n err)"

definition pcan_usb_getcontrol_urb :: "usb_env \<Rightarrow> usbdev \<Rightarrow> u8 \<Rightarrow> u8 \<Rightarrow> usbdev \<times> u8 list option \<times> int" where
  "pcan_usb_getcontrol_urb env dev f n = getcontrol_loop 3 env dev f n 0"

definition pcan_usb_set_err_frame :: "usb_env \<Rightarrow> usbdev \<Rightarrow> u8 \<Rightarrow> usbdev \<times> int" where
  "pcan_usb_set_err_frame env dev err_mask = pcan_usb_setcontrol_urb env dev 0x0b 2 err_mask 0 0 0"

definition pcan_usb_setBTR0BTR1 :: "usb_env \<Rightarrow> usbdev \<Rightarrow> u16 \<Rightarrow> usbdev \<times> int" where
  "pcan_usb_setBTR0BTR1 env dev w = pcan_usb_setcontrol_urb env dev 1 2 (ucast w) (ucast (drop_bit 8 w)) 0 0"

definition pcan_usb_setCANOn :: "usb_env \<Rightarrow> usbdev \<Rightarrow> usbdev \<times> int" where
  "pcan_usb_setCANOn env dev = pcan_usb_setcontrol_urb env (on_pdev pcan_sync_init dev) 3 2 1 0 0 0"

definition usb_clear_halt :: "usb_env \<Rightarrow> usbdev \<Rightarrow> bool \<Rightarrow> usbdev \<times> int" where
  "usb_clear_halt env dev out = (let err = halt_err env (usb_log dev) in (dev\<lparr>usb_log := usb_log dev @ [Clear_halt out err]\<rparr>, err))"

definition pcan_usb_setCANOff :: "usb_env \<Rightarrow> usbdev \<Rightarrow> usbdev \<times> int" where
  "pcan_usb_setCANOff env dev =
     (let dev = (if ucRevision dev \<le> 25 then fst (pcan_usb_setcontrol_urb env dev 9 2 4 0 0 0) else dev);
          (dev, _) = pcan_usb_setcontrol_urb env dev 3 2 0 0 0 0;
          (dev, _) = pcan_usb_set_err_frame env dev 0;
          (dev, err) = (if is_plugged (pdev dev) then usb_clear_halt env (fst (usb_clear_halt env dev True)) False else (dev, 0))
      in if err \<noteq> 0 then (dev, err) else pcan_usb_setcontrol_urb env dev 9 2 0 1 0 0)"

definition pcan_usb_setCANSilentOn :: "usb_env \<Rightarrow> usbdev \<Rightarrow> usbdev \<times> int" where
  "pcan_usb_setCANSilentOn env dev = pcan_usb_setcontrol_urb env dev 3 3 1 0 0 0"

definition pcan_usb_setCANSilentOff :: "usb_env \<Rightarrow> usbdev \<Rightarrow> usbdev \<times> int" where
  "pcan_usb_setCANSilentOff env dev = pcan_usb_setcontrol_urb env dev 3 3 0 0 0 0"

abbreviation (input) PCAN_DEV_USES_ALT_NUM :: u32 where "PCAN_DEV_USES_ALT_NUM \<equiv> 0x00000002"

definition pcan_usb_getDeviceNr :: "usb_env \<Rightarrow> usbdev \<Rightarrow> usbdev \<times> u32 \<times> int" where
  "pcan_usb_getDeviceNr env dev =
     (let (dev, r, err) = pcan_usb_getcontrol_urb env dev 4 1;
          dev_nr = (case r of Some ps \<Rightarrow> ps ! 0 | None \<Rightarrow> 0)
      in if err = 0 \<and> dev_nr \<noteq> 255 \<and> dev_nr \<noteq> 0 then
           (on_pdev (\<lambda>p. p\<lparr>device_alt_num := ucast dev_nr, dev_flags := set_flag (dev_flags p) PCAN_DEV_USES_ALT_NUM\<rparr>) dev,
            ucast dev_nr, err)
         else (dev, 0, err))"

definition pcan_usb_setDeviceNr :: "usb_env \<Rightarrow> usbdev \<Rightarrow> u32 \<Rightarrow> usbdev \<times> int" where
  "pcan_usb_setDeviceNr env dev nr = pcan_usb_setcontrol_urb env dev 4 2 (ucast nr) 0 0 0"

definition pcan_usb_setExtVCCOff :: "usb_env \<Rightarrow> usbdev \<Rightarrow> usbdev \<times> int" where
  "pcan_usb_setExtVCCOff env dev = pcan_usb_setcontrol_urb env dev 0xA 2 0 0 0 0"

text \<open>The serial number has its most significant byte first.\<close>

definition pcan_usb_getSNR :: "usb_env \<Rightarrow> usbdev \<Rightarrow> usbdev \<times> u32 \<times> int" where
  "pcan_usb_getSNR env dev =
     (let (dev, r, err) = pcan_usb_getcontrol_urb env dev 6 1
      in (dev, case r of
                 Some ps \<Rightarrow> push_bit 24 (ucast (ps ! 0)) OR push_bit 16 (ucast (ps ! 1)) OR push_bit 8 (ucast (ps ! 2)) OR ucast (ps ! 3)
               | None \<Rightarrow> 0, err))"

definition pcan_usb_Init :: "usb_env \<Rightarrow> usbdev \<Rightarrow> u16 \<Rightarrow> u8 \<Rightarrow> u8 \<Rightarrow> usbdev \<times> int" where
  "pcan_usb_Init env dev btr0btr1 use_ext bListenOnly =
     (let (dev, err) = pcan_usb_setBTR0BTR1 env dev btr0btr1
      in if err \<noteq> 0 then (dev, err)
         else
           let (dev, _) = pcan_usb_set_err_frame env dev 0x1f;
               (dev, err) =
                 (if 3 < ucRevision dev then
                    (if bListenOnly \<noteq> 0 then pcan_usb_setCANSilentOn env dev else pcan_usb_setCANSilentOff env dev)
                  else (dev, if bListenOnly \<noteq> 0 then - EINVAL else 0))
           in if err \<noteq> 0 then (dev, err)
              else
                let (dev, err) = pcan_usb_setExtVCCOff env dev
                in ((pcan_reset_timestamp dev)\<lparr>dwTelegramCount := 0\<rparr>, err))"

definition pcan_usb_set_mass_storage_mode :: "usb_env \<Rightarrow> usbdev \<Rightarrow> usbdev \<times> int" where
  "pcan_usb_set_mass_storage_mode env dev = pcan_usb_setcontrol_urb env dev 0xC8 0 0 0 0 0"

section \<open>Telegrams for the device\<close>

abbreviation (input) STLN_WITH_TIMESTAMP :: u8 where "STLN_WITH_TIMESTAMP \<equiv> 0x80"
abbreviation (input) STLN_INTERNAL_DATA :: u8 where "STLN_INTERNAL_DATA \<equiv> 0x40"
abbreviation (input) STLN_EXTENDED_ID :: u8 where "STLN_EXTENDED_ID \<equiv> 0x20"
abbreviation (input) STLN_RTR :: u8 where "STLN_RTR \<equiv> 0x10"
abbreviation (input) STLN_DATA_LENGTH :: u8 where "STLN_DATA_LENGTH \<equiv> 0x0F"

text \<open>The flags of a message on a device without self reception, and the record of a message.\<close>

definition usb_tx_flags :: "u8 \<Rightarrow> pcanfd_msg \<Rightarrow> u32" where
  "usb_tx_flags fw m = (if fw < 41 then clr_flag (msg_flags m) PCANFD_MSG_SLF else msg_flags m)"

definition usb_id_bytes :: "u32 \<Rightarrow> u32 \<Rightarrow> u8 list" where
  "usb_id_bytes fl i =
     (let srr = (\<lambda>x. if has_flag fl PCANFD_MSG_SLF then x OR 0x01 else x)
      in if has_flag fl PCANFD_MSG_EXT then le32 (srr (push_bit 3 i)) else take 2 (le32 (srr (push_bit 5 i))))"

definition usb_tx_record :: "u8 \<Rightarrow> pcanfd_msg \<Rightarrow> u8 list" where
  "usb_tx_record fw m =
     (let fl = usb_tx_flags fw m; len = ucast (data_len m) AND STLN_DATA_LENGTH;
          st = (if has_flag fl PCANFD_MSG_RTR then len OR STLN_RTR else len);
          st = (if has_flag fl PCANFD_MSG_EXT then st OR STLN_EXTENDED_ID else st)
      in [st] @ usb_id_bytes fl (msg_id m)
         @ (if has_flag fl PCANFD_MSG_RTR then []
            else map (\<lambda>j. if j < 8 then msg_data m ! j else 0) [0..<unat len])
         @ (if has_flag fl PCANFD_MSG_SLF then [0x80] else []))"

text \<open>The loop of \<^verbatim>\<open>pcan_usb_EncodeMessage\<close>: \<open>pos\<close> is \<^verbatim>\<open>ptr - ucMsgPtr\<close>.\<close>

function usb_encode_loop ::
  "u8 \<Rightarrow> pcandev \<Rightarrow> mem \<Rightarrow> nat \<Rightarrow> nat \<Rightarrow> int \<Rightarrow> nat \<Rightarrow> int \<Rightarrow> pcandev \<times> mem \<times> nat \<times> nat \<times> int" where
  "usb_encode_loop fw p m a pos tp cnt err =
     (if int pos < tp then
        case pcan_fifo_get True (writeFifo p) of
          (f, err, Some tx) \<Rightarrow>
            usb_encode_loop fw (p\<lparr>writeFifo := f\<rparr>) (wr m (a + pos) (usb_tx_record fw (tx_msg tx))) a
              (pos + length (usb_tx_record fw (tx_msg tx))) tp (cnt + 1) err
        | (f, err, None) \<Rightarrow> (p\<lparr>writeFifo := f\<rparr>, m, pos, cnt, err)
      else (p, m, pos, cnt, err))"
  by pat_completeness auto

termination
  by (relation "measure (\<lambda>(_, _, _, _, pos, tp, _, _). nat (tp - int pos))")
    (auto simp: usb_tx_record_def Let_def)

declare usb_encode_loop.simps [simp del]

text \<open>\<^verbatim>\<open>pcan_usb_EncodeMessage\<close> into the write buffer at \<open>a\<close>: the length of the telegram and the result.\<close>

definition pcan_usb_EncodeMessage :: "usbdev \<Rightarrow> nat \<Rightarrow> nat \<Rightarrow> usbdev \<times> nat \<times> int" where
  "pcan_usb_EncodeMessage dev a nDataLength =
     (let m = wr (write_buffer dev) a [2];
          (p, m, pos, cnt, err) = usb_encode_loop (ucRevision dev) (pdev dev) m a 2 (int nDataLength - 14) 0 0
      in if 2 < pos then
           let m = wr m (a + nDataLength - 1) [ucast (dwTelegramCount dev)];
               m = wr m (a + 1) [of_nat cnt]
           in (dev\<lparr>pdev := p\<lparr>tx_frames_counter := tx_frames_counter p + of_nat cnt\<rparr>, write_buffer := m,
                   dwTelegramCount := dwTelegramCount dev + 1\<rparr>, nDataLength, err)
         else (dev\<lparr>pdev := p, write_buffer := wr m (a + 1) [0]\<rparr>, 0, err))"

section \<open>Packets from the device\<close>

text \<open>The time of a record: the first one in a packet has 16 bits, the others 8. \<open>ts8\<close> tells whether there
  was one before.\<close>

definition read_ticks ::
  "timeval \<Rightarrow> mem \<Rightarrow> usbdev \<Rightarrow> nat \<Rightarrow> bool \<Rightarrow> pcan_timeval \<Rightarrow> usbdev \<times> nat \<times> pcan_timeval" where
  "read_ticks now mem dev ptr ts8 tv =
     (if \<not> ts8 then let (dev, tv) = pcan_updateTimeStampFromWord now dev (rd16 mem ptr) tv in (dev, ptr + 2, tv)
      else let (dev, tv) = pcan_updateTimeStampFromByte now dev (mem ptr) tv in (dev, ptr + 1, tv))"

text \<open>The data bytes of a record: at most 8 are kept, the pointer moves over all of them.\<close>

definition read_data :: "mem \<Rightarrow> nat \<Rightarrow> nat \<Rightarrow> u8 list" where
  "read_data mem ptr n = bytes mem ptr (min n 8) @ replicate (PCANFD_MAXDATALEN - min n 8) 0"

definition usb_rx_flags :: "u8 \<Rightarrow> mem \<Rightarrow> nat \<Rightarrow> u8 \<Rightarrow> u32" where
  "usb_rx_flags fw mem ptr st =
     (let fl = PCANFD_HWTIMESTAMP OR PCANFD_TIMESTAMP;
          fl = (if has_flag st STLN_RTR then set_flag fl PCANFD_MSG_RTR else fl);
          fl = (if 41 \<le> fw \<and> has_flag (mem ptr) 0x01 then set_flag fl PCANFD_MSG_SLF else fl)
      in if has_flag st STLN_EXTENDED_ID then set_flag fl PCANFD_MSG_EXT else fl)"

text \<open>A CAN frame whose status byte was \<open>st\<close>: the state, the pointer behind the record and the result. The
  time of the message on the stack is not initialised; \<open>tv\<close> is what it holds.\<close>

definition decode_can ::
  "timeval \<Rightarrow> timeval \<Rightarrow> mem \<Rightarrow> usbdev \<Rightarrow> nat \<Rightarrow> u8 \<Rightarrow> bool \<Rightarrow> pcan_timeval \<Rightarrow> usbdev \<times> nat \<times> int" where
  "decode_can now drv mem dev ptr st ts8 tv =
     (let len = unat (st AND STLN_DATA_LENGTH);
          fl = usb_rx_flags (ucRevision dev) mem ptr st;
          (i, ptr) = (if has_flag st STLN_EXTENDED_ID then (drop_bit 3 (rd32 mem ptr), ptr + 4)
                      else (drop_bit 5 (ucast (rd16 mem ptr)), ptr + 2));
          (dev, ptr, tv) = read_ticks now mem dev ptr ts8 tv;
          n = (if has_flag st STLN_RTR then 0 else len);
          m = zero_msg\<lparr>msg_type := PCANFD_TYPE_CAN20_MSG, data_len := of_nat (min len 8), msg_id := i, msg_flags := fl,
                msg_data := read_data mem ptr n\<rparr>;
          ptr = ptr + n + (if has_flag fl PCANFD_MSG_SLF then 1 else 0);
          (p, err) = post_rx now drv (pdev dev) \<lparr>rx_msg = m, rx_hwtv = tv\<rparr>
      in (dev\<lparr>pdev := p\<rparr>, ptr, err))"

abbreviation (input) XMT_BUFFER_FULL :: u8 where "XMT_BUFFER_FULL \<equiv> 0x01"
abbreviation (input) CAN_RECEIVE_OVERRUN :: u8 where "CAN_RECEIVE_OVERRUN \<equiv> 0x02"
abbreviation (input) BUS_LIGHT :: u8 where "BUS_LIGHT \<equiv> 0x04"
abbreviation (input) BUS_HEAVY :: u8 where "BUS_HEAVY \<equiv> 0x08"
abbreviation (input) BUS_OFF :: u8 where "BUS_OFF \<equiv> 0x10"
abbreviation (input) QUEUE_OVERRUN :: u8 where "QUEUE_OVERRUN \<equiv> 0x40"
abbreviation (input) QUEUE_XMT_FULL :: u8 where "QUEUE_XMT_FULL \<equiv> 0x80"
abbreviation (input) EILSEQ :: int where "EILSEQ \<equiv> 84"

definition ctrl_if :: "bool \<Rightarrow> u32 \<Rightarrow> usbdev \<times> pcanfd_rxmsg \<Rightarrow> usbdev \<times> pcanfd_rxmsg" where
  "ctrl_if b e dr =
     (if b then let (p, rx) = pcan_handle_error_ctrl (pdev (fst dr)) (Some (snd dr)) e in ((fst dr)\<lparr>pdev := p\<rparr>, the rx)
      else dr)"

text \<open>The status of the controller, with the number \<open>nb\<close>. \<open>wrt\<close> starts the transmission.\<close>

definition usb_status ::
  "(usbdev \<Rightarrow> usbdev \<times> int) \<Rightarrow> usbdev \<Rightarrow> pcanfd_rxmsg \<Rightarrow> u8 \<Rightarrow> usbdev \<times> pcanfd_rxmsg" where
  "usb_status wrt dev rx nb =
     (let (dev, rx) = ctrl_if (has_flag nb CAN_RECEIVE_OVERRUN \<or> has_flag nb QUEUE_OVERRUN) PCANFD_RX_OVERFLOW (dev, rx);
          (dev, rx) = ctrl_if (has_flag nb XMT_BUFFER_FULL \<or> has_flag nb QUEUE_XMT_FULL) PCANFD_TX_OVERFLOW (dev, rx)
      in if has_flag nb BUS_OFF then
           let (p, rx, _) = pcan_handle_busoff (pdev dev) rx in (dev\<lparr>pdev := p\<rparr>, rx)
         else
           let (p, rx, r) = pcan_handle_error_status (pdev dev) rx (has_flag nb BUS_LIGHT) (has_flag nb BUS_HEAVY);
               dev = dev\<lparr>pdev := p\<rparr>
           in if r = 0 then ucan_error_active wrt dev rx else (dev, rx))"

text \<open>The functions of a status record behind its time: the state, the pointer and the message, or the
  error of an unknown function.\<close>

definition usb_function ::
  "timeval \<Rightarrow> u64 \<Rightarrow> (usbdev \<Rightarrow> usbdev \<times> int) \<Rightarrow> mem \<Rightarrow> usbdev \<Rightarrow> pcanfd_rxmsg \<Rightarrow> nat \<Rightarrow> nat \<Rightarrow> u8 \<Rightarrow> u8
     \<Rightarrow> usbdev \<times> pcanfd_rxmsg \<times> nat \<times> int" where
  "usb_function now ns wrt mem dev rx ptr len f nb =
     (if f = 1 then
        let (dev, rx) = usb_status wrt dev rx nb; k = min len 8
        in (dev, rx\<lparr>rx_msg := (rx_msg rx)\<lparr>msg_data := bytes mem ptr k @ drop k (msg_data (rx_msg rx))\<rparr>\<rparr>, ptr + len, 0)
      else if f = 2 then (dev, rx, ptr + 2, 0)
      else if f = 3 then (on_pdev (\<lambda>p. p\<lparr>bus_load := uint (mem ptr)\<rparr>) dev, rx, ptr + 1, 0)
      else if f = 4 then
        let (dev, _) = pcan_usb_sync_times now ns dev (rd16 mem ptr) (- 50);
            (dev, rx) = (if bus_state (pdev dev) = PCANFD_UNKNOWN then ucan_error_active wrt dev rx else (dev, rx))
        in (dev, rx, ptr + 2, 0)
      else if f = 5 then
        let ecc = mem ptr;
            dev = (if nb = 0x80 then on_pdev (\<lambda>p. p\<lparr>rx_error_counter := mem (ptr + 1), tx_error_counter := mem (ptr + 2)\<rparr>) dev
                   else dev);
            (p, rx') = pcan_handle_error_msg (pdev dev) (Some rx) (ucast (drop_bit 6 (ecc AND 0xc0))) (ecc AND 0x1f)
                         (has_flag ecc 0x20) False
        in (dev\<lparr>pdev := p\<rparr>, the rx', ptr + len, 0)
      else if f = 10 then (dev, rx, ptr, 0)
      else (dev, rx, ptr, - EILSEQ))"

definition decode_status ::
  "timeval \<Rightarrow> timeval \<Rightarrow> u64 \<Rightarrow> (usbdev \<Rightarrow> usbdev \<times> int) \<Rightarrow> mem \<Rightarrow> usbdev \<Rightarrow> nat \<Rightarrow> u8 \<Rightarrow> bool \<Rightarrow> pcan_timeval
     \<Rightarrow> usbdev \<times> nat \<times> bool \<times> int" where
  "decode_status now drv ns wrt mem dev ptr st ts8 tv =
     (let len = unat (st AND STLN_DATA_LENGTH);
          m = zero_msg\<lparr>data_len := of_nat (min len 8)\<rparr>;
          f = mem ptr; nb = mem (ptr + 1); ptr = ptr + 2;
          stamp = has_flag st STLN_WITH_TIMESTAMP;
          (dev, ptr, tv) = (if stamp then read_ticks now mem dev ptr ts8 tv else (dev, ptr, tv));
          m = (if stamp then m\<lparr>msg_flags := PCANFD_HWTIMESTAMP OR PCANFD_TIMESTAMP\<rparr> else m);
          (dev, rx, ptr, err) = usb_function now ns wrt mem dev \<lparr>rx_msg = m, rx_hwtv = tv\<rparr> ptr len f nb
      in if err \<noteq> 0 then (dev, ptr, ts8 \<or> stamp, err)
         else if msg_type (rx_msg rx) = PCANFD_TYPE_NOP then (dev, ptr, ts8 \<or> stamp, 0)
         else let (p, err) = post_rx now drv (pdev dev) rx in (dev\<lparr>pdev := p\<rparr>, ptr, ts8 \<or> stamp, err))"

text \<open>A record is handled before the end of the packet is checked. \<open>wake\<close> counts the messages that were
  queued; \<open>tvs\<close> is the content of the stack in each round.\<close>

fun usb_decode_loop ::
  "timeval \<Rightarrow> timeval \<Rightarrow> u64 \<Rightarrow> (usbdev \<Rightarrow> usbdev \<times> int) \<Rightarrow> (nat \<Rightarrow> pcan_timeval) \<Rightarrow> mem \<Rightarrow> nat \<Rightarrow> nat \<Rightarrow> nat
     \<Rightarrow> usbdev \<Rightarrow> nat \<Rightarrow> bool \<Rightarrow> nat \<Rightarrow> usbdev \<times> nat \<times> int" where
  "usb_decode_loop now drv ns wrt tvs mem a len 0 dev ptr ts8 wake = (dev, wake, 0)"
| "usb_decode_loop now drv ns wrt tvs mem a len (Suc n) dev ptr ts8 wake =
     (let st = mem ptr;
          (dev, ptr, ts8, err) =
            (if \<not> has_flag st STLN_INTERNAL_DATA then
               let (dev, ptr, err) = decode_can now drv mem dev (ptr + 1) st ts8 (tvs n) in (dev, ptr, True, err)
             else decode_status now drv ns wrt mem dev (ptr + 1) st ts8 (tvs n))
      in if err < 0 then (dev, wake, err)
         else
           let wake = (if 0 < err then wake + 1 else wake)
           in if len < ptr - a \<and> (3 < ucRevision dev \<or> len + 1 < ptr - a) then (dev, wake, - EFAULT)
              else usb_decode_loop now drv ns wrt tvs mem a len n dev ptr ts8 wake)"

definition pcan_usb_DecodeMessage ::
  "timeval \<Rightarrow> timeval \<Rightarrow> u64 \<Rightarrow> (usbdev \<Rightarrow> usbdev \<times> int) \<Rightarrow> (nat \<Rightarrow> pcan_timeval) \<Rightarrow> usbdev \<Rightarrow> mem \<Rightarrow> nat \<Rightarrow> nat \<Rightarrow> usbdev \<times> int" where
  "pcan_usb_DecodeMessage now drv ns wrt tvs dev mem a lCurrentLength =
     (let dev = on_pdev (\<lambda>p. p\<lparr>dwInterruptCounter := dwInterruptCounter p + 1\<rparr>) dev
      in if lCurrentLength = 0 then (dev, 0)
         else
           let (dev, wake, err) = usb_decode_loop now drv ns wrt tvs mem a lCurrentLength (unat (mem (a + 1))) dev (a + 2) False 0
           in if err \<noteq> 0 then (on_pdev (\<lambda>p. p\<lparr>nLastError := err, dwErrorCounter := dwErrorCounter p + 1\<rparr>) dev, err)
              else (if wake \<noteq> 0 then on_pdev signal_in dev else dev, 0))"

section \<open>Transfers\<close>

text \<open>The function pointers of an interface that the channel uses; \<open>None\<close> is a null pointer.\<close>

record usb_ops =
  ctrl_msg_encode :: "usbdev \<Rightarrow> nat \<Rightarrow> nat \<Rightarrow> usbdev \<times> nat \<times> int"
  ctrl_set_bus_on :: "usbdev \<Rightarrow> usbdev \<times> int"
  ctrl_set_bus_off :: "usbdev \<Rightarrow> usbdev \<times> int"
  ctrl_open :: "(usbdev \<Rightarrow> u16 \<Rightarrow> u8 \<Rightarrow> u8 \<Rightarrow> usbdev \<times> int) option"
  ctrl_open_fd :: "(usbdev \<Rightarrow> pcanfd_init \<Rightarrow> (usbdev \<times> pcanfd_init \<times> int) option) option"
  ctrl_close :: "(int \<Rightarrow> nat \<Rightarrow> usbdev list \<Rightarrow> usbdev list \<times> int) option"

text \<open>The loop of \<^verbatim>\<open>pcan_usb_write\<close>: packets are encoded until the buffer is full or the queue is empty. Each
  round adds the size of a packet, which is not 0, so as many rounds as the buffer has bytes are enough.\<close>

fun usb_write_loop ::
  "nat \<Rightarrow> (usbdev \<Rightarrow> nat \<Rightarrow> nat \<Rightarrow> usbdev \<times> nat \<times> int) \<Rightarrow> usbdev \<Rightarrow> nat \<Rightarrow> int \<Rightarrow> usbdev \<times> nat \<times> int" where
  "usb_write_loop 0 encode dev sz err = (dev, sz, err)"
| "usb_write_loop (Suc n) encode dev sz err =
     (if sz < write_buffer_size dev then
        let (dev', l, err) = encode dev sz (write_packet_size dev)
        in if 0 \<le> err then usb_write_loop n encode dev' (sz + write_packet_size dev) err
           else (dev', if err = - ENOSPC \<or> err = - ENODATA then sz + l else sz, if err = - ENOSPC then 0 else err)
      else (dev, sz, err))"

text \<open>The write transfer of the channel is allocated.\<close>

definition pcan_usb_write :: "usb_env \<Rightarrow> timeval \<Rightarrow> timeval \<Rightarrow> usb_ops \<Rightarrow> usbdev \<Rightarrow> usbdev \<times> int" where
  "pcan_usb_write env now drv ops dev =
     (if \<not> is_plugged (pdev dev) then (dev, - ENODEV)
      else
        let (dev, sz, err) = usb_write_loop (write_buffer_size dev) (ctrl_msg_encode ops) dev 0 0
        in if 0 < sz then
             let dev = on_pdev (pcan_set_tx_engine TX_ENGINE_STARTED) dev;
                 err = submit_err env (usb_log dev);
                 dev = dev\<lparr>usb_log := usb_log dev @ [Urb (bytes (write_buffer dev) 0 sz) err]\<rparr>
             in if err = 0 then
                  ((on_pdev (\<lambda>p. pcan_clear_status_bit now drv p CAN_ERR_QXMTFULL) dev)\<lparr>w_active_urbs := w_active_urbs dev + 1\<rparr>, 0)
                else
                  (on_pdev (\<lambda>p. pcan_set_tx_engine TX_ENGINE_STOPPED
                       (p\<lparr>nLastError := err, dwErrorCounter := dwErrorCounter p + 1\<rparr>)) dev, err)
           else (on_pdev (pcan_set_tx_engine TX_ENGINE_STOPPED) dev, err))"

abbreviation (input) EPROTO :: int where "EPROTO \<equiv> 71"
abbreviation (input) ECONNRESET :: int where "ECONNRESET \<equiv> 104"
abbreviation (input) ESHUTDOWN :: int where "ESHUTDOWN \<equiv> 108"
abbreviation (input) EPIPE :: int where "EPIPE \<equiv> 32"

text \<open>The cable was disconnected: waiting tasks are woken up.\<close>

definition usb_unplug :: "usbdev \<Rightarrow> usbdev" where
  "usb_unplug dev =
     (let dev = on_pdev (\<lambda>p. p\<lparr>is_plugged := False\<rparr>) dev
      in if 0 < nOpenPaths (pdev dev) then on_pdev signal_in (on_pdev signal_out dev) else dev)"

text \<open>What follows a write transfer that went well: the next one, and the report of a full device. The
  message on the stack is not initialised; its content is \<open>ef\<close>.\<close>

definition write_again :: "usb_env \<Rightarrow> timeval \<Rightarrow> timeval \<Rightarrow> usb_ops \<Rightarrow> pcanfd_rxmsg \<Rightarrow> usbdev \<Rightarrow> usbdev" where
  "write_again env now drv ops ef dev =
     (let closing = has_flag (dev_flags (pdev dev)) PCAN_DEV_CLOSING;
          dev = (if \<not> closing then on_pdev signal_out dev else dev);
          (dev, err) = pcan_usb_write env now drv ops dev
      in if err = 0 then dev
         else if err = - ENODATA then
           (if has_flag (dev_flags (pdev dev)) PCAN_DEV_CLOSING then on_pdev signal_out dev else dev)
         else if \<not> has_flag (wCANStatus (pdev dev)) CAN_ERR_QXMTFULL then
           let (p, rx) = pcan_handle_error_ctrl (pdev dev) (Some ef) PCANFD_TX_OVERFLOW
           in dev\<lparr>pdev := rx_deliver now drv p (the rx)\<rparr>
         else dev)"

definition pcan_usb_write_notify ::
  "usb_env \<Rightarrow> timeval \<Rightarrow> timeval \<Rightarrow> usb_ops \<Rightarrow> pcanfd_rxmsg \<Rightarrow> int \<Rightarrow> usbdev \<Rightarrow> usbdev" where
  "pcan_usb_write_notify env now drv ops ef status dev =
     (let dev = on_pdev (\<lambda>p. p\<lparr>dwInterruptCounter := dwInterruptCounter p + 1\<rparr>)
                  (dev\<lparr>w_active_urbs := w_active_urbs dev - 1\<rparr>)
      in if status = 0 then write_again env now drv ops ef dev
         else if status = - EPROTO \<or> status = - ECONNRESET \<or> status = - ESHUTDOWN then usb_unplug dev
         else on_pdev (pcan_set_tx_engine TX_ENGINE_STOPPED) dev)"

text \<open>The interface: its channels, the number of open ones, the active read transfers, the size of a
  packet and the read transfers submitted, with the index of the buffer and the result.\<close>

record pcan_usb_interface =
  if_devs :: "usbdev list"
  opened_count :: int
  r_active_urbs :: int
  read_packet_size :: nat
  read_urbs :: "(nat \<times> int) list"

text \<open>The packets of a read transfer of \<open>len\<close> bytes at \<open>a\<close>. The size of a packet is not 0. A decoder may
  write into the buffer.\<close>

fun usb_read_loop ::
  "nat \<Rightarrow> (pcan_usb_interface \<Rightarrow> mem \<Rightarrow> nat \<Rightarrow> nat \<Rightarrow> pcan_usb_interface \<times> mem \<times> int) \<Rightarrow> mem \<Rightarrow> nat \<Rightarrow> nat \<Rightarrow> nat
     \<Rightarrow> pcan_usb_interface \<Rightarrow> pcan_usb_interface" where
  "usb_read_loop 0 decode mem a len sz ifc = ifc"
| "usb_read_loop (Suc n) decode mem a len sz ifc =
     (if sz < len then
        let l = (if len < read_packet_size ifc then len else read_packet_size ifc);
            (ifc', mem, err) = decode ifc mem (a + sz) l
        in if err < 0 then ifc' else usb_read_loop n decode mem a len (sz + read_packet_size ifc) ifc'
      else ifc)"

text \<open>The completion of a read transfer with the buffer \<open>b\<close> at the address \<open>a\<close>; \<open>again\<close> is the result of
  submitting the next one.\<close>

definition pcan_usb_read_notify ::
  "(pcan_usb_interface \<Rightarrow> mem \<Rightarrow> nat \<Rightarrow> nat \<Rightarrow> pcan_usb_interface \<times> mem \<times> int) \<Rightarrow> mem \<Rightarrow> nat \<Rightarrow> nat \<Rightarrow> nat \<Rightarrow> int \<Rightarrow> int
     \<Rightarrow> pcan_usb_interface \<Rightarrow> pcan_usb_interface" where
  "pcan_usb_read_notify decode mem b a len status again ifc =
     (let ifc = ifc\<lparr>r_active_urbs := r_active_urbs ifc - 1\<rparr>
      in if status = 0 then
           let ifc = ifc\<lparr>read_urbs := read_urbs ifc @ [(if b = 0 then 1 else 0, again)]\<rparr>;
               ifc = (if again = 0 then ifc\<lparr>r_active_urbs := r_active_urbs ifc + 1\<rparr> else ifc)
           in usb_read_loop len decode mem a len 0 ifc
         else if status = - ECONNRESET \<or> status = - ENOENT \<or> status = - EPIPE then ifc
         else ifc\<lparr>if_devs := map usb_unplug (if_devs ifc)\<rparr>)"

text \<open>Closing the channel \<open>i\<close> of an interface, and opening a channel, with the number of open channels of the
  interface. The close function of an adapter may change the channel 0, too. \<open>kill\<close> is what \<^verbatim>\<open>usb_kill_urb\<close> of
  the kernel does to the write transfer.\<close>

definition on_dev :: "nat \<Rightarrow> (usbdev \<Rightarrow> usbdev \<times> int) \<Rightarrow> usbdev list \<Rightarrow> usbdev list \<times> int" where
  "on_dev i f devs = (let (d, err) = f (devs ! i) in (devs[i := d], err))"

definition pcan_usb_stop :: "(usbdev \<Rightarrow> usbdev) \<Rightarrow> usb_ops \<Rightarrow> int \<Rightarrow> nat \<Rightarrow> usbdev list \<Rightarrow> int \<times> usbdev list \<times> int" where
  "pcan_usb_stop kill ops opened i devs =
     (if has_flag (dev_flags (pdev (devs ! i))) PCAN_DEV_CLEANED then (opened, devs, 0)
      else if \<not> has_flag (dev_flags (pdev (devs ! i))) PCAN_DEV_OPENED then (opened, devs, 0)
      else
        let devs = (case ctrl_close ops of Some f \<Rightarrow> fst (f opened i devs) | None \<Rightarrow> devs);
            opened = (if 0 < opened then opened - 1 else opened);
            (devs, err) = on_dev i (\<lambda>d. ctrl_set_bus_off ops (kill d)) devs
        in (opened, devs, err))"

definition pcan_usb_device_release :: "(usbdev \<Rightarrow> usbdev) \<Rightarrow> usb_ops \<Rightarrow> int \<Rightarrow> nat \<Rightarrow> usbdev list \<Rightarrow> int \<times> usbdev list" where
  "pcan_usb_device_release kill ops opened i devs =
     (let (opened, devs, _) = pcan_usb_stop kill ops opened i devs in (opened, devs))"

definition pcan_usb_device_open ::
  "usb_ops \<Rightarrow> int \<Rightarrow> usbdev \<Rightarrow> u16 \<Rightarrow> u8 \<Rightarrow> u8 \<Rightarrow> (int \<times> usbdev \<times> int) option" where
  "pcan_usb_device_open ops opened dev btr0btr1 bExtended bListenOnly =
     (let (dev, err) = ctrl_set_bus_off ops dev
      in if err \<noteq> 0 then Some (opened, dev, err)
         else
           case ctrl_open ops of
             None \<Rightarrow> None
           | Some open_ctrl \<Rightarrow>
               let (dev, err) = open_ctrl dev btr0btr1 bExtended bListenOnly
               in if err \<noteq> 0 then Some (opened, dev, err)
                  else let (dev, err) = ctrl_set_bus_on ops dev in Some (opened + 1, dev, err))"

definition pcan_usb_device_open_fd ::
  "usb_ops \<Rightarrow> int \<Rightarrow> usbdev \<Rightarrow> pcanfd_init \<Rightarrow> (int \<times> usbdev \<times> pcanfd_init \<times> int) option" where
  "pcan_usb_device_open_fd ops opened dev pfdi =
     (let (dev, err) = ctrl_set_bus_off ops dev
      in if err \<noteq> 0 then Some (opened, dev, pfdi, err)
         else
           case ctrl_open_fd ops of
             None \<Rightarrow> None
           | Some open_ctrl \<Rightarrow>
               do {
                 (dev, pfdi, err) \<leftarrow> open_ctrl dev pfdi;
                 if err \<noteq> 0 then Some (opened, dev, pfdi, err)
                 else let (dev, err) = ctrl_set_bus_on ops dev in Some (opened + 1, dev, pfdi, err)
               })"

text \<open>The function pointers of the PCAN-USB adapter, as \<^verbatim>\<open>pcan_usb_init\<close> sets them.\<close>

definition pcan_usb_ops :: "usb_env \<Rightarrow> usb_ops" where
  "pcan_usb_ops env = \<lparr>ctrl_msg_encode = pcan_usb_EncodeMessage, ctrl_set_bus_on = pcan_usb_setCANOn env,
     ctrl_set_bus_off = pcan_usb_setCANOff env, ctrl_open = Some (pcan_usb_Init env), ctrl_open_fd = None, ctrl_close = None\<rparr>"

text \<open>The read completion of a PCAN-USB adapter, which has one channel.\<close>

definition pcan_usb_decode ::
  "timeval \<Rightarrow> timeval \<Rightarrow> u64 \<Rightarrow> (usbdev \<Rightarrow> usbdev \<times> int) \<Rightarrow> (nat \<Rightarrow> pcan_timeval) \<Rightarrow> pcan_usb_interface \<Rightarrow> mem \<Rightarrow> nat \<Rightarrow> nat
     \<Rightarrow> pcan_usb_interface \<times> mem \<times> int" where
  "pcan_usb_decode now drv ns wrt tvs ifc mem a len =
     (let (dev, err) = pcan_usb_DecodeMessage now drv ns wrt tvs (if_devs ifc ! 0) mem a len
      in (ifc\<lparr>if_devs := (if_devs ifc)[0 := dev]\<rparr>, mem, err))"

text \<open>The number that the user gives to a device: read and written by the options and by
  \<^verbatim>\<open>PCAN_EXTRA_PARAMS\<close>. \<open>copy_ok\<close> tells whether user memory could be accessed.\<close>

record usb_number_ops =
  get_snr :: "usbdev \<Rightarrow> usbdev \<times> u32 \<times> int"
  ctrl_get_dnr :: "usbdev \<Rightarrow> usbdev \<times> u32 \<times> int"
  ctrl_set_dnr :: "usbdev \<Rightarrow> u32 \<Rightarrow> usbdev \<times> int"

definition store_dnr :: "u32 \<Rightarrow> usbdev \<Rightarrow> usbdev" where
  "store_dnr v dev = (on_pdev (\<lambda>p. p\<lparr>device_alt_num := v\<rparr>) dev)\<lparr>ucHardcodedDevNr := ucast v\<rparr>"

definition pcan_usb_device_params :: "usb_number_ops \<Rightarrow> usbdev \<Rightarrow> int \<Rightarrow> u32 \<Rightarrow> usbdev \<times> u32 \<times> int" where
  "pcan_usb_device_params ops dev nSubFunction v =
     (if nSubFunction = 1 then get_snr ops dev
      else if nSubFunction = 3 then ctrl_get_dnr ops dev
      else if nSubFunction = 4 then
        let (dev, err) = ctrl_set_dnr ops dev v in (if err = 0 then store_dnr v dev else dev, v, err)
      else (dev, v, - EINVAL))"

definition pcan_usb_get_devid :: "usb_number_ops \<Rightarrow> bool \<Rightarrow> usbdev \<Rightarrow> usbdev \<times> u32 option \<times> int" where
  "pcan_usb_get_devid ops copy_ok dev =
     (let (dev, v, err) = ctrl_get_dnr ops dev
      in if err \<noteq> 0 then (dev, None, err) else if \<not> copy_ok then (dev, None, - EFAULT) else (dev, Some v, 0))"

definition pcan_usb_set_devid :: "usb_number_ops \<Rightarrow> u32 option \<Rightarrow> usbdev \<Rightarrow> usbdev \<times> int" where
  "pcan_usb_set_devid ops v dev =
     (case v of
        None \<Rightarrow> (dev, - EFAULT)
      | Some v \<Rightarrow> let (dev, err) = ctrl_set_dnr ops dev v in if err \<noteq> 0 then (dev, err) else (store_dnr v dev, 0))"

definition pcan_usb_number_ops :: "usb_env \<Rightarrow> usb_number_ops" where
  "pcan_usb_number_ops env =
     \<lparr>get_snr = pcan_usb_getSNR env, ctrl_get_dnr = pcan_usb_getDeviceNr env, ctrl_set_dnr = pcan_usb_setDeviceNr env\<rparr>"

section \<open>The clock of the device\<close>

text \<open>The calibration messages of a device whose clock shows the ticks \<open>ts\<close>, which it sends modulo
  \<open>2 ^ 16\<close>.\<close>

definition clock_after :: "nat list \<Rightarrow> pcan_usb_time" where
  "clock_after ts = foldl (\<lambda>t n. sync_clock t (of_nat n)) zero_usb_time ts"

fun close_ticks :: "nat \<Rightarrow> nat list \<Rightarrow> bool" where
  "close_ticks t [] \<longleftrightarrow> True"
| "close_ticks t (n # ns) \<longleftrightarrow> t \<le> n \<and> n < t + 65536 \<and> close_ticks n ns"

definition clock_inv :: "nat \<Rightarrow> pcan_usb_time \<Rightarrow> bool" where
  "clock_inv n t \<longleftrightarrow> sync_ticks_low t = of_nat n \<and> sync_ticks_high t = of_nat (n - n mod 65536) \<and>
     (sync_ticks_init t = 0 \<longrightarrow> n = 0)"

lemma unat_u16_of_nat: "unat (of_nat n :: u16) = n mod 65536"
  by (simp add: unat_of_nat)

lemma u16_less_iff: "(of_nat a :: u16) < of_nat b \<longleftrightarrow> a mod 65536 < b mod 65536"
  by (simp add: word_less_nat_alt unat_u16_of_nat)

lemma div_step:
  assumes "t \<le> n" "n < t + 65536"
  shows "n - n mod 65536 = (if n mod 65536 < t mod 65536 then t - t mod 65536 + 65536 else t - t mod (65536 :: nat))"
proof -
  have le: "t div 65536 \<le> n div 65536" using assms(1) by (rule div_le_mono)
  have d: "n = n div 65536 * 65536 + n mod 65536" "t = t div 65536 * 65536 + t mod 65536" by simp_all
  have m: "n mod 65536 < 65536" "t mod 65536 < 65536" by simp_all
  consider "n div 65536 = t div 65536" | "n div 65536 = t div 65536 + 1"
    using le d m assms(2) by linarith
  then show ?thesis
  proof cases
    case 1
    then have "\<not> n mod 65536 < t mod 65536" using assms(1) d by linarith
    then show ?thesis using 1 by (simp add: minus_mod_eq_div_mult)
  next
    case 2
    then have "n mod 65536 < t mod 65536" using assms(2) d by linarith
    then show ?thesis using 2 by (simp add: minus_mod_eq_div_mult)
  qed
qed

lemma clock_step:
  assumes "clock_inv t s" "t \<le> n" "n < t + 65536"
  shows "clock_inv n (sync_clock s (of_nat n))"
proof (cases "sync_ticks_init s = 0")
  case True
  then have "t = 0" "n < 65536" "sync_ticks_high s = 0" using assms by (auto simp: clock_inv_def)
  moreover then have "(of_nat n :: u16) = 0 \<longrightarrow> n = 0"
    by (metis mod_less unat_0 unat_u16_of_nat)
  ultimately show ?thesis using True by (simp add: clock_inv_def sync_clock_def)
next
  case False
  show ?thesis using False assms
    unfolding clock_inv_def div_step [OF assms(2,3)] by (simp add: sync_clock_def u16_less_iff)
qed

lemma clock_foldl:
  "clock_inv t s \<Longrightarrow> close_ticks t ns \<Longrightarrow> clock_inv (last (t # ns)) (foldl (\<lambda>t n. sync_clock t (of_nat n)) s ns)"
proof (induction ns arbitrary: t s)
  case (Cons n ns)
  then show ?case using clock_step [of t s n] by simp
qed simp

lemma u32_split: "of_nat (n - n mod 65536) + ucast (of_nat n :: u16) = (of_nat n :: u32)"
proof -
  have "ucast (of_nat n :: u16) = (of_nat (n mod 65536) :: u32)" by (metis of_nat_unat unat_u16_of_nat)
  then have "of_nat (n - n mod 65536) + ucast (of_nat n :: u16) = (of_nat (n - n mod 65536 + n mod 65536) :: u32)"
    by (simp only: of_nat_add)
  then show ?thesis by simp
qed

text \<open>C12. The 16-bit counter of a PCAN-USB adapter is extended exactly: after any sequence of calibration messages
  that are less than \<open>2 ^ 16\<close> ticks apart, the 16 bits of the time of an event that follows the last of them
  within the calibration period give the number of ticks of the device (modulo \<open>2 ^ 32\<close>), whether or not the
  counter has wrapped in between.
\<close>

theorem usb_clock_exact:
  assumes "ns \<noteq> []" "close_ticks 0 ns" "last ns \<le> e" "e < last ns + 23437"
  shows "word_ticks (clock_after ns) (of_nat e) = of_nat e"
proof -
  let ?t = "clock_after ns" let ?n = "last ns"
  have "clock_inv 0 zero_usb_time" by (simp add: clock_inv_def zero_usb_time_def)
  from clock_foldl [OF this assms(2)] have inv: "clock_inv ?n ?t" using assms(1) by (simp add: clock_after_def)
  have lo: "sync_ticks_low ?t = of_nat ?n" and hi: "sync_ticks_high ?t = of_nat (?n - ?n mod 65536)"
    using inv by (simp_all add: clock_inv_def)
  have u: "uint (of_nat e :: u16) = int (e mod 65536)" by (metis uint_nat unat_u16_of_nat)
  have nx: "(of_nat ?n + of_int 23437 :: u16) = of_nat (?n + 23437)" by simp
  have "e < ?n + 65536" using assms(4) by linarith
  note ds = div_step [OF assms(3) this]
  have w: "e mod 65536 < 23437 \<and> (?n + 23437) mod 65536 < ?n mod 65536" if "e mod 65536 < ?n mod 65536"
  proof -
    let ?r = "?n mod 65536" let ?s = "e mod 65536"
    have d: "e = e div 65536 * 65536 + ?s" "?n = ?n div 65536 * 65536 + ?r" "?r < 65536" by simp_all
    have "?n div 65536 \<noteq> e div 65536" using d(1,2) assms(3) that by linarith
    then have "?n div 65536 + 1 \<le> e div 65536" using div_le_mono [OF assms(3), of 65536] by linarith
    then have r: "?s + 42099 < ?r" using d(1,2) assms(4) by linarith
    have "(?n + 23437) mod 65536 = (?r + 23437) mod 65536" by (simp add: mod_add_left_eq)
    also have "\<dots> = ?r + 23437 - 65536" using r d(3) by (subst le_mod_geq) auto
    finally show ?thesis using r d(3) by linarith
  qed
  have "word_ticks ?t (of_nat e) = of_nat (e - e mod 65536) + ucast (of_nat e :: u16)"
  proof (cases "e mod 65536 < ?n mod 65536")
    case True
    then show ?thesis using w [OF True] unfolding word_ticks_def Let_def lo hi u nx u16_less_iff ds by simp
  next
    case False
    then show ?thesis unfolding word_ticks_def Let_def lo hi u nx u16_less_iff ds by simp
  qed
  then show ?thesis by (simp only: u32_split)
qed

theorem usb_clock_exact_witness:
  "close_ticks 0 [60000, 82000, 104000] \<and> word_ticks (clock_after [60000, 82000, 104000]) (of_nat 120000) = of_nat 120000"
  using usb_clock_exact [of "[60000, 82000, 104000]" 120000] by simp

section \<open>What a telegram holds\<close>

text \<open>How many records are begun before the mark \<open>tp\<close>.\<close>

fun taken :: "int \<Rightarrow> nat \<Rightarrow> 'a list list \<Rightarrow> nat" where
  "taken tp pos [] = 0"
| "taken tp pos (r # rs) = (if int pos < tp then Suc (taken tp (pos + length r) rs) else 0)"

definition usb_encoded ::
  "pcandev \<Rightarrow> mem \<Rightarrow> nat \<Rightarrow> nat \<Rightarrow> int \<Rightarrow> nat \<Rightarrow> int \<Rightarrow> u8 list list \<Rightarrow> pcandev \<times> mem \<times> nat \<times> nat \<times> int \<Rightarrow> bool" where
  "usb_encoded p m a pos tp cnt err rs r \<longleftrightarrow>
     (\<exists>w. let k = taken tp pos rs; bs = concat (take k rs) in
        r = (p\<lparr>writeFifo := w\<rparr>, wr m (a + pos) bs, pos + length bs, cnt + k,
             if int (pos + length bs) < tp then - ENODATA else if k = 0 then err else 0) \<and>
        ring_inv w \<and> fifo_items w = drop k (fifo_items (writeFifo p)))"

lemma same_write_fifo: "p\<lparr>writeFifo := writeFifo p\<rparr> = (p :: pcandev)"
  by simp

lemma usb_encode_loop_ok:
  assumes "ring_inv (writeFifo p)"
  shows "usb_encoded p m a pos tp cnt err (map (\<lambda>x. usb_tx_record fw (tx_msg x)) (fifo_items (writeFifo p)))
     (usb_encode_loop fw p m a pos tp cnt err)"
  using assms
proof (induction "fifo_items (writeFifo p)" arbitrary: p m pos cnt err)
  case Nil
  note it = Nil.hyps [symmetric]
  have "pcan_fifo_get True (writeFifo p) = (writeFifo p, - ENODATA, None)" using ring.get_none [OF Nil.prems it] .
  then have "usb_encode_loop fw p m a pos tp cnt err = (p, m, pos, cnt, if int pos < tp then - ENODATA else err)"
    by (subst usb_encode_loop.simps) simp
  then show ?case using Nil.prems it
    unfolding usb_encoded_def Let_def by (intro exI [of _ "writeFifo p"]) simp
next
  case (Cons x xs)
  note it = Cons.hyps(2) [symmetric]
  let ?f = "\<lambda>x. usb_tx_record fw (tx_msg x)"
  obtain w where w: "pcan_fifo_get True (writeFifo p) = (w, 0, Some x)" "ring_inv w" "fifo_items w = xs"
    using ring.get_item [OF Cons.prems it] by blast
  show ?case
  proof (cases "int pos < tp")
    case True
    let ?p = "p\<lparr>writeFifo := w\<rparr>"
    have step: "usb_encode_loop fw p m a pos tp cnt err
        = usb_encode_loop fw ?p (wr m (a + pos) (?f x)) a (pos + length (?f x)) tp (cnt + 1) 0"
      using True w(1) by (subst usb_encode_loop.simps) simp
    let ?k = "taken tp (pos + length (?f x)) (map ?f xs)" let ?bs = "concat (take ?k (map ?f xs))"
    have "usb_encoded ?p (wr m (a + pos) (?f x)) a (pos + length (?f x)) tp (cnt + 1) 0 (map ?f (fifo_items (writeFifo ?p)))
        (usb_encode_loop fw p m a pos tp cnt err)"
      unfolding step using Cons.hyps(1) [of ?p] w(2,3) by simp
    then obtain v where v: "usb_encode_loop fw p m a pos tp cnt err =
        (?p\<lparr>writeFifo := v\<rparr>, wr (wr m (a + pos) (?f x)) (a + (pos + length (?f x))) ?bs, pos + length (?f x) + length ?bs,
         cnt + 1 + ?k, if int (pos + length (?f x) + length ?bs) < tp then - ENODATA else if ?k = 0 then 0 else 0)"
        "ring_inv v" "fifo_items v = drop ?k xs"
      unfolding usb_encoded_def Let_def using w(3) by (auto simp del: length_concat)
    have m: "wr (wr m (a + pos) (?f x)) (a + (pos + length (?f x))) ?bs = wr m (a + pos) (?f x @ ?bs)"
      using wr_append [of m "a + pos" "?f x" ?bs] by (simp add: add.assoc)
    have k: "taken tp pos (map ?f (x # xs)) = Suc ?k" using True by simp
    show ?thesis
      unfolding usb_encoded_def Let_def it k v(1) m
      using v(2,3) by (intro exI [of _ v]) (simp add: add.assoc)
  next
    case False
    then have "usb_encode_loop fw p m a pos tp cnt err = (p, m, pos, cnt, err)" by (subst usb_encode_loop.simps) simp
    then show ?thesis using False Cons.prems it
      unfolding usb_encoded_def Let_def by (intro exI [of _ "writeFifo p"]) simp
  qed
qed

lemma length_usb_id: "length (usb_id_bytes fl i) \<le> 4" "2 \<le> length (usb_id_bytes fl i)"
  by (simp_all add: usb_id_bytes_def Let_def le32_def)

lemma usb_len_nibble: "data_len m \<le> 8 \<Longrightarrow> unat (ucast (data_len m) AND 0x0F :: u8) = unat (data_len m)"
proof -
  assume "data_len m \<le> 8"
  then have l: "unat (data_len m) \<le> 8" by (simp add: word_le_nat_alt)
  have "(0x0F :: u8) = mask 4" by (simp add: mask_eq_exp_minus_1)
  then have "ucast (data_len m) AND 0x0F = (take_bit 4 (ucast (data_len m)) :: u8)" by (simp only: take_bit_eq_mask)
  then show ?thesis using l by (simp add: unsigned_take_bit_eq unsigned_ucast_eq take_bit_nat_eq_self)
qed

lemma length_usb_record:
  assumes "data_len m \<le> 8"
  shows "length (usb_tx_record fw m) \<le> 14" "3 \<le> length (usb_tx_record fw m)"
proof -
  have l: "unat (data_len m) \<le> 8" using assms by (simp add: word_le_nat_alt)
  show "length (usb_tx_record fw m) \<le> 14" "3 \<le> length (usb_tx_record fw m)"
    using length_usb_id [of "usb_tx_flags fw m" "msg_id m"] l
    by (simp_all add: usb_tx_record_def Let_def usb_len_nibble [OF assms])
qed

lemma taken_bound:
  assumes "list_all (\<lambda>r. length r \<le> 14) rs"
  shows "pos + length (concat (take (taken tp pos rs) rs)) \<le> max pos (nat (tp + 13))"
  using assms
proof (induction tp pos rs rule: taken.induct)
  case (2 tp pos r rs)
  show ?case
  proof (cases "int pos < tp")
    case True
    then have "max (pos + length r) (nat (tp + 13)) = nat (tp + 13)" using 2(2) by (auto simp: max_def)
    then show ?thesis using True 2 by (simp add: add.assoc del: length_concat)
  qed simp
qed simp

lemma taken_all:
  "int (pos + length (concat (take (taken tp pos rs) rs))) < tp \<Longrightarrow> taken tp pos rs = length rs"
  by (induction tp pos rs rule: taken.induct) (auto simp del: length_concat split: if_splits)

lemma telegram_memory:
  assumes "2 + length bs \<le> n - 1" "m = wr (wr (wr (wr b a [2]) (a + 2) bs) (a + n - 1) [c]) (a + 1) [k]"
  shows "bytes m a (2 + length bs) = [2, k] @ bs" "m (a + n - 1) = c" "x < a \<or> a + n \<le> x \<Longrightarrow> m x = b x"
proof -
  show "bytes m a (2 + length bs) = [2, k] @ bs"
  proof (rule nth_equalityI)
    fix i assume i: "i < length (bytes m a (2 + length bs))"
    then have "i \<noteq> n - 1" "i < n - 1" using assms(1) by simp_all
    then show "bytes m a (2 + length bs) ! i = ([2, k] @ bs) ! i"
      using i by (auto simp: assms(2) wr_def nth_append nth_Cons' numeral_2_eq_2)
  qed simp
  show "m (a + n - 1) = c" using assms(1) by (auto simp: assms(2) wr_def)
  show "x < a \<or> a + n \<le> x \<Longrightarrow> m x = b x" using assms(1) by (auto simp: assms(2) wr_def)
qed

text \<open>C10. One call of the encoder of the PCAN-USB adapter moves the longest prefix of the transmit queue whose
  records begin before the mark into a telegram: the type, the number of records, the records in the order of
  the queue and, in its last byte, the telegram counter, which no record reaches. The rest of the queue and
  the memory around the buffer stay as they are, and the result tells whether the queue was emptied with room
  left. Nothing is made of an empty queue.
\<close>

theorem usb_telegram_exact:
  fixes dev a n fw
  defines "xs \<equiv> fifo_items (writeFifo (pdev dev))" and "fw \<equiv> ucRevision dev"
  assumes "ring_inv (writeFifo (pdev dev))" "list_all (\<lambda>x. data_len (tx_msg x) \<le> 8) xs" "17 \<le> n"
  shows "\<exists>dev' k bs. k = taken (int n - 14) 2 (map (\<lambda>x. usb_tx_record fw (tx_msg x)) xs) \<and>
     bs = concat (take k (map (\<lambda>x. usb_tx_record fw (tx_msg x)) xs)) \<and> 2 + length bs \<le> n - 1 \<and>
     pcan_usb_EncodeMessage dev a n =
       (dev', if xs = [] then 0 else n, if int (2 + length bs) < int n - 14 then - ENODATA else 0) \<and>
     (xs \<noteq> [] \<longrightarrow> 0 < k \<and> bytes (write_buffer dev') a (2 + length bs) = [2, of_nat k] @ bs \<and>
        write_buffer dev' (a + n - 1) = ucast (dwTelegramCount dev) \<and> dwTelegramCount dev' = dwTelegramCount dev + 1 \<and>
        tx_frames_counter (pdev dev') = tx_frames_counter (pdev dev) + of_nat k) \<and>
     ring_inv (writeFifo (pdev dev')) \<and> fifo_items (writeFifo (pdev dev')) = drop k xs \<and>
     (\<forall>x. x < a \<or> a + n \<le> x \<longrightarrow> write_buffer dev' x = write_buffer dev x)"
proof -
  let ?rs = "map (\<lambda>x. usb_tx_record fw (tx_msg x)) xs"
  let ?k = "taken (int n - 14) 2 ?rs" let ?bs = "concat (take ?k ?rs)"
  let ?e = "if int (2 + length ?bs) < int n - 14 then - ENODATA else 0"
  have small: "list_all (\<lambda>r. length r \<le> 14) ?rs"
    using assms(4) length_usb_record(1) by (auto simp: list_all_iff)
  have len: "2 + length ?bs \<le> n - 1"
    using taken_bound [OF small, of 2 "int n - 14"] assms(5) by (simp add: max_def split: if_splits del: length_concat)
  obtain w where w: "usb_encode_loop fw (pdev dev) (wr (write_buffer dev) a [2]) a 2 (int n - 14) 0 0 =
      ((pdev dev)\<lparr>writeFifo := w\<rparr>, wr (wr (write_buffer dev) a [2]) (a + 2) ?bs, 2 + length ?bs, ?k, ?e)"
      "ring_inv w" "fifo_items w = drop ?k xs"
    using usb_encode_loop_ok [OF assms(3), of "wr (write_buffer dev) a [2]" a 2 "int n - 14" 0 0 fw]
    unfolding usb_encoded_def Let_def xs_def by (auto simp del: length_concat)
  have empty: "2 < 2 + length ?bs \<longleftrightarrow> xs \<noteq> []"
  proof (cases xs)
    case (Cons x ys)
    then have "usb_tx_record fw (tx_msg x) \<noteq> []" using length_usb_record(2) [of "tx_msg x" fw] assms(4) by auto
    then show ?thesis using Cons assms(5) by simp
  qed simp
  show ?thesis
  proof (cases "xs = []")
    case True
    have "pcan_usb_EncodeMessage dev a n = (dev\<lparr>pdev := (pdev dev)\<lparr>writeFifo := w\<rparr>,
        write_buffer := wr (wr (write_buffer dev) a [2]) (a + 1) [0]\<rparr>, 0, ?e)"
      using w(1) empty True unfolding pcan_usb_EncodeMessage_def Let_def fw_def by simp
    then show ?thesis using w(2,3) True assms(5) by (auto simp: wr_def)
  next
    case False
    let ?m = "wr (wr (wr (wr (write_buffer dev) a [2]) (a + 2) ?bs) (a + n - 1) [ucast (dwTelegramCount dev)]) (a + 1) [of_nat ?k]"
    let ?d = "dev\<lparr>pdev := ((pdev dev)\<lparr>writeFifo := w\<rparr>)\<lparr>tx_frames_counter := tx_frames_counter (pdev dev) + of_nat ?k\<rparr>,
        write_buffer := ?m, dwTelegramCount := dwTelegramCount dev + 1\<rparr>"
    have "2 < 2 + length ?bs" using empty False by blast
    then have r: "pcan_usb_EncodeMessage dev a n = (?d, n, ?e)"
      using w(1) unfolding pcan_usb_EncodeMessage_def Let_def fw_def by (simp del: length_concat)
    have k: "0 < ?k" using False assms(5) by (cases xs) auto
    note tm = telegram_memory [OF len, of ?m "write_buffer dev" a "ucast (dwTelegramCount dev)" "of_nat ?k", OF HOL.refl]
    show ?thesis
      by (rule exI [of _ ?d], rule exI [of _ ?k], rule exI [of _ ?bs])
        (use r tm k w(2,3) False len in \<open>simp del: length_concat\<close>)
  qed
qed

section \<open>One write transfer at a time\<close>

text \<open>What the encoder of an adapter must leave alone.\<close>

definition engine_view :: "usbdev \<Rightarrow> int \<times> bool \<times> u32 \<times> usb_io list \<times> nat \<times> nat" where
  "engine_view dev = (w_active_urbs dev, is_plugged (pdev dev), locked_tx_engine_state (pdev dev), usb_log dev,
     write_packet_size dev, write_buffer_size dev)"

text \<open>The transfer in flight is the one that the transmit engine waits for.\<close>

definition engine_inv :: "usbdev \<Rightarrow> bool" where
  "engine_inv dev \<longleftrightarrow> w_active_urbs dev \<in> {0, 1} \<and>
     (is_plugged (pdev dev) \<longrightarrow> (w_active_urbs dev = 1) = (locked_tx_engine_state (pdev dev) = TX_ENGINE_STARTED))"

lemma engine_view_fields:
  "engine_view a = engine_view b \<Longrightarrow> w_active_urbs a = w_active_urbs b \<and> is_plugged (pdev a) = is_plugged (pdev b) \<and>
     locked_tx_engine_state (pdev a) = locked_tx_engine_state (pdev b) \<and> usb_log a = usb_log b"
  by (simp add: engine_view_def)

lemma tx_view_plug:
  "is_plugged (pcan_clear_status_bit now drv p bits) = is_plugged p"
  "locked_tx_engine_state (pcan_clear_status_bit now drv p bits) = locked_tx_engine_state p"
  "is_plugged (rx_deliver now drv p rx) = is_plugged p"
  "locked_tx_engine_state (rx_deliver now drv p rx) = locked_tx_engine_state p"
  using txv.clear_status_blind [of now drv p bits] txv.deliver_blind [of now drv p rx]
  by (simp_all add: tx_view_fields)

lemma on_pdev_simps [simp]:
  "pdev (on_pdev f dev) = f (pdev dev)" "w_active_urbs (on_pdev f d) = w_active_urbs d" "usb_log (on_pdev f d) = usb_log d"
  "write_buffer (on_pdev f d) = write_buffer d"
  by (simp_all add: on_pdev_def)

locale usb_encoder =
  fixes encode :: "usbdev \<Rightarrow> nat \<Rightarrow> nat \<Rightarrow> usbdev \<times> nat \<times> int"
  assumes encode_view: "engine_view (fst (encode dev a n)) = engine_view dev"
begin

lemma loop_view: "engine_view (fst (usb_write_loop n encode dev sz err)) = engine_view dev"
proof (induction n arbitrary: dev sz err)
  case (Suc n)
  then show ?case using encode_view [of dev sz "write_packet_size dev"] by (simp add: split_def Let_def)
qed simp

lemma write_engine:
  assumes "ctrl_msg_encode ops = encode" "is_plugged (pdev dev)" "w_active_urbs dev = 0"
  shows "engine_inv (fst (pcan_usb_write env now drv ops dev)) \<and> is_plugged (pdev (fst (pcan_usb_write env now drv ops dev)))"
proof -
  obtain d sz err where r: "usb_write_loop (write_buffer_size dev) encode dev 0 0 = (d, sz, err)"
    by (metis surj_pair)
  then have "engine_view d = engine_view dev" using loop_view [of "write_buffer_size dev" dev 0 0] by simp
  then have "w_active_urbs d = 0" "is_plugged (pdev d)" using assms(2,3) engine_view_fields [of d dev] by simp_all
  note d = this
  let ?err = "submit_err env (usb_log d)"
  let ?d = "(on_pdev (pcan_set_tx_engine TX_ENGINE_STARTED) d)\<lparr>usb_log := usb_log d @ [Urb (bytes (write_buffer d) 0 sz) ?err]\<rparr>"
  have e: "fst (pcan_usb_write env now drv ops dev) =
      (if 0 < sz \<and> ?err = 0 then
         (on_pdev (\<lambda>p. pcan_clear_status_bit now drv p CAN_ERR_QXMTFULL) ?d)\<lparr>w_active_urbs := w_active_urbs ?d + 1\<rparr>
       else if 0 < sz then on_pdev (\<lambda>p. pcan_set_tx_engine TX_ENGINE_STOPPED (p\<lparr>nLastError := ?err, dwErrorCounter := dwErrorCounter p + 1\<rparr>)) ?d
       else on_pdev (pcan_set_tx_engine TX_ENGINE_STOPPED) d)"
    unfolding pcan_usb_write_def assms(1) r Let_def using assms(2) by (simp split del: if_split) simp
  show ?thesis
    unfolding e using d by (simp add: engine_inv_def tx_view_plug pcan_set_tx_engine_def)
qed

lemma write_unplugged:
  "\<not> is_plugged (pdev dev) \<Longrightarrow> fst (pcan_usb_write env now drv ops dev) = dev"
  by (simp add: pcan_usb_write_def)

lemma write_inv:
  assumes "ctrl_msg_encode ops = encode" "w_active_urbs dev = 0"
  shows "engine_inv (fst (pcan_usb_write env now drv ops dev))"
  using write_engine [OF assms(1) _ assms(2)] write_unplugged [of dev] assms(2)
  by (cases "is_plugged (pdev dev)") (auto simp: engine_inv_def)

lemma again_inv:
  assumes "ctrl_msg_encode ops = encode" "w_active_urbs dev = 0"
  shows "engine_inv (write_again env now drv ops ef dev)"
proof -
  let ?d = "if \<not> has_flag (dev_flags (pdev dev)) PCAN_DEV_CLOSING then on_pdev signal_out dev else dev"
  obtain d err where r: "pcan_usb_write env now drv ops ?d = (d, err)" by (metis surj_pair)
  have "engine_inv d" using write_inv [OF assms(1), of ?d env now drv] assms(2) r by simp
  moreover have "engine_inv (on_pdev signal_out d) = engine_inv d" by (simp add: engine_inv_def signal_out_def)
  moreover have "engine_inv (d\<lparr>pdev := rx_deliver now drv (fst (pcan_handle_error_ctrl (pdev d) (Some ef) e)) x\<rparr>) = engine_inv d" for e x
    by (simp add: engine_inv_def tx_view_plug pcan_handle_error_ctrl_def Let_def)
  ultimately show ?thesis unfolding write_again_def Let_def r by (auto simp: split_def)
qed

lemma notify_inv:
  assumes "ctrl_msg_encode ops = encode" "engine_inv dev" "w_active_urbs dev \<noteq> 0"
  shows "engine_inv (pcan_usb_write_notify env now drv ops ef status dev)"
proof -
  let ?d = "on_pdev (\<lambda>p. p\<lparr>dwInterruptCounter := dwInterruptCounter p + 1\<rparr>) (dev\<lparr>w_active_urbs := w_active_urbs dev - 1\<rparr>)"
  have w: "w_active_urbs ?d = 0" using assms(2,3) by (auto simp: engine_inv_def)
  then have "engine_inv (usb_unplug ?d)" by (simp add: engine_inv_def usb_unplug_def Let_def signal_in_def signal_out_def)
  moreover have "engine_inv (on_pdev (pcan_set_tx_engine TX_ENGINE_STOPPED) ?d)"
    using w by (simp add: engine_inv_def pcan_set_tx_engine_def)
  ultimately show ?thesis
    using again_inv [OF assms(1) w] unfolding pcan_usb_write_notify_def Let_def by auto
qed

end

text \<open>The life of a channel: its queue is filled by tasks, the transmission is started when the engine is
  stopped, transfers end with any status, and the cable may be pulled out.\<close>

inductive usb_reach :: "usb_env \<Rightarrow> usb_ops \<Rightarrow> usbdev \<Rightarrow> usbdev \<Rightarrow> bool" for env ops dev0 where
  init: "usb_reach env ops dev0 dev0"
| queue: "usb_reach env ops dev0 dev \<Longrightarrow> usb_reach env ops dev0 (on_pdev (\<lambda>p. p\<lparr>writeFifo := f\<rparr>) dev)"
| start: "usb_reach env ops dev0 dev \<Longrightarrow> locked_tx_engine_state (pdev dev) = TX_ENGINE_STOPPED \<Longrightarrow> is_plugged (pdev dev)
    \<Longrightarrow> usb_reach env ops dev0 (fst (pcan_usb_write env now drv ops dev))"
| finish: "usb_reach env ops dev0 dev \<Longrightarrow> w_active_urbs dev \<noteq> 0
    \<Longrightarrow> usb_reach env ops dev0 (pcan_usb_write_notify env now drv ops ef status dev)"
| unplug: "usb_reach env ops dev0 dev \<Longrightarrow> usb_reach env ops dev0 (usb_unplug dev)"

context usb_encoder
begin

lemma reach_inv:
  assumes "usb_reach env ops dev0 dev" "ctrl_msg_encode ops = encode" "engine_inv dev0"
  shows "engine_inv dev"
  using assms(1)
proof induction
  case init
  then show ?case by (rule assms(3))
next
  case (queue dev f)
  then show ?case by (simp add: engine_inv_def)
next
  case (start dev now drv)
  have "w_active_urbs dev = 0" using start by (auto simp: engine_inv_def)
  then show ?case by (rule write_inv [OF assms(2)])
next
  case (finish dev now drv ef status)
  then show ?case by (intro notify_inv [OF assms(2)])
next
  case (unplug dev)
  then show ?case by (auto simp: engine_inv_def usb_unplug_def Let_def signal_in_def signal_out_def)
qed

end

lemma usb_encode_loop_fifo: "\<exists>w. fst (usb_encode_loop fw p m a pos tp cnt err) = p\<lparr>writeFifo := w\<rparr>"
proof (induction fw p m a pos tp cnt err rule: usb_encode_loop.induct)
  case (1 fw p m a pos tp cnt err)
  obtain f e x where g: "pcan_fifo_get True (writeFifo p) = (f, e, x)" by (metis surj_pair)
  show ?case
  proof (cases "int pos < tp")
    case True
    show ?thesis
    proof (cases x)
      case None
      then show ?thesis using True g by (subst usb_encode_loop.simps) auto
    next
      case (Some tx)
      then show ?thesis using 1 [OF True g [symmetric] HOL.refl Some] True g by (subst usb_encode_loop.simps) auto
    qed
  next
    case False
    then show ?thesis by (subst usb_encode_loop.simps) (auto intro: exI [of _ "writeFifo p"])
  qed
qed

interpretation usbc: usb_encoder pcan_usb_EncodeMessage
proof
  fix dev :: usbdev and a n
  obtain w p m pos cnt err where "usb_encode_loop (ucRevision dev) (pdev dev) (wr (write_buffer dev) a [2]) a 2 (int n - 14) 0 0
      = (p, m, pos, cnt, err)" "p = (pdev dev)\<lparr>writeFifo := w\<rparr>"
    using usb_encode_loop_fifo [of "ucRevision dev" "pdev dev" "wr (write_buffer dev) a [2]" a 2 "int n - 14" 0 0]
    by (metis fst_conv surj_pair)
  then show "engine_view (fst (pcan_usb_EncodeMessage dev a n)) = engine_view dev"
    by (simp add: pcan_usb_EncodeMessage_def Let_def engine_view_def)
qed

text \<open>C13. A channel of a PCAN-USB adapter never has two write transfers in flight: in every state that tasks,
  completions with any status and unplugging can lead to, there is at most one, and on a plugged channel there
  is one exactly when the transmit engine is marked as started, so the next message to be sent restarts the
  engine exactly when no completion will do it.
\<close>

theorem usb_one_transfer:
  assumes "usb_reach env (pcan_usb_ops env) dev0 dev" "engine_inv dev0"
  shows "engine_inv dev"
  by (rule usbc.reach_inv [OF assms(1) _ assms(2)]) (simp add: pcan_usb_ops_def)

section \<open>What a packet means\<close>

text \<open>The message that a record of the device with the content of \<open>m\<close> stands for.\<close>

definition usb_rx_msg :: "pcanfd_msg \<Rightarrow> pcanfd_msg" where
  "usb_rx_msg m =
     (let fl = msg_flags m; n = (if has_flag fl PCANFD_MSG_RTR then 0 else unat (data_len m));
          f = PCANFD_HWTIMESTAMP OR PCANFD_TIMESTAMP;
          f = (if has_flag fl PCANFD_MSG_RTR then set_flag f PCANFD_MSG_RTR else f);
          f = (if has_flag fl PCANFD_MSG_SLF then set_flag f PCANFD_MSG_SLF else f);
          f = (if has_flag fl PCANFD_MSG_EXT then set_flag f PCANFD_MSG_EXT else f)
      in zero_msg\<lparr>msg_type := PCANFD_TYPE_CAN20_MSG, data_len := data_len m, msg_id := msg_id m, msg_flags := f,
           msg_data := take n (msg_data m) @ replicate (PCANFD_MAXDATALEN - n) 0\<rparr>)"

text \<open>The record of a frame that comes back from the device: the one that was sent, with the time behind
  the identifier.\<close>

definition usb_echo :: "u8 \<Rightarrow> u8 list \<Rightarrow> pcanfd_msg \<Rightarrow> u8 list" where
  "usb_echo fw tb m =
     (let r = usb_tx_record fw m; n = 1 + length (usb_id_bytes (usb_tx_flags fw m) (msg_id m))
      in take n r @ tb @ drop n r)"

definition usb_frame :: "pcanfd_msg \<Rightarrow> bool" where
  "usb_frame m \<longleftrightarrow> data_len m \<le> 8 \<and> length (msg_data m) = PCANFD_MAXDATALEN \<and>
     (if has_flag (msg_flags m) PCANFD_MSG_EXT then msg_id m < 0x20000000 else msg_id m < 0x800)"

definition usb_st :: "u8 \<Rightarrow> pcanfd_msg \<Rightarrow> u8" where
  "usb_st fw m = hd (usb_tx_record fw m)"

lemma usb_echo_parts:
  assumes "41 \<le> fw"
  shows "usb_echo fw tb m = [usb_st fw m] @ usb_id_bytes (msg_flags m) (msg_id m) @ tb
     @ (if has_flag (msg_flags m) PCANFD_MSG_RTR then []
        else map (\<lambda>j. if j < 8 then msg_data m ! j else 0) [0..<unat (ucast (data_len m) AND 0x0F :: u8)])
     @ (if has_flag (msg_flags m) PCANFD_MSG_SLF then [0x80] else [])"
proof -
  have "\<not> fw < 41" using assms by simp
  then have "usb_tx_flags fw m = msg_flags m" by (simp add: usb_tx_flags_def)
  then show ?thesis by (simp add: usb_echo_def usb_st_def usb_tx_record_def Let_def)
qed

lemma small_words: "unat (x :: u8) \<le> 8 \<Longrightarrow> x = 0 \<or> x = 1 \<or> x = 2 \<or> x = 3 \<or> x = 4 \<or> x = 5 \<or> x = 6 \<or> x = 7 \<or> x = 8"
proof -
  assume "unat x \<le> 8"
  then have "unat x = 0 \<or> unat x = 1 \<or> unat x = 2 \<or> unat x = 3 \<or> unat x = 4 \<or> unat x = 5 \<or> unat x = 6 \<or> unat x = 7 \<or> unat x = 8"
    by linarith
  moreover have "x = of_nat (unat x)" by simp
  ultimately show ?thesis by (auto simp del: of_nat_unat)
qed

lemma usb_st_bits:
  assumes "41 \<le> fw" "data_len m \<le> 8"
  shows "\<not> has_flag (usb_st fw m) STLN_INTERNAL_DATA"
    "has_flag (usb_st fw m) STLN_RTR = has_flag (msg_flags m) PCANFD_MSG_RTR"
    "has_flag (usb_st fw m) STLN_EXTENDED_ID = has_flag (msg_flags m) PCANFD_MSG_EXT"
    "unat (usb_st fw m AND STLN_DATA_LENGTH) = unat (data_len m)"
proof -
  have "\<not> fw < 41" using assms(1) by simp
  then have f: "usb_tx_flags fw m = msg_flags m" by (simp add: usb_tx_flags_def)
  define l where "l = (ucast (data_len m) AND 0x0F :: u8)"
  have l: "unat l = unat (data_len m)" unfolding l_def by (rule usb_len_nibble [OF assms(2)])
  then have "unat l \<le> 8" using assms(2) by (simp add: word_le_nat_alt)
  note c = small_words [OF this]
  have st: "usb_st fw m = (let st = (if has_flag (msg_flags m) PCANFD_MSG_RTR then l OR 0x10 else l)
      in if has_flag (msg_flags m) PCANFD_MSG_EXT then st OR 0x20 else st)"
    by (simp add: usb_st_def usb_tx_record_def f l_def Let_def)
  show "\<not> has_flag (usb_st fw m) STLN_INTERNAL_DATA"
    "has_flag (usb_st fw m) STLN_RTR = has_flag (msg_flags m) PCANFD_MSG_RTR"
    "has_flag (usb_st fw m) STLN_EXTENDED_ID = has_flag (msg_flags m) PCANFD_MSG_EXT"
    "unat (usb_st fw m AND STLN_DATA_LENGTH) = unat (data_len m)"
    unfolding st Let_def l [symmetric] using c by (auto simp: has_flag_def)
qed

lemma high_bits:
  assumes "unat (i :: 'a::len word) < 2 ^ k" "bit i n"
  shows "n < k"
proof -
  have "unat (take_bit k i) = unat i" using assms(1) by (simp add: unsigned_take_bit_eq take_bit_nat_eq_self)
  then have "take_bit k i = i" by (rule unsigned_word_eqI)
  then show ?thesis using assms(2) by (metis bit_take_bit_iff)
qed

lemma has_flag_one: "has_flag (x :: 'a::len word) 1 = bit x 0"
  by (simp add: has_flag_def and_one_eq mod_2_eq_odd bit_0)

lemma usb_ext_id:
  assumes "(i :: u32) < 0x20000000" "s = 0 \<or> s = 1"
  shows "drop_bit 3 (push_bit 3 i OR s) = i"
proof (rule bit_word_eqI)
  fix n
  have "unat i < 2 ^ 29" using assms(1) by (simp add: word_less_nat_alt)
  note b = high_bits [OF this, of n]
  show "bit (drop_bit 3 (push_bit 3 i OR s)) n = bit i n"
    using assms(2) b by (auto simp: bit_drop_bit_eq bit_or_iff bit_push_bit_iff bit_1_iff)
qed

lemma usb_std_id:
  assumes "(i :: u32) < 0x800" "s = 0 \<or> s = 1"
  shows "drop_bit 5 (ucast (ucast (push_bit 5 i OR s) :: u16) :: u32) = i"
proof (rule bit_word_eqI)
  fix n
  have "unat i < 2 ^ 11" using assms(1) by (simp add: word_less_nat_alt)
  note b = high_bits [OF this, of n]
  show "bit (drop_bit 5 (ucast (ucast (push_bit 5 i OR s) :: u16) :: u32)) n = bit i n"
    using assms(2) b by (auto simp: bit_drop_bit_eq bit_or_iff bit_push_bit_iff bit_1_iff bit_ucast_iff)
qed

lemma usb_srr_bit:
  assumes "s = 0 \<or> s = (1 :: u32)"
  shows "has_flag (ucast (push_bit 3 i OR s) :: u8) 1 = (s = 1)" "has_flag (ucast (push_bit 5 i OR s) :: u8) 1 = (s = 1)"
  using assms by (auto simp: has_flag_one bit_simps)

text \<open>The fields of a record at \<open>p\<close>.\<close>

lemma bytes_parts: "bytes mem p (length (xs @ ys)) = xs @ ys \<longleftrightarrow> bytes mem p (length xs) = xs \<and> bytes mem (p + length xs) (length ys) = ys"
  by (simp add: bytes_append)

lemma bytes_one: "bytes mem p (length (b # bs)) = b # bs \<longleftrightarrow> mem p = b \<and> bytes mem (p + 1) (length bs) = bs"
  using bytes_parts [of mem p "[b]" bs] by (simp add: bytes_def)

lemma bytes_hd: "bytes mem p (length xs) = xs \<Longrightarrow> xs \<noteq> [] \<Longrightarrow> mem p = hd xs"
  by (cases xs) (simp_all add: bytes_def upt_conv_Cons del: upt_Suc)

lemma usb_id_fields:
  assumes "bytes mem p (length (usb_id_bytes fl i)) = usb_id_bytes fl i"
    "if has_flag fl PCANFD_MSG_EXT then i < 0x20000000 else i < 0x800"
  shows "has_flag fl PCANFD_MSG_EXT \<Longrightarrow> length (usb_id_bytes fl i) = 4 \<and> drop_bit 3 (rd32 mem p) = i"
    "\<not> has_flag fl PCANFD_MSG_EXT \<Longrightarrow> length (usb_id_bytes fl i) = 2 \<and> drop_bit 5 (ucast (rd16 mem p)) = i"
    "has_flag (mem p) 0x01 = has_flag fl PCANFD_MSG_SLF"
proof -
  define s where "s = (if has_flag fl PCANFD_MSG_SLF then 1 else 0 :: u32)"
  have s: "s = 0 \<or> s = 1" "(s = 1) = has_flag fl PCANFD_MSG_SLF" by (simp_all add: s_def)
  have ib: "usb_id_bytes fl i = (if has_flag fl PCANFD_MSG_EXT then le32 (push_bit 3 i OR s) else le16 (ucast (push_bit 5 i OR s)))"
  proof -
    have u: "(ucast (drop_bit 8 (ucast x :: u16)) :: u8) = ucast (drop_bit 8 (x :: u32))" "(ucast (ucast x :: u16) :: u8) = ucast x" for x
      by (rule bit_word_eqI; simp add: bit_simps)+
    show ?thesis by (auto simp: usb_id_bytes_def Let_def s_def le32_def le16_def u)
  qed
  have e: "drop_bit 3 (rd32 mem p) = i" if "has_flag fl PCANFD_MSG_EXT"
  proof -
    have r: "rd32 mem p = push_bit 3 i OR s" using that assms(1) by (intro rd32_le32) (simp add: ib)
    show ?thesis unfolding r by (rule usb_ext_id) (use that assms(2) s(1) in simp_all)
  qed
  have d: "drop_bit 5 (ucast (rd16 mem p)) = i" if "\<not> has_flag fl PCANFD_MSG_EXT"
  proof -
    have r: "rd16 mem p = ucast (push_bit 5 i OR s)" using that assms(1) by (intro rd16_le16) (simp add: ib)
    show ?thesis unfolding r by (rule usb_std_id) (use that assms(2) s(1) in simp_all)
  qed
  show "has_flag fl PCANFD_MSG_EXT \<Longrightarrow> length (usb_id_bytes fl i) = 4 \<and> drop_bit 3 (rd32 mem p) = i"
    using e by (simp add: ib)
  show "\<not> has_flag fl PCANFD_MSG_EXT \<Longrightarrow> length (usb_id_bytes fl i) = 2 \<and> drop_bit 5 (ucast (rd16 mem p)) = i"
    using d by (simp add: ib)
  have "mem p = (if has_flag fl PCANFD_MSG_EXT then ucast (push_bit 3 i OR s) else ucast (push_bit 5 i OR s))"
  proof -
    have u: "(ucast (ucast x :: u16) :: u8) = ucast (x :: u32)" for x by (rule bit_word_eqI) (simp add: bit_simps)
    have "usb_id_bytes fl i \<noteq> []" by (simp add: ib le32_def le16_def)
    from bytes_hd [OF assms(1) this] show ?thesis by (simp add: ib le32_def le16_def u)
  qed
  then show "has_flag (mem p) 0x01 = has_flag fl PCANFD_MSG_SLF" using usb_srr_bit [OF s(1)] s(2) by simp
qed

definition tick_bytes :: "bool \<Rightarrow> u16 \<Rightarrow> u8 list" where
  "tick_bytes ts8 t = (if ts8 then [ucast t] else le16 t)"

definition tick_time :: "timeval \<Rightarrow> usbdev \<Rightarrow> bool \<Rightarrow> u16 \<Rightarrow> pcan_timeval \<Rightarrow> usbdev \<times> pcan_timeval" where
  "tick_time now dev ts8 t tv =
     (if ts8 then pcan_updateTimeStampFromByte now dev (ucast t) tv else pcan_updateTimeStampFromWord now dev t tv)"

lemma read_ticks_bytes:
  assumes "bytes mem p (length (tick_bytes ts8 t)) = tick_bytes ts8 t"
  shows "read_ticks now mem dev p ts8 tv =
     (fst (tick_time now dev ts8 t tv), p + length (tick_bytes ts8 t), snd (tick_time now dev ts8 t tv))"
proof (cases ts8)
  case True
  then have "mem p = ucast t" using bytes_hd [OF assms] by (simp add: tick_bytes_def)
  then show ?thesis using True by (simp add: read_ticks_def tick_time_def tick_bytes_def split_def Let_def)
next
  case False
  then have "rd16 mem p = t" using assms by (intro rd16_le16) (simp add: tick_bytes_def)
  then show ?thesis using False by (simp add: read_ticks_def tick_time_def tick_bytes_def split_def Let_def)
qed

lemma echo_fields:
  fixes fw m ts8 t mem p
  defines "fl \<equiv> msg_flags m" and "idb \<equiv> usb_id_bytes (msg_flags m) (msg_id m)" and "tb \<equiv> tick_bytes ts8 t"
  defines "n \<equiv> if has_flag (msg_flags m) PCANFD_MSG_RTR then 0 else unat (data_len m)"
  assumes "41 \<le> fw" "usb_frame m" "bytes mem p (length (usb_echo fw tb m)) = usb_echo fw tb m"
  shows "mem p = usb_st fw m" "bytes mem (p + 1) (length idb) = idb" "bytes mem (p + 1 + length idb) (length tb) = tb"
    "bytes mem (p + 1 + length idb + length tb) n = take n (msg_data m)"
    "length (usb_echo fw tb m) = 1 + length idb + length tb + n + (if has_flag fl PCANFD_MSG_SLF then 1 else 0)"
proof -
  have dl: "unat (data_len m) \<le> 8" "data_len m \<le> 8" "length (msg_data m) = 64"
    using assms(6) by (simp_all add: usb_frame_def word_le_nat_alt)
  let ?d = "take n (msg_data m)" let ?s = "if has_flag fl PCANFD_MSG_SLF then [0x80 :: u8] else []"
  have d: "(if has_flag (msg_flags m) PCANFD_MSG_RTR then []
      else map (\<lambda>j. if j < 8 then msg_data m ! j else 0) [0..<unat (ucast (data_len m) AND 0x0F :: u8)]) = ?d"
  proof -
    have "map (\<lambda>j. if j < 8 then msg_data m ! j else 0) [0..<unat (data_len m)] = map ((!) (msg_data m)) [0..<unat (data_len m)]"
      using dl(1) by (intro map_cong) auto
    also have "\<dots> = take (unat (data_len m)) (msg_data m)" using dl(1,3) by (intro nth_equalityI) simp_all
    finally show ?thesis unfolding n_def usb_len_nibble [OF dl(2)] by simp
  qed
  have ln: "length ?d = n" using dl(1,3) by (simp add: n_def)
  have r: "usb_echo fw tb m = [usb_st fw m] @ idb @ tb @ ?d @ ?s"
    unfolding usb_echo_parts [OF assms(5)] d fl_def idb_def ..
  note h = assms(7) [unfolded r bytes_parts ln]
  show "mem p = usb_st fw m" using h by (simp add: bytes_def)
  show "bytes mem (p + 1) (length idb) = idb" "bytes mem (p + 1 + length idb) (length tb) = tb"
    "bytes mem (p + 1 + length idb + length tb) n = take n (msg_data m)"
    using h by simp_all
  show "length (usb_echo fw tb m) = 1 + length idb + length tb + n + (if has_flag fl PCANFD_MSG_SLF then 1 else 0)"
    unfolding r using ln by simp
qed

lemma tick_time_keeps: "ucRevision (fst (tick_time now dev ts8 t tv)) = ucRevision dev"
  by (simp add: tick_time_def pcan_updateTimeStampFromByte_def pcan_updateTimeStampFromWord_def Let_def split_def)

lemma decode_can_echo:
  fixes dev :: usbdev and m ts8 t mem p tv now drv
  defines "r \<equiv> usb_echo (ucRevision dev) (tick_bytes ts8 t) m" and "d \<equiv> fst (tick_time now dev ts8 t tv)"
  defines "post \<equiv> post_rx now drv (pdev (fst (tick_time now dev ts8 t tv))) \<lparr>rx_msg = usb_rx_msg m, rx_hwtv = snd (tick_time now dev ts8 t tv)\<rparr>"
  assumes "41 \<le> ucRevision dev" "usb_frame m" "bytes mem p (length r) = r"
  shows "\<not> has_flag (mem p) STLN_INTERNAL_DATA"
    "decode_can now drv mem dev (p + 1) (mem p) ts8 tv = (d\<lparr>pdev := fst post\<rparr>, p + length r, snd post)"
proof -
  let ?fl = "msg_flags m" let ?idb = "usb_id_bytes (msg_flags m) (msg_id m)" let ?tb = "tick_bytes ts8 t"
  let ?n = "if has_flag (msg_flags m) PCANFD_MSG_RTR then 0 else unat (data_len m)"
  note f = echo_fields [OF assms(4,5) assms(6) [unfolded r_def]]
  have dl: "unat (data_len m) \<le> 8" "data_len m \<le> 8" using assms(5) by (simp_all add: usb_frame_def word_le_nat_alt)
  note st = usb_st_bits [OF assms(4) dl(2)]
  show "\<not> has_flag (mem p) STLN_INTERNAL_DATA" unfolding f(1) by (rule st(1))
  have idr: "if has_flag ?fl PCANFD_MSG_EXT then msg_id m < 0x20000000 else msg_id m < 0x800"
    using assms(5) by (simp add: usb_frame_def)
  note idf = usb_id_fields [OF f(2) idr]
  have flags: "usb_rx_flags (ucRevision dev) mem (p + 1) (mem p) = msg_flags (usb_rx_msg m)"
    using assms(4) idf(3) unfolding usb_rx_flags_def usb_rx_msg_def Let_def f(1) st by simp
  have slf: "has_flag (msg_flags (usb_rx_msg m)) PCANFD_MSG_SLF = has_flag ?fl PCANFD_MSG_SLF"
    by (simp add: usb_rx_msg_def Let_def has_flag_def set_flag_def)
  have id: "(if has_flag (mem p) STLN_EXTENDED_ID then (drop_bit 3 (rd32 mem (p + 1)), p + 1 + 4)
      else (drop_bit 5 (ucast (rd16 mem (p + 1))), p + 1 + 2)) = (msg_id m, p + 1 + length ?idb)"
    unfolding f(1) st(3) using idf(1,2) by simp
  have n: "(if has_flag (mem p) STLN_RTR then 0 else unat (mem p AND STLN_DATA_LENGTH)) = ?n" unfolding f(1) st ..
  have data: "read_data mem (p + 1 + length ?idb + length ?tb) ?n = msg_data (usb_rx_msg m)"
    unfolding read_data_def using f(4) dl(1) by (simp add: usb_rx_msg_def Let_def)
  have len: "(of_nat (min (unat (mem p AND STLN_DATA_LENGTH)) 8) :: u16) = data_len m"
    unfolding f(1) st(4) using dl(1) by simp
  have msg: "zero_msg\<lparr>msg_type := PCANFD_TYPE_CAN20_MSG, data_len := data_len m, msg_id := msg_id m,
      msg_flags := msg_flags (usb_rx_msg m), msg_data := msg_data (usb_rx_msg m)\<rparr> = usb_rx_msg m"
    by (simp add: usb_rx_msg_def Let_def)
  show "decode_can now drv mem dev (p + 1) (mem p) ts8 tv = (d\<lparr>pdev := fst post\<rparr>, p + length r, snd post)"
    unfolding decode_can_def Let_def id n flags len slf prod.case read_ticks_bytes [OF f(3)] data msg
    by (simp add: split_def d_def post_def r_def f(5))
qed

text \<open>The reference: the frames are posted one after the other, each with its time, until one is refused.\<close>

fun post_frames ::
  "timeval \<Rightarrow> timeval \<Rightarrow> (nat \<Rightarrow> pcan_timeval) \<Rightarrow> bool \<Rightarrow> (u16 \<times> pcanfd_msg) list \<Rightarrow> usbdev \<Rightarrow> nat \<Rightarrow> usbdev \<times> nat \<times> int" where
  "post_frames now drv tvs ts8 [] dev wake = (dev, wake, 0)"
| "post_frames now drv tvs ts8 (x # xs) dev wake =
     (let (d, tv) = tick_time now dev ts8 (fst x) (tvs (length xs));
          (p, err) = post_rx now drv (pdev d) \<lparr>rx_msg = usb_rx_msg (snd x), rx_hwtv = tv\<rparr>
      in if err < 0 then (d\<lparr>pdev := p\<rparr>, wake, err)
         else post_frames now drv tvs True xs (d\<lparr>pdev := p\<rparr>) (if 0 < err then wake + 1 else wake))"

fun echo_packet :: "u8 \<Rightarrow> bool \<Rightarrow> (u16 \<times> pcanfd_msg) list \<Rightarrow> u8 list" where
  "echo_packet fw ts8 [] = []"
| "echo_packet fw ts8 (x # xs) = usb_echo fw (tick_bytes ts8 (fst x)) (snd x) @ echo_packet fw True xs"

lemma decode_loop_frames:
  assumes "41 \<le> fw" "ucRevision dev = fw" "list_all (\<lambda>x. usb_frame (snd x)) xs"
    "bytes mem p (length (echo_packet fw ts8 xs)) = echo_packet fw ts8 xs" "p + length (echo_packet fw ts8 xs) \<le> a + len"
  shows "usb_decode_loop now drv ns wrt tvs mem a len (length xs) dev p ts8 wake = post_frames now drv tvs ts8 xs dev wake"
  using assms(2-5)
proof (induction xs arbitrary: dev p ts8 wake)
  case (Cons x xs)
  let ?r = "usb_echo fw (tick_bytes ts8 (fst x)) (snd x)"
  let ?tv = "tvs (length xs)" let ?d = "fst (tick_time now dev ts8 (fst x) (tvs (length xs)))"
  let ?post = "post_rx now drv (pdev ?d) \<lparr>rx_msg = usb_rx_msg (snd x), rx_hwtv = snd (tick_time now dev ts8 (fst x) ?tv)\<rparr>"
  have b: "bytes mem p (length ?r) = ?r" "bytes mem (p + length ?r) (length (echo_packet fw True xs)) = echo_packet fw True xs"
    using Cons.prems(3) unfolding echo_packet.simps bytes_parts by blast+
  have fr: "usb_frame (snd x)" using Cons.prems(2) by simp
  have fw: "41 \<le> ucRevision dev" "bytes mem p (length (usb_echo (ucRevision dev) (tick_bytes ts8 (fst x)) (snd x)))
      = usb_echo (ucRevision dev) (tick_bytes ts8 (fst x)) (snd x)"
    using assms(1) b(1) Cons.prems(1) by simp_all
  note dc = decode_can_echo(1) [OF fw(1) fr fw(2)]
    decode_can_echo(2) [OF fw(1) fr fw(2), of now drv ?tv, unfolded Cons.prems(1)]
  have e: "\<not> len < p + length ?r - a" using Cons.prems(4) by simp
  have step: "usb_decode_loop now drv ns wrt tvs mem a len (length (x # xs)) dev p ts8 wake =
      (if snd ?post < 0 then (?d\<lparr>pdev := fst ?post\<rparr>, wake, snd ?post)
       else usb_decode_loop now drv ns wrt tvs mem a len (length xs) (?d\<lparr>pdev := fst ?post\<rparr>) (p + length ?r) True
              (if 0 < snd ?post then wake + 1 else wake))"
    using dc e by (simp add: Let_def split_def)
  show ?case
  proof (cases "snd ?post < 0")
    case True
    then show ?thesis unfolding step by (simp add: split_def Let_def)
  next
    case False
    have "ucRevision (?d\<lparr>pdev := fst ?post\<rparr>) = fw" using tick_time_keeps Cons.prems(1) by simp
    then have "usb_decode_loop now drv ns wrt tvs mem a len (length xs) (?d\<lparr>pdev := fst ?post\<rparr>) (p + length ?r) True w =
        post_frames now drv tvs True xs (?d\<lparr>pdev := fst ?post\<rparr>) w" for w
      using Cons.IH [of "?d\<lparr>pdev := fst ?post\<rparr>" "p + length ?r" True w] Cons.prems(2,4) b(2) by (simp add: add.assoc)
    then show ?thesis unfolding step using False by (simp add: split_def Let_def)
  qed
qed simp

text \<open>C11. A packet of a PCAN-USB adapter is decoded exactly: when it holds the records that were sent for CAN
  frames, each with its time behind the identifier (16 bits in the first record, 8 in the others), the frames
  with the same identifiers, flags, lengths and data are posted in the order of the packet, each with the
  time that its ticks stand for, and readers are woken up once when any was queued. What lies behind the last
  record is not looked at.
\<close>

theorem usb_packet_decoded:
  assumes "41 \<le> ucRevision dev" "list_all (\<lambda>x. usb_frame (snd x)) xs" "length xs < 256" "0 < len"
    "mem (a + 1) = of_nat (length xs)"
    "bytes mem (a + 2) (length (echo_packet (ucRevision dev) False xs)) = echo_packet (ucRevision dev) False xs"
    "2 + length (echo_packet (ucRevision dev) False xs) \<le> len"
  shows "pcan_usb_DecodeMessage now drv ns wrt tvs dev mem a len =
     (let (d, wake, err) = post_frames now drv tvs False xs
            (on_pdev (\<lambda>p. p\<lparr>dwInterruptCounter := dwInterruptCounter p + 1\<rparr>) dev) 0
      in if err \<noteq> 0 then (on_pdev (\<lambda>p. p\<lparr>nLastError := err, dwErrorCounter := dwErrorCounter p + 1\<rparr>) d, err)
         else (if wake \<noteq> 0 then on_pdev signal_in d else d, 0))"
proof -
  let ?dev = "on_pdev (\<lambda>p. p\<lparr>dwInterruptCounter := dwInterruptCounter p + 1\<rparr>) dev"
  have rv: "ucRevision ?dev = ucRevision dev" by (simp add: on_pdev_def)
  have n: "unat (of_nat (length xs) :: u8) = length xs" using assms(3) by (simp add: unat_of_nat)
  have le: "a + 2 + length (echo_packet (ucRevision dev) False xs) \<le> a + len" using assms(7) by simp
  have "usb_decode_loop now drv ns wrt tvs mem a len (length xs) ?dev (a + 2) False 0 = post_frames now drv tvs False xs ?dev 0"
    by (rule decode_loop_frames [OF assms(1) rv assms(2,6) le])
  then show ?thesis unfolding pcan_usb_DecodeMessage_def Let_def assms(5) n using assms(4) by simp
qed

text \<open>A frame that arrives before the first calibration message gets no time: its flags say that it has a
  hardware time stamp, but what is queued with it is what the kernel's stack held.
\<close>

theorem usb_unsynced_time:
  assumes "sync_ticks_init (usb_time dev) = 0" "41 \<le> ucRevision dev" "usb_frame m"
    "bytes mem p (length (usb_echo (ucRevision dev) (tick_bytes ts8 t) m)) = usb_echo (ucRevision dev) (tick_bytes ts8 t) m"
  shows "decode_can now drv mem dev (p + 1) (mem p) ts8 tv =
     (let (q, err) = post_rx now drv (pdev dev) \<lparr>rx_msg = usb_rx_msg m, rx_hwtv = tv\<rparr>
      in (dev\<lparr>pdev := q\<rparr>, p + length (usb_echo (ucRevision dev) (tick_bytes ts8 t) m), err)) \<and>
     has_flag (msg_flags (usb_rx_msg m)) PCANFD_HWTIMESTAMP"
proof -
  have t: "tick_time now dev ts8 t tv = (dev, tv)"
    using assms(1) by (simp add: tick_time_def pcan_updateTimeStampFromByte_def pcan_updateTimeStampFromWord_def)
  have "has_flag (msg_flags (usb_rx_msg m)) PCANFD_HWTIMESTAMP"
    by (simp add: usb_rx_msg_def Let_def has_flag_def set_flag_def)
  then show ?thesis
    using decode_can_echo(2) [OF assms(2-4), of now drv tv] by (simp add: t split_def Let_def)
qed

section \<open>Opening a channel\<close>

definition usb_ok :: "usb_env \<Rightarrow> bool" where
  "usb_ok env \<longleftrightarrow> (\<forall>l. out_err env l = 0 \<and> halt_err env l = 0)"

definition off_commands :: "u8 \<Rightarrow> usb_io list" where
  "off_commands fw =
     (if fw \<le> 25 then [Cmd_out (usb_param 9 2 4 0 0 0) 0] else [])
     @ [Cmd_out (usb_param 3 2 0 0 0 0) 0, Cmd_out (usb_param 0x0b 2 0 0 0 0) 0, Clear_halt True 0, Clear_halt False 0,
        Cmd_out (usb_param 9 2 0 1 0 0) 0]"

lemma setcontrol_ok:
  assumes "usb_ok env" "is_plugged (pdev dev)"
  shows "pcan_usb_setcontrol_urb env dev f n p0 p1 p2 p3 = (dev\<lparr>usb_log := usb_log dev @ [Cmd_out (usb_param f n p0 p1 p2 p3) 0]\<rparr>, 0)"
  using assms by (simp add: pcan_usb_setcontrol_urb_def usb_ok_def)

lemma set_off_ok:
  assumes "usb_ok env" "is_plugged (pdev dev)"
  shows "pcan_usb_setCANOff env dev = (dev\<lparr>usb_log := usb_log dev @ off_commands (ucRevision dev)\<rparr>, 0)"
  using assms
  by (simp add: pcan_usb_setCANOff_def Let_def setcontrol_ok pcan_usb_set_err_frame_def usb_clear_halt_def off_commands_def usb_ok_def)

lemma usb_init_ok:
  assumes "usb_ok env" "is_plugged (pdev dev)" "3 < ucRevision dev"
  shows "pcan_usb_Init env dev w e lo =
     (dev\<lparr>usb_log := usb_log dev @ [Cmd_out (usb_param 1 2 (ucast w) (ucast (drop_bit 8 w)) 0 0) 0, Cmd_out (usb_param 0x0b 2 0x1f 0 0 0) 0,
        Cmd_out (usb_param 3 3 (if lo \<noteq> 0 then 1 else 0) 0 0 0) 0, Cmd_out (usb_param 0xA 2 0 0 0 0) 0],
        usb_time := zero_usb_time, dwTelegramCount := 0\<rparr>, 0)"
  using assms
  by (simp add: pcan_usb_Init_def Let_def pcan_usb_setBTR0BTR1_def pcan_usb_set_err_frame_def setcontrol_ok pcan_usb_setCANSilentOn_def
      pcan_usb_setCANSilentOff_def pcan_usb_setExtVCCOff_def pcan_reset_timestamp_def)

text \<open>Opening a channel of a plugged PCAN-USB adapter whose transfers succeed sends it exactly these commands,
  in this order: the bus is turned off, the bit timing, the error frames and the listen-only mode are set, the
  external supply is turned off and the bus is turned on. Afterwards the clock and the time synchronisation
  start anew and the telegram counter is 0.
\<close>

theorem usb_open_commands:
  assumes "usb_ok env" "is_plugged (pdev dev)" "3 < ucRevision dev"
  shows "\<exists>dev'. pcan_usb_device_open (pcan_usb_ops env) opened dev btr0btr1 ext lo = Some (opened + 1, dev', 0) \<and>
     usb_log dev' = usb_log dev @ off_commands (ucRevision dev)
       @ [Cmd_out (usb_param 1 2 (ucast btr0btr1) (ucast (drop_bit 8 btr0btr1)) 0 0) 0,
          Cmd_out (usb_param 0x0b 2 0x1f 0 0 0) 0, Cmd_out (usb_param 3 3 (if lo \<noteq> 0 then 1 else 0) 0 0 0) 0,
          Cmd_out (usb_param 0xA 2 0 0 0 0) 0, Cmd_out (usb_param 3 2 1 0 0 0) 0] \<and>
     usb_time dev' = zero_usb_time \<and> dwTelegramCount dev' = 0 \<and> time_sync (pdev dev') = zero_time_sync"
  using assms
  by (simp add: pcan_usb_device_open_def pcan_usb_ops_def set_off_ok usb_init_ok pcan_usb_setCANOn_def setcontrol_ok on_pdev_def
      pcan_sync_init_def)

text \<open>When the last command fails, the interface counts a channel that is not open.\<close>

lemma usb_open_count_leaks:
  assumes "ctrl_set_bus_off ops dev = (d1, 0)" "ctrl_open ops = Some f" "f d1 w e lo = (d2, 0)" "ctrl_set_bus_on ops d2 = (d3, err)"
    "\<not> has_flag (dev_flags (pdev d3)) PCAN_DEV_OPENED"
  shows "pcan_usb_device_open ops opened dev w e lo = Some (opened + 1, d3, err) \<and>
     pcan_usb_device_release kill ops (opened + 1) 0 [d3] = (opened + 1, [d3])"
  using assms by (simp add: pcan_usb_device_open_def pcan_usb_device_release_def pcan_usb_stop_def)

text \<open>The last packet of a read transfer that is not a multiple of the packet size is decoded with the size of
  a full packet: only the first packet is cut to what was received, so the check for the end of the packet
  does not see where the received bytes end.
\<close>

theorem usb_short_packet:
  assumes "read_packet_size ifc = pk" "pk < len" "len < 2 * pk"
    "decode ifc mem a pk = (mid, mem', err_a)" "0 \<le> err_a" "read_packet_size mid = pk"
    "decode mid mem' (a + pk) pk = (fin, mem'', err_b)"
  shows "usb_read_loop len decode mem a len 0 ifc = fin"
proof -
  obtain n where n: "len = Suc (Suc n)" using assms(2,3) by (cases len; cases "len - 1") auto
  have s: "(if len < pk then len else pk) = pk" using assms(2) by simp
  have stop: "usb_read_loop k decode m a len (2 * pk) i = i" for k m i using assms(3) by (cases k) simp_all
  have "usb_read_loop len decode mem a len 0 ifc = usb_read_loop (Suc n) decode mem' a len pk mid"
    using assms by (simp add: n)
  also have "\<dots> = fin"
    using assms stop [of n mem'' fin] s by (simp add: mult_2)
  finally show ?thesis .
qed

section \<open>Witnesses\<close>

text \<open>A channel with one extended frame to be sent, on an adapter with the firmware 8.4, whose transfers
  succeed; and the memory with the packet of this frame.\<close>

definition usb_msg :: pcanfd_msg where
  "usb_msg = zero_msg\<lparr>msg_type := PCANFD_TYPE_CAN20_MSG, msg_flags := PCANFD_MSG_EXT, msg_id := 0x1234567, data_len := 3,
     msg_data := [1, 0xFF, 0x10] @ replicate 61 0\<rparr>"

definition usb_pdev :: pcandev where
  "usb_pdev = blank_dev\<lparr>locked_tx_engine_state := TX_ENGINE_STOPPED,
     writeFifo := fst (pcan_fifo_put \<lparr>tx_msg = usb_msg, tx_tv = zero_timeval\<rparr> (writeFifo blank_dev))\<rparr>"

definition usb_dev :: usbdev where
  "usb_dev = \<lparr>pdev = usb_pdev, cmd_head = (\<lambda>_. 0), cmd_size = 0, cmd_len = 0, io_out = [], usb_log = [],
     usb_time = zero_usb_time, dwTelegramCount = 0, ucHardcodedDevNr = 0, ucRevision = 84, write_packet_size = 64,
     write_buffer_size = 256, write_buffer = (\<lambda>_. 0), w_active_urbs = 0, usb_state = 0,
     usb_iface = \<lparr>if_state = 0, cm_ignore_count = 3, dev_frame_index = -1, bus_frame_index = 0, if_ts_high = 0, if_ts_low = 0,
       frag_rec_offset = 0, dwSerialNumber = 0\<rparr>\<rparr>"

definition good_env :: usb_env where
  "good_env = \<lparr>out_err = (\<lambda>_. 0), in_reply = (\<lambda>_. (replicate 16 0, 0)), halt_err = (\<lambda>_. 0), submit_err = (\<lambda>_. 0),
     cmd_wait = (\<lambda>_. (False, 0)), ctrl_reply = (\<lambda>_. (replicate 28 0, 0)), no_memory = (\<lambda>_. False)\<rparr>"

definition usb_mem :: mem where
  "usb_mem = wr (\<lambda>_. 0) 0 ([2, 1] @ echo_packet 84 False [(7, usb_msg)])"

lemma usb_pdev_queue:
  "ring_inv (writeFifo usb_pdev)" "fifo_items (writeFifo usb_pdev) = [\<lparr>tx_msg = usb_msg, tx_tv = zero_timeval\<rparr>]"
proof -
  let ?x = "\<lparr>tx_msg = usb_msg, tx_tv = zero_timeval\<rparr>" let ?f = "writeFifo blank_dev"
  have f: "ring_inv ?f" "fifo_items ?f = []" "fifo_cap ?f = 4"
    using blank_fifo_inv [of "\<lparr>tx_msg = zero_msg, tx_tv = zero_timeval\<rparr>"] by (simp_all add: blank_dev_def)
  obtain g where g: "pcan_fifo_put ?x ?f = (g, 0)" "ring_inv g" "fifo_items g = [?x]"
    using ring.put_room [OF f(1), of ?x] f by (auto simp del: length_fifo_items)
  then have "writeFifo usb_pdev = g" by (simp add: usb_pdev_def)
  then show "ring_inv (writeFifo usb_pdev)" "fifo_items (writeFifo usb_pdev) = [?x]" using g by simp_all
qed

lemma usb_dev_simps: "pdev usb_dev = usb_pdev" "ucRevision usb_dev = 84" "is_plugged usb_pdev" "usb_log usb_dev = []"
    "usb_time usb_dev = zero_usb_time" "w_active_urbs usb_dev = 0" "locked_tx_engine_state usb_pdev = TX_ENGINE_STOPPED"
  by (simp_all add: usb_dev_def usb_pdev_def blank_dev_def)

theorem usb_telegram_exact_witness:
  "\<exists>dev'. fst (pcan_usb_EncodeMessage usb_dev 0 64) = dev' \<and> fst (snd (pcan_usb_EncodeMessage usb_dev 0 64)) = 64 \<and>
     fifo_items (writeFifo (pdev dev')) = [] \<and> write_buffer dev' 63 = 0 \<and> write_buffer dev' 1 = 1"
proof -
  let ?k = "taken (int 64 - 14) 2 (map (\<lambda>x. usb_tx_record 84 (tx_msg x)) [\<lparr>tx_msg = usb_msg, tx_tv = zero_timeval\<rparr>])"
  have k: "?k = 1" by simp
  have l: "list_all (\<lambda>x. data_len (tx_msg x) \<le> 8) (fifo_items (writeFifo (pdev usb_dev)))"
    by (simp add: usb_dev_simps usb_pdev_queue usb_msg_def)
  have q: "ring_inv (writeFifo (pdev usb_dev))" by (simp add: usb_dev_simps usb_pdev_queue)
  obtain dev' bs where d: "pcan_usb_EncodeMessage usb_dev 0 64 = (dev', 64, if int (2 + length bs) < int 64 - 14 then - ENODATA else 0)"
      "bytes (write_buffer dev') 0 (2 + length bs) = [2, of_nat ?k] @ bs" "write_buffer dev' (0 + 64 - 1) = ucast (dwTelegramCount usb_dev)"
      "fifo_items (writeFifo (pdev dev')) = drop ?k [\<lparr>tx_msg = usb_msg, tx_tv = zero_timeval\<rparr>]"
    using usb_telegram_exact [OF q l, of 64 0] unfolding usb_dev_simps usb_pdev_queue by auto
  have "write_buffer dev' 1 = 1"
  proof -
    have "bytes (write_buffer dev') 0 (2 + length bs) ! 1 = 1" unfolding d(2) k by simp
    moreover have "bytes (write_buffer dev') 0 (2 + length bs) ! 1 = write_buffer dev' 1" by (simp add: bytes_def nth_append del: upt_Suc)
    ultimately show ?thesis by simp
  qed
  then show ?thesis using d k by (simp add: usb_dev_def)
qed

theorem usb_one_transfer_witness:
  "engine_inv (fst (pcan_usb_write good_env zero_timeval zero_timeval (pcan_usb_ops good_env) usb_dev))"
proof -
  have i: "engine_inv usb_dev" by (simp add: engine_inv_def usb_dev_simps)
  have "usb_reach good_env (pcan_usb_ops good_env) usb_dev (fst (pcan_usb_write good_env zero_timeval zero_timeval (pcan_usb_ops good_env) usb_dev))"
    by (intro usb_reach.start usb_reach.init) (simp_all add: usb_dev_simps)
  from usb_one_transfer [OF this i] show ?thesis .
qed

lemma usb_mem_packet:
  "usb_frame usb_msg" "usb_mem 1 = 1" "length (echo_packet 84 False [(7, usb_msg)]) = 10"
  "bytes usb_mem 2 (length (echo_packet 84 False [(7, usb_msg)])) = echo_packet 84 False [(7, usb_msg)]"
proof -
  let ?e = "echo_packet 84 False [(7, usb_msg)]"
  show "usb_frame usb_msg" by (simp add: usb_frame_def usb_msg_def has_flag_def)
  show "usb_mem 1 = 1" by (simp add: usb_mem_def wr_def)
  show "length ?e = 10"
    by (simp add: usb_echo_parts usb_id_bytes_def usb_msg_def has_flag_def tick_bytes_def le16_def le32_def Let_def)
  have "bytes usb_mem 0 (length ([2, 1] @ ?e)) = [2, 1] @ ?e" unfolding usb_mem_def by (rule bytes_wr_same)
  from this [unfolded bytes_parts] show "bytes usb_mem 2 (length ?e) = ?e" by (simp add: numeral_2_eq_2)
qed

theorem usb_packet_decoded_witness:
  "pcan_usb_DecodeMessage zero_timeval zero_timeval 0 (\<lambda>d. (d, 0)) (\<lambda>_. zero_hwtv) usb_dev usb_mem 0 64 =
     (let (d, wake, err) = post_frames zero_timeval zero_timeval (\<lambda>_. zero_hwtv) False [(7, usb_msg)]
            (on_pdev (\<lambda>p. p\<lparr>dwInterruptCounter := dwInterruptCounter p + 1\<rparr>) usb_dev) 0
      in if err \<noteq> 0 then (on_pdev (\<lambda>p. p\<lparr>nLastError := err, dwErrorCounter := dwErrorCounter p + 1\<rparr>) d, err)
         else (if wake \<noteq> 0 then on_pdev signal_in d else d, 0))"
proof (rule usb_packet_decoded)
  show "bytes usb_mem (0 + 2) (length (echo_packet (ucRevision usb_dev) False [(7, usb_msg)])) = echo_packet (ucRevision usb_dev) False [(7, usb_msg)]"
    unfolding usb_dev_simps add_0 by (rule usb_mem_packet)
  show "2 + length (echo_packet (ucRevision usb_dev) False [(7, usb_msg)]) \<le> 64"
    unfolding usb_dev_simps usb_mem_packet(3) by simp
qed (use usb_mem_packet(1,2) in \<open>simp_all add: usb_dev_simps\<close>)

theorem usb_unsynced_time_witness:
  "\<exists>d n err. decode_can zero_timeval zero_timeval usb_mem usb_dev 3 (usb_mem 2) False (zero_hwtv\<lparr>hwtv_ts_mode := 77\<rparr>) = (d, n, err) \<and>
     snd (post_rx zero_timeval zero_timeval usb_pdev \<lparr>rx_msg = usb_rx_msg usb_msg, rx_hwtv = zero_hwtv\<lparr>hwtv_ts_mode := 77\<rparr>\<rparr>) = err"
proof -
  have "bytes usb_mem 2 (length (usb_echo (ucRevision usb_dev) (tick_bytes False 7) usb_msg)) = usb_echo (ucRevision usb_dev) (tick_bytes False 7) usb_msg"
    using usb_mem_packet(4) by (simp add: usb_dev_simps)
  from usb_unsynced_time [OF _ _ usb_mem_packet(1) this, of zero_timeval zero_timeval "zero_hwtv\<lparr>hwtv_ts_mode := 77\<rparr>"]
  show ?thesis by (simp add: usb_dev_simps zero_usb_time_def split_def Let_def)
qed

theorem usb_open_commands_witness:
  "\<exists>dev'. pcan_usb_device_open (pcan_usb_ops good_env) 0 usb_dev 0x001C 1 0 = Some (1, dev', 0) \<and> length (usb_log dev') = 10"
proof -
  have "usb_ok good_env" by (simp add: usb_ok_def good_env_def)
  from usb_open_commands [OF this, of usb_dev 0 "0x001C" 1 0] show ?thesis
    by (auto simp: usb_dev_simps off_commands_def)
qed

theorem usb_short_packet_witness:
  "usb_read_loop 100 (\<lambda>i m a l. (i\<lparr>opened_count := int l\<rparr>, m, 0)) usb_mem 0 100 0
       \<lparr>if_devs = [usb_dev], opened_count = 0, r_active_urbs = 0, read_packet_size = 64, read_urbs = []\<rparr>
     = \<lparr>if_devs = [usb_dev], opened_count = 64, r_active_urbs = 0, read_packet_size = 64, read_urbs = []\<rparr>"
  by (rule usb_short_packet [where pk = 64 and err_a = 0 and err_b = 0
        and mid = "\<lparr>if_devs = [usb_dev], opened_count = 64, r_active_urbs = 0, read_packet_size = 64, read_urbs = []\<rparr>"]) simp_all

end
