(* ===== verification/Pcan_Usbpro.thy ===== *)
theory Pcan_Usbpro
  imports Pcan_Usb
begin

text \<open>
  The PCAN-USB Pro adapter (\<^verbatim>\<open>driver/src/pcan_usbpro.c\<close>): the records that messages are made of, the commands, the
  encoding of the transmit queue, the decoding of received packets with records that are cut at the end of a
  packet, and the clock that the USB Pro and FD adapters share: 32 bits that calibration messages extend to 64.
  The interface is the list of its channels; its own members are kept with the channel 0. \<^verbatim>\<open>None\<close> is an access
  outside of this list. The buffer of commands is \<^verbatim>\<open>cmd_head\<close> (\<^verbatim>\<open>cout_baddr\<close> of the source), which is allocated
  with at least 64 bytes. \<^verbatim>\<open>PCAN_USB_CMD_PER_DEV\<close> and \<^verbatim>\<open>PCAN_USB_ALLOC_URBS\<close> are defined; \<^verbatim>\<open>MSGTYPE_SINGLESHOT\<close>
  and \<^verbatim>\<open>MSGTYPE_PARAMETER\<close> are not; the machine is little-endian.
\<close>

section \<open>Clock\<close>

definition pcan_timeval_delta_us :: "timeval \<Rightarrow> timeval \<Rightarrow> u32" where
  "pcan_timeval_delta_us tv0 tv1 =
     (let s = (if tv_sec tv0 \<le> tv_sec tv1 then tv_sec tv1 - tv_sec tv0 else 0xffffffff - tv_sec tv0 + tv_sec tv1)
      in if tv_usec tv0 \<le> tv_usec tv1 then of_int USEC_PER_SEC * of_int s + of_int (tv_usec tv1 - tv_usec tv0)
         else of_int USEC_PER_SEC * (of_int s - 1) + of_int (USEC_PER_SEC - tv_usec tv0 + tv_usec tv1))"

text \<open>The high part of the time of an event: the counter has wrapped after the last calibration message when
  the next one will have wrapped too.\<close>

definition event_ts_high :: "usb_if \<Rightarrow> u32 \<Rightarrow> u32" where
  "event_ts_high ifc ts_low =
     (if ts_low < if_ts_low ifc \<and> uint ts_low < USEC_PER_SEC \<and> if_ts_low ifc + of_int USEC_PER_SEC < if_ts_low ifc
      then if_ts_high ifc + 1 else if_ts_high ifc)"

definition pcan_usbpro_timestamp_decode ::
  "timeval \<Rightarrow> u64 \<Rightarrow> usb_if \<Rightarrow> pcandev \<Rightarrow> u32 \<Rightarrow> pcan_timeval \<Rightarrow> pcandev \<times> pcan_timeval \<times> bool" where
  "pcan_usbpro_timestamp_decode now ns ifc dev ts_low tv =
     (let ts_high = (if sync_ts_us (time_sync dev) \<noteq> 0 then event_ts_high ifc ts_low else 0);
          dev = (if cm_ignore_count ifc < 0 \<and> sync_ts_us (time_sync dev) = 0
                 then fst (pcan_sync_times now ns dev ts_low ts_high 0) else dev);
          (tv, ok) = pcan_sync_decode now dev ts_low ts_high tv
      in (dev, tv, ok \<noteq> 0))"

abbreviation (input) PCAN_USB_PRECISION_MASK :: int where "PCAN_USB_PRECISION_MASK \<equiv> 1023"
abbreviation (input) USEC_PER_MSEC :: int where "USEC_PER_MSEC \<equiv> 1000"

text \<open>The clock of the interface after a calibration message that is used.\<close>

definition calibrate :: "usb_if \<Rightarrow> u32 \<Rightarrow> usb_if" where
  "calibrate ifc ts_low =
     (let ts_low = (if cm_ignore_count ifc < 0 then 0 else ts_low);
          ifc = (if ts_low < if_ts_low ifc then ifc\<lparr>if_ts_high := if_ts_high ifc + 1\<rparr> else ifc)
      in ifc\<lparr>if_ts_low := ts_low\<rparr>)"

definition set_iface :: "usb_if \<Rightarrow> usbdev list \<Rightarrow> usbdev list" where
  "set_iface ifc devs = devs[0 := (devs ! 0)\<lparr>usb_iface := ifc\<rparr>]"

text \<open>A calibration message. \<open>bus_fi\<close> is the frame number that the kernel returns. The other channels get a
  copy of the synchronisation of the first one.\<close>

definition pcan_usbpro_handle_calibration ::
  "timeval \<Rightarrow> u64 \<Rightarrow> int \<Rightarrow> usbdev list \<Rightarrow> u32 \<Rightarrow> u32 \<Rightarrow> usbdev list \<times> int" where
  "pcan_usbpro_handle_calibration now ns bus_fi devs ts_low dfi =
     (if bus_fi < 0 then (devs, bus_fi)
      else
        let ifc = (usb_iface (devs ! 0))\<lparr>bus_frame_index := bus_fi\<rparr>
        in if 0 < cm_ignore_count ifc then (set_iface (ifc\<lparr>cm_ignore_count := cm_ignore_count ifc - 1\<rparr>) devs, 0)
           else if dev_frame_index ifc < 0 then
             (set_iface (ifc\<lparr>dev_frame_index := sint dfi, if_ts_low := 0, if_ts_high := 0\<rparr>) devs, 0)
           else
             let ifc = calibrate (ifc\<lparr>dev_frame_index := sint dfi\<rparr>) ts_low;
                 off = (sint dfi mod 1024 - bus_fi mod 1024) * USEC_PER_MSEC;
                 devs = set_iface ifc devs;
                 (p, r) = pcan_sync_times now ns (pdev (devs ! 0)) (if_ts_low ifc) (if_ts_high ifc) off;
                 devs = devs[0 := (devs ! 0)\<lparr>pdev := p\<rparr>]
             in (if r \<noteq> 0 then map (on_pdev (\<lambda>q. q\<lparr>time_sync := time_sync p\<rparr>)) devs else devs, 0))"

section \<open>Records\<close>

abbreviation (input) CANMSG_RX_8 :: u8 where "CANMSG_RX_8 \<equiv> 0x80"
abbreviation (input) CANMSG_RX_4 :: u8 where "CANMSG_RX_4 \<equiv> 0x81"
abbreviation (input) CANMSG_RX_0 :: u8 where "CANMSG_RX_0 \<equiv> 0x82"
abbreviation (input) CANMSG_RTR_RX :: u8 where "CANMSG_RTR_RX \<equiv> 0x83"
abbreviation (input) CANMSG_STATUS_ERROR_RX :: u8 where "CANMSG_STATUS_ERROR_RX \<equiv> 0x84"
abbreviation (input) CALIBRATION_TIMESTAMP_RX :: u8 where "CALIBRATION_TIMESTAMP_RX \<equiv> 0x85"
abbreviation (input) BUSLAST_RX :: u8 where "BUSLAST_RX \<equiv> 0x86"
abbreviation (input) CANMSG_TX_8 :: u8 where "CANMSG_TX_8 \<equiv> 0x41"
abbreviation (input) CANMSG_TX_4 :: u8 where "CANMSG_TX_4 \<equiv> 0x42"
abbreviation (input) CANMSG_TX_0 :: u8 where "CANMSG_TX_0 \<equiv> 0x43"
abbreviation (input) FKT_GETBAUDRATE :: u8 where "FKT_GETBAUDRATE \<equiv> 0x01"
abbreviation (input) FKT_SETBAUDRATE :: u8 where "FKT_SETBAUDRATE \<equiv> 0x02"
abbreviation (input) FKT_GETCANBUSACTIVATE :: u8 where "FKT_GETCANBUSACTIVATE \<equiv> 0x03"
abbreviation (input) FKT_SETCANBUSACTIVATE :: u8 where "FKT_SETCANBUSACTIVATE \<equiv> 0x04"
abbreviation (input) FKT_SETSILENTMODE :: u8 where "FKT_SETSILENTMODE \<equiv> 0x05"
abbreviation (input) FKT_SETDEVICENR :: u8 where "FKT_SETDEVICENR \<equiv> 0x06"
abbreviation (input) FKT_SETWARNINGLIMIT :: u8 where "FKT_SETWARNINGLIMIT \<equiv> 0x07"
abbreviation (input) FKT_SETLOOKUP_EXPLICIT :: u8 where "FKT_SETLOOKUP_EXPLICIT \<equiv> 0x08"
abbreviation (input) FKT_SETLOOKUP_GROUP :: u8 where "FKT_SETLOOKUP_GROUP \<equiv> 0x09"
abbreviation (input) FKT_SETFILTERMODE :: u8 where "FKT_SETFILTERMODE \<equiv> 0x0a"
abbreviation (input) FKT_SETRESET_MODE :: u8 where "FKT_SETRESET_MODE \<equiv> 0x0b"
abbreviation (input) FKT_SETERRORFRAME :: u8 where "FKT_SETERRORFRAME \<equiv> 0x0c"
abbreviation (input) FKT_GETCANBUS_ERROR_STATUS :: u8 where "FKT_GETCANBUS_ERROR_STATUS \<equiv> 0x0d"
abbreviation (input) FKT_SETREGISTER :: u8 where "FKT_SETREGISTER \<equiv> 0x0e"
abbreviation (input) FKT_GETREGISTER :: u8 where "FKT_GETREGISTER \<equiv> 0x0f"
abbreviation (input) FKT_SETGET_CALIBRATION_MSG :: u8 where "FKT_SETGET_CALIBRATION_MSG \<equiv> 0x10"
abbreviation (input) FKT_SETGET_BUSLAST_MSG :: u8 where "FKT_SETGET_BUSLAST_MSG \<equiv> 0x11"
abbreviation (input) FKT_GETDEVICENR :: u8 where "FKT_GETDEVICENR \<equiv> 0x12"
abbreviation (input) FKT_SETSTRING :: u8 where "FKT_SETSTRING \<equiv> 0x13"
abbreviation (input) FKT_GETSTRING :: u8 where "FKT_GETSTRING \<equiv> 0x14"
abbreviation (input) FKT_STRING :: u8 where "FKT_STRING \<equiv> 0x15"
abbreviation (input) FKT_SAVEEEPROM :: u8 where "FKT_SAVEEEPROM \<equiv> 0x16"
abbreviation (input) FKT_USB_IN_PACKET_DELAY :: u8 where "FKT_USB_IN_PACKET_DELAY \<equiv> 0x17"
abbreviation (input) FKT_TIMESTAMP_PARAM :: u8 where "FKT_TIMESTAMP_PARAM \<equiv> 0x18"
abbreviation (input) FKT_ERROR_GEN_ID :: u8 where "FKT_ERROR_GEN_ID \<equiv> 0x19"
abbreviation (input) FKT_ERROR_GEN_NOW :: u8 where "FKT_ERROR_GEN_NOW \<equiv> 0x1a"
abbreviation (input) FKT_SET_SOFTFILER :: u8 where "FKT_SET_SOFTFILER \<equiv> 0x1b"
abbreviation (input) FKT_SET_CANLED :: u8 where "FKT_SET_CANLED \<equiv> 0x1c"

text \<open>The sizes of the packed structures; 0 stands for a type that is not known, which the source gives the
  size -1.\<close>

definition pcan_usbpro_sizeof_rec :: "u8 \<Rightarrow> nat" where
  "pcan_usbpro_sizeof_rec ty =
     (if ty = CANMSG_RX_8 then 20
      else if ty = CANMSG_RX_4 then 16
      else if ty \<in> {CANMSG_RX_0, CANMSG_RTR_RX, CANMSG_STATUS_ERROR_RX, CALIBRATION_TIMESTAMP_RX} then 12
      else if ty = BUSLAST_RX then 8
      else if ty = CANMSG_TX_8 then 16
      else if ty = CANMSG_TX_4 then 12
      else if ty = CANMSG_TX_0 then 8
      else if ty \<in> {FKT_GETBAUDRATE, FKT_SETBAUDRATE, FKT_SETDEVICENR, FKT_GETDEVICENR, FKT_SETLOOKUP_EXPLICIT,
        FKT_SETGET_BUSLAST_MSG, FKT_SET_CANLED} then 8
      else if ty \<in> {FKT_GETCANBUSACTIVATE, FKT_SETCANBUSACTIVATE, FKT_SETSILENTMODE, FKT_SETWARNINGLIMIT,
        FKT_SETFILTERMODE, FKT_SETRESET_MODE, FKT_SETERRORFRAME, FKT_GETCANBUS_ERROR_STATUS, FKT_SETGET_CALIBRATION_MSG,
        FKT_GETSTRING, FKT_SAVEEEPROM, FKT_USB_IN_PACKET_DELAY, FKT_TIMESTAMP_PARAM, FKT_ERROR_GEN_NOW} then 4
      else if ty \<in> {FKT_SETLOOKUP_GROUP, FKT_GETREGISTER, FKT_ERROR_GEN_ID, FKT_SET_SOFTFILER} then 12
      else if ty = FKT_SETREGISTER then 16
      else if ty = FKT_SETSTRING then 64
      else if ty = FKT_STRING then 254
      else 0)"

text \<open>A message that is being built: where its buffer starts, its size, where the next record goes and how
  many bytes are used. The buffer begins with the number of records.\<close>

record pcan_usbpro_msg =
  rec_buffer :: nat
  rec_buffer_size :: nat
  rec_buffer_len :: nat
  rec_ptr :: nat

definition pcan_usbpro_msg_init :: "nat \<Rightarrow> nat \<Rightarrow> pcan_usbpro_msg option" where
  "pcan_usbpro_msg_init a n =
     (if n < 4 then None else Some \<lparr>rec_buffer = a, rec_buffer_size = n, rec_buffer_len = n, rec_ptr = a + 4\<rparr>)"

definition pcan_usbpro_msg_init_empty :: "mem \<Rightarrow> nat \<Rightarrow> nat \<Rightarrow> mem \<times> pcan_usbpro_msg option" where
  "pcan_usbpro_msg_init_empty mem a n =
     (case pcan_usbpro_msg_init a n of
        None \<Rightarrow> (mem, None)
      | Some pm \<Rightarrow> (wr mem a (le32 0), Some (pm\<lparr>rec_buffer_len := 4\<rparr>)))"

text \<open>What \<^verbatim>\<open>pcan_usbpro_msg_add_rec\<close> stores behind the type of a record, for the arguments \<open>vs\<close> and the data
  \<open>d\<close>: \<open>None\<close> is a byte that is skipped. The result for a type that is not known is \<open>None\<close>.\<close>

definition arg8 :: "u32 \<Rightarrow> u8 option list" where "arg8 v = [Some (ucast v)]"
definition arg16 :: "u32 \<Rightarrow> u8 option list" where "arg16 v = map Some (le16 (ucast v))"
definition arg32 :: "u32 \<Rightarrow> u8 option list" where "arg32 v = map Some (le32 v)"
definition skip :: "nat \<Rightarrow> u8 option list" where "skip n = replicate n None"

definition rec_body :: "u8 \<Rightarrow> u32 list \<Rightarrow> u8 list \<Rightarrow> u8 option list option" where
  "rec_body ty vs d =
     (if ty \<in> {CANMSG_TX_8, CANMSG_TX_4, CANMSG_TX_0} then
        Some (arg8 (vs ! 0) @ arg8 (vs ! 1) @ arg8 (vs ! 2) @ arg32 (vs ! 3)
              @ map Some (take (if ty = CANMSG_TX_8 then 8 else if ty = CANMSG_TX_4 then 4 else 0) d))
      else if ty \<in> {FKT_GETBAUDRATE, FKT_GETCANBUSACTIVATE, FKT_GETCANBUS_ERROR_STATUS} then Some (arg8 (vs ! 0))
      else if ty \<in> {FKT_SETBAUDRATE, FKT_SETDEVICENR, FKT_GETDEVICENR} then
        Some (arg8 (vs ! 0) @ skip 2 @ arg32 (vs ! 1))
      else if ty \<in> {FKT_SETCANBUSACTIVATE, FKT_SETSILENTMODE, FKT_SETWARNINGLIMIT, FKT_SETFILTERMODE, FKT_SETRESET_MODE,
        FKT_SETERRORFRAME, FKT_TIMESTAMP_PARAM, FKT_ERROR_GEN_NOW} then Some (arg8 (vs ! 0) @ arg16 (vs ! 1))
      else if ty \<in> {FKT_SETLOOKUP_EXPLICIT, FKT_SET_CANLED} then
        Some (arg8 (vs ! 0) @ arg16 (vs ! 1) @ arg32 (vs ! 2))
      else if ty = FKT_SETLOOKUP_GROUP then
        Some (arg8 (vs ! 0) @ arg16 (vs ! 1) @ arg32 (vs ! 2) @ arg32 (vs ! 3))
      else if ty = FKT_SETREGISTER then
        Some (arg8 (vs ! 0) @ skip 2 @ arg32 (vs ! 1) @ arg32 (vs ! 2) @ arg32 (vs ! 3))
      else if ty = FKT_GETREGISTER then Some (arg8 (vs ! 0) @ skip 2 @ arg32 (vs ! 1) @ arg32 (vs ! 2))
      else if ty \<in> {FKT_SETGET_CALIBRATION_MSG, FKT_USB_IN_PACKET_DELAY} then Some (skip 1 @ arg16 (vs ! 0))
      else if ty = FKT_SETGET_BUSLAST_MSG then
        Some (arg8 (vs ! 0) @ skip 1 @ arg8 (vs ! 1) @ skip 2 @ arg16 4096)
      else if ty = FKT_SETSTRING then
        Some (arg8 (vs ! 0) @ arg8 (vs ! 1) @ arg8 (vs ! 2) @ map Some (take 60 d))
      else if ty \<in> {FKT_GETSTRING, FKT_SAVEEEPROM} then Some (arg8 (vs ! 0) @ skip 2)
      else if ty = FKT_STRING then Some (arg8 (vs ! 0) @ skip 2 @ map Some (take 250 d))
      else if ty = FKT_ERROR_GEN_ID then
        Some (arg8 (vs ! 0) @ arg16 (vs ! 1) @ arg32 (vs ! 2) @ arg16 (vs ! 3) @ arg16 (vs ! 4))
      else if ty = FKT_SET_SOFTFILER then Some (arg8 (vs ! 0) @ skip 2 @ arg32 (vs ! 1) @ arg32 (vs ! 2))
      else None)"

definition wr_some :: "mem \<Rightarrow> nat \<Rightarrow> u8 option list \<Rightarrow> mem" where
  "wr_some m a bs = (\<lambda>x. if a \<le> x \<and> x < a + length bs then (case bs ! (x - a) of Some b \<Rightarrow> b | None \<Rightarrow> m x) else m x)"

definition pcan_usbpro_msg_add_rec ::
  "mem \<Rightarrow> pcan_usbpro_msg \<Rightarrow> u8 \<Rightarrow> u32 list \<Rightarrow> u8 list \<Rightarrow> mem \<times> pcan_usbpro_msg" where
  "pcan_usbpro_msg_add_rec mem pm ty vs d =
     (case rec_body ty vs d of
        None \<Rightarrow> (mem, pm)
      | Some body \<Rightarrow>
          let mem = wr_some mem (rec_ptr pm + 1) body;
              mem = wr mem (rec_buffer pm) (le32 (rd32 mem (rec_buffer pm) + 1));
              mem = wr mem (rec_ptr pm) [ty]
          in (mem, pm\<lparr>rec_ptr := rec_ptr pm + 1 + length body, rec_buffer_len := rec_buffer_len pm + 1 + length body\<rparr>))"

section \<open>Commands\<close>

text \<open>The command is submitted, and again when it was not completed in time, three times at most. The status
  of the last transfer is the result. The asynchronous mode of \<^verbatim>\<open>pcan_usbpro_cmd_send_ex\<close> has no caller.\<close>

fun cmd_send_loop :: "nat \<Rightarrow> usb_env \<Rightarrow> usbdev \<Rightarrow> u8 list \<Rightarrow> usbdev \<times> int" where
  "cmd_send_loop 0 env dev bs = (dev, 0)"
| "cmd_send_loop (Suc n) env dev bs =
     (let err = submit_err env (usb_log dev); (timed, st) = cmd_wait env (usb_log dev)
      in if err \<noteq> 0 then (dev\<lparr>usb_log := usb_log dev @ [Cmd_urb bs err False 0]\<rparr>, err)
         else
           let dev = dev\<lparr>usb_log := usb_log dev @ [Cmd_urb bs 0 timed st]\<rparr>
           in if timed \<and> 0 < n then cmd_send_loop n env dev bs else (dev, st))"

definition pcan_usbpro_cmd_send :: "usb_env \<Rightarrow> usbdev \<Rightarrow> pcan_usbpro_msg \<Rightarrow> usbdev \<times> int" where
  "pcan_usbpro_cmd_send env dev pm =
     (if \<not> is_plugged (pdev dev) then (dev, - ENODEV)
      else cmd_send_loop 3 env dev (bytes (cmd_head dev) (rec_buffer pm) (rec_buffer_len pm)))"

fun add_recs :: "mem \<Rightarrow> pcan_usbpro_msg \<Rightarrow> (u8 \<times> u32 list) list \<Rightarrow> mem \<times> pcan_usbpro_msg" where
  "add_recs mem pm [] = (mem, pm)"
| "add_recs mem pm (r # rs) = (let (mem, pm) = pcan_usbpro_msg_add_rec mem pm (fst r) (snd r) [] in add_recs mem pm rs)"

text \<open>The common form of the commands: a message in the buffer of commands, with the given records. The
  buffer is large enough for \<^verbatim>\<open>pcan_usbpro_msg_init_empty\<close>.\<close>

definition pro_command :: "usb_env \<Rightarrow> usbdev \<Rightarrow> (u8 \<times> u32 list) list \<Rightarrow> usbdev \<times> int" where
  "pro_command env dev rs =
     (let (mem, pm) = pcan_usbpro_msg_init_empty (cmd_head dev) 0 (cmd_size dev);
          (mem, pm) = add_recs mem (the pm) rs
      in pcan_usbpro_cmd_send env (dev\<lparr>cmd_head := mem\<rparr>) pm)"

abbreviation (input) chan :: "usbdev \<Rightarrow> u32" where "chan dev \<equiv> of_int (nChannel (pdev dev))"

definition pcan_usbpro_set_can_on :: "usb_env \<Rightarrow> usbdev \<Rightarrow> usbdev \<times> int" where
  "pcan_usbpro_set_can_on env dev =
     pro_command env dev [(FKT_SETGET_BUSLAST_MSG, [chan dev, 1]), (FKT_SETCANBUSACTIVATE, [chan dev, 1])]"

definition pcan_usbpro_set_can_off :: "usb_env \<Rightarrow> usbdev \<Rightarrow> usbdev \<times> int" where
  "pcan_usbpro_set_can_off env dev =
     pro_command env dev [(FKT_SETCANBUSACTIVATE, [chan dev, 0]), (FKT_SETGET_BUSLAST_MSG, [chan dev, 0])]"

definition pcan_usbpro_set_silent_mode :: "usb_env \<Rightarrow> usbdev \<Rightarrow> u32 \<Rightarrow> usbdev \<times> int" where
  "pcan_usbpro_set_silent_mode env dev silent_on = pro_command env dev [(FKT_SETSILENTMODE, [chan dev, silent_on])]"

definition pcan_usbpro_set_filter_mode :: "usb_env \<Rightarrow> usbdev \<Rightarrow> u16 \<Rightarrow> usbdev \<times> int" where
  "pcan_usbpro_set_filter_mode env dev filter_mode = pro_command env dev [(FKT_SETFILTERMODE, [chan dev, ucast filter_mode])]"

abbreviation (input) WAIT_FOR_CALIBRATION_MSG :: u32 where "WAIT_FOR_CALIBRATION_MSG \<equiv> 0x00000001"

definition wait_calibration :: "bool \<Rightarrow> usbdev \<Rightarrow> usbdev" where
  "wait_calibration on dev =
     (let ifc = usb_iface dev
      in dev\<lparr>usb_iface := ifc\<lparr>if_state := (if on then set_flag (if_state ifc) WAIT_FOR_CALIBRATION_MSG
                                            else clr_flag (if_state ifc) WAIT_FOR_CALIBRATION_MSG)\<rparr>\<rparr>)"

text \<open>Calibration messages are requested by the channel 0. The message is built before the state is changed.\<close>

definition pcan_usbpro_calibration_request :: "usb_env \<Rightarrow> usbdev \<Rightarrow> u16 \<Rightarrow> usbdev \<times> int" where
  "pcan_usbpro_calibration_request env dev onoff =
     (let (dev, err) = pro_command env (wait_calibration (onoff \<noteq> 0) dev) [(FKT_SETGET_CALIBRATION_MSG, [ucast onoff])]
      in (if err \<noteq> 0 then wait_calibration (onoff = 0) dev else dev, err))"

definition pcan_usbpro_set_can_led :: "usb_env \<Rightarrow> usbdev \<Rightarrow> u8 \<Rightarrow> u32 \<Rightarrow> usbdev \<times> int" where
  "pcan_usbpro_set_can_led env dev mode timeout = pro_command env dev [(FKT_SET_CANLED, [chan dev, ucast mode, timeout])]"

definition pcan_usbpro_set_device_nr :: "usb_env \<Rightarrow> usbdev \<Rightarrow> u32 \<Rightarrow> usbdev \<times> int" where
  "pcan_usbpro_set_device_nr env dev device_nr = pro_command env dev [(FKT_SETDEVICENR, [chan dev, device_nr])]"

definition pcan_usbpro_set_baudrate :: "usb_env \<Rightarrow> usbdev \<Rightarrow> u32 \<Rightarrow> usbdev \<times> int" where
  "pcan_usbpro_set_baudrate env dev baudrate = pro_command env dev [(FKT_SETBAUDRATE, [chan dev, baudrate])]"

text \<open>Waiting for a record. A message that arrives is the content of the buffer with the length received;
  \<open>None\<close> is a transfer that could not be submitted. The time is over at the end of the list. \<open>st\<close> is the status
  of the transfer when the loop is left.\<close>

datatype found = Found nat | Absent | Unknown

fun find_rec :: "mem \<Rightarrow> nat \<Rightarrow> nat \<Rightarrow> u8 \<Rightarrow> u8 \<Rightarrow> found" where
  "find_rec tmp 0 pc ty ch = Absent"
| "find_rec tmp (Suc n) pc ty ch =
     (if pcan_usbpro_sizeof_rec (tmp pc) = 0 then Unknown
      else if ty = 0 \<or> tmp pc = ty \<and> (ty \<in> {FKT_GETCANBUSACTIVATE, FKT_GETBAUDRATE, FKT_GETDEVICENR} \<longrightarrow> tmp (pc + 1) = ch)
      then Found pc
      else find_rec tmp n (pc + pcan_usbpro_sizeof_rec (tmp pc)) ty ch)"

fun read_rec_loop :: "(mem \<times> nat) option list \<Rightarrow> int \<Rightarrow> nat \<Rightarrow> nat \<Rightarrow> mem \<Rightarrow> mem \<times> int" where
  "read_rec_loop [] st pv maxlen mem = (mem, st)"
| "read_rec_loop (None # as) st pv maxlen mem = (mem, st)"
| "read_rec_loop (Some (tmp, l) # as) st pv maxlen mem =
     (case if 0 < l then find_rec tmp (unat (rd32 tmp 0 AND 0xffff)) 4 (mem pv) (mem (pv + 1)) else Absent of
        Found pc \<Rightarrow> (wr mem pv (bytes tmp pc maxlen), st)
      | Unknown \<Rightarrow> (mem, - EBADMSG)
      | Absent \<Rightarrow> read_rec_loop as st pv maxlen mem)"

abbreviation (input) ENOMEM :: int where "ENOMEM \<equiv> 12"

definition pcan_usbpro_read_rec :: "bool \<Rightarrow> (mem \<times> nat) option list \<Rightarrow> int \<Rightarrow> nat \<Rightarrow> nat \<Rightarrow> mem \<Rightarrow> mem \<times> int" where
  "pcan_usbpro_read_rec nomem as st pv maxlen mem =
     (if nomem then (mem, - ENOMEM) else read_rec_loop as st pv maxlen mem)"

text \<open>The request for the device number has one argument less than the record: \<open>stack\<close> is what is found in its
  place. \<open>old\<close> is what the variable of the caller holds.\<close>

definition pcan_usbpro_get_device_nr ::
  "usb_env \<Rightarrow> u32 \<Rightarrow> (mem \<times> nat) option list \<Rightarrow> int \<Rightarrow> u32 \<Rightarrow> usbdev \<Rightarrow> usbdev \<times> u32 \<times> int" where
  "pcan_usbpro_get_device_nr env stack as st old dev =
     (let (dev, err) = pro_command env dev [(FKT_GETDEVICENR, [chan dev, stack])]
      in if err \<noteq> 0 then (dev, old, err)
         else
           let (mem, err) = pcan_usbpro_read_rec (no_memory env (usb_log dev)) as st 4 8 (cmd_head dev);
               tmp32 = rd32 mem 8;
               dev = dev\<lparr>cmd_head := mem\<rparr>;
               dev = (if tmp32 \<noteq> 0xffffffff
                      then on_pdev (\<lambda>p. p\<lparr>device_alt_num := tmp32, dev_flags := set_flag (dev_flags p) PCAN_DEV_USES_ALT_NUM\<rparr>) dev
                      else dev)
           in (dev, tmp32, err))"

text \<open>Vendor requests: the data that the device returns, or the data unchanged when they are sent to it.\<close>

definition pcan_usb_control_msg :: "usb_env \<Rightarrow> usbdev \<Rightarrow> nat \<Rightarrow> nat \<Rightarrow> u8 list \<Rightarrow> usbdev \<times> u8 list \<times> int" where
  "pcan_usb_control_msg env dev req val d =
     (if no_memory env (usb_log dev) then (dev, d, - ENOMEM)
      else let (r, err) = ctrl_reply env (usb_log dev) in (dev\<lparr>usb_log := usb_log dev @ [Ctrl req val d err]\<rparr>, r, err))"

abbreviation (input) USB_VENDOR_REQUEST_INFO :: nat where "USB_VENDOR_REQUEST_INFO \<equiv> 0"
abbreviation (input) USB_VENDOR_REQUEST_FKT :: nat where "USB_VENDOR_REQUEST_FKT \<equiv> 2"
abbreviation (input) INFO_BOOTLOADER :: nat where "INFO_BOOTLOADER \<equiv> 0"
abbreviation (input) INFO_FIRMWARE :: nat where "INFO_FIRMWARE \<equiv> 1"
abbreviation (input) INTERFACE_DRIVER_LOADED :: nat where "INTERFACE_DRIVER_LOADED \<equiv> 5"

definition pcan_usbpro_request :: "usb_env \<Rightarrow> usbdev \<Rightarrow> nat \<Rightarrow> nat \<Rightarrow> u8 list \<Rightarrow> usbdev \<times> u8 list \<times> int" where
  "pcan_usbpro_request env dev req val d =
     (let d = (if req = USB_VENDOR_REQUEST_FKT then d else replicate (length d) 0);
          (dev, d, err) = pcan_usb_control_msg env dev req val d
      in (dev, d, if err < 0 then err else 0))"

definition pcan_usbpro_driver_loaded :: "usb_env \<Rightarrow> u8 list \<Rightarrow> usbdev \<Rightarrow> u8 \<Rightarrow> bool \<Rightarrow> usbdev \<times> int" where
  "pcan_usbpro_driver_loaded env stack dev can_lin loaded =
     (let (dev, _, err) = pcan_usbpro_request env dev USB_VENDOR_REQUEST_FKT INTERFACE_DRIVER_LOADED
            ([can_lin, if loaded then 1 else 0] @ drop 2 stack)
      in (dev, err))"

definition pcan_usbpro_get_serial_nr :: "usb_env \<Rightarrow> u8 list \<Rightarrow> u32 \<Rightarrow> usbdev \<Rightarrow> usbdev \<times> u32 \<times> int" where
  "pcan_usbpro_get_serial_nr env bi old dev =
     (let (dev, d, err) = pcan_usb_control_msg env dev USB_VENDOR_REQUEST_INFO INFO_BOOTLOADER bi
      in if 0 \<le> err then (dev, rd32 (\<lambda>i. d ! i) 12, 0) else (dev, old, err))"

section \<open>Opening a channel\<close>

definition sja2010_caps :: pcanfd_bittiming_range where
  "sja2010_caps = \<lparr>brp_min = 1, brp_max = 1024, brp_inc = 1, tseg1_min = 1, tseg1_max = 16, tseg2_min = 1, tseg2_max = 8,
     sjw_min = 1, sjw_max = 4\<rparr>"

text \<open>The bit timing register of the device.\<close>

definition ccbt :: "pcan_bittiming \<Rightarrow> u32" where
  "ccbt bt = push_bit 23 (tsam bt) OR push_bit 20 (tseg2 bt - 1) OR push_bit 16 (tseg1 bt - 1) OR push_bit 14 (sjw bt - 1)
     OR (brp bt - 1)"

definition usb_soft_error_active ::
  "timeval \<Rightarrow> timeval \<Rightarrow> (usbdev \<Rightarrow> usbdev \<times> int) \<Rightarrow> pcanfd_rxmsg \<Rightarrow> usbdev \<Rightarrow> usbdev" where
  "usb_soft_error_active now drv wrt stack dev =
     (let (dev, rx) = ucan_error_active wrt dev stack in on_pdev (\<lambda>p. rx_deliver now drv p rx) dev)"

definition pcan_usbpro_open_ex ::
  "usb_env \<Rightarrow> timeval \<Rightarrow> timeval \<Rightarrow> (usbdev \<Rightarrow> usbdev \<times> int) \<Rightarrow> pcanfd_rxmsg \<Rightarrow> usbdev \<Rightarrow> pcanfd_init
     \<Rightarrow> (usbdev \<times> pcanfd_init \<times> int) option" where
  "pcan_usbpro_open_ex env now drv wrt stack dev pfdi =
     (let (dev, err) = pcan_usbpro_set_baudrate env dev (ccbt (nominal pfdi))
      in if err \<noteq> 0 then Some (dev, pfdi, err)
         else
           let (dev, err) = pcan_usbpro_set_silent_mode env dev (init_flags pfdi AND PCANFD_INIT_LISTEN_ONLY)
           in if err \<noteq> 0 then Some (dev, pfdi, err)
              else
                let (dev, err) = pcan_usbpro_set_filter_mode env dev 1
                in if err \<noteq> 0 then Some (dev, pfdi, err)
                   else Some (usb_soft_error_active now drv wrt stack dev, pfdi, 0))"

text \<open>The start and the end of a channel \<open>i\<close>. The last one requests the calibration messages, through the
  channel 0.\<close>

definition pcan_usbpro_ctrl_init :: "usb_env \<Rightarrow> nat \<Rightarrow> usbdev list \<Rightarrow> usbdev list \<times> int" where
  "pcan_usbpro_ctrl_init env i devs =
     (let devs = devs[i := on_pdev (\<lambda>p. p\<lparr>bittiming_caps := sja2010_caps\<rparr>) (devs ! i)];
          (devs, err) = (if i = length devs - 1 then on_dev 0 (\<lambda>d. pcan_usbpro_calibration_request env d 1) devs else (devs, 0))
      in if err \<noteq> 0 then (devs, err)
         else (fst (on_dev i (\<lambda>d. pcan_usbpro_set_can_led env d 0 1) devs), 0))"

definition pcan_usbpro_cleanup :: "usb_env \<Rightarrow> u8 list \<Rightarrow> nat \<Rightarrow> usbdev list \<Rightarrow> usbdev list" where
  "pcan_usbpro_cleanup env stack i devs =
     (let (devs, _) = on_dev i (pcan_usbpro_set_can_off env) devs
      in if i = length devs - 1 then
           let (devs, _) = on_dev 0 (\<lambda>d. pcan_usbpro_calibration_request env d 0) devs
           in fst (on_dev 0 (\<lambda>d. pcan_usbpro_driver_loaded env stack d 0 False) devs)
         else devs)"

section \<open>Sending\<close>

abbreviation (input) MSGTYPE_RTR :: u32 where "MSGTYPE_RTR \<equiv> 0x01"
abbreviation (input) MSGTYPE_EXTENDED :: u32 where "MSGTYPE_EXTENDED \<equiv> 0x02"
abbreviation (input) MSGTYPE_SELFRECEIVE :: u32 where "MSGTYPE_SELFRECEIVE \<equiv> 0x04"
abbreviation (input) MSGTYPE_STATUS :: u32 where "MSGTYPE_STATUS \<equiv> 0x80"

text \<open>The type and the arguments of the record of a frame.\<close>

definition pro_tx_type :: "pcanfd_msg \<Rightarrow> u8" where
  "pro_tx_type m =
     (if has_flag (msg_flags m) MSGTYPE_RTR \<or> data_len m = 0 then CANMSG_TX_0
      else if data_len m \<le> 4 then CANMSG_TX_4 else CANMSG_TX_8)"

definition pro_tx_args :: "int \<Rightarrow> pcanfd_msg \<Rightarrow> u32 list" where
  "pro_tx_args ch m =
     (let len = push_bit 4 (of_int ch) OR (ucast (data_len m) AND 0x0f) :: u8;
          fl = (if has_flag (msg_flags m) MSGTYPE_EXTENDED then 0x02 else 0) :: u8;
          fl = (if has_flag (msg_flags m) MSGTYPE_RTR then fl OR 0x01 else fl);
          slf = has_flag (msg_flags m) MSGTYPE_SELFRECEIVE;
          fl = (if slf then fl OR 0x04 else fl); client = (if slf then 0x80 else 0)
      in [client, ucast fl, ucast len, msg_id m])"

function pro_encode_loop ::
  "pcandev \<Rightarrow> mem \<Rightarrow> pcan_usbpro_msg \<Rightarrow> nat \<Rightarrow> int \<Rightarrow> pcandev \<times> mem \<times> pcan_usbpro_msg \<times> int" where
  "pro_encode_loop p m pm high err =
     (if rec_buffer_len pm < high then
        case pcan_fifo_get True (writeFifo p) of
          (f, err, Some tx) \<Rightarrow>
            (if has_flag (msg_flags (tx_msg tx)) MSGTYPE_STATUS then pro_encode_loop (p\<lparr>writeFifo := f\<rparr>) m pm high err
             else
               let r = pcan_usbpro_msg_add_rec m pm (pro_tx_type (tx_msg tx)) (pro_tx_args (nChannel p) (tx_msg tx)) (msg_data (tx_msg tx))
               in pro_encode_loop (p\<lparr>writeFifo := f, tx_frames_counter := tx_frames_counter p + 1\<rparr>) (fst r) (snd r) high err)
        | (f, err, None) \<Rightarrow> (p\<lparr>writeFifo := f\<rparr>, m, pm, err)
      else (p, m, pm, err))"
  by pat_completeness auto

termination
  by (relation "measure (\<lambda>(p, _). unat (nStored (writeFifo p)))")
    (auto simp: pcan_fifo_get_def unat_pred_u32 word_gt_0 unat_gt_0 intro!: diff_less split: if_splits)

declare pro_encode_loop.simps [simp del]

definition pcan_usbpro_msg_encode :: "usbdev \<Rightarrow> nat \<Rightarrow> nat \<Rightarrow> usbdev \<times> nat \<times> int" where
  "pcan_usbpro_msg_encode dev a n =
     (let rec_max_len = pcan_usbpro_sizeof_rec CANMSG_TX_8
      in if pcan_fifo_empty (writeFifo (pdev dev)) then (dev, 0, - ENODATA)
         else if n < rec_max_len then (dev, 0, - ENOSPC)
         else
           case pcan_usbpro_msg_init_empty (write_buffer dev) a n of
             (_, None) \<Rightarrow> (dev, 0, - ENOSPC)
           | (m, Some pm) \<Rightarrow>
               let (p, m, pm, err) = pro_encode_loop (pdev dev) m pm (n - rec_max_len) 0
               in (dev\<lparr>pdev := p, write_buffer := m\<rparr>, if rd32 m a = 0 then 0 else rec_buffer_len pm, err))"

section \<open>Receiving\<close>

abbreviation (input) SHOULD_WAKEUP :: u32 where "SHOULD_WAKEUP \<equiv> 0x00000001"
abbreviation (input) EOPNOTSUPP :: int where "EOPNOTSUPP \<equiv> 95"

definition clear_wakeup :: "usbdev \<Rightarrow> usbdev" where
  "clear_wakeup dev = dev\<lparr>usb_state := clr_flag (usb_state dev) SHOULD_WAKEUP\<rparr>"

definition wake_up :: "usbdev \<Rightarrow> usbdev" where
  "wake_up dev =
     (if has_flag (usb_state dev) SHOULD_WAKEUP
      then on_pdev (\<lambda>p. signal_in (p\<lparr>dwInterruptCounter := dwInterruptCounter p + 1\<rparr>)) dev else dev)"

text \<open>What the handlers do with the result of \<^verbatim>\<open>pcan_xxxdev_rx\<close>.\<close>

definition usb_posted :: "usbdev \<Rightarrow> pcandev \<times> int \<Rightarrow> usbdev \<times> int" where
  "usb_posted dev r =
     (let dev = dev\<lparr>pdev := fst r\<rparr>
      in (if 0 < snd r then dev\<lparr>usb_state := set_flag (usb_state dev) SHOULD_WAKEUP\<rparr>
          else if snd r < 0 then on_pdev (\<lambda>p. p\<lparr>nLastError := snd r, dwErrorCounter := dwErrorCounter p + 1\<rparr>) dev
          else dev, snd r))"

definition pro_stamp ::
  "timeval \<Rightarrow> u64 \<Rightarrow> usb_if \<Rightarrow> u32 \<Rightarrow> pcandev \<Rightarrow> pcanfd_rxmsg \<Rightarrow> pcandev \<times> pcanfd_rxmsg" where
  "pro_stamp now ns ifc ts p rx =
     (let (p, tv, ok) = pcan_usbpro_timestamp_decode now ns ifc p ts (rx_hwtv rx)
      in (p, rx\<lparr>rx_msg := or_flag ok (PCANFD_HWTIMESTAMP OR PCANFD_TIMESTAMP) (rx_msg rx), rx_hwtv := tv\<rparr>))"

text \<open>The frame of a record at \<open>r\<close>.\<close>

definition canmsg_rx_msg :: "mem \<Rightarrow> nat \<Rightarrow> pcanfd_msg" where
  "canmsg_rx_msg mem r =
     (let n = unat (mem (r + 3) AND 0x0f);
          m = zero_msg\<lparr>msg_type := PCANFD_TYPE_CAN20_MSG, msg_flags := 0, msg_id := rd32 mem (r + 8), data_len := of_nat n\<rparr>;
          m = or_flag (has_flag (mem (r + 2)) 0x01) PCANFD_MSG_RTR m;
          m = or_flag (has_flag (mem (r + 2)) 0x02) PCANFD_MSG_EXT m;
          m = or_flag (has_flag (mem (r + 1)) 0x80) PCANFD_MSG_SLF m
      in m\<lparr>msg_data := bytes mem (r + 12) n @ drop n (msg_data m)\<rparr>)"

definition pcan_usbpro_handle_canmsg_rx ::
  "timeval \<Rightarrow> timeval \<Rightarrow> u64 \<Rightarrow> usb_if \<Rightarrow> mem \<Rightarrow> nat \<Rightarrow> usbdev \<Rightarrow> usbdev \<times> int" where
  "pcan_usbpro_handle_canmsg_rx now drv ns ifc mem r dev =
     (let p = (pdev dev)\<lparr>dwInterruptCounter := dwInterruptCounter (pdev dev) + 1\<rparr>;
          (p, rx) = pro_stamp now ns ifc (rd32 mem (r + 4)) p (zero_rxmsg\<lparr>rx_msg := canmsg_rx_msg mem r\<rparr>)
      in usb_posted dev (post_rx now drv p rx))"

text \<open>The status of a channel; \<open>wrt\<close> starts the transmission.\<close>

definition pro_status ::
  "(usbdev \<Rightarrow> usbdev \<times> int) \<Rightarrow> mem \<Rightarrow> nat \<Rightarrow> usbdev \<Rightarrow> usbdev \<times> pcanfd_rxmsg" where
  "pro_status wrt mem r dev =
     (let st = rd16 mem (r + 2); ef = rd32 mem (r + 8);
          rx = zero_rxmsg\<lparr>rx_msg := zero_msg\<lparr>msg_type := PCANFD_TYPE_NOP\<rparr>\<rparr>;
          (dev, rx) =
            (if has_flag st 0x0002 then let (p, rx, _) = pcan_handle_busoff (pdev dev) rx in (dev\<lparr>pdev := p\<rparr>, rx)
             else
               let p = (pdev dev)\<lparr>rx_error_counter := ucast (drop_bit 16 ef), tx_error_counter := ucast (drop_bit 24 ef)\<rparr>;
                   (p, rx, e) = pcan_handle_error_status p rx (has_flag st 0x0001)
                                  (127 < rx_error_counter p \<or> 127 < tx_error_counter p);
                   dev = dev\<lparr>pdev := p\<rparr>
               in if e = 0 then ucan_error_active wrt dev rx else (dev, rx));
          (dev, rx) =
            (if has_flag st 0x0004
             then let (p, rx) = pcan_handle_error_protocol (pdev dev) (Some rx) PCANFD_RX_OVERFLOW in (dev\<lparr>pdev := p\<rparr>, the rx)
             else (dev, rx))
      in ctrl_if (has_flag st 0x0008) PCANFD_RX_OVERFLOW (dev, rx))"

definition pcan_usbpro_handle_status_err_rx ::
  "timeval \<Rightarrow> timeval \<Rightarrow> u64 \<Rightarrow> (usbdev \<Rightarrow> usbdev \<times> int) \<Rightarrow> usb_if \<Rightarrow> mem \<Rightarrow> nat \<Rightarrow> usbdev \<Rightarrow> usbdev \<times> int" where
  "pcan_usbpro_handle_status_err_rx now drv ns wrt ifc mem r dev =
     (let dev = on_pdev (\<lambda>p. p\<lparr>dwInterruptCounter := dwInterruptCounter p + 1\<rparr>) dev;
          (dev, rx) = pro_status wrt mem r dev
      in if msg_type (rx_msg rx) = PCANFD_TYPE_NOP then (dev, 0)
         else
           let (p, rx) = pro_stamp now ns ifc (rd32 mem (r + 4)) (pdev dev) rx
           in usb_posted dev (post_rx now drv p rx))"

definition pcan_usbpro_handle_buslast_rx :: "timeval \<Rightarrow> timeval \<Rightarrow> mem \<Rightarrow> nat \<Rightarrow> usbdev \<Rightarrow> usbdev \<times> int" where
  "pcan_usbpro_handle_buslast_rx now drv mem r dev =
     (let rx = zero_rxmsg\<lparr>rx_msg := zero_msg\<lparr>msg_type := PCANFD_TYPE_STATUS, msg_id := PCANFD_BUS_LOAD\<rparr>\<rparr>;
          p = (pdev dev)\<lparr>bus_load := drop_bit 12 (10000 * uint (rd16 mem (r + 2)))\<rparr>;
          (p, err) = post_rx now drv p rx; dev = dev\<lparr>pdev := p\<rparr>
      in (if 0 < err then dev\<lparr>usb_state := set_flag (usb_state dev) SHOULD_WAKEUP\<rparr> else dev, err))"

text \<open>One record: the channels, the result, and whether it stops the decoding. \<open>err\<close> is the result of the
  record before, \<open>bfi\<close> the frame number of the kernel when the record at an address is handled.\<close>

definition rec_chan :: "u8 \<Rightarrow> nat" where "rec_chan b = unat (drop_bit 4 b AND 0x0f)"

definition pro_record ::
  "timeval \<Rightarrow> timeval \<Rightarrow> u64 \<Rightarrow> (usbdev \<Rightarrow> usbdev \<times> int) \<Rightarrow> (nat \<Rightarrow> int) \<Rightarrow> mem \<Rightarrow> nat \<Rightarrow> int \<Rightarrow> usbdev list
     \<Rightarrow> (usbdev list \<times> int \<times> bool) option" where
  "pro_record now drv ns wrt bfi mem r err devs =
     (let ty = mem r; ifc = usb_iface (devs ! 0);
          run = (\<lambda>ci stop f. if ci < length devs then let (devs, err) = on_dev ci f devs in Some (devs, err, stop \<and> err < 0)
                             else None)
      in if ty \<in> {CANMSG_RX_8, CANMSG_RX_4, CANMSG_RX_0, CANMSG_RTR_RX} then
           run (rec_chan (mem (r + 3))) True (pcan_usbpro_handle_canmsg_rx now drv ns ifc mem r)
         else if ty = CANMSG_STATUS_ERROR_RX then
           run (rec_chan (mem (r + 1))) True (pcan_usbpro_handle_status_err_rx now drv ns wrt ifc mem r)
         else if ty = CALIBRATION_TIMESTAMP_RX then
           Some (fst (pcan_usbpro_handle_calibration now ns (bfi r) devs (rd32 mem (r + 8)) (rd32 mem (r + 4))), 0, False)
         else if ty = BUSLAST_RX then
           run (rec_chan (mem (r + 1))) False (pcan_usbpro_handle_buslast_rx now drv mem r)
         else Some (devs, err, False))"

text \<open>The loop over the records: the channels, the memory, the pointer, the number of records left, the result,
  and whether it was left by the label \<^verbatim>\<open>fail\<close>. A record that is cut gets a header of its own.\<close>

fun pro_rec_loop ::
  "(mem \<Rightarrow> nat \<Rightarrow> int \<Rightarrow> usbdev list \<Rightarrow> (usbdev list \<times> int \<times> bool) option) \<Rightarrow> mem \<Rightarrow> nat \<Rightarrow> nat \<Rightarrow> nat \<Rightarrow> int \<Rightarrow> usbdev list
     \<Rightarrow> (usbdev list \<times> mem \<times> nat \<times> nat \<times> int \<times> bool) option" where
  "pro_rec_loop record mem ptr msg_end 0 err devs = Some (devs, mem, ptr, 0, err, False)"
| "pro_rec_loop record mem ptr msg_end (Suc n) err devs =
     (let sz = pcan_usbpro_sizeof_rec (mem ptr)
      in if sz = 0 then Some (devs, mem, ptr, Suc n, - EOPNOTSUPP, False)
         else if msg_end < ptr + sz then
           Some (devs, wr mem (ptr - 4) (le32 (of_nat (Suc n))), ptr - 4, Suc n, int (Suc n), False)
         else do {
           (devs, err, stop) \<leftarrow> record mem ptr err devs;
           if stop then Some (devs, mem, ptr, Suc n, err, True)
           else pro_rec_loop record mem (ptr + sz) msg_end n err devs
         })"

definition pcan_usbpro_msg_decode ::
  "timeval \<Rightarrow> timeval \<Rightarrow> u64 \<Rightarrow> (usbdev \<Rightarrow> usbdev \<times> int) \<Rightarrow> (nat \<Rightarrow> int) \<Rightarrow> mem \<Rightarrow> nat \<Rightarrow> nat \<Rightarrow> usbdev list
     \<Rightarrow> (usbdev list \<times> mem \<times> int) option" where
  "pcan_usbpro_msg_decode now drv ns wrt bfi mem addr len devs =
     (let off = frag_rec_offset (usb_iface (devs ! 0)); a = addr - off; l = len + off
      in case pcan_usbpro_msg_init a l of
           None \<Rightarrow> Some (devs, mem, 0)
         | Some pm \<Rightarrow> do {
             (devs, mem, ptr, n, err, failed) \<leftarrow>
               pro_rec_loop (pro_record now drv ns wrt bfi) mem (rec_ptr pm) (a + l) (unat (rd16 mem a)) 0 (map clear_wakeup devs);
             let devs = (if failed then devs
               else set_iface ((usb_iface (devs ! 0))\<lparr>frag_rec_offset := (if 0 < n then a + l - ptr else 0)\<rparr>) devs);
             Some (map wake_up devs, mem, err)
           })"

text \<open>The function pointers of the USB Pro adapter, as \<^verbatim>\<open>pcan_usbpro_init\<close> sets them.\<close>

definition pcan_usbpro_ops ::
  "usb_env \<Rightarrow> timeval \<Rightarrow> timeval \<Rightarrow> (usbdev \<Rightarrow> usbdev \<times> int) \<Rightarrow> pcanfd_rxmsg \<Rightarrow> usb_ops" where
  "pcan_usbpro_ops env now drv wrt stack = \<lparr>ctrl_msg_encode = pcan_usbpro_msg_encode, ctrl_set_bus_on = pcan_usbpro_set_can_on env,
     ctrl_set_bus_off = pcan_usbpro_set_can_off env, ctrl_open = None,
     ctrl_open_fd = Some (pcan_usbpro_open_ex env now drv wrt stack), ctrl_close = None\<rparr>"

text \<open>The start of the adapter: its versions are read, the state of the clock is set, and the device is told.
  The version of the firmware, which is only displayed, is not kept.
  The structures on the stack hold \<open>fi\<close>, \<open>bi\<close>, \<open>ci\<close> and \<open>stack\<close>.\<close>

definition pcan_usbpro_init ::
  "usb_env \<Rightarrow> bool \<Rightarrow> u8 list \<Rightarrow> u8 list \<Rightarrow> u8 list \<Rightarrow> u8 list \<Rightarrow> int \<Rightarrow> usbdev list \<Rightarrow> usbdev list \<times> int" where
  "pcan_usbpro_init env adapter fi bi ci stack bus_fi devs =
     (if \<not> adapter then (devs, - ENOMEM)
      else
        let (d, _, _) = pcan_usbpro_request env (devs ! 0) USB_VENDOR_REQUEST_INFO INFO_FIRMWARE fi;
            (d, r, err) = pcan_usbpro_request env d USB_VENDOR_REQUEST_INFO INFO_BOOTLOADER bi;
            rev = (\<lambda>d. if 0 \<le> err then d\<lparr>ucRevision := r ! 24\<rparr> else d);
            (d, _, _) = pcan_usbpro_request env d USB_VENDOR_REQUEST_INFO 5 ci;
            d = d\<lparr>usb_iface := (usb_iface d)\<lparr>cm_ignore_count := 3, dev_frame_index := - 1, bus_frame_index := bus_fi\<rparr>\<rparr>;
            (d, _) = pcan_usbpro_driver_loaded env stack d 0 True
        in (map rev (devs[0 := d]), 0))"

section \<open>The clock of the device\<close>

text \<open>A calibration message as it arrives: the time of the host, the frame numbers of the bus and of the device,
  and the microseconds of the clock of the device, of which it sends 32 bits.\<close>

record cal_msg =
  cal_now :: timeval
  cal_ns :: u64
  cal_bus :: int
  cal_dfi :: u32
  cal_time :: nat

definition cal_ok :: "cal_msg \<Rightarrow> bool" where
  "cal_ok c \<longleftrightarrow> 0 \<le> cal_bus c \<and> 0 \<le> sint (cal_dfi c)"

definition calibrated :: "cal_msg list \<Rightarrow> usbdev list \<Rightarrow> usbdev list" where
  "calibrated cs devs = foldl (\<lambda>devs c. fst (pcan_usbpro_handle_calibration (cal_now c) (cal_ns c) (cal_bus c) devs
     (of_nat (cal_time c)) (cal_dfi c))) devs cs"

fun close_times :: "nat \<Rightarrow> nat list \<Rightarrow> bool" where
  "close_times t [] \<longleftrightarrow> True"
| "close_times t (n # ns) \<longleftrightarrow> t \<le> n \<and> n < t + 2 ^ 32 \<and> close_times n ns"

definition if_clock :: "nat \<Rightarrow> usb_if \<Rightarrow> bool" where
  "if_clock n ifc \<longleftrightarrow> cm_ignore_count ifc = 0 \<and> 0 \<le> dev_frame_index ifc \<and> if_ts_low ifc = of_nat n \<and> if_ts_high ifc = of_nat (n div 2 ^ 32)"

lemma unat_u32_of_nat: "unat (of_nat n :: u32) = n mod 2 ^ 32"
  by (simp add: unat_of_nat)

lemma u32_less_iff: "(of_nat a :: u32) < of_nat b \<longleftrightarrow> a mod 2 ^ 32 < b mod 2 ^ 32"
  by (simp add: word_less_nat_alt unat_u32_of_nat)

text \<open>Two times that are less than a turn apart: the counter has wrapped when its low part is smaller.\<close>

lemma turn_step:
  fixes t n m :: nat
  assumes "t \<le> n" "n < t + m"
  shows "n div m = (if n mod m < t mod m then t div m + 1 else t div m)"
proof -
  have m: "0 < m" using assms by simp
  have le: "t div m \<le> n div m" using assms(1) by (rule div_le_mono)
  have d: "n = n div m * m + n mod m" "t = t div m * m + t mod m" by simp_all
  have lt: "n mod m < m" "t mod m < m" using m by simp_all
  have "n div m \<le> (t + m) div m" using assms(2) by (intro div_le_mono) simp
  moreover have "(t + m) div m = t div m + 1" using m by (simp add: div_add_self2)
  ultimately have up: "n div m \<le> t div m + 1" by simp
  show ?thesis
  proof (cases "n div m = t div m")
    case True
    then have "\<not> n mod m < t mod m" using assms(1) d by (metis add_le_cancel_left not_less)
    then show ?thesis using True by simp
  next
    case False
    then have e: "n div m = t div m + 1" using le up by linarith
    have "n = t div m * m + m + n mod m" using d(1) e by simp
    then have "n mod m < t mod m" using assms(2) d(2) by linarith
    then show ?thesis using e by simp
  qed
qed

lemma calibration_iface:
  assumes "devs \<noteq> []" "cal_ok c" "cm_ignore_count (usb_iface (devs ! 0)) = 0"
  defines "r \<equiv> fst (pcan_usbpro_handle_calibration (cal_now c) (cal_ns c) (cal_bus c) devs (of_nat (cal_time c)) (cal_dfi c))"
  shows "r \<noteq> []" "dev_frame_index (usb_iface (devs ! 0)) < 0 \<Longrightarrow> if_clock 0 (usb_iface (r ! 0))"
    "if_clock n (usb_iface (devs ! 0)) \<Longrightarrow> n \<le> cal_time c \<Longrightarrow> cal_time c < n + 2 ^ 32 \<Longrightarrow> if_clock (cal_time c) (usb_iface (r ! 0))"
proof -
  let ?i = "usb_iface (devs ! 0)" let ?t = "of_nat (cal_time c) :: u32"
  have b: "\<not> cal_bus c < 0" using assms(2) by (simp add: cal_ok_def)
  show "r \<noteq> []" using assms(1) b
    by (simp add: r_def pcan_usbpro_handle_calibration_def Let_def set_iface_def split_def)
  show "if_clock 0 (usb_iface (r ! 0))" if "dev_frame_index ?i < 0"
    using that assms(1-3) b
    by (simp add: r_def pcan_usbpro_handle_calibration_def Let_def set_iface_def split_def if_clock_def cal_ok_def)
  assume k: "if_clock n ?i" "n \<le> cal_time c" "cal_time c < n + 2 ^ 32"
  then have d: "\<not> dev_frame_index ?i < 0" by (simp add: if_clock_def)
  have iface: "usb_iface (r ! 0) = calibrate (?i\<lparr>bus_frame_index := cal_bus c, dev_frame_index := sint (cal_dfi c)\<rparr>) ?t"
    using assms(1,3) b d
    by (simp add: r_def pcan_usbpro_handle_calibration_def Let_def set_iface_def split_def on_pdev_def)
  show "if_clock (cal_time c) (usb_iface (r ! 0))"
    unfolding iface if_clock_def turn_step [OF k(2,3)] using k(1) assms(2)
    by (simp add: calibrate_def Let_def if_clock_def cal_ok_def u32_less_iff)
qed

lemma calibrated_clock:
  "devs \<noteq> [] \<Longrightarrow> list_all cal_ok cs \<Longrightarrow> if_clock n (usb_iface (devs ! 0)) \<Longrightarrow> close_times n (map cal_time cs)
    \<Longrightarrow> if_clock (last (n # map cal_time cs)) (usb_iface (calibrated cs devs ! 0))"
proof (induction cs arbitrary: devs n)
  case Nil
  then show ?case by (simp add: calibrated_def)
next
  case (Cons c cs)
  let ?r = "fst (pcan_usbpro_handle_calibration (cal_now c) (cal_ns c) (cal_bus c) devs (of_nat (cal_time c)) (cal_dfi c))"
  have m: "cm_ignore_count (usb_iface (devs ! 0)) = 0" using Cons.prems(3) by (simp add: if_clock_def)
  have ok: "cal_ok c" using Cons.prems(2) by simp
  note s = calibration_iface [OF Cons.prems(1) ok m]
  have "if_clock (cal_time c) (usb_iface (?r ! 0))" using s(3) Cons.prems(3,4) by simp
  from Cons.IH [OF s(1) _ this] show ?case using Cons.prems(2,4) by (simp add: calibrated_def)
qed

lemma event_high:
  assumes "if_clock n ifc" "n \<le> e" "e < n + 1000000"
  shows "event_ts_high ifc (of_nat e) = of_nat (e div 2 ^ 32)"
proof -
  let ?m = "2 ^ 32 :: nat" let ?r = "n mod ?m" let ?s = "e mod ?m"
  have lo: "if_ts_low ifc = of_nat n" and hi: "if_ts_high ifc = of_nat (n div ?m)" using assms(1) by (simp_all add: if_clock_def)
  have u: "uint (of_nat e :: u32) = int ?s" by (metis uint_nat unat_u32_of_nat)
  have nx: "(of_nat n + of_int 1000000 :: u32) = of_nat (n + 1000000)" by simp
  have "e < n + ?m" using assms(3) by simp
  note st = turn_step [OF assms(2) this]
  have w: "?s < 1000000 \<and> (n + 1000000) mod ?m < ?r" if "?s < ?r"
  proof -
    have d: "e = e div ?m * ?m + ?s" "n = n div ?m * ?m + ?r" "?r < ?m" by simp_all
    have q: "e div ?m = n div ?m + 1" using st that by simp
    have "e = n div ?m * ?m + ?m + ?s" using d(1) unfolding q by simp
    then have r: "?s + ?m < ?r + 1000000" using d(2) assms(3) by linarith
    have "(n + 1000000) mod ?m = (?r + 1000000) mod ?m" by (simp add: mod_add_left_eq)
    also have "\<dots> = ?r + 1000000 - ?m" using r d(3) by (subst le_mod_geq) auto
    finally have f: "(n + 1000000) mod ?m = ?r + 1000000 - ?m" .
    have "?s < 1000000" using r d(3) by linarith
    moreover have "?r + 1000000 - ?m < ?r" using r by (simp split: nat_diff_split)
    ultimately show ?thesis unfolding f by blast
  qed
  show ?thesis
  proof (cases "?s < ?r")
    case True
    then show ?thesis using w [OF True] st unfolding event_ts_high_def lo hi u nx u32_less_iff by simp
  next
    case False
    then show ?thesis using st unfolding event_ts_high_def lo hi u nx u32_less_iff by simp
  qed
qed

lemma dev_time_parts: "e < 2 ^ 64 \<Longrightarrow> dev_time (of_nat e) (of_nat (e div 2 ^ 32)) = of_nat e"
proof -
  assume e: "e < 2 ^ 64"
  have h: "e div 2 ^ 32 < 2 ^ 32" using e by (simp add: less_mult_imp_div_less)
  have "ucast (of_nat (e div 2 ^ 32) :: u32) = (of_nat (e div 2 ^ 32) :: u64)"
    using h by (metis mod_less of_nat_unat unat_u32_of_nat)
  moreover have "ucast (of_nat e :: u32) = (of_nat (e mod 2 ^ 32) :: u64)" by (metis of_nat_unat unat_u32_of_nat)
  moreover have "of_nat e = (of_nat (e div 2 ^ 32 * 2 ^ 32 + e mod 2 ^ 32) :: u64)" by (simp only: div_mult_mod_eq)
  ultimately show ?thesis by (simp only: dev_time_def push_bit_eq_mult of_nat_add of_nat_mult of_nat_power of_nat_numeral)
qed

text \<open>C16. The clock of the USB Pro and FD adapters is extended exactly to 64 bits: after a first calibration
  message, and any further ones that are less than \<open>2 ^ 32\<close> microseconds apart, the 32 bits of the time of an
  event that follows the last of them within a second give the time of the device, whether or not the counter
  has wrapped in between.\<close>

theorem usbpro_clock_exact:
  assumes "devs \<noteq> []" "cm_ignore_count (usb_iface (devs ! 0)) = 0" "dev_frame_index (usb_iface (devs ! 0)) < 0"
    and "list_all cal_ok (c # cs)" "cs \<noteq> []" "close_times 0 (map cal_time cs)"
    and "cal_time (last cs) \<le> e" "e < cal_time (last cs) + 1000000" "e < 2 ^ 64"
  shows "dev_time (of_nat e) (event_ts_high (usb_iface (calibrated (c # cs) devs ! 0)) (of_nat e)) = of_nat e"
proof -
  let ?r = "fst (pcan_usbpro_handle_calibration (cal_now c) (cal_ns c) (cal_bus c) devs (of_nat (cal_time c)) (cal_dfi c))"
  have c: "cal_ok c" "list_all cal_ok cs" using assms(4) by simp_all
  note s = calibration_iface [OF assms(1) c(1) assms(2)]
  have "if_clock (last (0 # map cal_time cs)) (usb_iface (calibrated cs ?r ! 0))"
    by (rule calibrated_clock [OF s(1) c(2) s(2) [OF assms(3)] assms(6)])
  then have "if_clock (cal_time (last cs)) (usb_iface (calibrated (c # cs) devs ! 0))"
    using assms(5) by (simp add: calibrated_def last_map)
  from event_high [OF this assms(7,8)] show ?thesis using dev_time_parts [OF assms(9)] by simp
qed

section \<open>What a message holds\<close>

lemma wr_bytes: "wr m a (bytes m a n) = m"
  by (rule ext) (auto simp: wr_def)

lemma wr_rd32: "wr m a (le32 (rd32 m a)) = m"
  by (simp add: le32_rd32 wr_bytes)

lemma wr_some_all: "wr_some m a (map Some bs) = wr m a bs"
  by (rule ext) (auto simp: wr_some_def wr_def)

lemma wr_commute: "a + length xs \<le> b \<or> b + length ys \<le> a \<Longrightarrow> wr (wr m a xs) b ys = wr (wr m b ys) a xs"
  by (rule ext) (auto simp: wr_def)

lemma wr_over: "length xs = length ys \<Longrightarrow> wr (wr m a xs) a ys = wr m a ys"
  by (rule ext) (auto simp: wr_def)

lemma rd32_wr_other: "a + 4 \<le> b \<Longrightarrow> rd32 (wr m b bs) a = rd32 m a"
  by (simp add: rd32_def wr_def)

lemma rd32_wr_same: "rd32 (wr m a (le32 x)) a = x"
  by (rule rd32_le32) (metis bytes_wr_same length_le32)

text \<open>The record of a frame, as the device reads it: the type, which tells how many data bytes follow, the client, the
  flags, the channel with the length, the identifier and the data.\<close>

definition pro_tx_data :: "pcanfd_msg \<Rightarrow> u8 list" where
  "pro_tx_data m = take (if has_flag (msg_flags m) PCANFD_MSG_RTR \<or> data_len m = 0 then 0 else if data_len m \<le> 4 then 4 else 8) (msg_data m)"

definition pro_tx_record :: "int \<Rightarrow> pcanfd_msg \<Rightarrow> u8 list" where
  "pro_tx_record ch m =
     [if pro_tx_data m = [] then 0x43 else if length (pro_tx_data m) \<le> 4 then 0x42 else 0x41,
      if has_flag (msg_flags m) PCANFD_MSG_SLF then 0x80 else 0,
      (if has_flag (msg_flags m) PCANFD_MSG_RTR then 1 else 0) + (if has_flag (msg_flags m) PCANFD_MSG_EXT then 2 else 0)
        + (if has_flag (msg_flags m) PCANFD_MSG_SLF then 4 else 0),
      16 * of_int ch OR (ucast (data_len m) AND 15)] @ le32 (msg_id m) @ pro_tx_data m"

lemma pro_tx_type_data:
  "length (msg_data m) = 64 \<Longrightarrow> pro_tx_type m = (if pro_tx_data m = [] then 0x43 else if length (pro_tx_data m) \<le> 4 then 0x42 else 0x41)"
  by (auto simp: pro_tx_type_def pro_tx_data_def)

lemma pro_tx_record_hd: "length (msg_data m) = 64 \<Longrightarrow> pro_tx_record ch m = pro_tx_type m # tl (pro_tx_record ch m)"
  by (simp add: pro_tx_record_def pro_tx_type_data)

lemma ucast_u8_u32: "ucast (ucast x :: u32) = (x :: u8)"
  by (rule bit_word_eqI) (simp add: bit_simps)

lemma pro_tx_body:
  "length (msg_data m) = 64 \<Longrightarrow>
   rec_body (pro_tx_type m) (pro_tx_args ch m) (msg_data m) = Some (map Some (tl (pro_tx_record ch m)))"
  by (simp add: rec_body_def pro_tx_record_def pro_tx_data_def pro_tx_type_def pro_tx_args_def arg8_def arg32_def Let_def
      push_bit_eq_mult mult.commute [of "16::u8"] ucast_u8_u32)

lemma length_pro_tx: "length (msg_data m) = 64 \<Longrightarrow> length (pro_tx_record ch m) = pcan_usbpro_sizeof_rec (pro_tx_type m)"
  by (simp add: pro_tx_record_def pro_tx_data_def pro_tx_type_def pcan_usbpro_sizeof_rec_def)

lemma add_tx:
  fixes ch m
  assumes "rec_buffer pm + 4 \<le> rec_ptr pm" "length (msg_data m) = 64"
  defines "r \<equiv> pro_tx_record ch m"
  shows "pcan_usbpro_msg_add_rec mem pm (pro_tx_type m) (pro_tx_args ch m) (msg_data m) =
    (wr (wr mem (rec_buffer pm) (le32 (rd32 mem (rec_buffer pm) + 1))) (rec_ptr pm) r,
     pm\<lparr>rec_ptr := rec_ptr pm + length r, rec_buffer_len := rec_buffer_len pm + length r\<rparr>)"
proof -
  have r: "r = pro_tx_type m # tl r" unfolding r_def by (rule pro_tx_record_hd) fact
  let ?h = "le32 (rd32 mem (rec_buffer pm) + 1)"
  have "wr (wr (wr mem (rec_ptr pm + 1) (tl r)) (rec_buffer pm) ?h) (rec_ptr pm) [pro_tx_type m]
      = wr (wr (wr mem (rec_buffer pm) ?h) (rec_ptr pm + 1) (tl r)) (rec_ptr pm) [pro_tx_type m]"
    using assms(1) by (subst wr_commute) auto
  also have "\<dots> = wr (wr (wr mem (rec_buffer pm) ?h) (rec_ptr pm) [pro_tx_type m]) (rec_ptr pm + 1) (tl r)"
    by (rule wr_commute) simp
  also have "\<dots> = wr (wr mem (rec_buffer pm) ?h) (rec_ptr pm) ([pro_tx_type m] @ tl r)"
    using wr_append [of "wr mem (rec_buffer pm) ?h" "rec_ptr pm" "[pro_tx_type m]" "tl r"] by simp
  finally have w: "wr (wr (wr mem (rec_ptr pm + 1) (tl r)) (rec_buffer pm) ?h) (rec_ptr pm) [pro_tx_type m]
      = wr (wr mem (rec_buffer pm) ?h) (rec_ptr pm) r" using r by simp
  have "length r = Suc (length (tl r))" using r by (metis length_Cons)
  moreover have "rd32 (wr mem (rec_ptr pm + 1) (tl r)) (rec_buffer pm) = rd32 mem (rec_buffer pm)"
    using assms(1) by (intro rd32_wr_other) simp
  ultimately show ?thesis
    unfolding pcan_usbpro_msg_add_rec_def pro_tx_body [OF assms(2)] using w r_def by (simp add: wr_some_all Let_def)
qed

definition pro_encoded ::
  "pcandev \<Rightarrow> mem \<Rightarrow> pcan_usbpro_msg \<Rightarrow> nat \<Rightarrow> int \<Rightarrow> u8 list list \<Rightarrow> pcandev \<times> mem \<times> pcan_usbpro_msg \<times> int \<Rightarrow> bool" where
  "pro_encoded p m pm high err rs r \<longleftrightarrow>
     (\<exists>w. let k = taken (int high) (rec_buffer_len pm) rs; bs = concat (take k rs) in
        r = (p\<lparr>writeFifo := w, tx_frames_counter := tx_frames_counter p + of_nat k\<rparr>,
             wr (wr m (rec_buffer pm) (le32 (rd32 m (rec_buffer pm) + of_nat k))) (rec_ptr pm) bs,
             pm\<lparr>rec_ptr := rec_ptr pm + length bs, rec_buffer_len := rec_buffer_len pm + length bs\<rparr>,
             if rec_buffer_len pm + length bs < high then - ENODATA else if k = 0 then err else 0) \<and>
        ring_inv w \<and> fifo_items w = drop k (fifo_items (writeFifo p)))"

lemma pro_same_dev: "p\<lparr>writeFifo := writeFifo p, tx_frames_counter := tx_frames_counter p\<rparr> = (p :: pcandev)"
  by simp

lemma pro_encode_stop:
  assumes "pro_encode_loop p m pm high err = (p, m, pm, e)" "ring_inv (writeFifo p)" "taken (int high) (rec_buffer_len pm) rs = 0"
    "e = (if rec_buffer_len pm < high then - ENODATA else err)"
  shows "pro_encoded p m pm high err rs (pro_encode_loop p m pm high err)"
  unfolding pro_encoded_def assms(1,3) Let_def using assms(2,4)
  by (intro exI [of _ "writeFifo p"]) (simp add: wr_rd32)

lemma pro_encode_loop_ok:
  assumes "ring_inv (writeFifo p)" "rec_buffer pm + 4 \<le> rec_ptr pm"
    and "list_all (\<lambda>x. \<not> has_flag (msg_flags (tx_msg x)) MSGTYPE_STATUS \<and> length (msg_data (tx_msg x)) = 64) (fifo_items (writeFifo p))"
  shows "pro_encoded p m pm high err (map (\<lambda>x. pro_tx_record (nChannel p) (tx_msg x)) (fifo_items (writeFifo p)))
     (pro_encode_loop p m pm high err)"
  using assms
proof (induction "fifo_items (writeFifo p)" arbitrary: p m pm err)
  case Nil
  note it = Nil.hyps [symmetric]
  have "pcan_fifo_get True (writeFifo p) = (writeFifo p, - ENODATA, None)" using ring.get_none [OF Nil.prems(1) it] .
  then have "pro_encode_loop p m pm high err = (p, m, pm, if rec_buffer_len pm < high then - ENODATA else err)"
    by (subst pro_encode_loop.simps) simp
  then show ?case using Nil.prems(1) it by (intro pro_encode_stop) simp_all
next
  case (Cons x xs)
  note it = Cons.hyps(2) [symmetric]
  let ?f = "\<lambda>x. pro_tx_record (nChannel p) (tx_msg x)" let ?b = "rec_buffer pm"
  obtain w where w: "pcan_fifo_get True (writeFifo p) = (w, 0, Some x)" "ring_inv w" "fifo_items w = xs"
    using ring.get_item [OF Cons.prems(1) it] by blast
  show ?case
  proof (cases "rec_buffer_len pm < high")
    case False
    then have "pro_encode_loop p m pm high err = (p, m, pm, err)" by (subst pro_encode_loop.simps) simp
    then show ?thesis using False Cons.prems(1) it by (intro pro_encode_stop) simp_all
  next
    case True
    let ?p = "p\<lparr>writeFifo := w, tx_frames_counter := tx_frames_counter p + 1\<rparr>"
    let ?m = "wr (wr m ?b (le32 (rd32 m ?b + 1))) (rec_ptr pm) (?f x)"
    let ?pm = "pm\<lparr>rec_ptr := rec_ptr pm + length (?f x), rec_buffer_len := rec_buffer_len pm + length (?f x)\<rparr>"
    have ns: "\<not> has_flag (msg_flags (tx_msg x)) MSGTYPE_STATUS" "length (msg_data (tx_msg x)) = 64"
      using Cons.prems(3) it by simp_all
    have step: "pro_encode_loop p m pm high err = pro_encode_loop ?p ?m ?pm high 0"
      using True w(1) ns(1) add_tx [OF Cons.prems(2) ns(2)] by (subst pro_encode_loop.simps) (simp add: Let_def)
    let ?k = "taken (int high) (rec_buffer_len ?pm) (map ?f xs)" let ?bs = "concat (take ?k (map ?f xs))"
    have "pro_encoded ?p ?m ?pm high 0 (map ?f (fifo_items (writeFifo ?p))) (pro_encode_loop p m pm high err)"
      unfolding step using Cons.hyps(1) [of ?p ?pm ?m 0] w(2,3) Cons.prems(2,3) it by simp
    then obtain v where v: "pro_encode_loop p m pm high err =
        (?p\<lparr>writeFifo := v, tx_frames_counter := tx_frames_counter ?p + of_nat ?k\<rparr>,
         wr (wr ?m ?b (le32 (rd32 ?m ?b + of_nat ?k))) (rec_ptr ?pm) ?bs,
         ?pm\<lparr>rec_ptr := rec_ptr ?pm + length ?bs, rec_buffer_len := rec_buffer_len ?pm + length ?bs\<rparr>,
         if rec_buffer_len ?pm + length ?bs < high then - ENODATA else 0)"
        "ring_inv v" "fifo_items v = drop ?k xs"
      unfolding pro_encoded_def Let_def using w(3) by (auto simp del: length_concat split: if_splits)
    have rd: "rd32 ?m ?b = rd32 m ?b + 1"
      using Cons.prems(2) by (simp add: rd32_wr_other rd32_wr_same)
    have "wr (wr ?m ?b (le32 (rd32 ?m ?b + of_nat ?k))) (rec_ptr ?pm) ?bs
        = wr (wr (wr (wr m ?b (le32 (rd32 m ?b + 1))) ?b (le32 (rd32 ?m ?b + of_nat ?k))) (rec_ptr pm) (?f x)) (rec_ptr ?pm) ?bs"
      using Cons.prems(2) by (subst wr_commute [of "rec_ptr pm"]) auto
    also have "\<dots> = wr (wr m ?b (le32 (rd32 m ?b + of_nat (Suc ?k)))) (rec_ptr pm) (?f x @ ?bs)"
      unfolding rd using wr_append [of "wr m ?b (le32 (rd32 m ?b + 1 + of_nat ?k))" "rec_ptr pm" "?f x" ?bs]
      by (simp add: wr_over add.assoc)
    finally have mem: "wr (wr ?m ?b (le32 (rd32 ?m ?b + of_nat ?k))) (rec_ptr ?pm) ?bs
        = wr (wr m ?b (le32 (rd32 m ?b + of_nat (Suc ?k)))) (rec_ptr pm) (?f x @ ?bs)" .
    have k: "taken (int high) (rec_buffer_len pm) (map ?f (x # xs)) = Suc ?k" using True by simp
    show ?thesis
      unfolding pro_encoded_def Let_def it k v(1) mem
      using v(2,3) by (intro exI [of _ v]) (simp add: add.assoc)
  qed
qed

lemma taken_limit:
  assumes "list_all (\<lambda>r. length r \<le> l) rs" "0 < l"
  shows "pos + length (concat (take (taken tp pos rs) rs)) \<le> max pos (nat (tp + int l - 1))"
  using assms
proof (induction tp pos rs rule: taken.induct)
  case (2 tp pos r rs)
  show ?case
  proof (cases "int pos < tp")
    case True
    then have "pos + length r \<le> nat (tp + int l - 1)" using "2.prems" by auto
    then show ?thesis using "2.IH" [OF True] "2.prems" True by (simp add: max_def split: if_splits del: length_concat)
  qed simp
qed simp

lemma taken_le: "taken tp pos rs \<le> length rs"
  by (induction tp pos rs rule: taken.induct) auto

lemma message_memory:
  assumes "m = wr (wr (wr b a (le32 z)) a (le32 c)) (a + 4) bs"
  shows "bytes m a (4 + length bs) = le32 c @ bs" "x < a \<or> a + 4 + length bs \<le> x \<Longrightarrow> m x = b x" "rd32 m a = c"
proof -
  have m: "m = wr b a (le32 c @ bs)" using wr_append [of b a "le32 c" bs] by (simp add: assms wr_over)
  show "bytes m a (4 + length bs) = le32 c @ bs"
    using bytes_wr_same [of b a "le32 c @ bs"] by (simp add: m)
  show "x < a \<or> a + 4 + length bs \<le> x \<Longrightarrow> m x = b x" by (auto simp: m wr_def)
  show "rd32 m a = c" unfolding assms by (simp add: rd32_wr_other rd32_wr_same)
qed

text \<open>C14. One call of the encoder of the USB Pro adapter moves the longest prefix of the transmit queue whose records
  begin before the mark into a message: the number of records and the records, in the order of the queue. The
  message lies within the buffer, the rest of the queue and the memory around the message stay as they are, and
  the result tells whether the queue was emptied with room left.\<close>

theorem usbpro_message_exact:
  fixes dev a n rs
  defines "xs \<equiv> fifo_items (writeFifo (pdev dev))"
    and "rs \<equiv> map (\<lambda>x. pro_tx_record (nChannel (pdev dev)) (tx_msg x)) (fifo_items (writeFifo (pdev dev)))"
  assumes "ring_inv (writeFifo (pdev dev))" "21 \<le> n" "xs \<noteq> []"
    and "list_all (\<lambda>x. \<not> has_flag (msg_flags (tx_msg x)) MSGTYPE_STATUS \<and> length (msg_data (tx_msg x)) = 64) xs"
  shows "\<exists>dev' k bs. k = taken (int n - 16) 4 rs \<and> bs = concat (take k rs) \<and> 0 < k \<and> 4 + length bs \<le> n \<and>
     pcan_usbpro_msg_encode dev a n = (dev', 4 + length bs, if 4 + length bs < n - 16 then - ENODATA else 0) \<and>
     bytes (write_buffer dev') a (4 + length bs) = le32 (of_nat k) @ bs \<and>
     (\<forall>x. x < a \<or> a + 4 + length bs \<le> x \<longrightarrow> write_buffer dev' x = write_buffer dev x) \<and>
     ring_inv (writeFifo (pdev dev')) \<and> fifo_items (writeFifo (pdev dev')) = drop k xs \<and>
     tx_frames_counter (pdev dev') = tx_frames_counter (pdev dev) + of_nat k"
proof -
  let ?p = "pdev dev" let ?m = "wr (write_buffer dev) a (le32 0)" let ?k = "taken (int n - 16) 4 rs" let ?bs = "concat (take ?k rs)"
  let ?pm = "\<lparr>rec_buffer = a, rec_buffer_size = n, rec_buffer_len = 4, rec_ptr = a + 4\<rparr>"
  have n: "int (n - 16) = int n - 16" using assms(4) by simp
  have "list_all (\<lambda>r. length r \<le> 16) rs"
    using assms(6) by (auto simp: list_all_iff rs_def xs_def length_pro_tx pcan_usbpro_sizeof_rec_def pro_tx_type_def)
  then have len: "4 + length ?bs \<le> n"
    using taken_limit [of 16 rs 4 "int n - 16"] assms(4) by (simp add: max_def split: if_splits del: length_concat)
  have k0: "0 < ?k" using assms(4,5) unfolding rs_def xs_def by (cases "fifo_items (writeFifo ?p)") auto
  have "?k \<le> unat (nStored (writeFifo ?p))" using taken_le [of "int n - 16" 4 rs] by (simp add: rs_def)
  then have "?k < 2 ^ 32" using le_less_trans [OF _ unat_u32_less] by simp
  then have knz: "(of_nat ?k :: u32) \<noteq> 0" using k0 by (metis mod_less nat_less_le unat_0 unat_u32_of_nat)
  have rm: "rd32 ?m a = 0" by (rule rd32_wr_same)
  from pro_encode_loop_ok [OF assms(3) _ assms(6) [unfolded xs_def], of ?pm ?m "n - 16" 0]
  obtain w where w: "pro_encode_loop ?p ?m ?pm (n - 16) 0 =
      (?p\<lparr>writeFifo := w, tx_frames_counter := tx_frames_counter ?p + of_nat ?k\<rparr>,
       wr (wr ?m a (le32 (of_nat ?k))) (a + 4) ?bs, ?pm\<lparr>rec_ptr := a + 4 + length ?bs, rec_buffer_len := 4 + length ?bs\<rparr>,
       if 4 + length ?bs < n - 16 then - ENODATA else 0)"
      "ring_inv w" "fifo_items w = drop ?k xs"
    unfolding pro_encoded_def Let_def xs_def rs_def n using rm k0 by (auto simp: rs_def simp del: length_concat split: if_splits)
  let ?m' = "wr (wr ?m a (le32 (of_nat ?k))) (a + 4) ?bs"
  note mm = message_memory [of ?m' "write_buffer dev" a 0 "of_nat ?k" ?bs, OF HOL.refl]
  have ne: "\<not> pcan_fifo_empty (writeFifo ?p)"
    using assms(5) length_fifo_items [of "writeFifo ?p"] by (auto simp: pcan_fifo_empty_def xs_def simp del: length_fifo_items)
  have sz: "pcan_usbpro_sizeof_rec CANMSG_TX_8 = 16" by (simp add: pcan_usbpro_sizeof_rec_def)
  let ?d = "dev\<lparr>pdev := ?p\<lparr>writeFifo := w, tx_frames_counter := tx_frames_counter ?p + of_nat ?k\<rparr>, write_buffer := ?m'\<rparr>"
  have r: "pcan_usbpro_msg_encode dev a n = (?d, 4 + length ?bs, if 4 + length ?bs < n - 16 then - ENODATA else 0)"
    unfolding pcan_usbpro_msg_encode_def sz pcan_usbpro_msg_init_empty_def pcan_usbpro_msg_init_def
    using ne assms(4) w(1) mm(3) knz by (simp add: Let_def del: length_concat)
  show ?thesis
    by (rule exI [of _ ?d], rule exI [of _ ?k], rule exI [of _ ?bs])
      (use r mm(1,2) k0 len w(2,3) in \<open>simp del: length_concat\<close>)
qed

section \<open>One write transfer at a time\<close>

lemma pro_same_counter:
  "\<exists>w c. p\<lparr>writeFifo := f\<rparr> = (p :: pcandev)\<lparr>writeFifo := w, tx_frames_counter := c\<rparr>"
  "\<exists>w c. p = (p :: pcandev)\<lparr>writeFifo := w, tx_frames_counter := c\<rparr>"
  by (rule exI [of _ f], rule exI [of _ "tx_frames_counter p"], simp)
    (rule exI [of _ "writeFifo p"], rule exI [of _ "tx_frames_counter p"], simp)

lemma pro_encode_loop_fields:
  "\<exists>w c. fst (pro_encode_loop p m pm high err) = p\<lparr>writeFifo := w, tx_frames_counter := c\<rparr>"
proof (induction p m pm high err rule: pro_encode_loop.induct)
  case (1 p m pm high err)
  obtain f e x where g: "pcan_fifo_get True (writeFifo p) = (f, e, x)" by (metis surj_pair)
  show ?case
  proof (cases "rec_buffer_len pm < high")
    case True
    show ?thesis
    proof (cases x)
      case None
      then show ?thesis using True g by (subst pro_encode_loop.simps) (simp add: pro_same_counter)
    next
      case (Some tx)
      note ih = "1.IH" [OF True g [symmetric] HOL.refl Some]
      show ?thesis
      proof (cases "has_flag (msg_flags (tx_msg tx)) MSGTYPE_STATUS")
        case s: True
        then show ?thesis using ih(1) [OF s] True g Some by (subst pro_encode_loop.simps) auto
      next
        case s: False
        then show ?thesis using ih(2) [OF s HOL.refl] True g Some by (subst pro_encode_loop.simps) (auto simp: Let_def)
      qed
    qed
  next
    case False
    then show ?thesis using pro_same_counter(2) [of p] by (subst pro_encode_loop.simps) simp
  qed
qed

interpretation usbpro: usb_encoder pcan_usbpro_msg_encode
proof
  fix dev :: usbdev and a n
  let ?m = "wr (write_buffer dev) a (le32 0)"
  let ?pm = "\<lparr>rec_buffer = a, rec_buffer_size = n, rec_buffer_len = 4, rec_ptr = a + 4\<rparr>"
  obtain w c where "fst (pro_encode_loop (pdev dev) ?m ?pm (n - 16) 0) = (pdev dev)\<lparr>writeFifo := w, tx_frames_counter := c\<rparr>"
    using pro_encode_loop_fields by blast
  then show "engine_view (fst (pcan_usbpro_msg_encode dev a n)) = engine_view dev"
    unfolding pcan_usbpro_msg_encode_def pcan_usbpro_msg_init_empty_def pcan_usbpro_msg_init_def
    by (auto simp: Let_def engine_view_def split_def pcan_usbpro_sizeof_rec_def)
qed

text \<open>A channel of a USB Pro adapter never has two write transfers in flight: the transmit engine is marked as
  started exactly when one is under way on a plugged channel, in every state that tasks, completions with any
  status and unplugging can lead to.\<close>

theorem usbpro_one_transfer:
  assumes "usb_reach env (pcan_usbpro_ops env now drv wrt stack) dev0 dev" "engine_inv dev0"
  shows "engine_inv dev"
  by (rule usbpro.reach_inv [OF assms(1) _ assms(2)]) (simp add: pcan_usbpro_ops_def)

section \<open>The layout of records\<close>


section \<open>Messages in several packets\<close>

lemma mem_from:
  assumes "\<forall>x \<ge> r. mem x = mem' x"
  shows "mem r = mem' r" "mem (r + k) = mem' (r + k)" "rd16 mem (r + k) = rd16 mem' (r + k)"
    "rd32 mem (r + k) = rd32 mem' (r + k)" "bytes mem (r + k) n = bytes mem' (r + k) n"
  using assms by (auto simp: rd16_def rd32_def intro!: bytes_cong)

lemma handlers_from:
  assumes "\<forall>x \<ge> r. mem x = mem' x"
  shows "pcan_usbpro_handle_canmsg_rx now drv ns ifc mem r = pcan_usbpro_handle_canmsg_rx now drv ns ifc mem' r"
    "pcan_usbpro_handle_status_err_rx now drv ns wrt ifc mem r = pcan_usbpro_handle_status_err_rx now drv ns wrt ifc mem' r"
    "pcan_usbpro_handle_buslast_rx now drv mem r = pcan_usbpro_handle_buslast_rx now drv mem' r"
proof -
  note m = mem_from [of r mem mem', OF assms]
  have "canmsg_rx_msg mem r = canmsg_rx_msg mem' r" unfolding canmsg_rx_msg_def m(2-5) ..
  then show "pcan_usbpro_handle_canmsg_rx now drv ns ifc mem r = pcan_usbpro_handle_canmsg_rx now drv ns ifc mem' r"
    unfolding pcan_usbpro_handle_canmsg_rx_def m(2-5) by presburger
  have "pro_status wrt mem r = pro_status wrt mem' r" unfolding pro_status_def m(3,4) ..
  then show "pcan_usbpro_handle_status_err_rx now drv ns wrt ifc mem r = pcan_usbpro_handle_status_err_rx now drv ns wrt ifc mem' r"
    unfolding pcan_usbpro_handle_status_err_rx_def m(3,4) by presburger
  show "pcan_usbpro_handle_buslast_rx now drv mem r = pcan_usbpro_handle_buslast_rx now drv mem' r"
    unfolding pcan_usbpro_handle_buslast_rx_def m(3) ..
qed

lemma record_from:
  assumes "\<forall>x \<ge> r. mem x = mem' x"
  shows "pro_record now drv ns wrt bfi mem r = pro_record now drv ns wrt bfi mem' r"
proof -
  note m = mem_from [of r mem mem', OF assms] and h = handlers_from [of r mem mem', OF assms]
  show ?thesis unfolding pro_record_def m(1,2,4) h ..
qed

text \<open>What a record does to the channels does not depend on the result of the record before.\<close>

lemma record_err:
  "map_option (\<lambda>(d, e, s). (d, s)) (pro_record now drv ns wrt bfi mem r err devs)
     = map_option (\<lambda>(d, e, s). (d, s)) (pro_record now drv ns wrt bfi mem r err' devs)"
  by (simp add: pro_record_def Let_def split_def)

definition loop_result ::
  "(usbdev list \<times> mem \<times> nat \<times> nat \<times> int \<times> bool) option \<Rightarrow> (usbdev list \<times> nat \<times> nat \<times> bool) option" where
  "loop_result = map_option (\<lambda>(devs, _, ptr, n, _, failed). (devs, ptr, n, failed))"

lemma rec_loop_from:
  assumes "\<forall>x \<ge> ptr. mem x = mem' x"
  shows "loop_result (pro_rec_loop (pro_record now drv ns wrt bfi) mem ptr e n err devs)
     = loop_result (pro_rec_loop (pro_record now drv ns wrt bfi) mem' ptr e n err' devs)"
  using assms
proof (induction n arbitrary: ptr err err' devs)
  case 0
  then show ?case by (simp add: loop_result_def)
next
  case (Suc n)
  let ?R = "pro_record now drv ns wrt bfi"
  have ty: "mem ptr = mem' ptr" and R: "?R mem ptr = ?R mem' ptr" using Suc.prems record_from [of ptr mem mem'] by auto
  have e: "map_option (\<lambda>(d, e, s). (d, s)) (?R mem' ptr err devs) = map_option (\<lambda>(d, e, s). (d, s)) (?R mem' ptr err' devs)"
    by (rule record_err)
  have ih: "loop_result (pro_rec_loop ?R mem (ptr + k) e n x d) = loop_result (pro_rec_loop ?R mem' (ptr + k) e n y d)" for k x y d
    by (rule Suc.IH) (use Suc.prems in auto)
  show ?case using e ih
    by (cases "?R mem' ptr err devs"; cases "?R mem' ptr err' devs")
      (auto simp: ty R Let_def loop_result_def split: if_splits)
qed

lemma rec_loop_cut:
  assumes "pro_rec_loop R mem ptr e1 n err devs = Some (devs1, mem1, p1, n1, int n1, False)" "0 < n1" "4 \<le> ptr" "ptr \<le> e1" "e1 \<le> e2"
  shows "n1 \<le> n \<and> mem1 = wr mem p1 (le32 (of_nat n1)) \<and> ptr \<le> p1 + 4 \<and> p1 + 4 \<le> e1 \<and>
    (\<exists>err'. pro_rec_loop R mem ptr e2 n err devs = pro_rec_loop R mem (p1 + 4) e2 n1 err' devs1)"
  using assms(1,3,4)
proof (induction n arbitrary: ptr err devs)
  case 0
  then show ?case using assms(2) by simp
next
  case (Suc n)
  let ?sz = "pcan_usbpro_sizeof_rec (mem ptr)"
  have nz: "?sz \<noteq> 0" using Suc.prems(1) assms(2) by (auto simp: Let_def split: if_splits)
  show ?case
  proof (cases "e1 < ptr + ?sz")
    case True
    then show ?thesis using Suc.prems nz by (auto simp: Let_def)
  next
    case False
    then obtain d e where r: "R mem ptr err devs = Some (d, e, False)"
      "pro_rec_loop R mem (ptr + ?sz) e1 n e d = Some (devs1, mem1, p1, n1, int n1, False)"
      using Suc.prems(1) nz by (auto simp: Let_def bind_eq_Some_conv split: if_splits)
    have whole: "pro_rec_loop R mem ptr e2 (Suc n) err devs = pro_rec_loop R mem (ptr + ?sz) e2 n e d"
      using nz False r(1) assms(5) by (simp add: Let_def)
    show ?thesis unfolding whole using Suc.IH [OF r(2)] Suc.prems(2) False by auto
  qed
qed

lemma rd16_le32: "rd16 (wr m a (le32 x)) a = ucast x"
proof -
  have "rd16 (wr m a (le32 x)) a = ucast (ucast x :: u8) OR push_bit 8 (ucast (ucast (drop_bit 8 x) :: u8))"
    by (simp add: rd16_def wr_def le32_def)
  also have "\<dots> = ucast x" by (rule bit_word_eqI) (auto simp: bit_simps)
  finally show ?thesis .
qed

lemma small_count: "n < 65536 \<Longrightarrow> unat (ucast (of_nat n :: u32) :: u16) = n"
  by (simp add: unsigned_ucast_eq unat_of_nat take_bit_eq_mod)

lemma iface_kept [simp]: "usb_iface (wake_up d) = usb_iface d"
  by (simp add: wake_up_def on_pdev_def)


section \<open>Frames\<close>

text \<open>The record of a frame that the device has sent and returns: the same client, flags and length.\<close>

definition pro_rx_record :: "u8 \<Rightarrow> u32 \<Rightarrow> int \<Rightarrow> pcanfd_msg \<Rightarrow> u8 list" where
  "pro_rx_record ty ts ch m = [ty] @ map (\<lambda>i. ucast (pro_tx_args ch m ! i)) [0, 1, 2] @ le32 ts @ le32 (msg_id m)
     @ (if has_flag (msg_flags m) MSGTYPE_RTR then [] else take (unat (data_len m)) (msg_data m))"

definition pro_frame :: "pcanfd_msg \<Rightarrow> bool" where
  "pro_frame m \<longleftrightarrow> data_len m \<le> 8 \<and> length (msg_data m) = 64"

lemma pro_arg_bytes:
  fixes m ch
  defines "fl \<equiv> ucast (pro_tx_args ch m ! 1) :: u8" and "cl \<equiv> ucast (pro_tx_args ch m ! 0) :: u8"
  shows "has_flag fl 0x01 = has_flag (msg_flags m) MSGTYPE_RTR" "has_flag fl 0x02 = has_flag (msg_flags m) MSGTYPE_EXTENDED"
    "has_flag cl 0x80 = has_flag (msg_flags m) MSGTYPE_SELFRECEIVE"
  by (simp_all add: fl_def cl_def pro_tx_args_def Let_def has_flag_def)

lemma pro_len_byte:
  fixes m ch
  defines "b \<equiv> ucast (pro_tx_args ch m ! 2) :: u8"
  assumes "data_len m \<le> 8" "0 \<le> ch" "ch < 16"
  shows "unat (b AND 0x0f) = unat (data_len m)" "rec_chan b = nat ch"
proof -
  have b: "b = push_bit 4 (of_int ch) OR (ucast (data_len m) AND 0x0f)" 
    by (rule bit_word_eqI) (auto simp: b_def pro_tx_args_def Let_def bit_simps)
  have m15: "(0x0f :: u8) = mask 4" by (simp add: mask_eq_exp_minus_1)
  have "b AND 0x0f = ucast (data_len m) AND 0x0f"
    unfolding b m15 by (rule bit_word_eqI) (auto simp: bit_simps)
  then show "unat (b AND 0x0f) = unat (data_len m)" using usb_len_nibble [OF assms(2)] by simp
  have "drop_bit 4 b AND 0x0f = (of_int ch :: u8) AND 0x0f"
    unfolding b m15 by (rule bit_word_eqI) (auto simp: bit_simps)
  also have "\<dots> = of_int ch"
  proof -
    have "(of_int ch :: u8) AND 0x0f = take_bit 4 (of_int ch)" by (simp add: take_bit_eq_mask mask_eq_exp_minus_1)
    also have "\<dots> = of_int (take_bit 4 ch)" by (simp add: take_bit_of_int)
    also have "take_bit 4 ch = ch" using assms(3,4) by (simp add: take_bit_int_eq_self)
    finally show ?thesis .
  qed
  finally show "rec_chan b = nat ch" using assms(3,4) by (simp add: rec_chan_def unat_eq_nat_uint word_of_int_inverse)
qed

lemma three_flags:
  "or_flag (has_flag f 4) 4 (or_flag (has_flag f 2) 2 (or_flag (has_flag f 1) 1 (z\<lparr>msg_flags := 0\<rparr>)))
     = z\<lparr>msg_flags := f AND 7\<rparr>"
proof -
  have "f AND 7 = (f AND 1) OR (f AND 2) OR (f AND 4)" by (simp flip: bit.conj_disj_distrib)
  then have "f AND 7 = (if has_flag f 1 then 1 else 0) OR (if has_flag f 2 then 2 else 0) OR (if has_flag f 4 then 4 else 0)"
    using and_pow [of f 0] and_pow [of f 1] and_pow [of f 2] by simp
  then show ?thesis by (simp add: or_flag_def set_flag_def)
qed

text \<open>A frame that is sent comes back unchanged: the record that the device returns for it is decoded to a message
  of the same channel, identifier and length, with the remote, extended and self-receive flags and the data of the
  frame. A remote frame has no data in its record; what follows the record is taken for them.\<close>

theorem usbpro_frame_roundtrip:
  fixes m n
  defines "n \<equiv> unat (data_len m)"
  assumes "pro_frame m" "0 \<le> ch" "ch < 16"
    and "bytes mem r (length (pro_rx_record ty ts ch m)) = pro_rx_record ty ts ch m"
  shows "rec_chan (mem (r + 3)) = nat ch \<and> rd32 mem (r + 4) = ts \<and>
    canmsg_rx_msg mem r = zero_msg\<lparr>msg_type := PCANFD_TYPE_CAN20_MSG, msg_id := msg_id m, data_len := data_len m,
      msg_flags := msg_flags m AND 7,
      msg_data := (if has_flag (msg_flags m) PCANFD_MSG_RTR then bytes mem (r + 12) n else take n (msg_data m)) @ replicate (64 - n) 0\<rparr>"
proof -
  let ?a = "\<lambda>i. ucast (pro_tx_args ch m ! i) :: u8"
  let ?d = "if has_flag (msg_flags m) MSGTYPE_RTR then [] else take n (msg_data m)"
  have rec: "pro_rx_record ty ts ch m = [ty, ?a 0, ?a 1, ?a 2] @ le32 ts @ le32 (msg_id m) @ ?d"
    by (simp add: pro_rx_record_def n_def)
  have l4: "length [ty, ?a 0, ?a 1, ?a 2] = 4" and s: "r + 4 + 4 = r + 8" "r + 8 + 4 = r + 12" by simp_all
  have p: "bytes mem r 4 = [ty, ?a 0, ?a 1, ?a 2]" "bytes mem (r + 4) 4 = le32 ts" "bytes mem (r + 8) 4 = le32 (msg_id m)"
      "bytes mem (r + 12) (length ?d) = ?d"
    using assms(5) [unfolded rec bytes_parts l4 length_le32 s] by blast+
  have "n \<le> 8" using assms(2) by (simp add: pro_frame_def n_def word_le_nat_alt)
  then have n: "n \<le> 64" "length ?d = (if has_flag (msg_flags m) MSGTYPE_RTR then 0 else n)" using assms(2) by (simp_all add: pro_frame_def)
  have h: "mem (r + 1) = ?a 0" "mem (r + 2) = ?a 1" "mem (r + 3) = ?a 2"
    using p(1) nth_bytes [of 1 4 mem r] nth_bytes [of 2 4 mem r] nth_bytes [of 3 4 mem r] by simp_all
  have w: "rd32 mem (r + 4) = ts" "rd32 mem (r + 8) = msg_id m"
    using rd32_le32 [of mem "r + 4" ts] rd32_le32 [of mem "r + 8" "msg_id m"] p(2,3) by simp_all
  have d: "\<not> has_flag (msg_flags m) MSGTYPE_RTR \<Longrightarrow> bytes mem (r + 12) n = take n (msg_data m)"
    using p(4) n by simp
  have len: "data_len m \<le> 8" using assms(2) by (simp add: pro_frame_def)
  note l = pro_len_byte [OF len assms(3,4)]
  have flags: "or_flag (has_flag (mem (r + 1)) 0x80) 4 (or_flag (has_flag (mem (r + 2)) 0x02) 2 (or_flag (has_flag (mem (r + 2)) 0x01) 1
      (z\<lparr>msg_flags := 0\<rparr>))) = z\<lparr>msg_flags := msg_flags m AND 7\<rparr>" for z
    unfolding h pro_arg_bytes by (rule three_flags)
  let ?z = "zero_msg\<lparr>msg_type := PCANFD_TYPE_CAN20_MSG, msg_id := msg_id m, data_len := data_len m\<rparr>"
  have nn: "unat (mem (r + 3) AND 0x0f) = n" using l(1) h(3) by (simp add: n_def)
  then have z: "zero_msg\<lparr>msg_type := PCANFD_TYPE_CAN20_MSG, msg_flags := 0, msg_id := rd32 mem (r + 8),
      data_len := of_nat n\<rparr> = ?z\<lparr>msg_flags := 0\<rparr>" using w(2) by (simp add: n_def)
  have "canmsg_rx_msg mem r = (?z\<lparr>msg_flags := msg_flags m AND 7\<rparr>)\<lparr>msg_data := bytes mem (r + 12) n @ drop n (msg_data zero_msg)\<rparr>"
    unfolding canmsg_rx_msg_def Let_def z flags nn by (simp add: zero_msg_def)
  moreover have "drop n (msg_data zero_msg) = replicate (64 - n) 0" by (simp add: zero_msg_def)
  ultimately show ?thesis using l(2) w(1) h(3) d by simp
qed

section \<open>Defects\<close>

text \<open>A record for a channel that the adapter does not have is not refused: the channel number of a received
  frame is used as an index without a check.\<close>

theorem usbpro_wild_channel:
  assumes "mem r \<in> {CANMSG_RX_8, CANMSG_RX_4, CANMSG_RX_0, CANMSG_RTR_RX}" "length devs \<le> rec_chan (mem (r + 3))"
  shows "pro_record now drv ns wrt bfi mem r err devs = None"
  using assms by (auto simp: pro_record_def Let_def)

text \<open>After an error of a handler, the decoder goes on with the offset of the packet before: when a packet that
  begins with the rest of a cut record ends with an error, the next packet is decoded as if it were the continuation
  of that record again, at the wrong address.\<close>

theorem usbpro_stale_offset:
  fixes off a l
  assumes "0 < off" "frag_rec_offset (usb_iface (devs ! 0)) = off" "devs1 \<noteq> []" "4 \<le> len + off"
    and "pro_rec_loop (pro_record now drv ns wrt bfi) mem (addr - off + 4) (addr - off + (len + off)) (unat (rd16 mem (addr - off))) 0
        (map clear_wakeup devs) = Some (devs1, mem1, p, n, err, True)"
    and "frag_rec_offset (usb_iface (devs1 ! 0)) = off"
  shows "\<exists>devs2. pcan_usbpro_msg_decode now drv ns wrt bfi mem addr len devs = Some (devs2, mem1, err) \<and>
     frag_rec_offset (usb_iface (devs2 ! 0)) = off"
  using assms by (simp add: pcan_usbpro_msg_decode_def pcan_usbpro_msg_init_def Let_def)

section \<open>Witnesses\<close>

definition pro_dev :: usbdev where
  "pro_dev = usb_dev\<lparr>usb_iface := (usb_iface usb_dev)\<lparr>cm_ignore_count := 0\<rparr>\<rparr>"

definition demo_cal :: "nat \<Rightarrow> cal_msg" where
  "demo_cal t = \<lparr>cal_now = zero_timeval, cal_ns = 0, cal_bus = 5, cal_dfi = 5, cal_time = t\<rparr>"

definition pro_mem :: mem where
  "pro_mem = wr (\<lambda>_. 0) 0 (le32 2 @ [0x43, 0, 0, 0, 0, 0, 0, 0] @ [0x43, 0, 0, 0, 0, 0, 0, 0])"

theorem usbpro_clock_exact_witness:
  "dev_time (of_nat 4295300000) (event_ts_high (usb_iface (calibrated (map demo_cal [100, 4294000000, 4294900000]) [pro_dev] ! 0))
     (of_nat 4295300000)) = of_nat 4295300000"
  using usbpro_clock_exact [of "[pro_dev]" "demo_cal 100" "map demo_cal [4294000000, 4294900000]" 4295300000]
  by (simp add: pro_dev_def usb_dev_def demo_cal_def cal_ok_def)

theorem usbpro_message_exact_witness:
  "\<exists>dev'. pcan_usbpro_msg_encode usb_dev 0 64 = (dev', 16, - ENODATA) \<and> fifo_items (writeFifo (pdev dev')) = [] \<and>
     bytes (write_buffer dev') 0 4 = le32 1"
proof -
  let ?x = "\<lparr>tx_msg = usb_msg, tx_tv = zero_timeval\<rparr>"
  let ?rs = "map (\<lambda>x. pro_tx_record (nChannel (pdev usb_dev)) (tx_msg x)) [?x]"
  have l: "length (pro_tx_record ch usb_msg) = 12" for ch
    using length_pro_tx [of usb_msg ch] by (simp add: usb_msg_def pro_tx_type_def pcan_usbpro_sizeof_rec_def zero_msg_def has_flag_def)
  have k: "taken (int 64 - 16) 4 ?rs = 1" by simp
  have "list_all (\<lambda>x. \<not> has_flag (msg_flags (tx_msg x)) MSGTYPE_STATUS \<and> length (msg_data (tx_msg x)) = 64) [?x]"
    by (simp add: usb_msg_def has_flag_def)
  then obtain dev' bs where d: "bs = concat (take 1 ?rs)"
      "pcan_usbpro_msg_encode usb_dev 0 64 = (dev', 4 + length bs, if 4 + length bs < 64 - 16 then - ENODATA else 0)"
      "bytes (write_buffer dev') 0 (4 + length bs) = le32 (of_nat 1) @ bs" "fifo_items (writeFifo (pdev dev')) = drop 1 [?x]"
    using usbpro_message_exact [of usb_dev 64 0, unfolded usb_dev_simps usb_pdev_queue(2), folded usb_dev_simps(1), unfolded k]
      usb_pdev_queue(1) unfolding usb_dev_simps(1) by auto
  have b: "length bs = 12" using d(1) l by simp
  have "bytes (write_buffer dev') 0 4 = le32 1" using d(3) bytes_append [of "write_buffer dev'" 0 4 12] by (simp add: b)
  then show ?thesis using d(2,4) b by auto
qed



theorem usbpro_frame_roundtrip_witness:
  "let mem = wr (\<lambda>_. 0) 0 (pro_rx_record 0x81 5 1 usb_msg)
   in rec_chan (mem 3) = 1 \<and> msg_id (canmsg_rx_msg mem 0) = 0x1234567 \<and> msg_flags (canmsg_rx_msg mem 0) = 2"
proof -
  let ?mem = "wr (\<lambda>_. 0) 0 (pro_rx_record 0x81 5 1 usb_msg)"
  have f: "pro_frame usb_msg" by (simp add: pro_frame_def usb_msg_def)
  have b: "bytes ?mem 0 (length (pro_rx_record 0x81 5 1 usb_msg)) = pro_rx_record 0x81 5 1 usb_msg" by (rule bytes_wr_same)
  have r: "rec_chan (?mem (0 + 3)) = nat 1" "msg_id (canmsg_rx_msg ?mem 0) = msg_id usb_msg"
      "msg_flags (canmsg_rx_msg ?mem 0) = msg_flags usb_msg AND 7"
    using usbpro_frame_roundtrip [OF f _ _ b] by simp_all
  then show ?thesis unfolding Let_def by (simp add: usb_msg_def)
qed

end
