(* ===== verification/Pcan_Usbfd.thy ===== *)
theory Pcan_Usbfd
  imports Pcan_Usbpro
begin

text \<open>
  The PCAN-USB FD, Pro FD, X6 and Chip adapters (\<^verbatim>\<open>driver/src/pcanfd_usb.c\<close>): uCAN commands are collected in
  the buffer of a channel and sent over the command pipe in packets; the records of the device are dispatched to
  the handlers of this file, with the clock of the USB Pro. As in that theory, the channels of an interface are
  a list, and the members of the interface are kept with the channel 0. \<^verbatim>\<open>UCAN_USB_START_CM_AT_OPEN\<close> and
  \<^verbatim>\<open>PCAN_DECODE_BUS_LOAD_TS\<close> are not defined; \<^verbatim>\<open>PCAN_USB_CMD_PER_DEV\<close> is.
\<close>

section \<open>Commands\<close>

abbreviation (input) PCAN_UFD_LOSPD_PKT_SIZE :: nat where "PCAN_UFD_LOSPD_PKT_SIZE \<equiv> 64"
abbreviation (input) UCAN_USB_CMD_CLK_SET :: u16 where "UCAN_USB_CMD_CLK_SET \<equiv> 0x80"
abbreviation (input) UCAN_USB_CMD_DEVID_SET :: u16 where "UCAN_USB_CMD_DEVID_SET \<equiv> 0x81"
abbreviation (input) UCAN_USB_CMD_LED_SET :: u16 where "UCAN_USB_CMD_LED_SET \<equiv> 0x86"
abbreviation (input) UCAN_USB_LED_DEF :: u8 where "UCAN_USB_LED_DEF \<equiv> 0x00"
abbreviation (input) UCAN_USB_OPTION_CALIBRATION :: u16 where "UCAN_USB_OPTION_CALIBRATION \<equiv> 0x8000"
abbreviation (input) UCAN_USB_OPTION_FAST_FWD :: u16 where "UCAN_USB_OPTION_FAST_FWD \<equiv> 0x2000"

text \<open>What a call finds around it: the USB calls of the kernel, whether the link has high speed, the module
  parameter \<^verbatim>\<open>fast_fwd\<close>, the time, the frame number of the bus when a record is handled, and what is on the stack.\<close>

record fd_env =
  fe_usb :: usb_env
  fe_high :: bool
  fast_fwd :: bool
  fe_now :: timeval
  fe_drv :: timeval
  fe_ns :: u64
  fe_frame :: "nat \<Rightarrow> int"
  fe_tv :: pcan_timeval
  fe_rx :: pcanfd_rxmsg

text \<open>The loop that sends the packets of the buffer, from \<open>ptr\<close> on, with \<open>i\<close> failures so far. A packet that was
  not taken in time is sent again.\<close>

function send_packets :: "usb_env \<Rightarrow> usbdev \<Rightarrow> nat \<Rightarrow> nat \<Rightarrow> nat \<Rightarrow> usbdev \<times> int" where
  "send_packets env dev ptr packet_len i =
     (let err = out_err env (usb_log dev);
          dev = dev\<lparr>usb_log := usb_log dev @ [Cmd_out (bytes (cmd_head dev) ptr packet_len) err]\<rparr>
      in if err \<noteq> 0 then
           (if err = - ETIMEDOUT \<and> i + 1 < 3 \<and> 0 < packet_len then send_packets env dev ptr packet_len (i + 1) else (dev, err))
         else
           let dev = dev\<lparr>cmd_len := cmd_len dev - packet_len\<rparr>;
               next = (if cmd_len dev < PCAN_UFD_LOSPD_PKT_SIZE then cmd_len dev else packet_len)
           in if 0 < next then send_packets env dev (ptr + packet_len) next i else (dev, 0))"
  by pat_completeness auto

termination
  by (relation "measures [\<lambda>(_, dev, _, _, _). cmd_len dev, \<lambda>(_, _, _, l, _). if l = 0 then 1 else 0, \<lambda>(_, _, _, _, i). 3 - i]")
    (auto split: if_splits)

declare send_packets.simps [simp del]

definition pcan_usbfd_send_ucan_cmd :: "fd_env \<Rightarrow> usbdev \<Rightarrow> usbdev \<times> int" where
  "pcan_usbfd_send_ucan_cmd e dev =
     (if \<not> is_plugged (pdev dev) then (dev, - ENODEV)
      else
        let dev = (if cmd_len dev < cmd_size dev then fst (ucan_add_cmd UCAN_CMD_END_OF_COLLECTION dev) else dev);
            packet_len = (if \<not> fe_high e \<and> PCAN_UFD_LOSPD_PKT_SIZE < cmd_len dev then PCAN_UFD_LOSPD_PKT_SIZE else cmd_len dev)
        in send_packets (fe_usb e) dev 0 packet_len 0)"

definition ucan_usb_set_can_led :: "fd_env \<Rightarrow> usbdev \<Rightarrow> u8 \<Rightarrow> usbdev \<times> int" where
  "ucan_usb_set_can_led e dev m =
     pcan_usbfd_send_ucan_cmd e (fst (put_field 2 [m] (ucan_add_cmd UCAN_USB_CMD_LED_SET (ucan_init_cmd dev))))"

definition ucan_usb_set_en_option :: "fd_env \<Rightarrow> usbdev \<Rightarrow> u16 \<Rightarrow> u16 \<Rightarrow> usbdev \<times> int" where
  "ucan_usb_set_en_option e dev msk usb_mask =
     pcan_usbfd_send_ucan_cmd e (fst (put_field 6 (le16 usb_mask) (ucan_add_cmd_set_en_option (ucan_init_cmd dev) msk)))"

definition ucan_usb_clr_dis_option :: "fd_env \<Rightarrow> usbdev \<Rightarrow> u16 \<Rightarrow> u16 \<Rightarrow> usbdev \<times> int" where
  "ucan_usb_clr_dis_option e dev msk usb_mask =
     pcan_usbfd_send_ucan_cmd e (fst (put_field 6 (le16 usb_mask) (ucan_add_cmd_clr_dis_option (ucan_init_cmd dev) msk)))"

definition pcan_usbfd_set_device_nr :: "fd_env \<Rightarrow> usbdev \<Rightarrow> u32 \<Rightarrow> usbdev \<times> int" where
  "pcan_usbfd_set_device_nr e dev device_nr =
     pcan_usbfd_send_ucan_cmd e (fst (put_field 4 (le32 device_nr) (ucan_add_cmd UCAN_USB_CMD_DEVID_SET (ucan_init_cmd dev))))"

definition ucan_usb_set_clck_domain :: "fd_env \<Rightarrow> usbdev \<Rightarrow> u32 \<Rightarrow> usbdev \<times> int" where
  "ucan_usb_set_clck_domain e dev clk_mode =
     pcan_usbfd_send_ucan_cmd e (fst (put_field 2 [ucast clk_mode] (ucan_add_cmd UCAN_USB_CMD_CLK_SET (ucan_init_cmd dev))))"

text \<open>The result of the command is ignored.\<close>

definition pcan_usbfd_set_clk_domain :: "fd_env \<Rightarrow> usbdev \<Rightarrow> pcanfd_init \<Rightarrow> usbdev \<times> int" where
  "pcan_usbfd_set_clk_domain e dev pfdi =
     (let set = (\<lambda>m. (fst (ucan_usb_set_clck_domain e dev m), 0)); hz = clock_Hz pfdi
      in if hz = 20 * MHz then set 5 else if hz = 24 * MHz then set 4 else if hz = 30 * MHz then set 3
         else if hz = 40 * MHz then set 2 else if hz = 60 * MHz then set 1 else if hz = 80 * MHz then set 0
         else (dev, - EINVAL))"

section \<open>Information on the device\<close>

text \<open>The firmware information (28 bytes) is read into the buffer of commands: versions of the boot loader at 5,
  of the hardware at 8, of the firmware at 9, the numbers of two channels at 12 and the serial number at 20. The
  version of the firmware, which is only displayed, is not kept.\<close>

definition VER_NUM :: "u8 \<Rightarrow> u8 \<Rightarrow> u8 \<Rightarrow> u32" where
  "VER_NUM x y z = push_bit 24 (ucast x) OR push_bit 16 (ucast y) OR push_bit 8 (ucast z)"

definition read_fw_info :: "fd_env \<Rightarrow> usbdev \<Rightarrow> usbdev \<times> int" where
  "read_fw_info e dev =
     (let (dev, r, err) = pcan_usbpro_request (fe_usb e) dev USB_VENDOR_REQUEST_INFO INFO_FIRMWARE (bytes (cmd_head dev) 0 28)
      in (dev\<lparr>cmd_head := wr (wr (cmd_head dev) 0 (replicate 28 0)) 0 (take 28 r)\<rparr>, err))"

definition pcan_usbfd_get_fw_info :: "fd_env \<Rightarrow> usbdev list \<Rightarrow> usbdev list \<times> u32 option \<times> int" where
  "pcan_usbfd_get_fw_info e devs =
     (let (devs, err) = on_dev 0 (read_fw_info e) devs; m = cmd_head (devs ! 0)
      in if 0 \<le> err then
           let devs = set_iface ((usb_iface (devs ! 0))\<lparr>dwSerialNumber := rd32 m 20\<rparr>) devs;
               devs = map (\<lambda>i. (devs ! i)\<lparr>ucRevision := m 8, ucHardcodedDevNr := ucast (rd32 m (12 + 4 * i))\<rparr>) [0..<length devs]
           in (devs, Some (VER_NUM (m 5) (m 6) (m 7)), 0)
         else (devs, None, err))"

definition pcan_usbfd_get_device_nr :: "fd_env \<Rightarrow> u32 \<Rightarrow> usbdev \<Rightarrow> usbdev \<times> u32 \<times> int" where
  "pcan_usbfd_get_device_nr e old dev =
     (let (dev, err) = read_fw_info e dev
      in if err \<noteq> 0 then (dev, old, err)
         else
           let tmp32 = rd32 (cmd_head dev) (12 + 4 * nat (nChannel (pdev dev)))
           in (if tmp32 \<noteq> 0xffffffff
               then on_pdev (\<lambda>p. p\<lparr>device_alt_num := tmp32, dev_flags := set_flag (dev_flags p) PCAN_DEV_USES_ALT_NUM\<rparr>) dev
               else dev, tmp32, 0))"

definition pcan_usbfd_get_serial_nr :: "usbdev list \<Rightarrow> u32 \<times> int" where
  "pcan_usbfd_get_serial_nr devs = (dwSerialNumber (usb_iface (devs ! 0)), 0)"

section \<open>Pins of the PCAN-Chip\<close>

text \<open>A read from the command pipe: what arrives is stored at the start of the buffer.\<close>

definition read_rsp :: "usb_env \<Rightarrow> usbdev \<Rightarrow> usbdev \<times> nat \<times> int" where
  "read_rsp env dev =
     (let (r, err) = in_reply env (usb_log dev); r = take (cmd_size dev) r
      in (dev\<lparr>usb_log := usb_log dev @ [Cmd_in r err], cmd_head := wr (cmd_head dev) 0 r\<rparr>, length r, err))"

text \<open>The loop waits for the response, three times at most; each response is followed by one more read that
  completes it. \<open>ok\<close> tells whether the memory of the user takes the value.\<close>

fun get_io_loop :: "nat \<Rightarrow> usb_env \<Rightarrow> bool \<Rightarrow> u16 \<Rightarrow> int \<Rightarrow> usbdev \<Rightarrow> usbdev \<times> u32 option \<times> int" where
  "get_io_loop 0 env ok op_req err dev = (dev, None, err)"
| "get_io_loop (Suc n) env ok op_req err dev =
     (let (dev, l, err) = read_rsp env dev
      in if err < 0 then (dev, None, err)
         else if l = 0 then get_io_loop n env ok op_req err dev
         else
           let (dev, _, _) = read_rsp env dev
           in if uint (rd16 (cmd_head dev) 0) \<noteq> uint op_req + 1 then get_io_loop n env ok op_req err dev
              else if ok then (dev, Some (rd32 (cmd_head dev) 4), err) else (dev, None, - EFAULT))"

definition pcan_usb_chip_get_io :: "fd_env \<Rightarrow> bool \<Rightarrow> u16 \<Rightarrow> usbdev \<Rightarrow> usbdev \<times> u32 option \<times> int" where
  "pcan_usb_chip_get_io e ok op_req dev =
     (let (dev, err) = pcan_usbfd_send_ucan_cmd e (fst (ucan_add_cmd op_req (ucan_init_cmd dev)))
      in if err \<noteq> 0 then (dev, None, err) else get_io_loop 3 (fe_usb e) ok op_req err dev)"

text \<open>\<open>None\<close> is a value that could not be read from the memory of the user.\<close>

definition pcan_usb_chip_set_io :: "fd_env \<Rightarrow> u32 option \<Rightarrow> u16 \<Rightarrow> usbdev \<Rightarrow> usbdev \<times> int" where
  "pcan_usb_chip_set_io e v op_req dev =
     (case v of
        None \<Rightarrow> (dev, - EFAULT)
      | Some io_cfg \<Rightarrow>
          (case put_field 4 (le32 io_cfg) (ucan_add_cmd op_req (ucan_init_cmd dev)) of
             (dev, None) \<Rightarrow> (dev, - ENOMEM)
           | (dev, Some _) \<Rightarrow> pcan_usbfd_send_ucan_cmd e dev))"

definition pcan_usb_chip_get_dig_cfg :: "fd_env \<Rightarrow> bool \<Rightarrow> usbdev \<Rightarrow> usbdev \<times> u32 option \<times> int" where
  "pcan_usb_chip_get_dig_cfg e ok = pcan_usb_chip_get_io e ok 0xca"

definition pcan_usb_chip_set_dig_cfg :: "fd_env \<Rightarrow> u32 option \<Rightarrow> usbdev \<Rightarrow> usbdev \<times> int" where
  "pcan_usb_chip_set_dig_cfg e v = pcan_usb_chip_set_io e v 0x8d"

definition pcan_usb_chip_get_dig_val :: "fd_env \<Rightarrow> bool \<Rightarrow> usbdev \<Rightarrow> usbdev \<times> u32 option \<times> int" where
  "pcan_usb_chip_get_dig_val e ok = pcan_usb_chip_get_io e ok 0xcc"

definition pcan_usb_chip_set_dig_val :: "fd_env \<Rightarrow> u32 option \<Rightarrow> usbdev \<Rightarrow> usbdev \<times> int" where
  "pcan_usb_chip_set_dig_val e v = pcan_usb_chip_set_io e v 0x8e"

definition pcan_usb_chip_set_dig_bit :: "fd_env \<Rightarrow> u32 option \<Rightarrow> usbdev \<Rightarrow> usbdev \<times> int" where
  "pcan_usb_chip_set_dig_bit e v = pcan_usb_chip_set_io e v 0x8f"

definition pcan_usb_chip_clr_dig_bit :: "fd_env \<Rightarrow> u32 option \<Rightarrow> usbdev \<Rightarrow> usbdev \<times> int" where
  "pcan_usb_chip_clr_dig_bit e v = pcan_usb_chip_set_io e v 0x90"

definition pcan_usb_chip_get_ana_val :: "fd_env \<Rightarrow> bool \<Rightarrow> usbdev \<Rightarrow> usbdev \<times> u32 option \<times> int" where
  "pcan_usb_chip_get_ana_val e ok = pcan_usb_chip_get_io e ok 0xce"
section \<open>Receiving\<close>

text \<open>The time of a record at \<open>m\<close>, when the clock is known. Time stamps are rebuilt with the clock of the interface.\<close>

definition pcan_usbfd_decode_timestamp :: "fd_env \<Rightarrow> usb_if \<Rightarrow> mem \<Rightarrow> nat \<Rightarrow> pcandev \<Rightarrow> pcandev \<times> pcan_timeval option" where
  "pcan_usbfd_decode_timestamp e ifc mem m p =
     (let (p, tv, ok) = pcan_usbpro_timestamp_decode (fe_now e) (fe_ns e) ifc p (rd32 mem (m + 4)) (fe_tv e)
      in (p, if ok then Some tv else None))"

definition pcan_usbfd_decode_canrx :: "fd_env \<Rightarrow> usbdev msg_handler" where
  "pcan_usbfd_decode_canrx e mem m arg devs =
     on_chan (\<lambda>dev.
       let (p, ptv) = pcan_usbfd_decode_timestamp e (usb_iface (devs ! 0)) mem m (pdev dev)
       in usb_posted dev (ucan_post_canrx_msg (fe_now e) (fe_drv e) mem m ptv p)) arg devs"

definition pcan_usbfd_decode_error :: "fd_env \<Rightarrow> usbdev msg_handler" where
  "pcan_usbfd_decode_error e mem m arg devs =
     on_chan (\<lambda>dev.
       let (p, ptv) = pcan_usbfd_decode_timestamp e (usb_iface (devs ! 0)) mem m (pdev dev)
       in usb_posted dev (ucan_post_error_msg (fe_now e) (fe_drv e) mem m ptv p)) arg devs"

definition pcan_usbfd_decode_bus_load :: "fd_env \<Rightarrow> usbdev msg_handler" where
  "pcan_usbfd_decode_bus_load e mem m arg devs =
     on_chan (\<lambda>dev. usb_posted dev (ucan_post_bus_load_msg (fe_now e) (fe_drv e) mem m None (pdev dev))) arg devs"

text \<open>A status record also opens the transmission: when the bus is not off, an idle engine becomes a stopped one,
  which the next writer starts. \<open>wrt\<close> is the write function of the channel.\<close>

definition pcan_usbfd_decode_status :: "fd_env \<Rightarrow> (usbdev \<Rightarrow> usbdev \<times> int) \<Rightarrow> usbdev msg_handler" where
  "pcan_usbfd_decode_status e wrt mem m arg devs =
     on_chan (\<lambda>dev.
       let (p, ptv) = pcan_usbfd_decode_timestamp e (usb_iface (devs ! 0)) mem m (pdev dev);
           (dev, err) = ucan_post_status_msg (fe_now e) (fe_drv e) wrt (fe_rx e) mem m ptv (dev\<lparr>pdev := p\<rparr>);
           (dev, err) = usb_posted dev (pdev dev, err)
       in (if bus_state (pdev dev) \<noteq> PCANFD_ERROR_BUSOFF \<and> locked_tx_engine_state (pdev dev) = TX_ENGINE_IDLE
           then on_pdev (pcan_set_tx_engine TX_ENGINE_STOPPED) dev else dev, err)) arg devs"

definition pcan_usbfd_decode_overrun :: "fd_env \<Rightarrow> usbdev msg_handler" where
  "pcan_usbfd_decode_overrun e mem m arg devs =
     on_chan (\<lambda>dev.
       let (p, ptv) = pcan_usbfd_decode_timestamp e (usb_iface (devs ! 0)) mem m (pdev dev)
       in usb_posted dev (ucan_post_overflow_msg (fe_now e) (fe_drv e) ptv p)) arg devs"

definition pcan_usbfd_decode_calibration :: "fd_env \<Rightarrow> usbdev msg_handler" where
  "pcan_usbfd_decode_calibration e mem m arg devs =
     pcan_usbpro_handle_calibration (fe_now e) (fe_ns e) (fe_frame e m) devs (rd32 mem (m + 4)) (ucast (rd16 mem (m + 12)))"

text \<open>The interface functions for the uCAN engine.\<close>

definition pcan_usbfd_ucan_handlers ::
  "fd_env \<Rightarrow> (usbdev \<Rightarrow> usbdev \<times> int) \<Rightarrow> nat \<Rightarrow> usbdev msg_handler option" where
  "pcan_usbfd_ucan_handlers e wrt i =
     (if i = 1 then Some (pcan_usbfd_decode_canrx e) else if i = 2 then Some (pcan_usbfd_decode_error e)
      else if i = 3 then Some (pcan_usbfd_decode_status e wrt) else if i = 4 then Some (pcan_usbfd_decode_bus_load e)
      else if i = 0x100 then Some (pcan_usbfd_decode_calibration e) else if i = 0x101 then Some (pcan_usbfd_decode_overrun e)
      else None)"

definition pcan_usbfd_ucan_ops :: "fd_env \<Rightarrow> (usbdev \<Rightarrow> usbdev \<times> int) \<Rightarrow> usbdev ucan_ops" where
  "pcan_usbfd_ucan_ops e wrt = \<lparr>set_clk_domain = Some (pcan_usbfd_set_clk_domain e), send_cmd = pcan_usbfd_send_ucan_cmd e,
     handle_msg_table = pcan_usbfd_ucan_handlers e wrt, handle_msg_size = 0x102, handle_private_msg = None\<rparr>"

definition pcan_usbfd_msg_decode ::
  "fd_env \<Rightarrow> (usbdev \<Rightarrow> usbdev \<times> int) \<Rightarrow> mem \<Rightarrow> nat \<Rightarrow> nat \<Rightarrow> usbdev list \<Rightarrow> usbdev list \<times> int" where
  "pcan_usbfd_msg_decode e wrt mem msg_addr msg_len devs =
     (let (devs, err) = ucan_handle_msgs_buffer True (pcan_usbfd_ucan_ops e wrt) (\<lambda>i. mem (msg_addr + i)) msg_len (map clear_wakeup devs)
      in (map wake_up devs, err))"

section \<open>Opening and closing a channel\<close>

definition pcan_usbfd_open_complete :: "fd_env \<Rightarrow> usbdev \<Rightarrow> pcanfd_init \<Rightarrow> int \<Rightarrow> usbdev \<times> int" where
  "pcan_usbfd_open_complete e dev pfdi err =
     (if err \<noteq> 0 then (dev, err)
      else
        let usb_mask = (if fast_fwd e then UCAN_USB_OPTION_FAST_FWD else 0);
            (dev, err) = (if fast_fwd e then (dev, 0) else ucan_usb_clr_dis_option e dev 0 UCAN_USB_OPTION_FAST_FWD)
        in if err \<noteq> 0 then (dev, err)
           else
             let opt_mask = (if has_flag (init_flags pfdi) PCANFD_INIT_BUS_LOAD_INFO
                             then UCAN_OPTION_ERROR OR UCAN_OPTION_BUSLOAD else UCAN_OPTION_ERROR);
                 (dev, err) = (if has_flag opt_mask UCAN_OPTION_BUSLOAD then (dev, 0)
                               else ucan_usb_clr_dis_option e dev UCAN_OPTION_BUSLOAD 0)
             in if err \<noteq> 0 then (dev, err) else ucan_usb_set_en_option e dev opt_mask usb_mask)"

definition pcan_usbfd_open_fd ::
  "fd_env \<Rightarrow> (usbdev \<Rightarrow> usbdev \<times> int) \<Rightarrow> usbdev \<Rightarrow> pcanfd_init \<Rightarrow> (usbdev \<times> pcanfd_init \<times> int) option" where
  "pcan_usbfd_open_fd e wrt dev pfdi =
     do {
       (dev, pfdi, err) \<leftarrow> ucan_device_open_fd (pcan_usbfd_ucan_ops e wrt) dev pfdi;
       let (dev, err) = pcan_usbfd_open_complete e dev pfdi err;
       Some (dev, pfdi, err)
     }"

definition pcan_usbfd_close :: "fd_env \<Rightarrow> int \<Rightarrow> nat \<Rightarrow> usbdev list \<Rightarrow> usbdev list \<times> int" where
  "pcan_usbfd_close e opened i devs =
     (let devs = (if opened \<le> 1
                  then devs[0 := on_pdev (\<lambda>p. p\<lparr>time_sync := (time_sync p)\<lparr>sync_ts_us := 0\<rparr>\<rparr>) (devs ! 0)] else devs);
          usb_mask = (if fast_fwd e then UCAN_USB_OPTION_FAST_FWD else 0)
      in on_dev i (\<lambda>d. ucan_usb_clr_dis_option e d (UCAN_OPTION_ERROR OR UCAN_OPTION_BUSLOAD) usb_mask) devs)"

section \<open>The adapter\<close>

text \<open>The encoder works on the write buffer of the channel.\<close>

definition pcan_usbfd_msg_encode :: "usbdev \<Rightarrow> nat \<Rightarrow> nat \<Rightarrow> usbdev \<times> nat \<times> int" where
  "pcan_usbfd_msg_encode dev a n =
     (let (p, m, l, err) = ucan_encode_msgs_buffer (pdev dev) (write_buffer dev) a n
      in (dev\<lparr>pdev := p, write_buffer := m\<rparr>, l, err))"

text \<open>The function pointers, as \<^verbatim>\<open>pcan_usbfd_init\<close> sets them.\<close>

definition pcan_usbfd_ops :: "fd_env \<Rightarrow> (usbdev \<Rightarrow> usbdev \<times> int) \<Rightarrow> usb_ops" where
  "pcan_usbfd_ops e wrt = \<lparr>ctrl_msg_encode = pcan_usbfd_msg_encode, ctrl_set_bus_on = ucan_set_bus_on (pcan_usbfd_ucan_ops e wrt),
     ctrl_set_bus_off = ucan_set_bus_off (pcan_usbfd_ucan_ops e wrt), ctrl_open = None,
     ctrl_open_fd = Some (pcan_usbfd_open_fd e wrt), ctrl_close = Some (pcan_usbfd_close e)\<rparr>"

definition pcan_usbfd_set_mass_storage_mode :: "fd_env \<Rightarrow> usbdev \<Rightarrow> usbdev \<times> int" where
  "pcan_usbfd_set_mass_storage_mode e dev =
     (let (dev, _, err) = pcan_usbpro_request (fe_usb e) dev USB_VENDOR_REQUEST_FKT 0 [] in (dev, err))"

definition pcan_usbfd_cleanup :: "fd_env \<Rightarrow> (usbdev \<Rightarrow> usbdev \<times> int) \<Rightarrow> u8 list \<Rightarrow> nat \<Rightarrow> usbdev list \<Rightarrow> usbdev list" where
  "pcan_usbfd_cleanup e wrt stack i devs =
     (let (devs, err) = on_dev i (ucan_set_bus_off (pcan_usbfd_ucan_ops e wrt)) devs
      in if i = length devs - 1 then
           let devs = set_iface ((usb_iface (devs ! 0))\<lparr>cm_ignore_count := 1000\<rparr>) devs;
               devs = (if err = 0 then fst (on_dev i (\<lambda>d. ucan_usb_set_en_option e d 0 UCAN_USB_OPTION_CALIBRATION) devs) else devs)
           in fst (on_dev 0 (\<lambda>d. pcan_usbpro_driver_loaded (fe_usb e) stack d 0 False) devs)
         else devs)"

definition pcan_usbfd_ctrl_init :: "fd_env \<Rightarrow> nat \<Rightarrow> usbdev list \<Rightarrow> usbdev list \<times> int" where
  "pcan_usbfd_ctrl_init e i devs =
     (let (devs, err) = on_dev i (\<lambda>d. ucan_usb_set_can_led e d UCAN_USB_LED_DEF) devs;
          devs = devs[i := on_pdev (pcan_set_tx_engine TX_ENGINE_IDLE) (devs ! i)];
          devs = (if i = length devs - 1 \<and> err = 0
                  then fst (on_dev i (\<lambda>d. ucan_usb_set_en_option e d 0 UCAN_USB_OPTION_CALIBRATION) devs) else devs)
      in (devs, err))"

abbreviation (input) PCAN_USBPROFD_PRODUCT_ID :: u16 where "PCAN_USBPROFD_PRODUCT_ID \<equiv> 0x0011"
abbreviation (input) PCAN_USBFD_PRODUCT_ID :: u16 where "PCAN_USBFD_PRODUCT_ID \<equiv> 0x0012"
abbreviation (input) PCAN_USBCHIP_PRODUCT_ID :: u16 where "PCAN_USBCHIP_PRODUCT_ID \<equiv> 0x0013"
abbreviation (input) PCAN_USBX6_PRODUCT_ID :: u16 where "PCAN_USBX6_PRODUCT_ID \<equiv> 0x0014"

text \<open>The place of a USB device: its bus, its port, its route and the port of its parent; \<open>None\<close> is a null pointer.\<close>

record usb_place =
  bus_num :: "int option"
  port_num :: int
  route :: u32
  parent_port :: "int option"

text \<open>The other interface of a PCAN-USB X6: the first channel of that type in the list of devices whose USB device is
  on the same bus, behind the same parent or on the same port. A channel is its type, and its interface with the
  place of the USB device. The own interface has a bus, and a parent; the result is the index of the channel.\<close>

fun pcan_usbfd_get_same_if :: "usb_place \<Rightarrow> (bool \<times> usb_place option option) list \<Rightarrow> nat \<Rightarrow> nat option" where
  "pcan_usbfd_get_same_if me [] k = None"
| "pcan_usbfd_get_same_if me ((x6, u) # ds) k =
     (let next = pcan_usbfd_get_same_if me ds (k + 1)
      in if \<not> x6 then next
         else case u of
           None \<Rightarrow> next
         | Some None \<Rightarrow> next
         | Some (Some d) \<Rightarrow>
             (if bus_num d = None then next
              else if bus_num d \<noteq> bus_num me then next
              else if route d \<noteq> 0 then
                (if parent_port d = None then next else if parent_port d = parent_port me then Some k else next)
              else if port_num d = port_num me then Some k else next))"

text \<open>The start of an interface. \<open>alloc\<close> tells whether the adapter object could be allocated, \<open>ds\<close> is the list of
  devices and \<open>adapter\<close> tells for an index of it whether that interface has an adapter; \<open>stack\<close> is the buffer of
  \<^verbatim>\<open>pcan_usbpro_driver_loaded\<close>. Besides the channels, the result tells whether the mass storage mode is available.
  The counters of devices, which only number the adapters, are not kept.\<close>

definition fd_adapter :: "u16 \<Rightarrow> usb_place \<Rightarrow> bool \<Rightarrow> (bool \<times> usb_place option option) list \<Rightarrow> (nat \<Rightarrow> bool) \<Rightarrow> int" where
  "fd_adapter pid me alloc ds adapter =
     (if pid = PCAN_USBX6_PRODUCT_ID \<and> port_num me \<noteq> 1 then
        (case pcan_usbfd_get_same_if me ds 0 of None \<Rightarrow> - ENODEV | Some k \<Rightarrow> if adapter k then 0 else - ENOMEM)
      else if pid \<in> {PCAN_USBPROFD_PRODUCT_ID, PCAN_USBX6_PRODUCT_ID, PCAN_USBFD_PRODUCT_ID, PCAN_USBCHIP_PRODUCT_ID} \<and> alloc
      then 0 else - ENOMEM)"

definition pcan_usbfd_init ::
  "fd_env \<Rightarrow> u16 \<Rightarrow> usb_place \<Rightarrow> bool \<Rightarrow> (bool \<times> usb_place option option) list \<Rightarrow> (nat \<Rightarrow> bool) \<Rightarrow> u8 list \<Rightarrow> usbdev list
     \<Rightarrow> usbdev list \<times> bool \<times> int" where
  "pcan_usbfd_init e pid me alloc ds adapter stack devs =
     (let devs = set_iface ((usb_iface (devs ! 0))\<lparr>cm_ignore_count := (if pid = PCAN_USBCHIP_PRODUCT_ID then - 1 else 3),
                   dev_frame_index := - 1\<rparr>) devs;
          err = fd_adapter pid me alloc ds adapter
      in if err \<noteq> 0 then (devs, False, err)
         else
           let (devs, err) = on_dev 0 (\<lambda>d. pcan_usbpro_driver_loaded (fe_usb e) stack d 0 True) devs
           in if err \<noteq> 0 then (devs, False, err)
              else
                let (devs, bl_version, err) = pcan_usbfd_get_fw_info e devs
                in if err \<noteq> 0 then (devs, False, err)
                   else (devs, \<not> (pid \<in> {PCAN_USBFD_PRODUCT_ID, PCAN_USBPROFD_PRODUCT_ID} \<and> the bl_version < VER_NUM 2 0 0), 0))"
section \<open>What the device receives\<close>

text \<open>The packets that were taken by the device, and the commands in them: 8 bytes each, without the marks of the end.\<close>

definition acks :: "usb_io list \<Rightarrow> u8 list list" where
  "acks log = concat (map (\<lambda>io. case io of Cmd_out bs err \<Rightarrow> if err = 0 then [bs] else [] | _ \<Rightarrow> []) log)"

definition chunks :: "'a list \<Rightarrow> 'a list list" where
  "chunks xs = map (\<lambda>k. take 8 (drop (8 * k) xs)) [0..<length xs div 8]"

definition fd_cmds :: "usb_io list \<Rightarrow> u8 list list" where
  "fd_cmds log = filter (\<lambda>c. opcode c \<noteq> UCAN_CMD_END_OF_COLLECTION) (concat (map chunks (acks log)))"

lemma acks_simps [simp]:
  "acks [] = []" "acks (xs @ ys) = acks xs @ acks ys"
  "acks (Cmd_out bs err # l) = (if err = 0 then bs # acks l else acks l)"
  by (simp_all add: acks_def)

lemma fd_cmds_append: "fd_cmds (xs @ ys) = fd_cmds xs @ fd_cmds ys"
  by (simp add: fd_cmds_def)

lemma chunks_append:
  assumes "8 dvd length xs"
  shows "chunks (xs @ ys) = chunks xs @ chunks ys"
proof -
  obtain n where n: "length xs = 8 * n" using assms by (elim dvdE)
  have len: "length (xs @ ys) div 8 = n + length ys div 8" using n by simp
  have "chunks (xs @ ys) ! k = (chunks xs @ chunks ys) ! k" if "k < n + length ys div 8" for k
  proof (cases "k < n")
    case True
    then show ?thesis using n len by (simp add: chunks_def nth_append)
  next
    case False
    then have "drop (8 * k) (xs @ ys) = drop (8 * (k - n)) ys" using n by (simp add: right_diff_distrib')
    then show ?thesis using False that n len by (simp add: chunks_def nth_append)
  qed
  then show ?thesis using len n by (intro nth_equalityI) (simp_all add: chunks_def)
qed

lemma chunks_Nil [simp]: "chunks [] = []"
  by (simp add: chunks_def)

lemma chunks_concat: "\<forall>b \<in> set bs. 8 dvd length b \<Longrightarrow> concat (map chunks bs) = chunks (concat bs)"
  by (induction bs) (simp_all add: chunks_append)

lemma chunks_bytes: "chunks (bytes m a (8 * n)) = map (\<lambda>k. bytes m (a + 8 * k) 8) [0..<n]"
proof -
  have "take 8 (drop (8 * k) (bytes m a (8 * n))) = bytes m (a + 8 * k) 8" if "k < n" for k
    using that by (intro nth_equalityI) (auto simp: add.assoc)
  then show ?thesis by (simp add: chunks_def)
qed

text \<open>The packets: they are the content of the buffer, in order, when the result is 0. There are at most three
  failures, and there is none when no transfer fails.\<close>

definition packet_ok :: "nat \<Rightarrow> nat \<Rightarrow> bool" where
  "packet_ok len l \<longleftrightarrow> 0 < l \<and> 8 dvd l \<and> 8 dvd len \<and> l \<le> len \<and> (l = len \<or> l = PCAN_UFD_LOSPD_PKT_SIZE)"

lemma packet_next:
  assumes "packet_ok len l"
  defines "len' \<equiv> len - l"
  defines "l' \<equiv> if len' < PCAN_UFD_LOSPD_PKT_SIZE then len' else l"
  shows "l' = 0 \<or> packet_ok len' l'" "l' \<le> max l PCAN_UFD_LOSPD_PKT_SIZE" "l' = 0 \<longleftrightarrow> len' = 0"
  using assms by (auto simp: packet_ok_def)

text \<open>What a run of the loop from \<open>dev\<close> on gives.\<close>

definition sent_ok :: "usb_env \<Rightarrow> usbdev \<Rightarrow> nat \<Rightarrow> nat \<Rightarrow> nat \<Rightarrow> usbdev \<times> int \<Rightarrow> bool" where
  "sent_ok env dev ptr l i r \<longleftrightarrow> (\<exists>io n. fst r = dev\<lparr>usb_log := usb_log dev @ io, cmd_len := n\<rparr> \<and>
    (snd r = 0 \<longrightarrow> n = 0 \<and> concat (acks io) = bytes (cmd_head dev) ptr (cmd_len dev) \<and>
       (\<forall>b \<in> set (acks io). 8 dvd length b \<and> length b \<le> max l PCAN_UFD_LOSPD_PKT_SIZE)) \<and>
    length io \<le> length (acks io) + max 1 (3 - i) \<and> ((\<forall>log. out_err env log = 0) \<longrightarrow> snd r = 0))"

lemma sent_stop:
  assumes "out_err env (usb_log dev) = err" "err \<noteq> 0"
  shows "sent_ok env dev ptr l i (dev\<lparr>usb_log := usb_log dev @ [Cmd_out (bytes (cmd_head dev) ptr l) err]\<rparr>, err)"
  unfolding sent_ok_def
  by (rule exI [of _ "[Cmd_out (bytes (cmd_head dev) ptr l) err]"], rule exI [of _ "cmd_len dev"]) (use assms in auto)

lemma sent_retry:
  assumes "out_err env (usb_log dev) = err" "err \<noteq> 0" "i + 1 < 3"
    and "sent_ok env (dev\<lparr>usb_log := usb_log dev @ [Cmd_out bs err]\<rparr>) ptr l (i + 1) r"
  shows "sent_ok env dev ptr l i r"
proof -
  obtain io n where io: "fst r = dev\<lparr>usb_log := usb_log dev @ Cmd_out bs err # io, cmd_len := n\<rparr>"
    "snd r = 0 \<longrightarrow> n = 0 \<and> concat (acks io) = bytes (cmd_head dev) ptr (cmd_len dev) \<and>
       (\<forall>b \<in> set (acks io). 8 dvd length b \<and> length b \<le> max l PCAN_UFD_LOSPD_PKT_SIZE)"
    "length io \<le> length (acks io) + max 1 (3 - (i + 1))"
    using assms(4) by (auto simp: sent_ok_def)
  show ?thesis unfolding sent_ok_def
    by (rule exI [of _ "Cmd_out bs err # io"], rule exI [of _ n]) (use io assms(1-3) in auto)
qed

lemma sent_last:
  assumes "out_err env (usb_log dev) = 0" "l = cmd_len dev" "8 dvd l"
  shows "sent_ok env dev ptr l i (dev\<lparr>usb_log := usb_log dev @ [Cmd_out (bytes (cmd_head dev) ptr l) 0], cmd_len := 0\<rparr>, 0)"
  unfolding sent_ok_def
  by (rule exI [of _ "[Cmd_out (bytes (cmd_head dev) ptr l) 0]"], rule exI [of _ 0]) (use assms in auto)

lemma sent_more:
  assumes "l \<le> cmd_len dev" "8 dvd l" "l' \<le> max l PCAN_UFD_LOSPD_PKT_SIZE"
    and "sent_ok env (dev\<lparr>usb_log := usb_log dev @ [Cmd_out (bytes (cmd_head dev) ptr l) 0], cmd_len := cmd_len dev - l\<rparr>) (ptr + l) l' i r"
  shows "sent_ok env dev ptr l i r"
proof -
  let ?b = "bytes (cmd_head dev) ptr l"
  obtain io n where io: "fst r = dev\<lparr>usb_log := usb_log dev @ Cmd_out ?b 0 # io, cmd_len := n\<rparr>"
    "snd r = 0 \<longrightarrow> n = 0 \<and> concat (acks io) = bytes (cmd_head dev) (ptr + l) (cmd_len dev - l) \<and>
       (\<forall>b \<in> set (acks io). 8 dvd length b \<and> length b \<le> max l' PCAN_UFD_LOSPD_PKT_SIZE)"
    "length io \<le> length (acks io) + max 1 (3 - i)" "(\<forall>log. out_err env log = 0) \<longrightarrow> snd r = 0"
    using assms(4) by (auto simp: sent_ok_def)
  have "bytes (cmd_head dev) ptr (cmd_len dev) = ?b @ bytes (cmd_head dev) (ptr + l) (cmd_len dev - l)"
    using bytes_append [of "cmd_head dev" ptr l "cmd_len dev - l"] assms(1) by simp
  then have "snd r = 0 \<longrightarrow> concat (acks (Cmd_out ?b 0 # io)) = bytes (cmd_head dev) ptr (cmd_len dev)" using io(2) by simp
  moreover have "snd r = 0 \<longrightarrow> (\<forall>b \<in> set (acks (Cmd_out ?b 0 # io)). 8 dvd length b \<and> length b \<le> max l PCAN_UFD_LOSPD_PKT_SIZE)"
  proof (intro impI ballI)
    fix b assume "snd r = 0" "b \<in> set (acks (Cmd_out ?b 0 # io))"
    then have "b = ?b \<or> 8 dvd length b \<and> length b \<le> max l' PCAN_UFD_LOSPD_PKT_SIZE" using io(2) by auto
    then show "8 dvd length b \<and> length b \<le> max l PCAN_UFD_LOSPD_PKT_SIZE" using assms(2,3) by auto
  qed
  moreover have "length (Cmd_out ?b 0 # io) \<le> length (acks (Cmd_out ?b 0 # io)) + max 1 (3 - i)" using io(3) by simp
  ultimately show ?thesis unfolding sent_ok_def using io(1,2,4)
    by (intro exI [of _ "Cmd_out ?b 0 # io"] exI [of _ n]) blast
qed

lemma send_packets_ok: "packet_ok (cmd_len dev) l \<Longrightarrow> sent_ok env dev ptr l i (send_packets env dev ptr l i)"
proof (induction env dev ptr l i rule: send_packets.induct)
  case (1 env dev ptr l i)
  let ?err = "out_err env (usb_log dev)"
  let ?d = "dev\<lparr>usb_log := usb_log dev @ [Cmd_out (bytes (cmd_head dev) ptr l) ?err]\<rparr>"
  have l: "0 < l" "l \<le> cmd_len dev" "8 dvd l" using "1.prems" by (auto simp: packet_ok_def)
  show ?case
  proof (cases "?err = 0")
    case False
    show ?thesis
    proof (cases "?err = - ETIMEDOUT \<and> i + 1 < 3")
      case True
      then have "sent_ok env ?d ptr l (i + 1) (send_packets env ?d ptr l (i + 1))"
        using "1.IH"(1) [OF HOL.refl HOL.refl False] l(1) "1.prems" by simp
      then show ?thesis using sent_retry [OF HOL.refl False, of i] True l(1) False
        by (subst send_packets.simps) simp
    next
      case F2: False
      then show ?thesis using sent_stop [OF HOL.refl False] False by (subst send_packets.simps) (auto simp: Let_def)
    qed
  next
    case True
    let ?n = "cmd_len dev - l" let ?l = "if ?n < PCAN_UFD_LOSPD_PKT_SIZE then ?n else l"
    let ?d2 = "dev\<lparr>usb_log := usb_log dev @ [Cmd_out (bytes (cmd_head dev) ptr l) 0], cmd_len := ?n\<rparr>"
    note nx = packet_next [OF "1.prems"]
    have step: "send_packets env dev ptr l i = (if 0 < ?l then send_packets env ?d2 (ptr + l) ?l i else (?d2, 0))"
      using True l(1) by (subst send_packets.simps) (simp add: Let_def)
    show ?thesis
    proof (cases "0 < ?l")
      case z: False
      then have "?n = 0" using nx(3) by blast
      then show ?thesis unfolding step using z sent_last [OF True _ l(3)] l(2) by simp
    next
      case nz: True
      then have "packet_ok (cmd_len ?d2) ?l" using nx(1) by simp
      then have "sent_ok env ?d2 (ptr + l) ?l i (send_packets env ?d2 (ptr + l) ?l i)"
        using "1.IH"(2) [OF HOL.refl HOL.refl _ HOL.refl HOL.refl] True nz by (simp cong: if_cong)
      from sent_more [OF l(2,3) nx(2) this] show ?thesis unfolding step using nz by simp
    qed
  qed
qed
text \<open>The buffer with the mark of the end, when there is room for it.\<close>

definition with_end :: "usbdev \<Rightarrow> usbdev" where
  "with_end dev = (if cmd_len dev < cmd_size dev then fst (ucan_add_cmd UCAN_CMD_END_OF_COLLECTION dev) else dev)"

definition end_marks :: "usbdev \<Rightarrow> u8 list list" where
  "end_marks dev = (if cmd_len dev + 8 \<le> cmd_size dev
     then [cmd_image (nChannel (pdev dev)) UCAN_CMD_END_OF_COLLECTION (replicate 6 0)] else [])"

lemma with_end_buffer:
  assumes "8 dvd cmd_len dev"
  shows "cmds (with_end dev) = cmds dev @ end_marks dev" "\<exists>m. with_end dev = dev\<lparr>cmd_head := m, cmd_len := cmd_len (with_end dev)\<rparr>"
    "8 dvd cmd_len (with_end dev)" "cmd_len dev \<le> cmd_len (with_end dev)"
proof -
  show "cmds (with_end dev) = cmds dev @ end_marks dev"
  proof (cases "cmd_len dev + 8 \<le> cmd_size dev")
    case True
    then show ?thesis using cmds_added [OF added_add [OF True, of UCAN_CMD_END_OF_COLLECTION] assms]
      by (simp add: with_end_def end_marks_def)
  next
    case False
    then show ?thesis by (simp add: with_end_def end_marks_def ucan_add_cmd_def)
  qed
  show "\<exists>m. with_end dev = dev\<lparr>cmd_head := m, cmd_len := cmd_len (with_end dev)\<rparr>"
    by (rule exI [of _ "cmd_head (with_end dev)"]) (simp add: with_end_def ucan_add_cmd_def Let_def)
  show "8 dvd cmd_len (with_end dev)" "cmd_len dev \<le> cmd_len (with_end dev)"
    using assms by (auto simp: with_end_def ucan_add_cmd_def Let_def)
qed

lemma concat_cmds:
  assumes "8 dvd cmd_len d"
  shows "concat (cmds d) = bytes (cmd_head d) 0 (cmd_len d)" "chunks (bytes (cmd_head d) 0 (cmd_len d)) = cmds d"
proof -
  obtain n where n: "cmd_len d = 8 * n" using assms by (elim dvdE)
  have "concat (map (\<lambda>i. bytes m (8 * i) 8) [0..<n]) = bytes m 0 (8 * n)" for m
  proof (induction n)
    case (Suc n)
    then show ?case using bytes_append [of m 0 "8 * n" 8] by (simp add: add.commute)
  qed (simp add: bytes_def)
  then show "concat (cmds d) = bytes (cmd_head d) 0 (cmd_len d)" by (simp add: cmds_def n)
  show "chunks (bytes (cmd_head d) 0 (cmd_len d)) = cmds d" using chunks_bytes [of "cmd_head d" 0 n] by (simp add: cmds_def n)
qed

lemma send_cmd_packets:
  assumes "is_plugged (pdev dev)" "8 dvd cmd_len dev" "0 < cmd_len dev"
  obtains l where "pcan_usbfd_send_ucan_cmd e dev = send_packets (fe_usb e) (with_end dev) 0 l 0"
    "packet_ok (cmd_len (with_end dev)) l" "\<not> fe_high e \<Longrightarrow> l \<le> PCAN_UFD_LOSPD_PKT_SIZE"
proof -
  let ?n = "cmd_len (with_end dev)"
  let ?l = "if \<not> fe_high e \<and> PCAN_UFD_LOSPD_PKT_SIZE < ?n then PCAN_UFD_LOSPD_PKT_SIZE else ?n"
  have "pcan_usbfd_send_ucan_cmd e dev = send_packets (fe_usb e) (with_end dev) 0 ?l 0"
    using assms(1) by (simp add: pcan_usbfd_send_ucan_cmd_def with_end_def Let_def)
  moreover have "packet_ok ?n ?l" using with_end_buffer(3,4) [OF assms(2)] assms(3) by (auto simp: packet_ok_def)
  ultimately show ?thesis using that [of ?l] by auto
qed

lemma sent_okE:
  assumes "sent_ok env dev ptr l i (dev', err)"
  obtains io n where "dev' = dev\<lparr>usb_log := usb_log dev @ io, cmd_len := n\<rparr>"
    "err = 0 \<Longrightarrow> n = 0 \<and> concat (acks io) = bytes (cmd_head dev) ptr (cmd_len dev)"
    "err = 0 \<Longrightarrow> \<forall>b \<in> set (acks io). 8 dvd length b \<and> length b \<le> max l PCAN_UFD_LOSPD_PKT_SIZE"
    "length io \<le> length (acks io) + max 1 (3 - i)" "\<forall>log. out_err env log = 0 \<Longrightarrow> err = 0"
  using assms unfolding sent_ok_def fst_conv snd_conv by blast

lemma end_marks_filtered: "filter (\<lambda>c. opcode c \<noteq> UCAN_CMD_END_OF_COLLECTION) (end_marks dev) = []"
  by (simp add: end_marks_def)

definition fd_port :: "usbdev \<Rightarrow> bool" where
  "fd_port d \<longleftrightarrow> is_plugged (pdev d) \<and> 8 \<le> cmd_size d"

definition fd_sent :: "usbdev \<Rightarrow> u8 list list" where
  "fd_sent d = fd_cmds (usb_log d)"

text \<open>The command pipe is a port for uCAN commands, which takes every command when no transfer fails.\<close>

interpretation usbfd: cmd_port "pcan_usbfd_ucan_ops e wrt" fd_port fd_sent "\<forall>log. out_err (fe_usb e) log = 0"
  for e wrt
proof unfold_locales
  fix d d' :: usbdev and err
  assume p: "fd_port d" "cmd_wf d" "cmd_len d \<noteq> 0" "send_cmd (pcan_usbfd_ucan_ops e wrt) d = (d', err)"
  have w: "8 dvd cmd_len d" "\<forall>c \<in> set (cmds d). opcode c \<noteq> UCAN_CMD_END_OF_COLLECTION" using p(2) by (auto simp: cmd_wf_def)
  note b = with_end_buffer [OF w(1)]
  have "is_plugged (pdev d)" "0 < cmd_len d" using p(1,3) by (simp_all add: fd_port_def)
  from send_cmd_packets [OF this(1) w(1) this(2)] obtain l
    where l: "send_packets (fe_usb e) (with_end d) 0 l 0 = (d', err)" "packet_ok (cmd_len (with_end d)) l"
    using p(4) by (metis pcan_usbfd_ucan_ops_def ucan_ops.select_convs(2))
  obtain io n where io: "d' = (with_end d)\<lparr>usb_log := usb_log (with_end d) @ io, cmd_len := n\<rparr>"
    "err = 0 \<Longrightarrow> n = 0 \<and> concat (acks io) = bytes (cmd_head (with_end d)) 0 (cmd_len (with_end d))"
    "err = 0 \<Longrightarrow> \<forall>b \<in> set (acks io). 8 dvd length b \<and> length b \<le> max l PCAN_UFD_LOSPD_PKT_SIZE"
    "length io \<le> length (acks io) + max 1 (3 - 0)" "\<forall>log. out_err (fe_usb e) log = 0 \<Longrightarrow> err = 0"
    using sent_okE [OF send_packets_ok [OF l(2), of "fe_usb e" 0 0, unfolded l(1)]] by metis
  obtain m where m: "with_end d = d\<lparr>cmd_head := m, cmd_len := cmd_len (with_end d)\<rparr>" using b(2) by blast
  have f: "pdev (with_end d) = pdev d" "cmd_size (with_end d) = cmd_size d" "usb_log (with_end d) = usb_log d" by (subst m, simp)+
  have "fd_cmds io = cmds d" if "err = 0"
    using io(2,3) that concat_cmds(2) [OF b(3)] b(1) w(2) chunks_concat [of "acks io"]
    by (simp add: fd_cmds_def end_marks_filtered)
  then show "fd_port d' \<and> pdev d' = pdev d \<and> cmd_size d' = cmd_size d \<and>
      (err = 0 \<longrightarrow> fd_sent d' = fd_sent d @ cmds d) \<and> ((\<forall>log. out_err (fe_usb e) log = 0) \<longrightarrow> err = 0)"
    using p(1) io(1,5) f by (simp add: fd_port_def fd_sent_def fd_cmds_append)
qed (simp_all add: fd_port_def fd_sent_def)

text \<open>C18. The commands of a buffer reach a USB FD adapter: when the request succeeds, the packets that the device took
  are together exactly the commands of the buffer, in order, with the mark of the end if the buffer is not full;
  no packet is longer than 64 bytes on a slow link. At most three transfers are lost, and the request
  succeeds when no transfer fails.\<close>

theorem usbfd_packets:
  assumes "is_plugged (pdev dev)" "cmd_wf dev" "0 < cmd_len dev" "pcan_usbfd_send_ucan_cmd e dev = (dev', err)"
  shows "\<exists>io. usb_log dev' = usb_log dev @ io \<and> length io \<le> length (acks io) + 3 \<and>
     (err = 0 \<longrightarrow> cmd_len dev' = 0 \<and> concat (acks io) = concat (cmds dev) @ concat (end_marks dev) \<and>
        (\<not> fe_high e \<longrightarrow> (\<forall>b \<in> set (acks io). length b \<le> 64))) \<and>
     ((\<forall>log. out_err (fe_usb e) log = 0) \<longrightarrow> err = 0)"
proof -
  have w: "8 dvd cmd_len dev" using assms(2) by (simp add: cmd_wf_def)
  note b = with_end_buffer [OF w]
  obtain l where l: "send_packets (fe_usb e) (with_end dev) 0 l 0 = (dev', err)" "packet_ok (cmd_len (with_end dev)) l"
    "\<not> fe_high e \<Longrightarrow> l \<le> 64"
    using send_cmd_packets [OF assms(1) w assms(3)] assms(4) by metis
  have "concat (cmds dev) @ concat (end_marks dev) = bytes (cmd_head (with_end dev)) 0 (cmd_len (with_end dev))"
    using concat_cmds(1) [OF b(3)] b(1) by simp
  moreover have "usb_log (with_end dev) = usb_log dev" by (simp add: with_end_def ucan_add_cmd_def Let_def)
  moreover obtain io n where io: "dev' = (with_end dev)\<lparr>usb_log := usb_log (with_end dev) @ io, cmd_len := n\<rparr>"
    "err = 0 \<Longrightarrow> n = 0 \<and> concat (acks io) = bytes (cmd_head (with_end dev)) 0 (cmd_len (with_end dev))"
    "err = 0 \<Longrightarrow> \<forall>b \<in> set (acks io). 8 dvd length b \<and> length b \<le> max l PCAN_UFD_LOSPD_PKT_SIZE"
    "length io \<le> length (acks io) + max 1 (3 - 0)" "\<forall>log. out_err (fe_usb e) log = 0 \<Longrightarrow> err = 0"
    using sent_okE [OF send_packets_ok [OF l(2), of "fe_usb e" 0 0, unfolded l(1)]] by metis
  moreover have "err = 0 \<longrightarrow> \<not> fe_high e \<longrightarrow> (\<forall>b \<in> set (acks io). length b \<le> 64)"
  proof (intro impI ballI)
    fix b assume b: "err = 0" "\<not> fe_high e" "b \<in> set (acks io)"
    then have "length b \<le> max l PCAN_UFD_LOSPD_PKT_SIZE" using io(3) by blast
    then show "length b \<le> 64" using l(3) [OF b(2)] by simp
  qed
  ultimately show ?thesis by (intro exI [of _ io]) simp
qed
section \<open>Opening\<close>

text \<open>The clocks of the device, by their codes, and the commands of this file.\<close>

definition fd_clocks :: "u32 list" where
  "fd_clocks = [80 * MHz, 60 * MHz, 40 * MHz, 30 * MHz, 24 * MHz, 20 * MHz]"

definition usb_option_image :: "int \<Rightarrow> u16 \<Rightarrow> u16 \<Rightarrow> u16 \<Rightarrow> u8 list" where
  "usb_option_image ch op msk usb_mask = cmd_image ch op (le16 msk @ [0, 0] @ le16 usb_mask)"

definition clock_image :: "int \<Rightarrow> nat \<Rightarrow> u8 list" where
  "clock_image ch m = cmd_image ch UCAN_USB_CMD_CLK_SET ([of_nat m] @ replicate 5 0)"

lemma replicate_five: "replicate 5 x = [x, x, x, x, x]"
  by (simp add: eval_nat_numeral)

lemma send_cmd_fd [simp]: "send_cmd (pcan_usbfd_ucan_ops e wrt) = pcan_usbfd_send_ucan_cmd e"
  by (simp add: pcan_usbfd_ucan_ops_def)

lemma fd_option_steps:
  assumes "fd_port d"
  shows "usbfd.step e id d [usb_option_image (nChannel (pdev d)) UCAN_CMD_SET_EN_OPTION msk u] (ucan_usb_set_en_option e d msk u)"
    and "usbfd.step e id d [usb_option_image (nChannel (pdev d)) UCAN_CMD_CLR_DIS_OPTION msk u] (ucan_usb_clr_dis_option e d msk u)"
proof -
  note s = added_put [OF added_option(1) [OF usbfd.init_room [OF assms], of msk], of 6 "le16 u"]
  note c = added_put [OF added_option(2) [OF usbfd.init_room [OF assms], of msk], of 6 "le16 u"]
  have i: "patch 6 (le16 u) (option_image (nChannel (pdev (ucan_init_cmd d))) op msk) = usb_option_image (nChannel (pdev d)) op msk u" for op
    by (simp add: option_image_def usb_option_image_def patch_simps)
  show "usbfd.step e id d [usb_option_image (nChannel (pdev d)) UCAN_CMD_SET_EN_OPTION msk u] (ucan_usb_set_en_option e d msk u)"
    using usbfd.send_step(2) [OF assms s [unfolded i], of e] by (simp add: ucan_usb_set_en_option_def usb_option_image_def)
  show "usbfd.step e id d [usb_option_image (nChannel (pdev d)) UCAN_CMD_CLR_DIS_OPTION msk u] (ucan_usb_clr_dis_option e d msk u)"
    using usbfd.send_step(2) [OF assms c [unfolded i], of e] by (simp add: ucan_usb_clr_dis_option_def usb_option_image_def)
qed
context cmd_port
begin

lemma reliableE:
  assumes "step g d cs r" "reliable"
  obtains d' where "r = (d', 0)" "port d'" "pdev d' = g (pdev d)" "sent d' = sent d @ cs"
  using step_reliable [of g d cs "fst r" "snd r"] assms by (metis prod.collapse)

end

lemma fd_clock:
  assumes "fd_port d" "\<forall>log. out_err (fe_usb e) log = 0" "m < 6" "clock_Hz pfdi = fd_clocks ! m"
  obtains d' where "pcan_usbfd_set_clk_domain e d pfdi = (d', 0)" "fd_port d'" "pdev d' = pdev d"
    "fd_sent d' = fd_sent d @ [clock_image (nChannel (pdev d)) m]"
proof -
  have m: "pcan_usbfd_set_clk_domain e d pfdi = (fst (ucan_usb_set_clck_domain e d (of_nat m)), 0)"
  proof -
    have "m = 0 \<or> m = 1 \<or> m = 2 \<or> m = 3 \<or> m = 4 \<or> m = 5" using assms(3) by linarith
    then show ?thesis using assms(4) by (elim disjE) (simp_all add: pcan_usbfd_set_clk_domain_def fd_clocks_def Let_def)
  qed
  note a = added_put [OF added_add [OF usbfd.init_room [OF assms(1)], of UCAN_USB_CMD_CLK_SET], of 2 "[ucast (of_nat m :: u32)]"]
  have c: "ucast (of_nat m :: u32) = (of_nat m :: u8)"
    using assms(3) by (simp add: unsigned_of_nat take_bit_nat_eq_self)
  have "patch 2 [ucast (of_nat m :: u32)] (cmd_image (nChannel (pdev (ucan_init_cmd d))) UCAN_USB_CMD_CLK_SET (replicate 6 0))
      = clock_image (nChannel (pdev d)) m"
    by (simp add: clock_image_def patch_simps replicate_five c)
  from usbfd.send_step(2) [OF assms(1) a [unfolded this], of e]
  have "usbfd.step e id d [clock_image (nChannel (pdev d)) m] (ucan_usb_set_clck_domain e d (of_nat m))"
    by (simp add: ucan_usb_set_clck_domain_def clock_image_def)
  then obtain d' where "ucan_usb_set_clck_domain e d (of_nat m) = (d', 0)" "fd_port d'" "pdev d' = id (pdev d)"
    "fd_sent d' = fd_sent d @ [clock_image (nChannel (pdev d)) m]" by (rule usbfd.reliableE [OF _ assms(2)])
  then show ?thesis using that [of d'] m by simp
qed

lemma fd_open_engine:
  assumes "fd_port d" "nChannel (pdev d) = ch" "\<forall>log. out_err (fe_usb e) log = 0" "m < 6" "clock_Hz pfdi = fd_clocks ! m"
  obtains d' where "ucan_device_open_fd (pcan_usbfd_ucan_ops e wrt) d pfdi = Some (d', pfdi, 0)" "fd_port d'"
    "pdev d' = listen_flags pfdi (clr_counters (pdev d))" "fd_sent d' = fd_sent d @ clock_image ch m # open_images ch pfdi"
proof -
  let ?ops = "pcan_usbfd_ucan_ops e wrt"
  obtain d1 where d1: "pcan_usbfd_set_clk_domain e d pfdi = (d1, 0)" "fd_port d1" "pdev d1 = pdev d"
    "fd_sent d1 = fd_sent d @ [clock_image (nChannel (pdev d)) m]" by (rule fd_clock [OF assms(1,3-5)])
  have c: "ucan_set_clock_domain ?ops d pfdi = Some (d1, pfdi, 0)"
    using d1(1) by (simp add: ucan_set_clock_domain_def pcan_usbfd_ucan_ops_def)
  have n: "nChannel (pdev d1) = ch" using d1(3) assms(2) by simp
  obtain d' where "run_steps (ucan_open_steps ?ops pfdi) d1 = Some (d', 0)" "fd_port d'" "nChannel (pdev d') = ch"
    "pdev d' = listen_flags pfdi (clr_counters (pdev d1))" "fd_sent d' = fd_sent d1 @ open_images ch pfdi"
    by (rule usbfd.sendsD [OF usbfd.open_steps_sends [OF assms(3), where ch = ch and pfdi = pfdi and wrt = wrt] d1(2) n])
  then show ?thesis using that [of d'] d1(3,4) c assms(2) by (simp add: ucan_device_open_fd_def)
qed

lemma fd_options:
  assumes "fd_port d" "\<forall>log. out_err (fe_usb e) log = 0" "nChannel (pdev d) = ch"
  obtains d' where "ucan_usb_set_en_option e d msk u = (d', 0)" "fd_port d'" "pdev d' = pdev d"
    "fd_sent d' = fd_sent d @ [usb_option_image ch UCAN_CMD_SET_EN_OPTION msk u]"
  using usbfd.reliableE [OF fd_option_steps(1) [OF assms(1), of e msk u] assms(2)] assms(3) by (metis id_apply)

lemma fd_options_off:
  assumes "fd_port d" "\<forall>log. out_err (fe_usb e) log = 0" "nChannel (pdev d) = ch"
  obtains d' where "ucan_usb_clr_dis_option e d msk u = (d', 0)" "fd_port d'" "pdev d' = pdev d"
    "fd_sent d' = fd_sent d @ [usb_option_image ch UCAN_CMD_CLR_DIS_OPTION msk u]"
  using usbfd.reliableE [OF fd_option_steps(2) [OF assms(1), of e msk u] assms(2)] assms(3) by (metis id_apply)

lemma fd_options_unless:
  assumes "fd_port d" "\<forall>log. out_err (fe_usb e) log = 0" "nChannel (pdev d) = ch"
  obtains d' where "(if c then (d, 0) else ucan_usb_clr_dis_option e d msk u) = (d', 0)" "fd_port d'" "pdev d' = pdev d"
    "fd_sent d' = fd_sent d @ (if c then [] else [usb_option_image ch UCAN_CMD_CLR_DIS_OPTION msk u])"
proof (cases c)
  case True
  show ?thesis by (rule that [of d]) (use True assms in simp_all)
next
  case False
  show ?thesis by (rule fd_options_off [OF assms, of msk u], rule that) (use False in simp_all)
qed

text \<open>What the completion of an opening sends.\<close>

definition complete_images :: "fd_env \<Rightarrow> int \<Rightarrow> pcanfd_init \<Rightarrow> u8 list list" where
  "complete_images e ch pfdi =
     (let bl = has_flag (init_flags pfdi) PCANFD_INIT_BUS_LOAD_INFO
      in (if fast_fwd e then [] else [usb_option_image ch UCAN_CMD_CLR_DIS_OPTION 0 UCAN_USB_OPTION_FAST_FWD])
         @ (if bl then [] else [usb_option_image ch UCAN_CMD_CLR_DIS_OPTION UCAN_OPTION_BUSLOAD 0])
         @ [usb_option_image ch UCAN_CMD_SET_EN_OPTION (if bl then UCAN_OPTION_ERROR OR UCAN_OPTION_BUSLOAD else UCAN_OPTION_ERROR)
              (if fast_fwd e then UCAN_USB_OPTION_FAST_FWD else 0)])"

lemma fd_complete:
  assumes "fd_port d" "\<forall>log. out_err (fe_usb e) log = 0" "nChannel (pdev d) = ch"
  obtains d' where "pcan_usbfd_open_complete e d pfdi 0 = (d', 0)" "fd_port d'" "pdev d' = pdev d"
    "fd_sent d' = fd_sent d @ complete_images e ch pfdi"
proof -
  let ?bl = "has_flag (init_flags pfdi) PCANFD_INIT_BUS_LOAD_INFO"
  let ?opt = "if ?bl then UCAN_OPTION_ERROR OR UCAN_OPTION_BUSLOAD else UCAN_OPTION_ERROR"
  let ?u = "if fast_fwd e then UCAN_USB_OPTION_FAST_FWD else 0"
  have b: "has_flag ?opt UCAN_OPTION_BUSLOAD = ?bl" by (simp add: has_flag_def)
  obtain d1 where d1: "(if fast_fwd e then (d, 0) else ucan_usb_clr_dis_option e d 0 UCAN_USB_OPTION_FAST_FWD) = (d1, 0)"
    "fd_port d1" "pdev d1 = pdev d" "fd_sent d1 = fd_sent d @ (if fast_fwd e then []
       else [usb_option_image ch UCAN_CMD_CLR_DIS_OPTION 0 UCAN_USB_OPTION_FAST_FWD])"
    by (rule fd_options_unless [OF assms])
  have n1: "nChannel (pdev d1) = ch" using d1(3) assms(3) by simp
  obtain d2 where d2: "(if ?bl then (d1, 0) else ucan_usb_clr_dis_option e d1 UCAN_OPTION_BUSLOAD 0) = (d2, 0)"
    "fd_port d2" "pdev d2 = pdev d1" "fd_sent d2 = fd_sent d1 @ (if ?bl then []
       else [usb_option_image ch UCAN_CMD_CLR_DIS_OPTION UCAN_OPTION_BUSLOAD 0])"
    by (rule fd_options_unless [OF d1(2) assms(2) n1])
  have n2: "nChannel (pdev d2) = ch" using d2(3) n1 by simp
  obtain d3 where d3: "ucan_usb_set_en_option e d2 ?opt ?u = (d3, 0)" "fd_port d3" "pdev d3 = pdev d2"
    "fd_sent d3 = fd_sent d2 @ [usb_option_image ch UCAN_CMD_SET_EN_OPTION ?opt ?u]"
    by (rule fd_options [OF d2(2) assms(2) n2])
  have "pcan_usbfd_open_complete e d pfdi 0 = (d3, 0)"
    unfolding pcan_usbfd_open_complete_def Let_def d1(1) split_conv b d2(1) using d3(1) by simp
  then show ?thesis using that [of d3] d1(3,4) d2(3,4) d3 by (simp add: complete_images_def Let_def)
qed
text \<open>C17. Opening a channel of a USB FD adapter that takes every command: it succeeds for the six clocks of the device, and
  the device receives exactly these commands, in order: the reset of the mode, the clock, the clearing of the error
  counters, the format and the timings of the settings, all 64 filter rows, the options, and the mode, listening only if
  asked for. The channel is counted as open and its bus is on.\<close>

theorem usbfd_open_commands:
  assumes "is_plugged (pdev dev)" "8 \<le> cmd_size dev" "\<forall>log. out_err (fe_usb e) log = 0" "m < 6" "clock_Hz pfdi = fd_clocks ! m"
    and "ch = nChannel (pdev dev)"
  shows "\<exists>dev'. pcan_usb_device_open_fd (pcan_usbfd_ops e wrt) n dev pfdi = Some (n + 1, dev', pfdi, 0) \<and>
    fd_cmds (usb_log dev') = fd_cmds (usb_log dev)
      @ [cmd_image ch UCAN_CMD_RESET_MODE (replicate 6 0), clock_image ch m] @ open_images ch pfdi @ complete_images e ch pfdi
      @ [cmd_image ch (if has_flag (init_flags pfdi) PCANFD_INIT_LISTEN_ONLY then UCAN_CMD_LISTEN_ONLY_MODE
           else UCAN_CMD_NORMAL_MODE) (replicate 6 0)] \<and>
    has_flag (dev_flags (pdev dev')) PCAN_DEV_BUS_ON"
proof -
  let ?ops = "pcan_usbfd_ucan_ops e wrt"
  have p: "fd_port dev" using assms(1,2) by (simp add: fd_port_def)
  obtain d1 where d1: "ucan_set_bus_off ?ops dev = (d1, 0)" "fd_port d1"
    "pdev d1 = (pdev dev)\<lparr>dev_flags := clr_flag (dev_flags (pdev dev)) PCAN_DEV_BUS_ON\<rparr>"
    "fd_sent d1 = fd_sent dev @ [cmd_image (nChannel (pdev dev)) UCAN_CMD_RESET_MODE (replicate 6 0)]"
    by (rule usbfd.bus_off_sends [OF p assms(3)])
  have n1: "nChannel (pdev d1) = ch" using d1(3) assms(6) by simp
  obtain d2 where d2: "ucan_device_open_fd ?ops d1 pfdi = Some (d2, pfdi, 0)" "fd_port d2"
    "pdev d2 = listen_flags pfdi (clr_counters (pdev d1))" "fd_sent d2 = fd_sent d1 @ clock_image ch m # open_images ch pfdi"
    by (rule fd_open_engine [OF d1(2) n1 assms(3-5)])
  have n2: "nChannel (pdev d2) = ch" using d2(3) n1 by (simp add: listen_flags_def clr_counters_def)
  obtain d3 where d3: "pcan_usbfd_open_complete e d2 pfdi 0 = (d3, 0)" "fd_port d3" "pdev d3 = pdev d2"
    "fd_sent d3 = fd_sent d2 @ complete_images e ch pfdi" by (rule fd_complete [OF d2(2) assms(3) n2])
  obtain d4 where d4: "ucan_set_bus_on ?ops d3 = (d4, 0)"
    "pdev d4 = (pdev d3)\<lparr>dev_flags := set_flag (dev_flags (pdev d3)) PCAN_DEV_BUS_ON\<rparr>"
    "fd_sent d4 = fd_sent d3 @ [cmd_image (nChannel (pdev d3)) (if has_flag (dev_flags (pdev d3)) PCAN_DEV_LISTEN_ONLY
       then UCAN_CMD_LISTEN_ONLY_MODE else UCAN_CMD_NORMAL_MODE) (replicate 6 0)]"
    by (rule usbfd.bus_on_sends [OF d3(2) assms(3)])
  have "has_flag (dev_flags (pdev d3)) PCAN_DEV_LISTEN_ONLY = has_flag (init_flags pfdi) PCANFD_INIT_LISTEN_ONLY"
    using d3(3) d2(3) by (simp add: listen_flags_def flag_simps)
  then have "fd_sent d4 = fd_sent dev @ [cmd_image ch UCAN_CMD_RESET_MODE (replicate 6 0), clock_image ch m]
      @ open_images ch pfdi @ complete_images e ch pfdi
      @ [cmd_image ch (if has_flag (init_flags pfdi) PCANFD_INIT_LISTEN_ONLY then UCAN_CMD_LISTEN_ONLY_MODE
           else UCAN_CMD_NORMAL_MODE) (replicate 6 0)]"
    using d1(4) d2(4) d3(3,4) d4(3) n2 assms(6) by simp
  moreover have "pcan_usb_device_open_fd (pcan_usbfd_ops e wrt) n dev pfdi = Some (n + 1, d4, pfdi, 0)"
    using d1(1) d2(1) d3(1) d4(1) by (simp add: pcan_usb_device_open_fd_def pcan_usbfd_ops_def pcan_usbfd_open_fd_def)
  moreover have "has_flag (dev_flags (pdev d4)) PCAN_DEV_BUS_ON" using d4(2) by (simp add: flag_simps)
  ultimately show ?thesis unfolding fd_sent_def by blast
qed

text \<open>The calibration messages are requested by the last channel when it is initialised, and again, instead of being
  stopped, when it is cleaned up.\<close>

lemma usbfd_cleanup_restarts_calibration:
  assumes "fd_port dev" "\<forall>log. out_err (fe_usb e) log = 0" "ch = nChannel (pdev dev)"
  shows "fd_cmds (usb_log (pcan_usbfd_cleanup e wrt stack 0 [dev] ! 0)) = fd_cmds (usb_log dev)
      @ [cmd_image ch UCAN_CMD_RESET_MODE (replicate 6 0), usb_option_image ch UCAN_CMD_SET_EN_OPTION 0 UCAN_USB_OPTION_CALIBRATION]"
proof -
  let ?ops = "pcan_usbfd_ucan_ops e wrt"
  obtain d1 where d1: "ucan_set_bus_off ?ops dev = (d1, 0)" "fd_port d1"
    "pdev d1 = (pdev dev)\<lparr>dev_flags := clr_flag (dev_flags (pdev dev)) PCAN_DEV_BUS_ON\<rparr>"
    "fd_sent d1 = fd_sent dev @ [cmd_image (nChannel (pdev dev)) UCAN_CMD_RESET_MODE (replicate 6 0)]"
    by (rule usbfd.bus_off_sends [OF assms(1,2)])
  let ?d = "d1\<lparr>usb_iface := (usb_iface d1)\<lparr>cm_ignore_count := 1000\<rparr>\<rparr>"
  have q: "fd_port ?d" "nChannel (pdev ?d) = ch" "fd_sent ?d = fd_sent d1" using d1(2,3) assms(3) by (simp_all add: fd_port_def fd_sent_def)
  obtain d2 where d2: "ucan_usb_set_en_option e ?d 0 UCAN_USB_OPTION_CALIBRATION = (d2, 0)" "fd_port d2" "pdev d2 = pdev ?d"
    "fd_sent d2 = fd_sent ?d @ [usb_option_image ch UCAN_CMD_SET_EN_OPTION 0 UCAN_USB_OPTION_CALIBRATION]"
    by (rule fd_options [OF q(1) assms(2) q(2)])
  have "fd_cmds (usb_log (fst (pcan_usbpro_driver_loaded env s d c b))) = fd_cmds (usb_log d)" for env s d c b
    by (simp add: pcan_usbpro_driver_loaded_def pcan_usbpro_request_def pcan_usb_control_msg_def Let_def split_def fd_cmds_append
        fd_cmds_def [of "[_]"] acks_def)
  then show ?thesis using d1(1,4) d2(1,4) q(3) assms(3)
    by (simp add: pcan_usbfd_cleanup_def on_dev_def set_iface_def fd_sent_def Let_def split_def)
qed

text \<open>Reading a pin succeeds with no value when three responses are not the expected ones.\<close>

lemma chip_read_without_value:
  assumes "\<forall>log. snd (in_reply env log) = 0"
    and "\<forall>log. 2 \<le> length (fst (in_reply env log)) \<and> rd16 (\<lambda>i. fst (in_reply env log) ! i) 0 = 0" "2 \<le> cmd_size dev" "0 < n" "err = 0"
  shows "snd (get_io_loop n env ok op_req err dev) = (None, 0)"
proof -
  have r: "rd16 (cmd_head (fst (read_rsp env d))) 0 = 0 \<and> 0 < fst (snd (read_rsp env d)) \<and> snd (snd (read_rsp env d)) = 0 \<and>
      cmd_size (fst (read_rsp env d)) = cmd_size d" if "2 \<le> cmd_size d" for d :: usbdev
  proof -
    let ?r = "fst (in_reply env (usb_log d))"
    have l: "2 \<le> length ?r" "rd16 (\<lambda>i. ?r ! i) 0 = 0" using assms(2) by simp_all
    then have "1 < length (take (cmd_size d) ?r)" using that by simp
    then have "0 < length (take (cmd_size d) ?r)" "1 < length (take (cmd_size d) ?r)" by linarith+
    then have "wr (cmd_head d) 0 (take (cmd_size d) ?r) 0 = ?r ! 0" "wr (cmd_head d) 0 (take (cmd_size d) ?r) 1 = ?r ! 1"
      using wr_inside [of 0 _ "cmd_head d" 0] wr_inside [of 1 _ "cmd_head d" 0] by simp_all
    then have "rd16 (wr (cmd_head d) 0 (take (cmd_size d) ?r)) 0 = 0" using l(2) by (simp add: rd16_def)
    then show ?thesis using assms(1) l(1) that by (auto simp: read_rsp_def Let_def split_def)
  qed
  show ?thesis using assms(3,5)
  proof (induction n arbitrary: dev err)
    case (Suc n)
    let ?d1 = "fst (read_rsp env dev)" let ?d2 = "fst (read_rsp env ?d1)"
    have c: "2 \<le> cmd_size ?d1" "2 \<le> cmd_size ?d2" using r [of dev] r [of ?d1] Suc.prems(1) by simp_all
    have "uint (rd16 (cmd_head ?d2) 0) \<noteq> uint op_req + 1" 
    proof -
      have "uint (rd16 (cmd_head ?d2) 0) = 0" using r [OF c(1)] by simp
      moreover have "0 \<le> uint op_req" by simp
      ultimately show ?thesis by linarith
    qed
    then have "get_io_loop (Suc n) env ok op_req err dev = get_io_loop n env ok op_req 0 ?d2"
      using r [OF Suc.prems(1)] by (simp add: split_def Let_def)
    then show ?case using Suc.IH [OF c(2)] by simp
  qed simp
qed
section \<open>One write transfer at a time\<close>

text \<open>Encoding changes only the queue, the pause and the counter of the channel.\<close>

definition enc_view :: "pcandev \<Rightarrow> bool \<times> u32" where
  "enc_view p = (is_plugged p, locked_tx_engine_state p)"

lemma encode_msg_view: "enc_view (fst (ucan_encode_msg p mem a n)) = enc_view p"
  by (auto simp: ucan_encode_msg_def enc_view_def Let_def split: prod.splits option.splits)

lemma encode_loop_view: "enc_view (fst (encode_loop p mem a n l c err)) = enc_view p"
proof (induction p mem a n l c err rule: encode_loop.induct)
  case (1 p mem a n l c err)
  note v = encode_msg_view [of p mem "a + l" "n - l"]
  show ?case
  proof (cases "l < n")
    case True
    then show ?thesis using v "1.IH" [OF True HOL.refl] by (subst encode_loop.simps) (simp add: Let_def)
  qed (subst encode_loop.simps, simp)
qed

interpretation usbfdw: usb_encoder pcan_usbfd_msg_encode
proof
  fix dev :: usbdev and a n
  have "enc_view (fst (ucan_encode_msgs_buffer (pdev dev) (write_buffer dev) a n)) = enc_view (pdev dev)"
    using encode_loop_view [of "pdev dev" "write_buffer dev" a n 0 0 0]
    by (simp add: ucan_encode_msgs_buffer_def Let_def split_def enc_view_def)
  then show "engine_view (fst (pcan_usbfd_msg_encode dev a n)) = engine_view dev"
    by (simp add: pcan_usbfd_msg_encode_def split_def engine_view_def enc_view_def Let_def)
qed

lemma usbfd_one_transfer:
  assumes "usb_reach env (pcan_usbfd_ops e wrt) dev0 dev" "engine_inv dev0"
  shows "engine_inv dev"
  by (rule usbfdw.reach_inv [OF assms(1) _ assms(2)]) (simp add: pcan_usbfd_ops_def)

text \<open>After the start of a channel its engine is idle, and writers wait; a status record of a bus that is not off lets
  them go on.\<close>

lemma usbfd_status_opens_tx:
  assumes "ci < length devs"
    and "pcan_usbfd_decode_status e wrt mem m (Arg_dev ci) devs = (devs', err)"
  shows "bus_state (pdev (devs' ! ci)) = PCANFD_ERROR_BUSOFF \<or> locked_tx_engine_state (pdev (devs' ! ci)) \<noteq> TX_ENGINE_IDLE"
  using assms
  by (auto simp: pcan_usbfd_decode_status_def on_chan_def Let_def split_def on_pdev_def pcan_set_tx_engine_def
      split: if_splits)

section \<open>Witnesses\<close>

definition fd_dev :: usbdev where
  "fd_dev = usb_dev\<lparr>cmd_size := 512\<rparr>"

definition demo_fd :: fd_env where
  "demo_fd = \<lparr>fe_usb = good_env, fe_high = False, fast_fwd = False, fe_now = zero_timeval, fe_drv = zero_timeval, fe_ns = 0,
     fe_frame = (\<lambda>_. 0), fe_tv = zero_hwtv, fe_rx = zero_rxmsg\<rparr>"

theorem usbfd_packets_witness:
  "snd (pcan_usbfd_send_ucan_cmd demo_fd (fst (ucan_add_cmd_nop (ucan_init_cmd fd_dev)))) = 0"
proof -
  let ?d = "fst (ucan_add_cmd_nop (ucan_init_cmd fd_dev))"
  have "cmd_len (ucan_init_cmd fd_dev) + 8 \<le> cmd_size (ucan_init_cmd fd_dev)" by (simp add: fd_dev_def)
  note w = cmd_wf_added [OF added_add [OF this, of UCAN_CMD_NOP] cmd_wf_init]
  have "is_plugged (pdev fd_dev)" by (simp add: fd_dev_def usb_dev_def usb_pdev_def blank_dev_def)
  then have "cmd_wf ?d" "0 < cmd_len ?d" "is_plugged (pdev ?d)" using w by (simp_all add: ucan_add_cmd_nop_def)
  moreover obtain d' err where s: "pcan_usbfd_send_ucan_cmd demo_fd ?d = (d', err)" using prod.exhaust by blast
  ultimately show ?thesis using usbfd_packets [of ?d demo_fd d' err] by (auto simp: demo_fd_def good_env_def)
qed

theorem usbfd_open_commands_witness:
  "\<exists>dev'. pcan_usb_device_open_fd (pcan_usbfd_ops demo_fd (\<lambda>d. (d, 0))) 0 fd_dev (zero_init\<lparr>clock_Hz := 20000000\<rparr>)
      = Some (1, dev', zero_init\<lparr>clock_Hz := 20000000\<rparr>, 0) \<and>
    take 2 (fd_cmds (usb_log dev')) = [cmd_image 0 UCAN_CMD_RESET_MODE (replicate 6 0), clock_image 0 5]"
proof -
  have "is_plugged (pdev fd_dev)" "8 \<le> cmd_size fd_dev" "\<forall>log. out_err (fe_usb demo_fd) log = 0" "(5::nat) < 6"
    "clock_Hz (zero_init\<lparr>clock_Hz := 20000000\<rparr>) = fd_clocks ! 5" "0 = nChannel (pdev fd_dev)" "fd_cmds (usb_log fd_dev) = []"
    by (simp_all add: fd_dev_def usb_dev_def usb_pdev_def demo_fd_def good_env_def fd_clocks_def blank_dev_def fd_cmds_def)
  then show ?thesis
    using usbfd_open_commands [of fd_dev demo_fd 5 "zero_init\<lparr>clock_Hz := 20000000\<rparr>" 0 "\<lambda>d. (d, 0)" 0] by auto
qed

end
