(* ===== verification/Pcan_Options.thy ===== *)
theory Pcan_Options
  imports Pcan_Usbfd
begin

text \<open>
  The options of a channel: the tables of \<^verbatim>\<open>driver/src/pcan_main.c\<close> and \<^verbatim>\<open>driver/src/pcan_usb_core.c\<close>, their
  inheritance, and the requests of \<^verbatim>\<open>driver/src/pcan_fops.c\<close> and \<^verbatim>\<open>driver/src/pcan_fops_linux.c\<close> that read and
  write options, clocks and bit timing ranges. The memory of the user consists of 32-bit words, each readable,
  writable, both or none; addresses count words. The locale of tables states that a getter writes into the buffer
  of the user only, and is interpreted on the tables of the driver.
\<close>

section \<open>Memory of the user\<close>

record umem =
  uword :: "nat \<Rightarrow> u32"
  readable :: "nat \<Rightarrow> bool"
  writable :: "nat \<Rightarrow> bool"

text \<open>A read that fails fills the rest of its destination with zeroes; the flag tells whether all was read. A
  write that fails has written the words before the first one that is not writable.\<close>

fun copy_from_user :: "umem \<Rightarrow> nat \<Rightarrow> nat \<Rightarrow> u32 list \<times> bool" where
  "copy_from_user m a 0 = ([], True)"
| "copy_from_user m a (Suc n) =
     (if readable m a then let (ws, ok) = copy_from_user m (a + 1) n in (uword m a # ws, ok)
      else (replicate (Suc n) 0, False))"

fun copy_to_user :: "umem \<Rightarrow> nat \<Rightarrow> u32 list \<Rightarrow> umem \<times> bool" where
  "copy_to_user m a [] = (m, True)"
| "copy_to_user m a (w # ws) =
     (if writable m a then copy_to_user (m\<lparr>uword := (uword m)(a := w)\<rparr>) (a + 1) ws else (m, False))"

section \<open>Options\<close>

text \<open>\<open>opt_value\<close> is the address of the buffer.\<close>

record pcanfd_option =
  opt_size :: int
  opt_name :: int
  opt_value :: nat

record 'd pcanfd_options =
  req_size :: int
  opt_get :: "('d \<Rightarrow> pcanfd_option \<Rightarrow> umem \<Rightarrow> 'd \<times> pcanfd_option \<times> umem \<times> int) option"
  opt_set :: "('d \<Rightarrow> pcanfd_option \<Rightarrow> umem \<Rightarrow> 'd \<times> int) option"

abbreviation (input) PCANFD_OPT_CHANNEL_FEATURES :: nat where "PCANFD_OPT_CHANNEL_FEATURES \<equiv> 0"
abbreviation (input) PCANFD_OPT_DEVICE_ID :: nat where "PCANFD_OPT_DEVICE_ID \<equiv> 1"
abbreviation (input) PCANFD_OPT_AVAILABLE_CLOCKS :: nat where "PCANFD_OPT_AVAILABLE_CLOCKS \<equiv> 2"
abbreviation (input) PCANFD_OPT_BITTIMING_RANGES :: nat where "PCANFD_OPT_BITTIMING_RANGES \<equiv> 3"
abbreviation (input) PCANFD_OPT_DBITTIMING_RANGES :: nat where "PCANFD_OPT_DBITTIMING_RANGES \<equiv> 4"
abbreviation (input) PCANFD_OPT_ALLOWED_MSGS :: nat where "PCANFD_OPT_ALLOWED_MSGS \<equiv> 5"
abbreviation (input) PCANFD_OPT_ACC_FILTER_11B :: nat where "PCANFD_OPT_ACC_FILTER_11B \<equiv> 6"
abbreviation (input) PCANFD_OPT_ACC_FILTER_29B :: nat where "PCANFD_OPT_ACC_FILTER_29B \<equiv> 7"
abbreviation (input) PCANFD_OPT_IFRAME_DELAYUS :: nat where "PCANFD_OPT_IFRAME_DELAYUS \<equiv> 8"
abbreviation (input) PCANFD_OPT_HWTIMESTAMP_MODE :: nat where "PCANFD_OPT_HWTIMESTAMP_MODE \<equiv> 9"
abbreviation (input) PCANFD_OPT_DRV_VERSION :: nat where "PCANFD_OPT_DRV_VERSION \<equiv> 10"
abbreviation (input) PCANFD_OPT_FW_VERSION :: nat where "PCANFD_OPT_FW_VERSION \<equiv> 11"
abbreviation (input) PCANFD_IO_DIGITAL_CFG :: nat where "PCANFD_IO_DIGITAL_CFG \<equiv> 12"
abbreviation (input) PCANFD_IO_DIGITAL_VAL :: nat where "PCANFD_IO_DIGITAL_VAL \<equiv> 13"
abbreviation (input) PCANFD_IO_DIGITAL_SET :: nat where "PCANFD_IO_DIGITAL_SET \<equiv> 14"
abbreviation (input) PCANFD_IO_DIGITAL_CLR :: nat where "PCANFD_IO_DIGITAL_CLR \<equiv> 15"
abbreviation (input) PCANFD_IO_ANALOG_VAL :: nat where "PCANFD_IO_ANALOG_VAL \<equiv> 16"
abbreviation (input) PCANFD_OPT_MASS_STORAGE_MODE :: nat where "PCANFD_OPT_MASS_STORAGE_MODE \<equiv> 17"
abbreviation (input) PCANFD_OPT_MAX :: nat where "PCANFD_OPT_MAX \<equiv> 18"

abbreviation (input) PCAN_DEV_MSD_RDY :: u32 where "PCAN_DEV_MSD_RDY \<equiv> 0x00040000"
abbreviation (input) PCAN_DEV_TXPAUSE_RDY :: u32 where "PCAN_DEV_TXPAUSE_RDY \<equiv> 0x00080000"
abbreviation (input) PCAN_DEV_HWTS_RDY :: u32 where "PCAN_DEV_HWTS_RDY \<equiv> 0x00100000"
abbreviation (input) PCAN_DEV_HWTSC_RDY :: u32 where "PCAN_DEV_HWTSC_RDY \<equiv> 0x00200000"
abbreviation (input) PCAN_DEV_SLF_RDY :: u32 where "PCAN_DEV_SLF_RDY \<equiv> 0x00400000"
abbreviation (input) PCAN_DEV_ECHO_RDY :: u32 where "PCAN_DEV_ECHO_RDY \<equiv> 0x00800000"

abbreviation (input) PCANFD_FEATURE_FD :: u32 where "PCANFD_FEATURE_FD \<equiv> 0x1"
abbreviation (input) PCANFD_FEATURE_IFRAME_DELAYUS :: u32 where "PCANFD_FEATURE_IFRAME_DELAYUS \<equiv> 0x2"
abbreviation (input) PCANFD_FEATURE_BUSLOAD :: u32 where "PCANFD_FEATURE_BUSLOAD \<equiv> 0x4"
abbreviation (input) PCANFD_FEATURE_HWTIMESTAMP :: u32 where "PCANFD_FEATURE_HWTIMESTAMP \<equiv> 0x8"
abbreviation (input) PCANFD_FEATURE_DEVICEID :: u32 where "PCANFD_FEATURE_DEVICEID \<equiv> 0x10"
abbreviation (input) PCANFD_FEATURE_SELFRECEIVE :: u32 where "PCANFD_FEATURE_SELFRECEIVE \<equiv> 0x20"
abbreviation (input) PCANFD_FEATURE_ECHO :: u32 where "PCANFD_FEATURE_ECHO \<equiv> 0x40"
abbreviation (input) PCANFD_FEATURE_MSD :: u32 where "PCANFD_FEATURE_MSD \<equiv> 0x80"

text \<open>What the getters read besides the channel: the sources of its clocks, the version of its hardware, and whether
  its table has a getter of the device number.\<close>

record opt_env =
  clock_src :: "nat \<Rightarrow> u32"
  hw_ver :: "u8 \<times> u8 \<times> u8"
  has_devid :: bool

text \<open>The end of all getters: the size of the value is stored and the value copied to the user.\<close>

definition give :: "'d \<Rightarrow> u32 list \<Rightarrow> pcanfd_option \<Rightarrow> umem \<Rightarrow> 'd \<times> pcanfd_option \<times> umem \<times> int" where
  "give dev ws opt m =
     (let opt = opt\<lparr>opt_size := 4 * int (length ws)\<rparr>; (m, ok) = copy_to_user m (opt_value opt) ws
      in (dev, opt, m, if ok then 0 else - EFAULT))"

definition features :: "bool \<Rightarrow> u32 \<Rightarrow> u32" where
  "features devid fl =
     foldl (\<lambda>v (f, b). if f then v OR b else v) 0
       [(has_flag fl PCAN_DEV_FD_RDY, PCANFD_FEATURE_FD), (has_flag fl PCAN_DEV_TXPAUSE_RDY, PCANFD_FEATURE_IFRAME_DELAYUS),
        (has_flag fl PCAN_DEV_BUSLOAD_RDY, PCANFD_FEATURE_BUSLOAD), (has_flag fl PCAN_DEV_HWTS_RDY, PCANFD_FEATURE_HWTIMESTAMP),
        (has_flag fl PCAN_DEV_SLF_RDY, PCANFD_FEATURE_SELFRECEIVE), (has_flag fl PCAN_DEV_ECHO_RDY, PCANFD_FEATURE_ECHO),
        (has_flag fl PCAN_DEV_MSD_RDY, PCANFD_FEATURE_MSD), (devid, PCANFD_FEATURE_DEVICEID)]"

definition pcan_get_channel_features ::
  "opt_env \<Rightarrow> pcandev \<Rightarrow> pcanfd_option \<Rightarrow> umem \<Rightarrow> pcandev \<times> pcanfd_option \<times> umem \<times> int" where
  "pcan_get_channel_features e dev = give dev [features (has_devid e) (dev_flags dev)]"

text \<open>The list of the clocks in memory: the count, then the pairs of frequency and source.\<close>

definition clock_words :: "opt_env \<Rightarrow> pcandev \<Rightarrow> u32 list" where
  "clock_words e dev =
     of_nat (length (clocks_list dev)) # concat (map (\<lambda>i. [clocks_list dev ! i, clock_src e i]) [0..<length (clocks_list dev)])"

text \<open>The second copy of the source, for a list that is cut, is never reached: the whole list is required.\<close>

definition pcan_get_avclocks ::
  "opt_env \<Rightarrow> pcandev \<Rightarrow> pcanfd_option \<Rightarrow> umem \<Rightarrow> pcandev \<times> pcanfd_option \<times> umem \<times> int" where
  "pcan_get_avclocks e dev opt m =
     (let lk = 4 + int (length (clocks_list dev)) * 8
      in if lk \<le> opt_size opt then give dev (clock_words e dev) opt m
         else (dev, opt\<lparr>opt_size := lk\<rparr>, m, - ENOSPC))"

definition range_words :: "pcanfd_bittiming_range \<Rightarrow> u32 list" where
  "range_words c = [brp_min c, brp_max c, brp_inc c, tseg1_min c, tseg1_max c, tseg2_min c, tseg2_max c, sjw_min c, sjw_max c]"

definition pcan_get_bittiming_range ::
  "pcandev \<Rightarrow> pcanfd_option \<Rightarrow> umem \<Rightarrow> pcandev \<times> pcanfd_option \<times> umem \<times> int" where
  "pcan_get_bittiming_range dev = give dev (range_words (bittiming_caps dev))"

definition pcan_get_dbittiming_range ::
  "pcandev \<Rightarrow> pcanfd_option \<Rightarrow> umem \<Rightarrow> pcandev \<times> pcanfd_option \<times> umem \<times> int" where
  "pcan_get_dbittiming_range dev opt m =
     (case dbittiming_caps dev of None \<Rightarrow> (dev, opt, m, - EOPNOTSUPP) | Some c \<Rightarrow> give dev (range_words c) opt m)"

definition pcan_get_allowed_msgs ::
  "pcandev \<Rightarrow> pcanfd_option \<Rightarrow> umem \<Rightarrow> pcandev \<times> pcanfd_option \<times> umem \<times> int" where
  "pcan_get_allowed_msgs dev = give dev [allowed_msgs dev]"

text \<open>The setters copy into the channel itself.\<close>

definition pcan_set_allowed_msgs :: "pcandev \<Rightarrow> pcanfd_option \<Rightarrow> umem \<Rightarrow> pcandev \<times> int" where
  "pcan_set_allowed_msgs dev opt m =
     (let (ws, ok) = copy_from_user m (opt_value opt) 1
      in (dev\<lparr>allowed_msgs := ws ! 0\<rparr>, if ok then 0 else - EFAULT))"

text \<open>On a little endian machine the mask is the first word of the acceptance filter.\<close>

definition pcan_get_acc_filter_29b ::
  "pcandev \<Rightarrow> pcanfd_option \<Rightarrow> umem \<Rightarrow> pcandev \<times> pcanfd_option \<times> umem \<times> int" where
  "pcan_get_acc_filter_29b dev = give dev [acc_29b_mask dev, acc_29b_code dev]"

definition pcan_set_acc_filter_29b :: "pcandev \<Rightarrow> pcanfd_option \<Rightarrow> umem \<Rightarrow> pcandev \<times> int" where
  "pcan_set_acc_filter_29b dev opt m =
     (let (ws, ok) = copy_from_user m (opt_value opt) 2; dev = dev\<lparr>acc_29b_mask := ws ! 0, acc_29b_code := ws ! 1\<rparr>
      in if \<not> ok then (dev, - EFAULT)
         else
           let dev = dev\<lparr>acc_29b_mask := acc_29b_mask dev AND CAN_MAX_EXTENDED_ID\<rparr>
           in (dev\<lparr>acc_29b_code := clr_flag (acc_29b_code dev) (acc_29b_mask dev)\<rparr>, 0))"

definition pcan_get_acc_filter_11b ::
  "pcandev \<Rightarrow> pcanfd_option \<Rightarrow> umem \<Rightarrow> pcandev \<times> pcanfd_option \<times> umem \<times> int" where
  "pcan_get_acc_filter_11b dev = give dev [acc_11b_mask dev, acc_11b_code dev]"

definition pcan_set_acc_filter_11b :: "pcandev \<Rightarrow> pcanfd_option \<Rightarrow> umem \<Rightarrow> pcandev \<times> int" where
  "pcan_set_acc_filter_11b dev opt m =
     (let (ws, ok) = copy_from_user m (opt_value opt) 2; dev = dev\<lparr>acc_11b_mask := ws ! 0, acc_11b_code := ws ! 1\<rparr>
      in if \<not> ok then (dev, - EFAULT)
         else
           let dev = dev\<lparr>acc_11b_mask := acc_11b_mask dev AND CAN_MAX_STANDARD_ID\<rparr>
           in (dev\<lparr>acc_11b_code := clr_flag (acc_11b_code dev) (acc_11b_mask dev)\<rparr>, 0))"

definition pcan_get_ifrm_delay_us ::
  "pcandev \<Rightarrow> pcanfd_option \<Rightarrow> umem \<Rightarrow> pcandev \<times> pcanfd_option \<times> umem \<times> int" where
  "pcan_get_ifrm_delay_us dev opt m =
     (if \<not> has_flag (dev_flags dev) PCAN_DEV_TXPAUSE_RDY then (dev, opt, m, - EOPNOTSUPP)
      else give dev [tx_iframe_delay_us dev] opt m)"

definition pcan_set_ifrm_delay_us :: "pcandev \<Rightarrow> pcanfd_option \<Rightarrow> umem \<Rightarrow> pcandev \<times> int" where
  "pcan_set_ifrm_delay_us dev opt m =
     (if \<not> has_flag (dev_flags dev) PCAN_DEV_TXPAUSE_RDY then (dev, - EOPNOTSUPP)
      else
        let (ws, ok) = copy_from_user m (opt_value opt) 1
        in (dev\<lparr>tx_iframe_delay_us := ws ! 0\<rparr>, if ok then 0 else - EFAULT))"

definition pcan_get_ts_mode ::
  "pcandev \<Rightarrow> pcanfd_option \<Rightarrow> umem \<Rightarrow> pcandev \<times> pcanfd_option \<times> umem \<times> int" where
  "pcan_get_ts_mode dev = give dev [ts_mode dev]"

definition pcan_set_ts_mode :: "pcandev \<Rightarrow> pcanfd_option \<Rightarrow> umem \<Rightarrow> pcandev \<times> int" where
  "pcan_set_ts_mode dev opt m =
     (let (ws, ok) = copy_from_user m (opt_value opt) 1; tmp = ws ! 0
      in if \<not> ok then (dev, - EFAULT)
         else
           let v = (if tmp = PCANFD_OPT_HWTIMESTAMP_COOKED \<and> \<not> has_flag (dev_flags dev) PCAN_DEV_HWTSC_RDY
                    then PCANFD_OPT_HWTIMESTAMP_ON else tmp)
           in if tmp \<in> {PCANFD_OPT_HWTIMESTAMP_COOKED, PCANFD_OPT_HWTIMESTAMP_ON, PCANFD_OPT_HWTIMESTAMP_RAW} \<and>
                 \<not> has_flag (dev_flags dev) PCAN_DEV_HWTS_RDY then (dev, - EOPNOTSUPP)
              else if tmp \<in> {PCANFD_OPT_HWTIMESTAMP_COOKED, PCANFD_OPT_HWTIMESTAMP_ON, PCANFD_OPT_HWTIMESTAMP_RAW,
                             PCANFD_OPT_HWTIMESTAMP_OFF} then (dev\<lparr>ts_mode := v\<rparr>, 0)
              else (dev, - EINVAL))"

definition pcan_get_drv_version ::
  "pcandev \<Rightarrow> pcanfd_option \<Rightarrow> umem \<Rightarrow> pcandev \<times> pcanfd_option \<times> umem \<times> int" where
  "pcan_get_drv_version dev = give dev [VER_NUM 8 9 3]"

definition pcan_get_fw_version ::
  "opt_env \<Rightarrow> pcandev \<Rightarrow> pcanfd_option \<Rightarrow> umem \<Rightarrow> pcandev \<times> pcanfd_option \<times> umem \<times> int" where
  "pcan_get_fw_version e dev = (case hw_ver e of (x, y, z) \<Rightarrow> give dev [VER_NUM x y z])"
section \<open>The tables\<close>

definition no_option :: "'d pcanfd_options" where
  "no_option = \<lparr>req_size = 0, opt_get = None, opt_set = None\<rparr>"

text \<open>A table that is given by its entries; the other entries are zero.\<close>

definition table :: "(nat \<times> 'd pcanfd_options) list \<Rightarrow> nat \<Rightarrow> 'd pcanfd_options" where
  "table es i = (case map_of es i of None \<Rightarrow> no_option | Some e \<Rightarrow> e)"

definition pcan_def_opts :: "opt_env \<Rightarrow> nat \<Rightarrow> pcandev pcanfd_options" where
  "pcan_def_opts e = table
     [(PCANFD_OPT_CHANNEL_FEATURES, \<lparr>req_size = 4, opt_get = Some (pcan_get_channel_features e), opt_set = None\<rparr>),
      (PCANFD_OPT_AVAILABLE_CLOCKS, \<lparr>req_size = 12, opt_get = Some (pcan_get_avclocks e), opt_set = None\<rparr>),
      (PCANFD_OPT_BITTIMING_RANGES, \<lparr>req_size = 36, opt_get = Some pcan_get_bittiming_range, opt_set = None\<rparr>),
      (PCANFD_OPT_DBITTIMING_RANGES, \<lparr>req_size = 36, opt_get = Some pcan_get_dbittiming_range, opt_set = None\<rparr>),
      (PCANFD_OPT_ALLOWED_MSGS, \<lparr>req_size = 4, opt_get = Some pcan_get_allowed_msgs, opt_set = Some pcan_set_allowed_msgs\<rparr>),
      (PCANFD_OPT_ACC_FILTER_11B, \<lparr>req_size = 8, opt_get = Some pcan_get_acc_filter_11b, opt_set = Some pcan_set_acc_filter_11b\<rparr>),
      (PCANFD_OPT_ACC_FILTER_29B, \<lparr>req_size = 8, opt_get = Some pcan_get_acc_filter_29b, opt_set = Some pcan_set_acc_filter_29b\<rparr>),
      (PCANFD_OPT_IFRAME_DELAYUS, \<lparr>req_size = 4, opt_get = Some pcan_get_ifrm_delay_us, opt_set = Some pcan_set_ifrm_delay_us\<rparr>),
      (PCANFD_OPT_HWTIMESTAMP_MODE, \<lparr>req_size = 4, opt_get = Some pcan_get_ts_mode, opt_set = Some pcan_set_ts_mode\<rparr>),
      (PCANFD_OPT_DRV_VERSION, \<lparr>req_size = 4, opt_get = Some pcan_get_drv_version, opt_set = None\<rparr>),
      (PCANFD_OPT_FW_VERSION, \<lparr>req_size = 4, opt_get = Some (pcan_get_fw_version e), opt_set = None\<rparr>)]"

definition pcan_inherit_options_from ::
  "(nat \<Rightarrow> 'd pcanfd_options) \<Rightarrow> (nat \<Rightarrow> 'd pcanfd_options) \<Rightarrow> nat \<Rightarrow> 'd pcanfd_options" where
  "pcan_inherit_options_from child parent i =
     (let c = child i; p = parent i
      in if i < PCANFD_OPT_MAX then
           \<lparr>req_size = if req_size c = 0 then req_size p else req_size c,
            opt_get = if opt_get c = None then opt_get p else opt_get c,
            opt_set = if opt_set c = None then opt_set p else opt_set c\<rparr>
         else c)"

text \<open>The options of the USB adapters. A getter of \<open>Pcan_Usb\<close> is told whether the value can be copied to
  the user, and a setter gets the value that was copied.\<close>

definition usb_getter ::
  "(bool \<Rightarrow> usbdev \<Rightarrow> usbdev \<times> u32 option \<times> int) \<Rightarrow> usbdev \<Rightarrow> pcanfd_option \<Rightarrow> umem
     \<Rightarrow> usbdev \<times> pcanfd_option \<times> umem \<times> int" where
  "usb_getter f dev opt m =
     (let (dev, v, err) = f (writable m (opt_value opt)) dev
      in case v of
           None \<Rightarrow> (dev, if err = - EFAULT then opt\<lparr>opt_size := 4\<rparr> else opt, m, err)
         | Some w \<Rightarrow> (dev, opt\<lparr>opt_size := 4\<rparr>, fst (copy_to_user m (opt_value opt) [w]), err))"

definition usb_setter ::
  "(u32 option \<Rightarrow> usbdev \<Rightarrow> usbdev \<times> int) \<Rightarrow> usbdev \<Rightarrow> pcanfd_option \<Rightarrow> umem \<Rightarrow> usbdev \<times> int" where
  "usb_setter f dev opt m =
     (let (ws, ok) = copy_from_user m (opt_value opt) 1 in f (if ok then Some (ws ! 0) else None) dev)"

text \<open>The mass storage mode always reads as 0. Only the super user may enter it; \<open>msd\<close> is the function of
  the adapter, if it has the mode.\<close>

definition pcan_usb_get_mass_storage_mode ::
  "(usbdev \<Rightarrow> usbdev \<times> int) option \<Rightarrow> usbdev \<Rightarrow> pcanfd_option \<Rightarrow> umem \<Rightarrow> usbdev \<times> pcanfd_option \<times> umem \<times> int" where
  "pcan_usb_get_mass_storage_mode msd dev opt m =
     (if msd = None then (dev, opt, m, - EOPNOTSUPP)
      else
        let (m, ok) = copy_to_user m (opt_value opt) [0]
        in if ok then (dev, opt\<lparr>opt_size := 4\<rparr>, m, 0) else (dev, opt, m, - EFAULT))"

abbreviation (input) EPERM :: int where "EPERM \<equiv> 1"

definition pcan_usb_set_msd_option ::
  "bool \<Rightarrow> (usbdev \<Rightarrow> usbdev \<times> int) option \<Rightarrow> usbdev \<Rightarrow> pcanfd_option \<Rightarrow> umem \<Rightarrow> usbdev \<times> int" where
  "pcan_usb_set_msd_option root msd dev opt m =
     (case msd of
        None \<Rightarrow> (dev, - EOPNOTSUPP)
      | Some set_mode \<Rightarrow>
          if opt_value opt = 0 then (dev, 0)
          else
            let (ws, ok) = copy_from_user m (opt_value opt) 1
            in if \<not> ok then (dev, - EFAULT)
               else if ws ! 0 = 0 then (dev, 0)
               else if \<not> root then (dev, - EPERM)
               else set_mode dev)"

definition pcan_usb_opts :: "usb_number_ops \<Rightarrow> bool \<Rightarrow> (usbdev \<Rightarrow> usbdev \<times> int) option \<Rightarrow> nat \<Rightarrow> usbdev pcanfd_options" where
  "pcan_usb_opts ops root msd = table
     [(PCANFD_OPT_DEVICE_ID, \<lparr>req_size = 4, opt_get = Some (usb_getter (pcan_usb_get_devid ops)),
         opt_set = Some (usb_setter (pcan_usb_set_devid ops))\<rparr>),
      (PCANFD_OPT_MASS_STORAGE_MODE, \<lparr>req_size = 4, opt_get = Some (pcan_usb_get_mass_storage_mode msd),
         opt_set = Some (pcan_usb_set_msd_option root msd)\<rparr>)]"

definition pcan_usb_chip_opts :: "fd_env \<Rightarrow> nat \<Rightarrow> usbdev pcanfd_options" where
  "pcan_usb_chip_opts e = table
     [(PCANFD_IO_DIGITAL_CFG, \<lparr>req_size = 4, opt_get = Some (usb_getter (pcan_usb_chip_get_dig_cfg e)),
         opt_set = Some (usb_setter (pcan_usb_chip_set_dig_cfg e))\<rparr>),
      (PCANFD_IO_DIGITAL_VAL, \<lparr>req_size = 4, opt_get = Some (usb_getter (pcan_usb_chip_get_dig_val e)),
         opt_set = Some (usb_setter (pcan_usb_chip_set_dig_val e))\<rparr>),
      (PCANFD_IO_DIGITAL_SET, \<lparr>req_size = 4, opt_get = None, opt_set = Some (usb_setter (pcan_usb_chip_set_dig_bit e))\<rparr>),
      (PCANFD_IO_DIGITAL_CLR, \<lparr>req_size = 4, opt_get = None, opt_set = Some (usb_setter (pcan_usb_chip_clr_dig_bit e))\<rparr>),
      (PCANFD_IO_ANALOG_VAL, \<lparr>req_size = 4, opt_get = Some (usb_getter (pcan_usb_chip_get_ana_val e)), opt_set = None\<rparr>)]"

text \<open>An option of every channel, for a USB channel.\<close>

definition on_channel :: "pcandev pcanfd_options \<Rightarrow> usbdev pcanfd_options" where
  "on_channel o' =
     \<lparr>req_size = req_size o',
      opt_get = map_option (\<lambda>f dev opt m. let (p, opt, m, err) = f (pdev dev) opt m in (dev\<lparr>pdev := p\<rparr>, opt, m, err)) (opt_get o'),
      opt_set = map_option (\<lambda>f dev opt m. let (p, err) = f (pdev dev) opt m in (dev\<lparr>pdev := p\<rparr>, err)) (opt_set o')\<rparr>"

text \<open>The tables as \<^verbatim>\<open>pcan_usb_register_devices\<close> builds them.\<close>

definition usb_options ::
  "usb_number_ops \<Rightarrow> bool \<Rightarrow> (usbdev \<Rightarrow> usbdev \<times> int) option \<Rightarrow> opt_env \<Rightarrow> nat \<Rightarrow> usbdev pcanfd_options" where
  "usb_options ops root msd oe =
     pcan_inherit_options_from (pcan_usb_opts ops root msd) (on_channel \<circ> pcan_def_opts (oe\<lparr>has_devid := True\<rparr>))"

definition usb_chip_options ::
  "fd_env \<Rightarrow> usb_number_ops \<Rightarrow> bool \<Rightarrow> (usbdev \<Rightarrow> usbdev \<times> int) option \<Rightarrow> opt_env \<Rightarrow> nat \<Rightarrow> usbdev pcanfd_options" where
  "usb_chip_options e ops root msd oe = pcan_inherit_options_from (pcan_usb_chip_opts e) (usb_options ops root msd oe)"

section \<open>The requests\<close>

text \<open>The structure of a request: the size, the name, and the address of the buffer in two words, or in one word for
  a program of 32 bits. The buffer is aligned.\<close>

definition read_option :: "umem \<Rightarrow> nat \<Rightarrow> pcanfd_option option" where
  "read_option m up =
     (let (ws, ok) = copy_from_user m up 4
      in if ok then Some \<lparr>opt_size = sint (ws ! 0), opt_name = sint (ws ! 1),
                          opt_value = (unat (ws ! 2) + 2 ^ 32 * unat (ws ! 3)) div 4\<rparr> else None)"

definition read_option32 :: "umem \<Rightarrow> nat \<Rightarrow> pcanfd_option option" where
  "read_option32 m up =
     (let (ws, ok) = copy_from_user m up 3
      in if ok then Some \<lparr>opt_size = sint (ws ! 0), opt_name = sint (ws ! 1), opt_value = unat (ws ! 2) div 4\<rparr> else None)"

text \<open>The size is the first word of the structure.\<close>

definition put_size :: "'d \<Rightarrow> umem \<Rightarrow> nat \<Rightarrow> int \<Rightarrow> int \<Rightarrow> 'd \<times> umem \<times> int" where
  "put_size dev m up n err = (let (m, ok) = copy_to_user m up [word_of_int n] in (dev, m, if ok then err else - EFAULT))"

text \<open>A negative name is not refused; reading the table before its start has no result here.\<close>

definition handle_pcanfd_get_option ::
  "(nat \<Rightarrow> 'd pcanfd_options) \<Rightarrow> 'd \<Rightarrow> umem \<Rightarrow> nat \<Rightarrow> ('d \<times> umem \<times> int) option" where
  "handle_pcanfd_get_option option dev m up =
     (case read_option m up of
        None \<Rightarrow> Some (dev, m, - EFAULT)
      | Some opt \<Rightarrow>
          if int PCANFD_OPT_MAX \<le> opt_name opt then Some (dev, m, - EINVAL)
          else if opt_name opt < 0 then None
          else
            let o' = option (nat (opt_name opt))
            in case opt_get o' of
                 None \<Rightarrow> Some (dev, m, - EOPNOTSUPP)
               | Some get_fn \<Rightarrow>
                   if 0 < req_size o' \<and> opt_size opt < req_size o' then Some (put_size dev m up (req_size o') (- ENOSPC))
                   else
                     let (dev, opt, m, err) = get_fn dev opt m
                     in if err \<noteq> 0 \<and> err \<noteq> - ENOSPC then Some (dev, m, err)
                        else Some (put_size dev m up (opt_size opt) err))"

definition handle_pcanfd_set_option ::
  "(nat \<Rightarrow> 'd pcanfd_options) \<Rightarrow> 'd \<Rightarrow> umem \<Rightarrow> nat \<Rightarrow> ('d \<times> umem \<times> int) option" where
  "handle_pcanfd_set_option option dev m up =
     (case read_option m up of
        None \<Rightarrow> Some (dev, m, - EFAULT)
      | Some opt \<Rightarrow>
          if int PCANFD_OPT_MAX \<le> opt_name opt then Some (dev, m, - EINVAL)
          else if opt_name opt < 0 then None
          else
            let o' = option (nat (opt_name opt))
            in case opt_set o' of
                 None \<Rightarrow> Some (dev, m, - EOPNOTSUPP)
               | Some set_fn \<Rightarrow>
                   if 0 < req_size o' \<and> opt_size opt < req_size o' then Some (put_size dev m up (req_size o') (- ENOSPC))
                   else let (dev, err) = set_fn dev opt m in Some (dev, m, err))"

definition handle_pcanfd_get_option32 ::
  "(nat \<Rightarrow> 'd pcanfd_options) \<Rightarrow> 'd \<Rightarrow> umem \<Rightarrow> nat \<Rightarrow> ('d \<times> umem \<times> int) option" where
  "handle_pcanfd_get_option32 option dev m up =
     (case read_option32 m up of
        None \<Rightarrow> Some (dev, m, - EFAULT)
      | Some opt32 \<Rightarrow>
          if int PCANFD_OPT_MAX \<le> opt_name opt32 then Some (dev, m, - EINVAL)
          else if opt_name opt32 < 0 then None
          else
            let o' = option (nat (opt_name opt32))
            in case opt_get o' of
                 None \<Rightarrow> Some (dev, m, - EOPNOTSUPP)
               | Some get_fn \<Rightarrow>
                   if 0 < req_size o' \<and> opt_size opt32 < req_size o' then Some (put_size dev m up (req_size o') (- ENOSPC))
                   else
                     let (dev, opt, m, err) = get_fn dev opt32 m
                     in if err \<noteq> 0 \<and> err \<noteq> - ENOSPC then Some (dev, m, err)
                        else Some (put_size dev m up (opt_size opt) err))"

text \<open>The size that a program of 32 bits gives is not checked.\<close>

definition handle_pcanfd_set_option32 ::
  "(nat \<Rightarrow> 'd pcanfd_options) \<Rightarrow> 'd \<Rightarrow> umem \<Rightarrow> nat \<Rightarrow> ('d \<times> umem \<times> int) option" where
  "handle_pcanfd_set_option32 option dev m up =
     (case read_option32 m up of
        None \<Rightarrow> Some (dev, m, - EFAULT)
      | Some opt32 \<Rightarrow>
          if int PCANFD_OPT_MAX \<le> opt_name opt32 then Some (dev, m, - EINVAL)
          else if opt_name opt32 < 0 then None
          else
            case opt_set (option (nat (opt_name opt32))) of
              None \<Rightarrow> Some (dev, m, - EOPNOTSUPP)
            | Some set_fn \<Rightarrow> let (dev, err) = set_fn dev opt32 m in Some (dev, m, err))"

text \<open>The clocks by the older request: when the user has room for fewer clocks than there are, the copy starts behind
  the count, but is as long as with the count. What lies behind the list in the memory of the kernel is \<open>behind\<close>.\<close>

definition handle_pcanfd_get_av_clocks :: "opt_env \<Rightarrow> u32 list \<Rightarrow> pcandev \<Rightarrow> umem \<Rightarrow> nat \<Rightarrow> umem \<times> int" where
  "handle_pcanfd_get_av_clocks e behind dev m up =
     (let (ws, ok) = copy_from_user m up 1
      in if \<not> ok then (m, - EFAULT)
         else
           let n = length (clocks_list dev);
               (up, words) = (if n \<le> unat (ws ! 0) then (up, clock_words e dev)
                              else (up + 1, take (1 + unat (ws ! 0) * 2) (List.tl (clock_words e dev) @ behind)));
               (m, ok) = copy_to_user m up words
           in (m, if ok then 0 else - EFAULT))"

definition handle_pcanfd_get_bittiming_ranges :: "pcandev \<Rightarrow> umem \<Rightarrow> nat \<Rightarrow> umem \<times> int" where
  "handle_pcanfd_get_bittiming_ranges dev m up =
     (let (ws, ok) = copy_from_user m up 1
      in if \<not> ok then (m, - EFAULT)
         else
           let rs = (if 0 < ws ! 0 then
                       [bittiming_caps dev] @
                       (case dbittiming_caps dev of None \<Rightarrow> [] | Some c \<Rightarrow> if 1 < ws ! 0 then [c] else [])
                     else []);
               (m, ok) = copy_to_user m up (of_nat (length rs) # concat (map range_words rs))
           in (m, if ok then 0 else - EFAULT))"
section \<open>Copies\<close>

text \<open>Only words of the range \<open>a\<close> to \<open>a + n\<close> have changed.\<close>

definition writes_in :: "nat \<Rightarrow> nat \<Rightarrow> umem \<Rightarrow> umem \<Rightarrow> bool" where
  "writes_in a n m m' \<longleftrightarrow> readable m' = readable m \<and> writable m' = writable m \<and>
     (\<forall>i. i < a \<or> a + n \<le> i \<longrightarrow> uword m' i = uword m i)"

lemma writes_in_refl [simp]: "writes_in a n m m"
  by (simp add: writes_in_def)

lemma writes_in_mono: "writes_in a k m m' \<Longrightarrow> k \<le> n \<Longrightarrow> writes_in a n m m'"
  by (auto simp: writes_in_def)

lemma copy_to_user_writes: "copy_to_user m a ws = (m', ok) \<Longrightarrow> writes_in a (length ws) m m'"
  by (induction m a ws rule: copy_to_user.induct) (auto simp: writes_in_def split: if_splits)

lemma copy_to_user_ok:
  "(\<forall>i < length ws. writable m (a + i)) \<Longrightarrow>
     \<exists>m'. copy_to_user m a ws = (m', True) \<and> (\<forall>i < length ws. uword m' (a + i) = ws ! i)"
proof (induction m a ws rule: copy_to_user.induct)
  case (2 m a w ws)
  let ?m = "m\<lparr>uword := (uword m)(a := w)\<rparr>"
  have w: "writable m a" using 2(2) by (metis length_Cons zero_less_Suc add_0_right)
  have "\<forall>i < length ws. writable ?m (a + 1 + i)" using 2(2) by (auto dest: spec [where x = "Suc _"])
  then obtain m' where m': "copy_to_user ?m (a + 1) ws = (m', True)" "\<forall>i < length ws. uword m' (a + 1 + i) = ws ! i"
    using 2(1) [OF w] by auto
  have "uword m' a = w" using copy_to_user_writes [OF m'(1)] by (simp add: writes_in_def)
  then have "\<forall>i < length (w # ws). uword m' (a + i) = (w # ws) ! i"
    using m'(2) by (auto simp: nth_Cons split: nat.split)
  then show ?case using m'(1) w by auto
qed simp

lemma copy_from_user_length [simp]: "length (fst (copy_from_user m a n)) = n"
  by (induction n arbitrary: a) (auto simp: split_def Let_def)

lemma copy_from_user_ok:
  "(\<forall>i < n. readable m (a + i)) \<Longrightarrow> copy_from_user m a n = (map (\<lambda>i. uword m (a + i)) [0..<n], True)"
proof (induction n arbitrary: a)
  case (Suc n)
  have r: "readable m a" using Suc(2) by (metis add_0_right zero_less_Suc)
  have "\<forall>i < n. readable m (a + 1 + i)" using Suc(2) by (auto dest: spec [where x = "Suc _"])
  then show ?case using Suc(1) [of "a + 1"] r by (simp add: upt_conv_Cons map_Suc_upt [symmetric] comp_def del: upt_Suc)
qed simp

lemma copy_from_user_words [simp]:
  "copy_from_user m a (Suc 0) = (if readable m a then ([uword m a], True) else ([0], False))"
  "copy_from_user m a 2 = (if readable m a then (if readable m (a + 1) then ([uword m a, uword m (a + 1)], True)
     else ([uword m a, 0], False)) else ([0, 0], False))"
  by (simp_all add: numeral_2_eq_2)

lemma read_option_same:
  assumes "writes_in a n m m'" "\<forall>i < 4. up + i < a \<or> a + n \<le> up + i"
  shows "read_option m' up = read_option m up"
proof -
  have "copy_from_user m' up k = copy_from_user m up k" if "\<forall>i < k. up + i < a \<or> a + n \<le> up + i" for k up
    using that
  proof (induction k arbitrary: up)
    case (Suc k)
    have "\<forall>i < k. up + 1 + i < a \<or> a + n \<le> up + 1 + i" using Suc(2) by (auto dest: spec [where x = "Suc _"])
    then have "copy_from_user m' (up + 1) k = copy_from_user m (up + 1) k" by (rule Suc(1))
    moreover have "uword m' up = uword m up" using assms(1) Suc(2) by (auto simp: writes_in_def dest: spec [where x = 0])
    ultimately show ?case using assms(1) by (simp add: writes_in_def)
  qed simp
  from this [OF assms(2)] show ?thesis by (simp add: read_option_def)
qed
section \<open>Tables whose getters keep to the buffer\<close>

text \<open>What the requests rely on: an option with a getter has a size, and the getter writes into a buffer of this
  size, or a larger one, only.\<close>

definition entry_ok :: "'d pcanfd_options \<Rightarrow> bool" where
  "entry_ok e \<longleftrightarrow> (\<forall>get. opt_get e = Some get \<longrightarrow> 0 < req_size e \<and>
     (\<forall>dev opt m. req_size e \<le> opt_size opt \<longrightarrow>
        writes_in (opt_value opt) (nat (opt_size opt) div 4) m (fst (snd (snd (get dev opt m))))))"

locale option_table =
  fixes opts :: "nat \<Rightarrow> 'd pcanfd_options"
  assumes entry: "entry_ok (opts i)"
begin

lemma get_option_in_buffer:
  assumes "handle_pcanfd_get_option opts dev m up = Some (dev', m', err)" "uword m' i \<noteq> uword m i"
  shows "\<exists>opt. read_option m up = Some opt \<and> (i = up \<or> opt_value opt \<le> i \<and> i < opt_value opt + nat (opt_size opt) div 4)"
proof -
  have put: "uword m2 i \<noteq> uword m1 i \<Longrightarrow> i = up" if "put_size d m1 up n err1 = (d2, m2, err2)" for d d2 :: 'd and m1 m2 n err1 err2
    using that by (auto simp: put_size_def split: if_splits)
  obtain opt where o: "read_option m up = Some opt"
    using assms by (auto simp: handle_pcanfd_get_option_def split: option.splits)
  define e where "e = opts (nat (opt_name opt))"
  obtain get_fn where g: "opt_get e = Some get_fn"
    using assms o by (auto simp: handle_pcanfd_get_option_def Let_def e_def split: option.splits if_splits)
  have n: "\<not> 18 \<le> opt_name opt" "\<not> opt_name opt < 0"
    using assms o by (auto simp: handle_pcanfd_get_option_def split: if_splits)
  note r = entry [of "nat (opt_name opt)", folded e_def, unfolded entry_ok_def, rule_format, OF g]
  show ?thesis
  proof (cases "opt_size opt < req_size e")
    case True
    then have "put_size dev m up (req_size e) (- ENOSPC) = (dev', m', err)"
      using assms(1) o g r n by (simp add: handle_pcanfd_get_option_def Let_def e_def)
    then show ?thesis using put assms(2) o by auto
  next
    case False
    obtain d1 o1 m1 e1 where g1: "get_fn dev opt m = (d1, o1, m1, e1)" by (metis prod_cases4)
    then have w: "writes_in (opt_value opt) (nat (opt_size opt) div 4) m m1" using r [THEN conjunct2, rule_format, of opt m dev] False by simp
    have "m' = m1 \<or> put_size d1 m1 up (opt_size o1) e1 = (dev', m', err)"
      using assms(1) o g False g1 n by (auto simp: handle_pcanfd_get_option_def Let_def e_def split: if_splits)
    then show ?thesis using put assms(2) w o unfolding writes_in_def by (metis not_le)
  qed
qed

end

lemma no_option_ok [simp]: "entry_ok no_option" "entry_ok \<lparr>req_size = n, opt_get = None, opt_set = s\<rparr>"
  by (simp_all add: no_option_def entry_ok_def)

lemma table_ok: "(\<And>n e. (n, e) \<in> set es \<Longrightarrow> entry_ok e) \<Longrightarrow> entry_ok (table es i)"
  by (auto simp: table_def split: option.split dest: map_of_SomeD)

lemma inherit_ok:
  assumes "\<And>i. entry_ok (child i)" "\<And>i. entry_ok (parent i)"
    and "\<And>i. opt_get (child i) = None \<Longrightarrow> req_size (child i) \<noteq> 0 \<Longrightarrow> opt_get (parent i) = None"
  shows "entry_ok (pcan_inherit_options_from child parent i)"
  using assms(1,2) [of i] assms(3) [of i]
  by (auto simp: pcan_inherit_options_from_def entry_ok_def Let_def split: if_splits)

lemma on_channel_ok: "entry_ok e \<Longrightarrow> entry_ok (on_channel e)"
  by (fastforce simp: entry_ok_def on_channel_def split_def Let_def)

lemma give_in_buffer:
  assumes "4 * int (length ws) \<le> opt_size opt"
  shows "writes_in (opt_value opt) (nat (opt_size opt) div 4) m (fst (snd (snd (give dev ws opt m))))"
proof -
  have "length ws \<le> nat (opt_size opt) div 4" using assms by (simp add: nat_le_iff zdiv_int less_eq_div_iff_mult_less_eq)
  then show ?thesis using writes_in_mono [OF copy_to_user_writes [of m "opt_value opt" ws]]
    by (auto simp: give_def Let_def split: prod.split)
qed

lemma clock_words_length [simp]: "length (clock_words e dev) = Suc (2 * length (clocks_list dev))"
  by (simp add: clock_words_def length_concat comp_def sum_list_triv)

lemmas getter_defs = pcan_get_channel_features_def pcan_get_avclocks_def pcan_get_bittiming_range_def
  pcan_get_dbittiming_range_def pcan_get_allowed_msgs_def pcan_get_acc_filter_29b_def pcan_get_acc_filter_11b_def
  pcan_get_ifrm_delay_us_def pcan_get_ts_mode_def pcan_get_drv_version_def pcan_get_fw_version_def

lemma entry_okI:
  "0 < n \<Longrightarrow> (\<And>dev opt m. n \<le> opt_size opt \<Longrightarrow>
      writes_in (opt_value opt) (nat (opt_size opt) div 4) m (fst (snd (snd (g dev opt m)))))
    \<Longrightarrow> entry_ok \<lparr>req_size = n, opt_get = Some g, opt_set = s\<rparr>"
  by (simp add: entry_ok_def)

lemma def_opts_ok: "entry_ok (pcan_def_opts e i)"
  unfolding pcan_def_opts_def
  by (rule table_ok) (auto simp: getter_defs range_words_def Let_def
      split: option.split prod.split if_split intro!: entry_okI give_in_buffer)

lemma one_word_in_buffer: "4 \<le> opt_size opt \<Longrightarrow>
    writes_in (opt_value (opt :: pcanfd_option)) (nat (opt_size opt) div 4) m (fst (copy_to_user m (opt_value opt) [w]))"
  using give_in_buffer [of "[w]" opt m dev] by (simp add: give_def Let_def split_def del: copy_to_user.simps)

lemma usb_getter_ok: "entry_ok \<lparr>req_size = 4, opt_get = Some (usb_getter f), opt_set = s\<rparr>"
  by (rule entry_okI) (auto simp: usb_getter_def split_def Let_def one_word_in_buffer split: option.split simp del: copy_to_user.simps)

lemma msd_getter_ok: "entry_ok \<lparr>req_size = 4, opt_get = Some (pcan_usb_get_mass_storage_mode msd), opt_set = s\<rparr>"
  by (rule entry_okI) (auto simp: pcan_usb_get_mass_storage_mode_def split_def Let_def one_word_in_buffer simp del: copy_to_user.simps)

lemma usb_opts_ok: "entry_ok (pcan_usb_opts ops root msd i)"
  unfolding pcan_usb_opts_def
  by (rule table_ok) (auto simp: usb_getter_ok msd_getter_ok)

lemma chip_opts_ok: "entry_ok (pcan_usb_chip_opts e i)"
  unfolding pcan_usb_chip_opts_def by (rule table_ok) (auto simp: usb_getter_ok)
lemma usb_options_ok: "entry_ok (usb_options ops root msd oe i)"
  unfolding usb_options_def
proof (rule inherit_ok)
  fix i assume "opt_get (pcan_usb_opts ops root msd i) = None" "req_size (pcan_usb_opts ops root msd i) \<noteq> 0"
  then show "opt_get ((on_channel \<circ> pcan_def_opts (oe\<lparr>has_devid := True\<rparr>)) i) = None"
    by (auto simp: pcan_usb_opts_def table_def no_option_def split: if_splits)
qed (simp_all add: usb_opts_ok def_opts_ok on_channel_ok)

text \<open>The options of the PCAN-Chip that can only be written have no getter in the tables below.\<close>

lemma usb_options_chip: "opt_get (usb_options ops root msd oe i) = None" if "i \<in> {14, 15}"
  using that by (auto simp: usb_options_def pcan_inherit_options_from_def pcan_usb_opts_def table_def no_option_def
      pcan_def_opts_def on_channel_def)

lemma usb_chip_options_ok: "entry_ok (usb_chip_options e ops root msd oe i)"
  unfolding usb_chip_options_def
proof (rule inherit_ok)
  fix i assume "opt_get (pcan_usb_chip_opts e i) = None" "req_size (pcan_usb_chip_opts e i) \<noteq> 0"
  then have "i \<in> {14, 15}" by (auto simp: pcan_usb_chip_opts_def table_def no_option_def split: if_splits)
  then show "opt_get (usb_options ops root msd oe i) = None" by (rule usb_options_chip)
qed (simp_all add: chip_opts_ok usb_options_ok)

interpretation defo: option_table "pcan_def_opts e" for e
  by unfold_locales (rule def_opts_ok)

interpretation usbo: option_table "usb_options ops root msd oe" for ops root msd oe
  by unfold_locales (rule usb_options_ok)

interpretation chipo: option_table "usb_chip_options e ops root msd oe" for e ops root msd oe
  by unfold_locales (rule usb_chip_options_ok)

section \<open>Properties\<close>

text \<open>C19. Reading an option of a USB channel, with the tables of all levels: whatever the request contains and whatever the
  device replies, the only words of the user that change are the size in the request and words of the buffer that
  the request describes.\<close>

theorem options_in_buffer:
  assumes "handle_pcanfd_get_option (usb_chip_options e ops root msd oe) dev m up = Some (dev', m', err)"
    and "uword m' i \<noteq> uword m i"
  shows "\<exists>opt. read_option m up = Some opt \<and> (i = up \<or> opt_value opt \<le> i \<and> i < opt_value opt + nat (opt_size opt) div 4)"
  using assms by (rule chipo.get_option_in_buffer)

text \<open>The same for the channels of the other boards.\<close>

lemma def_options_in_buffer:
  assumes "handle_pcanfd_get_option (pcan_def_opts e) dev m up = Some (dev', m', err)" "uword m' i \<noteq> uword m i"
  shows "\<exists>opt. read_option m up = Some opt \<and> (i = up \<or> opt_value opt \<le> i \<and> i < opt_value opt + nat (opt_size opt) div 4)"
  using assms by (rule defo.get_option_in_buffer)

text \<open>What the channel keeps of the words \<open>ws\<close> of an option: the acceptance filters are cut to the width of
  their identifiers and the code to the bits outside the mask, and time stamps that cannot be corrected are
  taken as they are.\<close>

definition kept_words :: "pcandev \<Rightarrow> int \<Rightarrow> u32 list \<Rightarrow> u32 list" where
  "kept_words dev name ws =
     (if name = 6 then [ws ! 0 AND CAN_MAX_STANDARD_ID, clr_flag (ws ! 1) (ws ! 0 AND CAN_MAX_STANDARD_ID)]
      else if name = 7 then [ws ! 0 AND CAN_MAX_EXTENDED_ID, clr_flag (ws ! 1) (ws ! 0 AND CAN_MAX_EXTENDED_ID)]
      else if name = 9 \<and> ws ! 0 = PCANFD_OPT_HWTIMESTAMP_COOKED \<and> \<not> has_flag (dev_flags dev) PCAN_DEV_HWTSC_RDY
      then [PCANFD_OPT_HWTIMESTAMP_ON] else [ws ! 0])"

definition option_words :: "umem \<Rightarrow> pcanfd_option \<Rightarrow> u32 list" where
  "option_words m opt = map (\<lambda>i. uword m (opt_value opt + i)) [0..<nat (if opt_name opt \<in> {6, 7} then 2 else 1)]"

text \<open>A successful write of an option: its name, and the channel afterwards.\<close>

text \<open>The setters of the table.\<close>

lemma def_opts_set:
  "opt_set (pcan_def_opts e i) =
     map_of [(5, pcan_set_allowed_msgs), (6, pcan_set_acc_filter_11b), (7, pcan_set_acc_filter_29b), (8, pcan_set_ifrm_delay_us),
       (9, pcan_set_ts_mode)] i"
proof (cases "i < 12")
  case True
  then have "i = 0 \<or> i = 1 \<or> i = 2 \<or> i = 3 \<or> i = 4 \<or> i = 5 \<or> i = 6 \<or> i = 7 \<or> i = 8 \<or> i = 9 \<or> i = 10 \<or> i = 11" by arith
  then show ?thesis by (elim disjE) (simp_all add: pcan_def_opts_def table_def no_option_def)
next
  case False
  then show ?thesis by (simp add: pcan_def_opts_def table_def no_option_def)
qed

lemma set_option_cases:
  assumes "handle_pcanfd_set_option (pcan_def_opts e) dev m up = Some (dev', m', 0)" "read_option m up = Some opt"
  obtains (allowed) "opt_name opt = 5" "m' = m" "pcan_set_allowed_msgs dev opt m = (dev', 0)"
  | (acc11) "opt_name opt = 6" "m' = m" "pcan_set_acc_filter_11b dev opt m = (dev', 0)"
  | (acc29) "opt_name opt = 7" "m' = m" "pcan_set_acc_filter_29b dev opt m = (dev', 0)"
  | (delay) "opt_name opt = 8" "m' = m" "pcan_set_ifrm_delay_us dev opt m = (dev', 0)"
  | (mode) "opt_name opt = 9" "m' = m" "pcan_set_ts_mode dev opt m = (dev', 0)"
proof -
  have n: "0 \<le> opt_name opt" "opt_name opt < 18"
    using assms by (auto simp: handle_pcanfd_set_option_def split: if_splits)
  obtain f where f: "opt_set (pcan_def_opts e (nat (opt_name opt))) = Some f" "m' = m" "f dev opt m = (dev', 0)"
    using assms n
    by (auto simp: handle_pcanfd_set_option_def Let_def put_size_def split: if_splits option.splits prod.splits)
  have "(nat (opt_name opt), f) \<in> set [(5, pcan_set_allowed_msgs), (6, pcan_set_acc_filter_11b), (7, pcan_set_acc_filter_29b),
      (8, pcan_set_ifrm_delay_us), (9, pcan_set_ts_mode)]"
    using f(1) unfolding def_opts_set by (rule map_of_SomeD)
  then show ?thesis using f(2,3) n(1) that by auto
qed
lemma def_opts_settable:
  "pcan_def_opts e 5 = \<lparr>req_size = 4, opt_get = Some pcan_get_allowed_msgs, opt_set = Some pcan_set_allowed_msgs\<rparr>"
  "pcan_def_opts e 6 = \<lparr>req_size = 8, opt_get = Some pcan_get_acc_filter_11b, opt_set = Some pcan_set_acc_filter_11b\<rparr>"
  "pcan_def_opts e 7 = \<lparr>req_size = 8, opt_get = Some pcan_get_acc_filter_29b, opt_set = Some pcan_set_acc_filter_29b\<rparr>"
  "pcan_def_opts e 8 = \<lparr>req_size = 4, opt_get = Some pcan_get_ifrm_delay_us, opt_set = Some pcan_set_ifrm_delay_us\<rparr>"
  "pcan_def_opts e 9 = \<lparr>req_size = 4, opt_get = Some pcan_get_ts_mode, opt_set = Some pcan_set_ts_mode\<rparr>"
  by (simp_all add: pcan_def_opts_def table_def)

text \<open>Reading an option with room for its words.\<close>

lemma get_option_gives:
  assumes "read_option m up = Some opt" "0 \<le> opt_name opt" "opt_name opt < 18"
    and "opt_get (opts (nat (opt_name opt))) = Some g" "req_size (opts (nat (opt_name opt))) \<le> opt_size opt"
    and "g dev opt m = give dev ws opt m" "\<forall>i < length ws. writable m (opt_value opt + i)" "writable m up"
    and "up < opt_value opt \<or> opt_value opt + length ws \<le> up"
  obtains m' where "handle_pcanfd_get_option opts dev m up = Some (dev, m', 0)"
    "\<And>i. i < length ws \<Longrightarrow> uword m' (opt_value opt + i) = ws ! i" "uword m' up = of_nat (4 * length ws)"
proof -
  obtain m1 where m1: "copy_to_user m (opt_value opt) ws = (m1, True)" "\<forall>i < length ws. uword m1 (opt_value opt + i) = ws ! i"
    using copy_to_user_ok [OF assms(7)] by blast
  have w: "writes_in (opt_value opt) (length ws) m m1" by (rule copy_to_user_writes [OF m1(1)])
  define m2 where "m2 = m1\<lparr>uword := (uword m1)(up := of_nat (4 * length ws))\<rparr>"
  have "writable m1 up" using w assms(8) by (simp add: writes_in_def)
  then have "put_size dev m1 up (4 * int (length ws)) 0 = (dev, m2, 0)" by (simp add: put_size_def m2_def)
  then have "handle_pcanfd_get_option opts dev m up = Some (dev, m2, 0)"
    using assms(1-6) m1(1) by (simp add: handle_pcanfd_get_option_def Let_def give_def)
  moreover have "uword m2 (opt_value opt + i) = ws ! i" if "i < length ws" for i
    using that m1(2) assms(9) by (auto simp: m2_def)
  ultimately show ?thesis using that [of m2] by (simp add: m2_def)
qed

text \<open>The meaning of an acceptance filter: after it was written, a frame of its format is admitted exactly when its
  identifier agrees with the code in every bit that the mask does not set free; only bits of the identifier can be
  set free. The channel must take frames of this kind.\<close>

lemma and_not_eq_bits:
  "(x :: 'a::len word) AND NOT k = clr_flag c k \<longleftrightarrow> (\<forall>n < LENGTH('a). bit k n \<or> bit x n = bit c n)"
  unfolding clr_flag_def by (auto simp: bit_eq_iff bit_simps)

lemma masked_eq_bits:
  fixes x :: u32
  assumes "t = mask w" "k' = k AND t" "c' = clr_flag c k'"
  shows "x AND NOT k' = c' \<longleftrightarrow> (\<forall>n < 32. bit x n = bit c n \<or> bit k n \<and> n < w)"
  unfolding assms and_not_eq_bits by (auto simp: bit_simps bit_imp_le_length)

lemma id_masks: "CAN_MAX_STANDARD_ID = mask 11" "CAN_MAX_EXTENDED_ID = mask 29"
  by (simp_all add: mask_eq_exp_minus_1)

theorem acceptance_option:
  assumes "handle_pcanfd_set_option (pcan_def_opts e) dev m up = Some (dev', m', 0)" "read_option m up = Some opt"
    and "opt_name opt = (if has_flag (msg_flags f) PCANFD_MSG_EXT then 7 else 6)"
  shows "can_admitted dev' f \<longleftrightarrow> has_flag (allowed_msgs dev) PCANFD_ALLOWED_MSG_CAN \<and>
     (has_flag (msg_flags f) PCANFD_MSG_EXT \<longrightarrow> has_flag (allowed_msgs dev) PCANFD_ALLOWED_MSG_EXT) \<and>
     (has_flag (msg_flags f) PCANFD_MSG_RTR \<longrightarrow> has_flag (allowed_msgs dev) PCANFD_ALLOWED_MSG_RTR) \<and>
     (\<forall>n < 32. bit (msg_id f) n = bit (uword m (opt_value opt + 1)) n \<or>
        bit (uword m (opt_value opt)) n \<and> n < (if has_flag (msg_flags f) PCANFD_MSG_EXT then 29 else 11))"
  using assms(1,2)
proof (cases rule: set_option_cases)
  case acc11
  then have d: "acc_11b_mask dev' = uword m (opt_value opt) AND CAN_MAX_STANDARD_ID"
    "acc_11b_code dev' = clr_flag (uword m (opt_value opt + 1)) (acc_11b_mask dev')" "allowed_msgs dev' = allowed_msgs dev"
    by (auto simp: pcan_set_acc_filter_11b_def Let_def split: if_splits)
  show ?thesis using assms(3) acc11(1) masked_eq_bits [OF id_masks(1) d(1,2), of "msg_id f"]
    by (auto simp: can_admitted_def d(3) split: if_splits)
next
  case acc29
  then have d: "acc_29b_mask dev' = uword m (opt_value opt) AND CAN_MAX_EXTENDED_ID"
    "acc_29b_code dev' = clr_flag (uword m (opt_value opt + 1)) (acc_29b_mask dev')" "allowed_msgs dev' = allowed_msgs dev"
    by (auto simp: pcan_set_acc_filter_29b_def Let_def split: if_splits)
  show ?thesis using assms(3) acc29(1) masked_eq_bits [OF id_masks(2) d(1,2), of "msg_id f"]
    by (auto simp: can_admitted_def d(3) split: if_splits)
qed (use assms(3) in \<open>auto split: if_splits\<close>)

text \<open>A write of an option that fails may change the channel all the same: when the buffer of the selected messages cannot
  be read, the request returns an error, and the channel does not admit any frame from then on.\<close>

lemma failed_option_deafens:
  assumes "read_option m up = Some opt" "opt_name opt = 5" "4 \<le> opt_size opt" "\<not> readable m (opt_value opt)"
  shows "handle_pcanfd_set_option (pcan_def_opts e) dev m up = Some (dev\<lparr>allowed_msgs := 0\<rparr>, m, - EFAULT) \<and>
    \<not> can_admitted (dev\<lparr>allowed_msgs := 0\<rparr>) f"
  using assms by (simp add: handle_pcanfd_set_option_def def_opts_settable pcan_set_allowed_msgs_def can_admitted_def)

text \<open>The older request for the clocks writes outside the buffer of the user: with room for \<open>k\<close> clocks of more,
  the word behind the buffer is overwritten by the next clock.\<close>

theorem av_clocks_overrun:
  assumes "readable m up" "unat (uword m up) = k" "k < length (clocks_list dev)" "\<forall>i < 2 + 2 * k. writable m (up + i)"
  shows "\<exists>m'. handle_pcanfd_get_av_clocks e behind dev m up = (m', 0) \<and> uword m' (up + (1 + 2 * k)) = clocks_list dev ! k"
proof -
  let ?n = "length (clocks_list dev)"
  define ws where "ws = take (1 + k * 2) (List.tl (clock_words e dev) @ behind)"
  have l: "length ws = 1 + k * 2" using assms(3) by (simp add: ws_def)
  have "writable m (up + 1 + i)" if "i < length ws" for i using assms(4) [rule_format, of "Suc i"] that l by simp
  then obtain m' where m': "copy_to_user m (up + 1) ws = (m', True)" "\<forall>i < length ws. uword m' (up + 1 + i) = ws ! i"
    using copy_to_user_ok [of ws m "up + 1"] by blast
  have pair: "concat (map f xs) ! (2 * j) = hd (f (xs ! j))" if "j < length xs" "\<And>x. length (f x) = 2" for f :: "nat \<Rightarrow> u32 list" and xs j
    using that(1)
  proof (induction xs arbitrary: j)
    case (Cons x xs)
    then show ?case using that(2) [of x]
      by (cases j; cases "f x") (auto simp: nth_append)
  qed simp
  have "k * 2 < length (List.tl (clock_words e dev))" using assms(3) by simp
  then have "ws ! (k * 2) = List.tl (clock_words e dev) ! (2 * k)" by (simp add: ws_def nth_append mult.commute)
  also have "\<dots> = clocks_list dev ! k"
    using assms(3) pair [of k "[0..<?n]" "\<lambda>i. [clocks_list dev ! i, clock_src e i]"] by (simp add: clock_words_def)
  finally have "uword m' (up + (1 + 2 * k)) = clocks_list dev ! k" using m'(2) l by (auto simp: mult.commute)
  then show ?thesis using m'(1) assms(1-3) by (auto simp: handle_pcanfd_get_av_clocks_def Let_def ws_def)
qed

text \<open>Programs of 32 and of 64 bits get the same: requests that say the same lead to the same call of the getter; a
  write of an option whose buffer is too small is refused for 64 bits only.\<close>

lemma get_option32_same:
  "read_option32 m up = read_option m up \<Longrightarrow> handle_pcanfd_get_option32 opts dev m up = handle_pcanfd_get_option opts dev m up"
  by (simp add: handle_pcanfd_get_option32_def handle_pcanfd_get_option_def)

lemma set_option32_unchecked:
  assumes "read_option32 m up = Some opt" "read_option m up = Some opt" "0 \<le> opt_name opt" "opt_name opt < 18"
    and "opt_set (opts (nat (opt_name opt))) = Some f" "0 < req_size (opts (nat (opt_name opt)))"
    and "opt_size opt < req_size (opts (nat (opt_name opt)))" "writable m up"
  shows "handle_pcanfd_set_option32 opts dev m up = Some (fst (f dev opt m), m, snd (f dev opt m)) \<and>
    (\<exists>m'. handle_pcanfd_set_option opts dev m up = Some (dev, m', - ENOSPC))"
  using assms by (simp add: handle_pcanfd_set_option32_def handle_pcanfd_set_option_def Let_def split_def put_size_def)
section \<open>Witnesses\<close>

text \<open>A request at the word 8, with a buffer at the word 20 that holds a mask and a code.\<close>

definition demo_mem :: "u32 \<Rightarrow> umem" where
  "demo_mem name = \<lparr>uword = (\<lambda>i. 0)(8 := 8, 9 := name, 10 := 80, 20 := 0xf, 21 := 0x123),
     readable = (\<lambda>_. True), writable = (\<lambda>_. True)\<rparr>"

definition demo_opt_env :: opt_env where
  "demo_opt_env = \<lparr>clock_src = (\<lambda>_. 0), hw_ver = (1, 2, 3), has_devid = False\<rparr>"

lemma demo_words [simp]: "uword (demo_mem n) 20 = 0xf" "uword (demo_mem n) 21 = 0x123" "readable (demo_mem n) i" "writable (demo_mem n) i"
  by (simp_all add: demo_mem_def)

lemma demo_read_option:
  "read_option (demo_mem 6) 8 = Some \<lparr>opt_size = 8, opt_name = 6, opt_value = 20\<rparr>"
  "read_option (demo_mem 10) 8 = Some \<lparr>opt_size = 8, opt_name = 10, opt_value = 20\<rparr>"
  by (simp_all add: read_option_def copy_from_user_ok) (simp_all add: demo_mem_def)

lemma demo_set:
  "handle_pcanfd_set_option (pcan_def_opts demo_opt_env) blank_dev (demo_mem 6) 8 =
     Some (blank_dev\<lparr>acc_11b_mask := 0xf, acc_11b_code := 0x120\<rparr>, demo_mem 6, 0)"
  by (simp add: handle_pcanfd_set_option_def demo_read_option def_opts_settable pcan_set_acc_filter_11b_def clr_flag_def)


theorem acceptance_option_witness:
  "can_admitted (blank_dev\<lparr>allowed_msgs := 1, acc_11b_mask := 0xf, acc_11b_code := 0x120\<rparr>) (zero_msg\<lparr>msg_type := 1, msg_id := 0x125\<rparr>)"
proof -
  let ?d = "blank_dev\<lparr>allowed_msgs := 1\<rparr>" and ?f = "zero_msg\<lparr>msg_type := 1, msg_id := 0x125\<rparr>"
  have s: "handle_pcanfd_set_option (pcan_def_opts demo_opt_env) ?d (demo_mem 6) 8 =
      Some (?d\<lparr>acc_11b_mask := 0xf, acc_11b_code := 0x120\<rparr>, demo_mem 6, 0)"
    by (simp add: handle_pcanfd_set_option_def demo_read_option def_opts_settable pcan_set_acc_filter_11b_def clr_flag_def)
  have f: "\<not> has_flag (msg_flags ?f) PCANFD_MSG_EXT" "\<not> has_flag (msg_flags ?f) PCANFD_MSG_RTR"
    by (simp_all add: zero_msg_def)
  have b: "\<forall>n < 32. bit (0x125 :: u32) n = bit (0x123 :: u32) n \<or> bit (0xf :: u32) n \<and> n < 11"
    by (rule masked_eq_bits [OF id_masks(1) HOL.refl HOL.refl, THEN iffD1]) (simp add: clr_flag_def)
  show ?thesis
    using acceptance_option [OF s demo_read_option(1), of ?f] f b by (simp add: has_flag_def)
qed

theorem options_in_buffer_witness:
  "\<exists>opt. read_option (demo_mem 10) 8 = Some opt \<and> ((20::nat) = 8 \<or> opt_value opt \<le> 20 \<and> 20 < opt_value opt + nat (opt_size opt) div 4)"
proof -
  let ?o = "usb_chip_options demo_fd (pcan_usb_number_ops good_env) False None demo_opt_env"
  have o: "opt_get (?o 10) = Some (\<lambda>dev opt m. let (p, opt, m, err) = pcan_get_drv_version (pdev dev) opt m in (dev\<lparr>pdev := p\<rparr>, opt, m, err))"
    "req_size (?o 10) = 4"
    by (simp_all add: usb_chip_options_def usb_options_def pcan_inherit_options_from_def pcan_usb_chip_opts_def pcan_usb_opts_def
        pcan_def_opts_def table_def no_option_def on_channel_def)
  obtain dev' m' err where "handle_pcanfd_get_option ?o fd_dev (demo_mem 10) 8 = Some (dev', m', err)" "uword m' 20 = VER_NUM 8 9 3"
    by (simp add: handle_pcanfd_get_option_def demo_read_option o pcan_get_drv_version_def give_def put_size_def split_def Let_def)
  then show ?thesis
    using options_in_buffer [of demo_fd "pcan_usb_number_ops good_env" False None demo_opt_env fd_dev "demo_mem 10" 8 dev' m' err 20]
    by (simp add: VER_NUM_def)
qed

theorem av_clocks_overrun_witness:
  "\<exists>m'. handle_pcanfd_get_av_clocks demo_opt_env [] (blank_dev\<lparr>clocks_list := [80000000, 60000000]\<rparr>)
      \<lparr>uword = (\<lambda>i. if i = 8 then 1 else 0), readable = (\<lambda>_. True), writable = (\<lambda>_. True)\<rparr> 8 = (m', 0) \<and>
    uword m' 11 = 60000000"
  using av_clocks_overrun [of "\<lparr>uword = (\<lambda>i. if i = 8 then 1 else 0), readable = (\<lambda>_. True), writable = (\<lambda>_. True)\<rparr>" 8 1
      "blank_dev\<lparr>clocks_list := [80000000, 60000000]\<rparr>" demo_opt_env "[]"]
  by simp

end
