(* ===== verification/Pcan_Fops.thy ===== *)
theory Pcan_Fops
  imports Pcan_Options Pcan_Xfer Pcan_Sja1000
begin

text \<open>
  The system calls of \<^verbatim>\<open>driver/src/pcan_fops.c\<close> and \<^verbatim>\<open>driver/src/pcan_fops_linux.c\<close>: opening and releasing a path
  to a channel, the requests of the older and of the newer interface with their copies from and to the memory of
  the user, and those of programs of 32 bits. The calls that read and write text are in \<open>Pcan_Text\<close>. A structure
  of the user that is copied as a whole is a cell, readable, writable, both or none. What the calls
  do is shown in \<open>Pcan_Syscalls\<close>.
\<close>

section \<open>Structures of the older interface\<close>

record TPCANMsg =
  ID :: u32
  MSGTYPE :: u8
  LEN :: u8
  DATA :: "u8 list"

record TPCANRdMsg =
  Msg :: TPCANMsg
  dwTime :: u32
  wUsec :: u16

text \<open>\<open>pf\<close> is the message before, on the stack of the caller.\<close>

definition pcan_is_fd :: "pcanfd_msg \<Rightarrow> bool" where
  "pcan_is_fd pf \<longleftrightarrow> msg_type pf = PCANFD_TYPE_CANFD_MSG"

definition pcan_msg_to_fd :: "pcanfd_msg \<Rightarrow> TPCANMsg \<Rightarrow> pcanfd_msg" where
  "pcan_msg_to_fd pf msg =
     pf\<lparr>msg_type := PCANFD_TYPE_CAN20_MSG, msg_id := ID msg, msg_flags := ucast (MSGTYPE msg), data_len := ucast (LEN msg),
        msg_data := take (unat (LEN msg)) (DATA msg) @ drop (unat (LEN msg)) (msg_data pf)\<rparr>"

text \<open>The code of a status in the last data byte, which keeps the low eight bits.\<close>

definition status_code :: "u32 \<Rightarrow> u8" where
  "status_code i =
     ucast (if i = PCANFD_ERROR_WARNING then CAN_ERR_BUSLIGHT else if i = PCANFD_ERROR_PASSIVE then CAN_ERR_BUSHEAVY
            else if i = PCANFD_ERROR_BUSOFF then CAN_ERR_BUSOFF else if i = PCANFD_RX_EMPTY then CAN_ERR_QRCVEMPTY
            else if i = PCANFD_RX_OVERFLOW then CAN_ERR_OVERRUN else if i = PCANFD_TX_OVERFLOW then CAN_ERR_QXMTFULL
            else if i = PCANFD_ERROR_ACTIVE then 0 else CAN_ERR_RESOURCE)"

definition pcan_fd_to_msg :: "TPCANRdMsg \<Rightarrow> pcanfd_msg \<Rightarrow> TPCANRdMsg option" where
  "pcan_fd_to_msg msg pf =
     (let t = timestamp pf;
          stamp = (\<lambda>msg. if has_flag (msg_flags pf) PCANFD_TIMESTAMP then
                     msg\<lparr>dwTime := of_int (tv_sec t * 1000) + of_int (c_div (tv_usec t) 1000), wUsec := of_int (c_mod (tv_usec t) 1000)\<rparr>
                   else msg)
      in if msg_type pf = PCANFD_TYPE_STATUS then
           Some (stamp (msg\<lparr>Msg := (Msg msg)\<lparr>ID := msg_id pf, MSGTYPE := Pcan_Open.MSGTYPE_STATUS, LEN := 4,
             DATA := [0, 0, 0, status_code (msg_id pf)] @ drop 4 (DATA (Msg msg))\<rparr>\<rparr>))
         else if msg_type pf = PCANFD_TYPE_CAN20_MSG then
           Some (stamp (msg\<lparr>Msg := (Msg msg)\<lparr>ID := msg_id pf, MSGTYPE := ucast (msg_flags pf AND 0xff), LEN := ucast (data_len pf),
             DATA := take (unat (data_len pf)) (msg_data pf) @ drop (unat (data_len pf)) (DATA (Msg msg))\<rparr>\<rparr>))
         else None)"

record TPSTATUS =
  st_wErrorFlag :: u16
  st_nLastError :: int

record TPEXTENDEDSTATUS = TPSTATUS +
  nPendingReads :: int
  nPendingWrites :: int

definition status_flags :: "pcandev \<Rightarrow> u16" where
  "status_flags dev =
     (let w = wCANStatus dev; w = (if pcan_fifo_empty (readFifo dev) then w OR CAN_ERR_QRCVEMPTY else w)
      in if pcan_fifo_full (writeFifo dev) then w OR CAN_ERR_QXMTFULL else w)"

definition pcan_ioctl_status_common :: "pcandev \<Rightarrow> TPSTATUS" where
  "pcan_ioctl_status_common dev = \<lparr>st_wErrorFlag = status_flags dev, st_nLastError = nLastError dev\<rparr>"

definition pcan_ioctl_extended_status_common :: "pcandev \<Rightarrow> TPEXTENDEDSTATUS" where
  "pcan_ioctl_extended_status_common dev =
     \<lparr>st_wErrorFlag = status_flags dev, st_nLastError = nLastError dev, nPendingReads = sint (nStored (readFifo dev)),
      nPendingWrites = sint (nStored (writeFifo dev))\<rparr>"

record TPDIAG =
  dg_wType :: u16
  dg_dwBase :: u32
  dg_wIrqLevel :: u16
  dg_dwReadCounter :: u32
  dg_dwWriteCounter :: u32
  dg_dwIRQcounter :: u32
  dg_dwErrorCounter :: u32
  dg_wErrorFlag :: u16
  dg_nLastError :: int
  dg_nOpenPaths :: int
  dg_szVersionString :: string

text \<open>The base and the interrupt of the board, or the serial number and the device number of a USB adapter, are
  given. The flags of the queues are set in the result and overwritten before it is returned.\<close>

definition pcan_ioctl_diag_common :: "u32 \<Rightarrow> u16 \<Rightarrow> string \<Rightarrow> pcandev \<Rightarrow> TPDIAG" where
  "pcan_ioctl_diag_common base irq version dev =
     \<lparr>dg_wType = wType dev, dg_dwBase = base, dg_wIrqLevel = irq, dg_dwReadCounter = dwTotal (readFifo dev),
      dg_dwWriteCounter = dwTotal (writeFifo dev), dg_dwIRQcounter = dwInterruptCounter dev,
      dg_dwErrorCounter = dwErrorCounter dev, dg_wErrorFlag = wCANStatus dev, dg_nLastError = nLastError dev,
      dg_nOpenPaths = nOpenPaths dev, dg_szVersionString = version\<rparr>"

section \<open>Paths\<close>

text \<open>A channel with the memory of its queues, its place among the open channels of its adapter, and the counter of
  the adapter.\<close>

record chan =
  ch_dev :: pcandev
  wMsg :: "nat option"
  rMsg :: "nat option"
  opened_index :: int
  adapter_opened :: int

text \<open>The sizes of the queues and of their entries, the results of the two allocations, the clocks, and the
  functions of the controller that a dongle is probed with.\<close>

record path_env =
  txqsize :: u16
  rxqsize :: u16
  tx_msg_bytes :: u16
  rx_msg_bytes :: u16
  alloc_w :: "nat option"
  alloc_r :: "nat option"
  pe_now :: timeval
  pe_jiffies :: u64
  pe_probe :: "pcandev \<Rightarrow> pcandev \<times> int"

abbreviation (input) HW_DONGLE_SJA :: u16 where "HW_DONGLE_SJA \<equiv> 5"
abbreviation (input) HW_DONGLE_SJA_EPP :: u16 where "HW_DONGLE_SJA_EPP \<equiv> 6"

text \<open>The settings that a channel is opened with are its own: they are changed where they are checked.\<close>

definition dev_open_own :: "dev_ops \<Rightarrow> timeval \<Rightarrow> u64 \<Rightarrow> pcandev \<Rightarrow> (pcandev \<times> int) option" where
  "dev_open_own ops now jiffies dev =
     do {
       let pfdi = init_settings dev;
       (pfdi, err) \<leftarrow> (if has_flag (init_flags pfdi) PCANFD_INIT_USER then check_user_init dev pfdi else Some (pfdi, 0));
       let dev = dev\<lparr>init_settings := pfdi\<rparr>;
       if err \<noteq> 0 then Some (dev, err)
       else do {
         let pfdi = (if \<not> has_flag (dev_flags dev) PCAN_DEV_BUSLOAD_RDY
                     then pfdi\<lparr>init_flags := clr_flag (init_flags pfdi) PCANFD_INIT_BUS_LOAD_INFO\<rparr> else pfdi);
         (dev, pfdi, err) \<leftarrow> pcanfd_dev_open_u ops now jiffies (dev\<lparr>init_settings := pfdi\<rparr>) pfdi;
         Some (dev, err)
       }
     }"

definition free_queues :: "chan \<Rightarrow> chan" where
  "free_queues ch = ch\<lparr>rMsg := None, wMsg := None\<rparr>"

text \<open>The first path: \<open>path_hw\<close> opens the interface and the interrupt, \<open>path_dev\<close> the channel.\<close>

definition path_dev :: "path_env \<Rightarrow> dev_ops \<Rightarrow> chan \<Rightarrow> (chan \<times> int) option" where
  "path_dev e ops ch =
     (let ch = ch\<lparr>opened_index := adapter_opened ch, adapter_opened := adapter_opened ch + 1\<rparr>;
          dev = fst (pcanfd_dev_reset ops ((ch_dev ch)\<lparr>nOpenPaths := 1\<rparr>))
      in do {
        (dev, err) \<leftarrow> dev_open_own ops (pe_now e) (pe_jiffies e) dev;
        if err = 0 then Some (ch\<lparr>ch_dev := dev\<rparr>, 0)
        else
          (let dev = dev\<lparr>nOpenPaths := nOpenPaths dev - 1\<rparr>;
               dev = (case op_free_irq ops of None \<Rightarrow> dev | Some f \<Rightarrow> f dev)
           in Some (free_queues (ch\<lparr>ch_dev := dev, adapter_opened := adapter_opened ch - 1\<rparr>), err))
      })"

definition path_hw :: "path_env \<Rightarrow> dev_ops \<Rightarrow> chan \<Rightarrow> (chan \<times> int) option" where
  "path_hw e ops ch =
     (let (dev, err) = (case op_open ops of None \<Rightarrow> (ch_dev ch, 0) | Some f \<Rightarrow> f (ch_dev ch))
      in if err \<noteq> 0 then Some (free_queues (ch\<lparr>ch_dev := dev\<rparr>), err)
         else
           let (dev, err) = (if wType dev = HW_DONGLE_SJA \<or> wType dev = HW_DONGLE_SJA_EPP then pe_probe e dev else (dev, 0))
           in if err \<noteq> 0 then
                map_option (\<lambda>f. (free_queues (ch\<lparr>ch_dev := fst (f dev)\<rparr>), err)) (op_release ops)
              else
                let dev = dev\<lparr>in_event := 0, out_event := 1\<rparr>;
                    (dev, err) = (case op_req_irq ops of None \<Rightarrow> (dev, 0) | Some f \<Rightarrow> f dev)
                in if err \<noteq> 0 then Some (free_queues (ch\<lparr>ch_dev := dev\<rparr>), err)
                   else path_dev e ops (ch\<lparr>ch_dev := dev\<rparr>))"

text \<open>The results of \<^verbatim>\<open>pcan_fifo_init\<close> are not looked at.\<close>

definition pcan_open_path :: "path_env \<Rightarrow> dev_ops \<Rightarrow> chan \<Rightarrow> (chan \<times> int) option" where
  "pcan_open_path e ops ch =
     (let dev = ch_dev ch
      in if 0 < nOpenPaths dev then Some (ch\<lparr>ch_dev := dev\<lparr>nOpenPaths := nOpenPaths dev + 1\<rparr>\<rparr>, 0)
         else
           case alloc_w e of
             None \<Rightarrow> Some (ch\<lparr>wMsg := None\<rparr>, - ENOMEM)
           | Some w \<Rightarrow>
               let n = unat (txqsize e);
                   dev = dev\<lparr>writeFifo := fst (pcan_fifo_init (writeFifo dev) w (w + (n - 1) * unat (tx_msg_bytes e)) (int n) (tx_msg_bytes e))\<rparr>;
                   ch = ch\<lparr>ch_dev := dev, wMsg := Some w\<rparr>
               in case alloc_r e of
                    None \<Rightarrow> Some (ch\<lparr>rMsg := None, wMsg := None\<rparr>, - ENOMEM)
                  | Some r \<Rightarrow>
                      let n = unat (rxqsize e);
                          dev = dev\<lparr>readFifo := fst (pcan_fifo_init (readFifo dev) r (r + (n - 1) * unat (rx_msg_bytes e)) (int n) (rx_msg_bytes e))\<rparr>
                      in path_hw e ops (ch\<lparr>ch_dev := dev, rMsg := Some r\<rparr>))"

definition pcan_tx_fifo_empty :: "pcandev \<Rightarrow> bool" where
  "pcan_tx_fifo_empty dev \<longleftrightarrow> \<not> is_plugged dev \<or> bus_state dev = PCANFD_ERROR_BUSOFF \<or> pcan_fifo_empty (writeFifo dev)"

text \<open>\<open>waited\<close> is what happens to the channel while the task waits, at most for one second, for its queue to be
  written. The last path leaves the counter at -1: the labels of the \<^verbatim>\<open>switch\<close> fall through.\<close>

definition release_last :: "dev_ops \<Rightarrow> (pcandev \<Rightarrow> pcandev) \<Rightarrow> chan \<Rightarrow> chan" where
  "release_last ops waited ch =
     (let dev = ch_dev ch;
          dev = dev\<lparr>dev_flags := set_flag (dev_flags dev) PCAN_DEV_CLOSING\<rparr>;
          dev = (if pcan_tx_fifo_empty dev then dev else waited dev);
          dev = pcan_set_tx_engine TX_ENGINE_CLOSED (dev\<lparr>nOpenPaths := nOpenPaths dev - 1\<rparr>);
          dev = (case op_device_release ops of None \<Rightarrow> dev | Some f \<Rightarrow> f dev);
          dev = dev\<lparr>dev_flags := clr_flag (dev_flags dev) (PCAN_DEV_OPENED OR PCAN_DEV_CLOSING)\<rparr>;
          dev = pcan_set_bus_state dev PCANFD_UNKNOWN;
          dev = (case op_release ops of None \<Rightarrow> dev | Some f \<Rightarrow> fst (f dev));
          dev = (case op_free_irq ops of None \<Rightarrow> dev | Some f \<Rightarrow> f dev)
      in ch\<lparr>ch_dev := dev, adapter_opened := (if 0 < adapter_opened ch then adapter_opened ch - 1 else adapter_opened ch)\<rparr>)"

definition pcan_release_path :: "dev_ops \<Rightarrow> (pcandev \<Rightarrow> pcandev) \<Rightarrow> chan \<Rightarrow> chan" where
  "pcan_release_path ops waited ch =
     (let n = nOpenPaths (ch_dev ch);
          ch = (if n = 1 then release_last ops waited ch else ch);
          ch = (if n = 1 \<or> n = 0 then ch\<lparr>wMsg := None, rMsg := None\<rparr> else ch);
          dev = ch_dev ch
      in ch\<lparr>ch_dev := (if 0 \<le> nOpenPaths dev then dev\<lparr>nOpenPaths := nOpenPaths dev - 1\<rparr> else dev)\<rparr>)"

text \<open>The end of a channel, by \<^verbatim>\<open>__pcan_destroy_dev\<close>: the filters are freed, the hardware cleaned up, and the memory
  of the queues is freed unless a path has freed it already.\<close>

definition pcan_destroy_dev :: "dev_ops \<Rightarrow> (pcandev \<Rightarrow> pcandev) \<Rightarrow> chan \<Rightarrow> chan" where
  "pcan_destroy_dev ops waited ch =
     (let dev = ch_dev ch;
          dev = (if has_flag (dev_flags dev) PCAN_DEV_BUSLOAD_RDY then dev\<lparr>bus_load_timer := None\<rparr> else dev);
          dev = pcan_cleanup_dev ops dev;
          dev = dev\<lparr>dev_filter := None\<rparr>
      in if 0 \<le> nOpenPaths dev then pcan_release_path ops waited (ch\<lparr>ch_dev := dev\<lparr>nOpenPaths := 0\<rparr>\<rparr>)
         else ch\<lparr>ch_dev := dev\<rparr>)"

text \<open>The channels of the driver, with their major numbers.\<close>

definition pcan_search_dev :: "int \<Rightarrow> int \<Rightarrow> (int \<times> chan) list \<Rightarrow> nat option" where
  "pcan_search_dev major minor devs = find (\<lambda>i. fst (devs ! i) = major \<and> nMinor (ch_dev (snd (devs ! i))) = minor) [0..<length devs]"

text \<open>The file that is open: the channel it belongs to, unless it has been removed from the list.\<close>

definition pcan_get_dev :: "nat option \<Rightarrow> (int \<times> chan) list \<Rightarrow> nat option" where
  "pcan_get_dev priv devs =
     (case priv of
        None \<Rightarrow> None
      | Some i \<Rightarrow> if i < length devs \<and> is_plugged (ch_dev (snd (devs ! i))) then Some i else None)"

text \<open>Opening a file; the buffers of the text interface are set up in \<open>Pcan_Text\<close>. \<open>priv\<close> tells whether the
  file object could be allocated.\<close>

definition pcan_open ::
  "path_env \<Rightarrow> dev_ops \<Rightarrow> bool \<Rightarrow> int \<Rightarrow> int \<Rightarrow> (int \<times> chan) list \<Rightarrow> ((int \<times> chan) list \<times> nat option \<times> int) option" where
  "pcan_open e ops priv major minor devs =
     (case pcan_search_dev major minor devs of
        None \<Rightarrow> Some (devs, None, - ENODEV)
      | Some i \<Rightarrow>
          if \<not> priv then Some (devs, None, - ENOMEM)
          else do {
            let ch = snd (devs ! i);
            let dev = ch_dev ch;
            let ini = init_settings dev;
            let dev = dev\<lparr>init_settings := ini\<lparr>init_flags := set_flag (init_flags ini) PCANFD_INIT_USER\<rparr>\<rparr>;
            (ch, err) \<leftarrow> pcan_open_path e ops (ch\<lparr>ch_dev := dev\<rparr>);
            Some (devs[i := (major, ch)], if err = 0 then Some i else None, err)
          })"

definition pcan_release ::
  "dev_ops \<Rightarrow> (pcandev \<Rightarrow> pcandev) \<Rightarrow> nat option \<Rightarrow> (int \<times> chan) list \<Rightarrow> (int \<times> chan) list \<times> int" where
  "pcan_release ops waited priv devs =
     (case pcan_get_dev priv devs of
        None \<Rightarrow> (devs, 0)
      | Some i \<Rightarrow> (devs[i := (fst (devs ! i), pcan_release_path ops waited (snd (devs ! i)))], 0))"

section \<open>Structures of the user\<close>

record 'a ucell =
  u_val :: 'a
  u_rd :: bool
  u_wr :: bool

text \<open>A list with its count: the header, and cells as far as the memory goes.\<close>

record 'a ulist =
  ul_count :: u32
  ul_rd :: bool
  ul_wr :: bool
  ul_cells :: "nat \<Rightarrow> 'a ucell"

definition cell_put :: "'a \<Rightarrow> 'a ucell \<Rightarrow> 'a ucell \<times> int" where
  "cell_put v c = (if u_wr c then (c\<lparr>u_val := v\<rparr>, 0) else (c, - EFAULT))"

text \<open>What a request finds: the driver of the channel and its tables, the clock of the driver, contents of the stack,
  the results of allocations, and the data of the board that are reported.\<close>

record ioctl_env =
  ie_ops :: dev_ops
  ie_drv :: timeval
  ie_jiffies :: u64
  ie_tx :: pcanfd_txmsg
  ie_rx :: pcanfd_rxmsg
  ie_rd :: TPCANRdMsg
  ie_base :: u32
  ie_irq :: u16
  ie_version :: string
  ie_alloc :: "int \<Rightarrow> bool"
  ie_filter_alloc :: "nat \<Rightarrow> bool"
  ie_params :: "(pcandev \<Rightarrow> int \<Rightarrow> u32 \<Rightarrow> pcandev \<times> u32 \<times> int) option"
  ie_opts :: "nat \<Rightarrow> pcandev pcanfd_options"
  ie_oe :: opt_env
  ie_behind :: "u32 list"
  ie_usb_index :: int
  ie_can_count :: int

section \<open>Lists of messages\<close>

text \<open>The size of a list in the \<^verbatim>\<open>int\<close> it is computed in, and its allocation: a negative size is one that the
  allocator refuses.\<close>

definition list_size :: "int \<Rightarrow> int \<Rightarrow> u32 \<Rightarrow> int" where
  "list_size hdr item n = sint (word_of_int (hdr + int (unat n) * item) :: u32)"

definition list_alloc :: "ioctl_env \<Rightarrow> int \<Rightarrow> bool" where
  "list_alloc e l \<longleftrightarrow> 0 \<le> l \<and> ie_alloc e l"

abbreviation (input) MSGS_HDR :: int where "MSGS_HDR \<equiv> 8"
abbreviation (input) MSG_BYTES :: int where "MSG_BYTES \<equiv> 104"
abbreviation (input) TXMSG_BYTES :: int where "TXMSG_BYTES \<equiv> 120"
abbreviation (input) RXMSG_BYTES :: int where "RXMSG_BYTES \<equiv> 152"

text \<open>Copying the messages of the user into the list of \<open>l\<close> bytes. A copy that goes beyond the list destroys other
  memory of the kernel: \<open>Overrun\<close>.\<close>

datatype 'a copied = Copied "'a list" | Unreadable | Overrun

fun copy_items :: "int \<Rightarrow> (nat \<Rightarrow> 'a ucell) \<Rightarrow> nat \<Rightarrow> nat \<Rightarrow> 'a copied" where
  "copy_items l cells 0 i = Copied []"
| "copy_items l cells (Suc n) i =
     (if l < MSGS_HDR + int i * TXMSG_BYTES + MSG_BYTES then Overrun
      else if \<not> u_rd (cells i) then Unreadable
      else case copy_items l cells n (i + 1) of Copied ms \<Rightarrow> Copied (u_val (cells i) # ms) | r \<Rightarrow> r)"

text \<open>Copying messages to the user, until a cell that cannot be written.\<close>

fun put_items :: "(nat \<Rightarrow> 'a ucell) \<Rightarrow> nat \<Rightarrow> 'a list \<Rightarrow> int \<Rightarrow> (nat \<Rightarrow> 'a ucell) \<times> int" where
  "put_items cells i [] err = (cells, err)"
| "put_items cells i (m # ms) err =
     (if u_wr (cells i) then put_items (cells(i := (cells i)\<lparr>u_val := m\<rparr>)) (i + 1) ms 0 else (cells, - EFAULT))"

text \<open>\<open>conv\<close> is the conversion of a message of the user.\<close>

definition handle_pcanfd_send_msgs ::
  "ioctl_env \<Rightarrow> u32 \<Rightarrow> task \<Rightarrow> pcandev \<Rightarrow> pcanfd_msg ulist \<Rightarrow> (pcandev \<times> pcanfd_msg ulist \<times> task \<times> int) outcome" where
  "handle_pcanfd_send_msgs e fl task dev plu =
     (let l = list_size MSGS_HDR TXMSG_BYTES (ul_count plu)
      in if \<not> ul_rd plu then Done (dev, plu, task, - EFAULT)
         else if ul_count plu = 0 then Done (dev, plu, task, 0)
         else if \<not> list_alloc e l then Done (dev, plu, task, - ENOMEM)
         else
           case copy_items l (ul_cells plu) (unat (ul_count plu)) 0 of
             Overrun \<Rightarrow> Fault
           | Unreadable \<Rightarrow> Done (dev, plu, task, - EFAULT)
           | Copied ms \<Rightarrow>
               outcome_bind (pcanfd_ioctl_send_msgs (ie_ops e) (ie_drv e) (ie_rx e) fl task dev (map (\<lambda>m. (ie_tx e)\<lparr>tx_msg := m\<rparr>) ms))
                 (\<lambda>(dev, n, task, err). if ul_wr plu then Done (dev, plu\<lparr>ul_count := of_nat n\<rparr>, task, err)
                    else Done (dev, plu, task, - EFAULT)))"

definition handle_pcanfd_recv_msgs ::
  "ioctl_env \<Rightarrow> u32 \<Rightarrow> task \<Rightarrow> pcandev \<Rightarrow> pcanfd_msg ulist \<Rightarrow> (pcandev \<times> pcanfd_msg ulist \<times> task \<times> int) outcome" where
  "handle_pcanfd_recv_msgs e fl task dev plu =
     (let l = list_size MSGS_HDR RXMSG_BYTES (ul_count plu)
      in if \<not> ul_rd plu then Done (dev, plu, task, - EFAULT)
         else if ul_count plu = 0 then Done (dev, plu, task, 0)
         else if \<not> list_alloc e l then Done (dev, plu, task, - ENOMEM)
         else
           outcome_bind (pcanfd_ioctl_recv_msgs (ie_drv e) fl task dev (replicate (unat (ul_count plu)) (ie_rx e)))
             (\<lambda>(dev, ms, task, err).
                if l < MSGS_HDR + int (length ms) * RXMSG_BYTES then Fault
                else if \<not> ul_wr plu then Done (dev, plu, task, - EFAULT)
                else
                  let (cells, err) = put_items (ul_cells plu) 0 (map rx_msg ms) err
                  in Done (dev, plu\<lparr>ul_count := of_nat (length ms), ul_cells := cells\<rparr>, task, err)))"

text \<open>Messages of a program of 32 bits: the time stamp has 32 bits. Only what is needed to send is copied from one.\<close>

record pcanfd_msg32 =
  m32_type :: u16
  m32_data_len :: u16
  m32_id :: u32
  m32_flags :: u32
  m32_tv_sec :: u32
  m32_tv_usec :: u32
  m32_ctrlr_data :: "u8 list"
  m32_data :: "u8 list"

definition copy_from_msg32 :: "pcanfd_msg \<Rightarrow> pcanfd_msg32 \<Rightarrow> pcanfd_msg" where
  "copy_from_msg32 msgfd m =
     msgfd\<lparr>msg_type := m32_type m, data_len := m32_data_len m, msg_id := m32_id m, msg_flags := m32_flags m, msg_data := m32_data m\<rparr>"

definition copy_to_msg32 :: "pcanfd_msg \<Rightarrow> pcanfd_msg32" where
  "copy_to_msg32 msgfd =
     \<lparr>m32_type = msg_type msgfd, m32_data_len = data_len msgfd, m32_id = msg_id msgfd, m32_flags = msg_flags msgfd,
      m32_tv_sec = of_int (tv_sec (timestamp msgfd)), m32_tv_usec = of_int (tv_usec (timestamp msgfd)),
      m32_ctrlr_data = ctrlr_data msgfd, m32_data = msg_data msgfd\<rparr>"

definition handle_pcanfd_send_msgs32 ::
  "ioctl_env \<Rightarrow> u32 \<Rightarrow> task \<Rightarrow> pcandev \<Rightarrow> pcanfd_msg32 ulist \<Rightarrow> (pcandev \<times> pcanfd_msg32 ulist \<times> task \<times> int) outcome" where
  "handle_pcanfd_send_msgs32 e fl task dev pl32 =
     (let l = list_size MSGS_HDR TXMSG_BYTES (ul_count pl32)
      in if \<not> ul_rd pl32 then Done (dev, pl32, task, - EFAULT)
         else if ul_count pl32 = 0 then Done (dev, pl32, task, 0)
         else if \<not> list_alloc e l then Done (dev, pl32, task, - ENOMEM)
         else
           case copy_items l (ul_cells pl32) (unat (ul_count pl32)) 0 of
             Overrun \<Rightarrow> Fault
           | Unreadable \<Rightarrow> Done (dev, pl32, task, - EFAULT)
           | Copied ms \<Rightarrow>
               outcome_bind (pcanfd_ioctl_send_msgs (ie_ops e) (ie_drv e) (ie_rx e) fl task dev
                   (map (\<lambda>m. (ie_tx e)\<lparr>tx_msg := copy_from_msg32 (tx_msg (ie_tx e)) m\<rparr>) ms))
                 (\<lambda>(dev, n, task, err). if ul_wr pl32 then Done (dev, pl32\<lparr>ul_count := of_nat n\<rparr>, task, err)
                    else Done (dev, pl32, task, - EFAULT)))"

text \<open>Here the error of the copy replaces that of the request only when a copy fails.\<close>

definition handle_pcanfd_recv_msgs32 ::
  "ioctl_env \<Rightarrow> u32 \<Rightarrow> task \<Rightarrow> pcandev \<Rightarrow> pcanfd_msg32 ulist \<Rightarrow> (pcandev \<times> pcanfd_msg32 ulist \<times> task \<times> int) outcome" where
  "handle_pcanfd_recv_msgs32 e fl task dev pl32 =
     (let l = list_size MSGS_HDR RXMSG_BYTES (ul_count pl32)
      in if \<not> ul_rd pl32 then Done (dev, pl32, task, - EFAULT)
         else if ul_count pl32 = 0 then Done (dev, pl32, task, 0)
         else if \<not> list_alloc e l then Done (dev, pl32, task, - ENOMEM)
         else
           outcome_bind (pcanfd_ioctl_recv_msgs (ie_drv e) fl task dev (replicate (unat (ul_count pl32)) (ie_rx e)))
             (\<lambda>(dev, ms, task, err).
                if l < MSGS_HDR + int (length ms) * RXMSG_BYTES then Fault
                else if \<not> ul_wr pl32 then Done (dev, pl32, task, - EFAULT)
                else
                  let (cells, e') = put_items (ul_cells pl32) 0 (map (copy_to_msg32 \<circ> rx_msg) ms) 0
                  in Done (dev, pl32\<lparr>ul_count := of_nat (length ms), ul_cells := cells\<rparr>, task, if e' \<noteq> 0 then e' else err)))"

section \<open>Requests\<close>

record TPBTR0BTR1 =
  dwBitRate :: u32
  br_wBTR0BTR1 :: u16

record TPMSGFILTER =
  mf_FromID :: u32
  mf_ToID :: u32
  mf_MSGTYPE :: u8

record TPEXTRAPARAMS =
  nSubFunction :: int
  func :: u32

definition pcan_ioctl_init :: "ioctl_env \<Rightarrow> task \<Rightarrow> pcandev \<Rightarrow> TPCANInit ucell \<Rightarrow> (pcandev \<times> int) option" where
  "pcan_ioctl_init e task dev pi' =
     (if \<not> u_rd pi' then Some (dev, - EFAULT)
      else do {
        fdi \<leftarrow> pcan_init_to_fd dev zero_init (u_val pi');
        (dev, _, err) \<leftarrow> pcanfd_ioctl_set_init (ie_ops e) (task_now task) (ie_jiffies e) dev fdi;
        Some (dev, err)
      })"

definition pcan_ioctl_write ::
  "ioctl_env \<Rightarrow> u32 \<Rightarrow> task \<Rightarrow> pcandev \<Rightarrow> TPCANMsg ucell \<Rightarrow> (pcandev \<times> task \<times> int) outcome" where
  "pcan_ioctl_write e fl task dev usr =
     (if \<not> u_rd usr then Done (dev, task, - EFAULT)
      else if 8 < LEN (u_val usr) then Done (dev, task, - EINVAL)
      else
        pcanfd_ioctl_send_msg (ie_ops e) (ie_drv e) (ie_rx e) fl task dev
          ((ie_tx e)\<lparr>tx_msg := pcan_msg_to_fd (tx_msg (ie_tx e)) (u_val usr)\<rparr>))"

text \<open>CAN FD frames are thrown away until another message comes. \<open>n\<close> bounds the turns; a loop that takes more has
  no result.\<close>

fun read_loop ::
  "nat \<Rightarrow> ioctl_env \<Rightarrow> u32 \<Rightarrow> task \<Rightarrow> pcandev \<Rightarrow> pcanfd_rxmsg \<Rightarrow> (pcandev \<times> pcanfd_rxmsg \<times> task \<times> int) outcome" where
  "read_loop 0 e fl task dev rx = Fault"
| "read_loop (Suc n) e fl task dev rx =
     outcome_bind (pcanfd_ioctl_recv_msg (ie_drv e) fl task dev rx)
       (\<lambda>(dev, rx, task, err).
          if err \<noteq> 0 then Done (dev, rx, task, err)
          else if pcan_is_fd (rx_msg rx) then read_loop n e fl task dev rx
          else Done (dev, rx, task, 0))"

text \<open>A message of a type that the older interface does not know is copied from the address 0, which has no result here.\<close>

definition pcan_ioctl_read ::
  "nat \<Rightarrow> ioctl_env \<Rightarrow> u32 \<Rightarrow> task \<Rightarrow> pcandev \<Rightarrow> TPCANRdMsg ucell \<Rightarrow> (pcandev \<times> TPCANRdMsg ucell \<times> task \<times> int) outcome" where
  "pcan_ioctl_read n e fl task dev usr =
     outcome_bind (read_loop n e fl task dev (ie_rx e))
       (\<lambda>(dev, rx, task, err).
          if err \<noteq> 0 then Done (dev, usr, task, err)
          else
            case pcan_fd_to_msg (ie_rd e) (rx_msg rx) of
              None \<Rightarrow> Fault
            | Some m \<Rightarrow> let (usr, err) = cell_put m usr in Done (dev, usr, task, err))"

definition pcan_ioctl_status :: "pcandev \<Rightarrow> TPSTATUS ucell \<Rightarrow> pcandev \<times> TPSTATUS ucell \<times> int" where
  "pcan_ioctl_status dev status =
     (let (status, err) = cell_put (pcan_ioctl_status_common dev) status
      in if err \<noteq> 0 then (dev, status, err) else (dev\<lparr>wCANStatus := 0, nLastError := 0\<rparr>, status, 0))"

definition pcan_ioctl_extended_status ::
  "pcandev \<Rightarrow> TPEXTENDEDSTATUS ucell \<Rightarrow> pcandev \<times> TPEXTENDEDSTATUS ucell \<times> int" where
  "pcan_ioctl_extended_status dev status =
     (let (status, err) = cell_put (pcan_ioctl_extended_status_common dev) status
      in if err \<noteq> 0 then (dev, status, err) else (dev\<lparr>wCANStatus := 0, nLastError := 0\<rparr>, status, 0))"

definition pcan_ioctl_diag :: "ioctl_env \<Rightarrow> pcandev \<Rightarrow> TPDIAG ucell \<Rightarrow> TPDIAG ucell \<times> int" where
  "pcan_ioctl_diag e dev diag = cell_put (pcan_ioctl_diag_common (ie_base e) (ie_irq e) (ie_version e) dev) diag"

definition pcan_ioctl_BTR0BTR1 :: "TPBTR0BTR1 ucell \<Rightarrow> (TPBTR0BTR1 ucell \<times> int) option" where
  "pcan_ioctl_BTR0BTR1 c =
     (if \<not> u_rd c then Some (c, - EFAULT)
      else do {
        w \<leftarrow> sja1000_bitrate (dwBitRate (u_val c)) 0 0;
        if w = 0 then Some (c, - EINVAL) else Some (cell_put ((u_val c)\<lparr>br_wBTR0BTR1 := w\<rparr>) c)
      })"

definition pcan_ioctl_msg_filter :: "ioctl_env \<Rightarrow> pcandev \<Rightarrow> TPMSGFILTER ucell option \<Rightarrow> pcandev \<times> int" where
  "pcan_ioctl_msg_filter e dev pf =
     (case pf of
        None \<Rightarrow> (dev\<lparr>dev_filter := pcan_delete_filter_all (dev_filter dev)\<rparr>, 0)
      | Some c \<Rightarrow>
          if \<not> u_rd c then (dev, - EFAULT)
          else
            let f = u_val c;
                (ch, err) = pcan_add_filter (ie_filter_alloc e 0) (dev_filter dev) (mf_FromID f) (mf_ToID f) (ucast (mf_MSGTYPE f))
            in (dev\<lparr>dev_filter := ch\<rparr>, err))"

definition pcan_ioctl_extra_parameters ::
  "ioctl_env \<Rightarrow> pcandev \<Rightarrow> TPEXTRAPARAMS ucell \<Rightarrow> pcandev \<times> TPEXTRAPARAMS ucell \<times> int" where
  "pcan_ioctl_extra_parameters e dev c =
     (if \<not> u_rd c then (dev, c, - EFAULT)
      else
        case ie_params e of
          None \<Rightarrow> (dev, c, - EINVAL)
        | Some f \<Rightarrow>
            let (dev, v, err) = f dev (nSubFunction (u_val c)) (func (u_val c))
            in if err \<noteq> 0 then (dev, c, err) else let (c, err) = cell_put ((u_val c)\<lparr>func := v\<rparr>) c in (dev, c, err))"

text \<open>The lists of filters: 4 bytes of count and 12 bytes for each filter. The count and the filters are
  copied at once; when this fails the list is freed twice, which has no result here.\<close>

abbreviation (input) FILTERS_HDR :: int where "FILTERS_HDR \<equiv> 4"
abbreviation (input) FILTER_BYTES :: int where "FILTER_BYTES \<equiv> 12"

definition add_filters_request ::
  "ioctl_env \<Rightarrow> pcandev \<Rightarrow> pcanfd_msg_filter ulist option \<Rightarrow> (pcandev \<times> int) option" where
  "add_filters_request e dev up =
     (case up of
        None \<Rightarrow> Some (pcanfd_ioctl_add_filters (ie_filter_alloc e) dev None)
      | Some u \<Rightarrow>
          let l = list_size FILTERS_HDR FILTER_BYTES (ul_count u); n = unat (ul_count u)
          in if \<not> ul_rd u then Some (dev, - EFAULT)
             else if ul_count u = 0 then Some (dev, 0)
             else if \<not> list_alloc e l then Some (dev, - ENOMEM)
             else if \<exists>i < nat ((l - FILTERS_HDR) div FILTER_BYTES). \<not> u_rd (ul_cells u i) then None
             else if l < FILTERS_HDR + int n * FILTER_BYTES then None
             else Some (pcanfd_ioctl_add_filters (ie_filter_alloc e) dev (Some (map (\<lambda>i. u_val (ul_cells u i)) [0..<n]))))"

definition get_filters_request ::
  "ioctl_env \<Rightarrow> pcandev \<Rightarrow> pcanfd_msg_filter ulist option \<Rightarrow> (pcanfd_msg_filter ulist option \<times> int) option" where
  "get_filters_request e dev up =
     (case up of
        None \<Rightarrow> map_option (\<lambda>(_, _, err). (None, err)) (pcanfd_ioctl_get_filters dev None)
      | Some u \<Rightarrow>
          let l = list_size FILTERS_HDR FILTER_BYTES (ul_count u)
          in if \<not> ul_rd u then Some (up, - EFAULT)
             else if ul_count u = 0 then Some (up, 0)
             else if \<not> list_alloc e l then Some (up, - ENOMEM)
             else do {
               (out, n, err) \<leftarrow> pcanfd_ioctl_get_filters dev (Some (sint (ul_count u)));
               if l < FILTERS_HDR + int (length out) * FILTER_BYTES then None
               else if \<not> ul_wr u then Some (up, - EFAULT)
               else
                 (let (cells, err) = put_items (ul_cells u) 0 (take (nat n) out) err
                  in Some (Some (u\<lparr>ul_count := of_int n, ul_cells := cells\<rparr>), err))
             })"

section \<open>The system call\<close>

text \<open>The requests with the structures of the user they point to; options, clocks and ranges are at an address of
  the memory. A request of another number is \<open>Unknown\<close>.\<close>

datatype pcan_request =
    PCAN_INIT "TPCANInit ucell"
  | PCAN_READ_MSG "TPCANRdMsg ucell"
  | PCAN_WRITE_MSG "TPCANMsg ucell"
  | PCAN_GET_STATUS "TPSTATUS ucell"
  | PCAN_GET_EXT_STATUS "TPEXTENDEDSTATUS ucell"
  | PCAN_DIAG "TPDIAG ucell"
  | PCAN_BTR0BTR1 "TPBTR0BTR1 ucell"
  | PCAN_MSG_FILTER "TPMSGFILTER ucell option"
  | PCAN_EXTRA_PARAMS "TPEXTRAPARAMS ucell"
  | PCANFD_SET_INIT "pcanfd_init ucell"
  | PCANFD_GET_INIT "pcanfd_init ucell"
  | PCANFD_GET_STATE "pcanfd_state ucell"
  | PCANFD_ADD_FILTERS "pcanfd_msg_filter ulist option"
  | PCANFD_GET_FILTERS "pcanfd_msg_filter ulist option"
  | PCANFD_SEND_MSG "pcanfd_msg ucell"
  | PCANFD_RECV_MSG "pcanfd_msg ucell"
  | PCANFD_SEND_MSGS "pcanfd_msg ulist"
  | PCANFD_RECV_MSGS "pcanfd_msg ulist"
  | PCANFD_GET_AVAILABLE_CLOCKS nat
  | PCANFD_GET_BITTIMING_RANGES nat
  | PCANFD_GET_OPTION nat
  | PCANFD_SET_OPTION nat
  | Unknown

fun of_option :: "'a option \<Rightarrow> 'a outcome" where
  "of_option None = Fault"
| "of_option (Some x) = Done x"

abbreviation (input) ENOTTY :: int where "ENOTTY \<equiv> 25"

text \<open>\<open>PCANFD_SET_INIT\<close> goes on when the settings cannot be read; they are zero then.\<close>

fun pcan_ioctl_u ::
  "nat \<Rightarrow> ioctl_env \<Rightarrow> u32 \<Rightarrow> task \<Rightarrow> pcandev \<Rightarrow> umem \<Rightarrow> pcan_request
     \<Rightarrow> (pcandev \<times> umem \<times> pcan_request \<times> task \<times> int) outcome" where
  "pcan_ioctl_u n e fl task dev m (PCAN_INIT c) =
     outcome_bind (of_option (pcan_ioctl_init e task dev c)) (\<lambda>(dev, err). Done (dev, m, PCAN_INIT c, task, err))"
| "pcan_ioctl_u n e fl task dev m (PCAN_READ_MSG c) =
     outcome_bind (pcan_ioctl_read n e fl task dev c) (\<lambda>(dev, c, task, err). Done (dev, m, PCAN_READ_MSG c, task, err))"
| "pcan_ioctl_u n e fl task dev m (PCAN_WRITE_MSG c) =
     outcome_bind (pcan_ioctl_write e fl task dev c) (\<lambda>(dev, task, err). Done (dev, m, PCAN_WRITE_MSG c, task, err))"
| "pcan_ioctl_u n e fl task dev m (PCAN_GET_STATUS c) =
     (let (dev, c, err) = pcan_ioctl_status dev c in Done (dev, m, PCAN_GET_STATUS c, task, err))"
| "pcan_ioctl_u n e fl task dev m (PCAN_GET_EXT_STATUS c) =
     (let (dev, c, err) = pcan_ioctl_extended_status dev c in Done (dev, m, PCAN_GET_EXT_STATUS c, task, err))"
| "pcan_ioctl_u n e fl task dev m (PCAN_DIAG c) =
     (let (c, err) = pcan_ioctl_diag e dev c in Done (dev, m, PCAN_DIAG c, task, err))"
| "pcan_ioctl_u n e fl task dev m (PCAN_BTR0BTR1 c) =
     outcome_bind (of_option (pcan_ioctl_BTR0BTR1 c)) (\<lambda>(c, err). Done (dev, m, PCAN_BTR0BTR1 c, task, err))"
| "pcan_ioctl_u n e fl task dev m (PCAN_MSG_FILTER c) =
     (let (dev, err) = pcan_ioctl_msg_filter e dev c in Done (dev, m, PCAN_MSG_FILTER c, task, err))"
| "pcan_ioctl_u n e fl task dev m (PCAN_EXTRA_PARAMS c) =
     (let (dev, c, err) = pcan_ioctl_extra_parameters e dev c in Done (dev, m, PCAN_EXTRA_PARAMS c, task, err))"
| "pcan_ioctl_u n e fl task dev m (PCANFD_SET_INIT c) =
     outcome_bind (of_option (pcanfd_ioctl_set_init (ie_ops e) (task_now task) (ie_jiffies e) dev (if u_rd c then u_val c else zero_init)))
       (\<lambda>(dev, _, err). Done (dev, m, PCANFD_SET_INIT c, task, err))"
| "pcan_ioctl_u n e fl task dev m (PCANFD_GET_INIT c) =
     (let (fdi, err) = pcanfd_ioctl_get_init dev
      in if err \<noteq> 0 then Done (dev, m, PCANFD_GET_INIT c, task, err)
         else let (c, err) = cell_put fdi c in Done (dev, m, PCANFD_GET_INIT c, task, err))"
| "pcan_ioctl_u n e fl task dev m (PCANFD_GET_STATE c) =
     outcome_bind (of_option (pcanfd_ioctl_get_state (ie_usb_index e) (ie_can_count e) dev))
       (\<lambda>(fds, err). if err \<noteq> 0 then Done (dev, m, PCANFD_GET_STATE c, task, err)
          else let (c, err) = cell_put fds c in Done (dev, m, PCANFD_GET_STATE c, task, err))"
| "pcan_ioctl_u n e fl task dev m (PCANFD_ADD_FILTERS u) =
     outcome_bind (of_option (add_filters_request e dev u)) (\<lambda>(dev, err). Done (dev, m, PCANFD_ADD_FILTERS u, task, err))"
| "pcan_ioctl_u n e fl task dev m (PCANFD_GET_FILTERS u) =
     outcome_bind (of_option (get_filters_request e dev u)) (\<lambda>(u, err). Done (dev, m, PCANFD_GET_FILTERS u, task, err))"
| "pcan_ioctl_u n e fl task dev m (PCANFD_SEND_MSG c) =
     (if \<not> u_rd c then Done (dev, m, PCANFD_SEND_MSG c, task, - EFAULT)
      else
        outcome_bind (pcanfd_ioctl_send_msg (ie_ops e) (ie_drv e) (ie_rx e) fl task dev ((ie_tx e)\<lparr>tx_msg := u_val c\<rparr>))
          (\<lambda>(dev, task, err). Done (dev, m, PCANFD_SEND_MSG c, task, err)))"
| "pcan_ioctl_u n e fl task dev m (PCANFD_RECV_MSG c) =
     outcome_bind (pcanfd_ioctl_recv_msg (ie_drv e) fl task dev (ie_rx e))
       (\<lambda>(dev, rx, task, err). if err \<noteq> 0 then Done (dev, m, PCANFD_RECV_MSG c, task, err)
          else let (c, err) = cell_put (rx_msg rx) c in Done (dev, m, PCANFD_RECV_MSG c, task, err))"
| "pcan_ioctl_u n e fl task dev m (PCANFD_SEND_MSGS u) =
     outcome_bind (handle_pcanfd_send_msgs e fl task dev u) (\<lambda>(dev, u, task, err). Done (dev, m, PCANFD_SEND_MSGS u, task, err))"
| "pcan_ioctl_u n e fl task dev m (PCANFD_RECV_MSGS u) =
     outcome_bind (handle_pcanfd_recv_msgs e fl task dev u) (\<lambda>(dev, u, task, err). Done (dev, m, PCANFD_RECV_MSGS u, task, err))"
| "pcan_ioctl_u n e fl task dev m (PCANFD_GET_AVAILABLE_CLOCKS up) =
     (let (m, err) = handle_pcanfd_get_av_clocks (ie_oe e) (ie_behind e) dev m up
      in Done (dev, m, PCANFD_GET_AVAILABLE_CLOCKS up, task, err))"
| "pcan_ioctl_u n e fl task dev m (PCANFD_GET_BITTIMING_RANGES up) =
     (let (m, err) = handle_pcanfd_get_bittiming_ranges dev m up in Done (dev, m, PCANFD_GET_BITTIMING_RANGES up, task, err))"
| "pcan_ioctl_u n e fl task dev m (PCANFD_GET_OPTION up) =
     outcome_bind (of_option (handle_pcanfd_get_option (ie_opts e) dev m up)) (\<lambda>(dev, m, err). Done (dev, m, PCANFD_GET_OPTION up, task, err))"
| "pcan_ioctl_u n e fl task dev m (PCANFD_SET_OPTION up) =
     outcome_bind (of_option (handle_pcanfd_set_option (ie_opts e) dev m up)) (\<lambda>(dev, m, err). Done (dev, m, PCANFD_SET_OPTION up, task, err))"
| "pcan_ioctl_u n e fl task dev m Unknown = Done (dev, m, Unknown, task, - ENOTTY)"

text \<open>\<open>ch\<close> is the channel of the file, unless it is unplugged or was removed.\<close>

definition pcan_ioctl ::
  "nat \<Rightarrow> ioctl_env \<Rightarrow> u32 \<Rightarrow> task \<Rightarrow> pcandev option \<Rightarrow> umem \<Rightarrow> pcan_request
     \<Rightarrow> (pcandev option \<times> umem \<times> pcan_request \<times> task \<times> int) outcome" where
  "pcan_ioctl n e fl task ch m req =
     (case ch of
        None \<Rightarrow> Done (None, m, req, task, - ENODEV)
      | Some dev \<Rightarrow> outcome_bind (pcan_ioctl_u n e fl task dev m req) (\<lambda>(dev, r). Done (Some dev, r)))"

text \<open>The call of a program of 32 bits. The state is copied with a time of 32 bits.\<close>

datatype compat_request =
    PCANFD_GET_STATE32 "pcanfd_state ucell"
  | PCANFD_SEND_MSG32 "pcanfd_msg32 ucell"
  | PCANFD_RECV_MSG32 "pcanfd_msg32 ucell"
  | PCANFD_SEND_MSGS32 "pcanfd_msg32 ulist"
  | PCANFD_RECV_MSGS32 "pcanfd_msg32 ulist"
  | PCANFD_GET_OPTION32 nat
  | PCANFD_SET_OPTION32 nat
  | Same_as pcan_request

definition short_time :: "timeval \<Rightarrow> timeval" where
  "short_time t = \<lparr>tv_sec = sint (of_int (tv_sec t) :: u32), tv_usec = sint (of_int (tv_usec t) :: u32)\<rparr>"

fun pcan_compat_ioctl ::
  "nat \<Rightarrow> ioctl_env \<Rightarrow> u32 \<Rightarrow> task \<Rightarrow> pcandev \<Rightarrow> umem \<Rightarrow> compat_request
     \<Rightarrow> (pcandev \<times> umem \<times> compat_request \<times> task \<times> int) outcome" where
  "pcan_compat_ioctl n e fl task dev m (PCANFD_GET_STATE32 c) =
     outcome_bind (of_option (pcanfd_ioctl_get_state (ie_usb_index e) (ie_can_count e) dev))
       (\<lambda>(fds, err). if err \<noteq> 0 then Done (dev, m, PCANFD_GET_STATE32 c, task, err)
          else let (c, err) = cell_put (fds\<lparr>st_tv_init := short_time (st_tv_init fds)\<rparr>) c in Done (dev, m, PCANFD_GET_STATE32 c, task, err))"
| "pcan_compat_ioctl n e fl task dev m (PCANFD_SEND_MSG32 c) =
     (if \<not> u_rd c then Done (dev, m, PCANFD_SEND_MSG32 c, task, - EFAULT)
      else
        outcome_bind (pcanfd_ioctl_send_msg (ie_ops e) (ie_drv e) (ie_rx e) fl task dev
            ((ie_tx e)\<lparr>tx_msg := copy_from_msg32 (tx_msg (ie_tx e)) (u_val c)\<rparr>))
          (\<lambda>(dev, task, err). Done (dev, m, PCANFD_SEND_MSG32 c, task, err)))"
| "pcan_compat_ioctl n e fl task dev m (PCANFD_RECV_MSG32 c) =
     outcome_bind (pcanfd_ioctl_recv_msg (ie_drv e) fl task dev (ie_rx e))
       (\<lambda>(dev, rx, task, err). if err \<noteq> 0 then Done (dev, m, PCANFD_RECV_MSG32 c, task, err)
          else let (c, err) = cell_put (copy_to_msg32 (rx_msg rx)) c in Done (dev, m, PCANFD_RECV_MSG32 c, task, err))"
| "pcan_compat_ioctl n e fl task dev m (PCANFD_SEND_MSGS32 u) =
     outcome_bind (handle_pcanfd_send_msgs32 e fl task dev u) (\<lambda>(dev, u, task, err). Done (dev, m, PCANFD_SEND_MSGS32 u, task, err))"
| "pcan_compat_ioctl n e fl task dev m (PCANFD_RECV_MSGS32 u) =
     outcome_bind (handle_pcanfd_recv_msgs32 e fl task dev u) (\<lambda>(dev, u, task, err). Done (dev, m, PCANFD_RECV_MSGS32 u, task, err))"
| "pcan_compat_ioctl n e fl task dev m (PCANFD_GET_OPTION32 up) =
     outcome_bind (of_option (handle_pcanfd_get_option32 (ie_opts e) dev m up)) (\<lambda>(dev, m, err). Done (dev, m, PCANFD_GET_OPTION32 up, task, err))"
| "pcan_compat_ioctl n e fl task dev m (PCANFD_SET_OPTION32 up) =
     outcome_bind (of_option (handle_pcanfd_set_option32 (ie_opts e) dev m up)) (\<lambda>(dev, m, err). Done (dev, m, PCANFD_SET_OPTION32 up, task, err))"
| "pcan_compat_ioctl n e fl task dev m (Same_as r) =
     outcome_bind (pcan_ioctl_u n e fl task dev m r) (\<lambda>(dev, m, r, task, err). Done (dev, m, Same_as r, task, err))"

text \<open>What \<^verbatim>\<open>poll\<close> and \<^verbatim>\<open>select\<close> are told.\<close>

abbreviation (input) POLLIN :: u32 where "POLLIN \<equiv> 0x01"
abbreviation (input) POLLOUT :: u32 where "POLLOUT \<equiv> 0x04"
abbreviation (input) POLLERR :: u32 where "POLLERR \<equiv> 0x08"
abbreviation (input) POLLRDNORM :: u32 where "POLLRDNORM \<equiv> 0x40"
abbreviation (input) POLLWRNORM :: u32 where "POLLWRNORM \<equiv> 0x100"

definition pcan_poll :: "pcandev option \<Rightarrow> u32" where
  "pcan_poll ch =
     (case ch of
        None \<Rightarrow> POLLERR
      | Some dev \<Rightarrow>
          (if pcan_fifo_empty (readFifo dev) then 0 else POLLIN OR POLLRDNORM) OR
          (if pcan_fifo_full (writeFifo dev) then 0 else POLLOUT OR POLLWRNORM))"

end
