(* ===== verification/Pcan_Syscalls.thy ===== *)
theory Pcan_Syscalls
  imports Pcan_Fops
begin

text \<open>
  What the system calls of \<open>Pcan_Fops\<close> do: messages of the older interface, \<^verbatim>\<open>poll\<close>, lists of messages and their
  sizes, programs of 32 bits, and the count of the paths to a channel. The locale \<open>path_driver\<close> states what opening and
  releasing a path relies on in the driver of a board, and is interpreted on the SJA1000.
\<close>

section \<open>Lemmas\<close>

lemma unat_ucast_u8_u16 [simp]: "unat (ucast (x :: u8) :: u16) = unat x"
proof -
  have "unat x < 2 ^ 16" by (rule less_trans [OF unat_u8_less]) simp
  then show ?thesis by (simp add: unsigned_ucast_eq take_bit_nat_eq_self)
qed

lemma of_option_Done [simp]: "of_option x = Done y \<longleftrightarrow> x = Some y"
  by (cases x) auto

lemma recv_step:
  assumes "ring_inv (readFifo dev)" "usable dev" "fifo_items (readFifo dev) = x # xs"
    and "\<not> has_flag (wCANStatus dev) CAN_ERR_OVERRUN" "hw_offset (rx_hwtv x) \<noteq> None"
  obtains d y where "pcanfd_recv_msg drv fl task dev pf = Done (d, y, task, 0)" "ring_inv (readFifo d)"
    "fifo_items (readFifo d) = xs" "same_msg (rx_msg y) (rx_msg x)" "d = dev\<lparr>readFifo := readFifo d, time_sync := time_sync d\<rparr>"
proof (rule recv_one [OF assms])
  fix f ts y
  assume r: "pcanfd_recv_msg drv fl task dev pf = Done (dev\<lparr>readFifo := f, time_sync := ts\<rparr>, y, task, 0)"
    "ring_inv f" "fifo_items f = xs" "same_msg (rx_msg y) (rx_msg x)"
  show ?thesis by (rule that [OF r(1)]) (use r(2-4) in simp_all)
qed

text \<open>A list of at most 17895696 messages has a size that the \<^verbatim>\<open>int\<close> holds.\<close>

lemma list_size_exact:
  assumes "0 \<le> hdr" "0 \<le> item" "hdr + int (unat n) * item < 2 ^ 31"
  shows "list_size hdr item n = hdr + int (unat n) * item"
proof -
  have "0 \<le> int (unat n) * item" using assms(2) by simp
  then have "- (2 ^ 31) \<le> hdr + int (unat n) * item" using assms(1) by simp
  then show ?thesis unfolding list_size_def using assms(3) by (intro sint_of_int_small32) simp_all
qed

lemma copy_items_fits:
  assumes "\<And>j. i \<le> j \<Longrightarrow> j < i + n \<Longrightarrow> MSGS_HDR + int j * TXMSG_BYTES + MSG_BYTES \<le> l"
  shows "copy_items l cells n i =
    (if \<forall>j. i \<le> j \<and> j < i + n \<longrightarrow> u_rd (cells j) then Copied (map (\<lambda>j. u_val (cells j)) [i..<i + n]) else Unreadable)"
  using assms
proof (induction n arbitrary: i)
  case (Suc n)
  have "copy_items l cells n (i + 1) =
      (if \<forall>j. i + 1 \<le> j \<and> j < i + 1 + n \<longrightarrow> u_rd (cells j) then Copied (map (\<lambda>j. u_val (cells j)) [i + 1..<i + 1 + n]) else Unreadable)"
    by (rule Suc.IH) (use Suc.prems in auto)
  moreover have "(\<forall>j. i \<le> j \<and> j < i + Suc n \<longrightarrow> u_rd (cells j)) \<longleftrightarrow> u_rd (cells i) \<and> (\<forall>j. i + 1 \<le> j \<and> j < i + 1 + n \<longrightarrow> u_rd (cells j))"
    by (auto simp: le_Suc_eq) (metis Suc_leI le_neq_implies_less)
  ultimately show ?case using Suc.prems [of i] by (simp add: upt_conv_Cons del: upt_Suc)
qed simp

lemma put_items_all:
  assumes "\<And>j. i \<le> j \<Longrightarrow> j < i + length ms \<Longrightarrow> u_wr (cells j)"
  shows "put_items cells i ms err =
    ((\<lambda>j. if i \<le> j \<and> j < i + length ms then (cells j)\<lparr>u_val := ms ! (j - i)\<rparr> else cells j), if ms = [] then err else 0)"
  using assms
proof (induction ms arbitrary: cells i err)
  case (Cons m ms)
  have w: "u_wr (cells i)" using Cons.prems [of i] by simp
  have "put_items (cells(i := (cells i)\<lparr>u_val := m\<rparr>)) (i + 1) ms 0 =
      ((\<lambda>j. if i + 1 \<le> j \<and> j < i + 1 + length ms then ((cells(i := (cells i)\<lparr>u_val := m\<rparr>)) j)\<lparr>u_val := ms ! (j - (i + 1))\<rparr>
        else (cells(i := (cells i)\<lparr>u_val := m\<rparr>)) j), if ms = [] then 0 else 0)"
    by (rule Cons.IH) (use Cons.prems in auto)
  then show ?case using w by (auto simp: fun_eq_iff nth_Cons' Suc_le_eq)
qed (auto simp: fun_eq_iff)

text \<open>The loop of the older read request takes the CAN FD frames before the first other message.\<close>

lemma read_loop_skips:
  assumes "ring_inv (readFifo dev)" "usable dev" "\<not> has_flag (wCANStatus dev) CAN_ERR_OVERRUN"
    and "fifo_items (readFifo dev) = fds @ x # rest" "length fds < n"
    and "\<And>y. y \<in> set fds \<Longrightarrow> pcan_is_fd (rx_msg y)" "\<not> pcan_is_fd (rx_msg x)"
    and "\<And>y. y \<in> set (fds @ [x]) \<Longrightarrow> hw_offset (rx_hwtv y) \<noteq> None"
  shows "\<exists>dev' y. read_loop n e fl task dev rx = Done (dev', y, task, 0) \<and> ring_inv (readFifo dev') \<and>
    fifo_items (readFifo dev') = rest \<and> same_msg (rx_msg y) (rx_msg x) \<and>
    dev' = dev\<lparr>readFifo := readFifo dev', time_sync := time_sync dev'\<rparr>"
  using assms
proof (induction fds arbitrary: n dev rx)
  case Nil
  obtain k where k: "n = Suc k" using Nil(5) by (cases n) auto
  have i: "fifo_items (readFifo dev) = x # rest" "hw_offset (rx_hwtv x) \<noteq> None" using Nil(4,8) by simp_all
  obtain d y where r: "pcanfd_recv_msg (ie_drv e) fl task dev rx = Done (d, y, task, 0)"
    "ring_inv (readFifo d)" "fifo_items (readFifo d) = rest" "same_msg (rx_msg y) (rx_msg x)"
    "d = dev\<lparr>readFifo := readFifo d, time_sync := time_sync d\<rparr>"
    by (rule recv_step [OF Nil(1,2) i(1) Nil(3) i(2)])
  have "\<not> pcan_is_fd (rx_msg y)" using r(4) Nil(7) by (simp add: pcan_is_fd_def same_msg_def)
  then have "read_loop n e fl task dev rx = Done (d, y, task, 0)"
    unfolding k read_loop.simps pcanfd_ioctl_recv_msg_def r(1) by simp
  then show ?case using r(2-5) by (intro exI conjI)
next
  case (Cons z zs)
  obtain k where k: "n = Suc k" using Cons.prems(5) by (cases n) auto
  have i: "fifo_items (readFifo dev) = z # zs @ x # rest" "hw_offset (rx_hwtv z) \<noteq> None" using Cons.prems(4,8) by simp_all
  obtain d y where r: "pcanfd_recv_msg (ie_drv e) fl task dev rx = Done (d, y, task, 0)"
    "ring_inv (readFifo d)" "fifo_items (readFifo d) = zs @ x # rest" "same_msg (rx_msg y) (rx_msg z)"
    "d = dev\<lparr>readFifo := readFifo d, time_sync := time_sync d\<rparr>"
    by (rule recv_step [OF Cons.prems(1,2) i(1) Cons.prems(3) i(2)])
  have d: "usable d = usable dev" "wCANStatus d = wCANStatus dev"
    by (subst r(5); simp add: usable_def)+
  have "length zs < k" "usable d" "\<not> has_flag (wCANStatus d) CAN_ERR_OVERRUN" using Cons.prems(2,3,5) k d by simp_all
  moreover have "pcan_is_fd (rx_msg v)" if "v \<in> set zs" for v using that Cons.prems(6) by simp
  moreover have "hw_offset (rx_hwtv v) \<noteq> None" if "v \<in> set (zs @ [x])" for v using that Cons.prems(8) [of v] by auto
  ultimately have "\<exists>dev' y'. read_loop k e fl task d y = Done (dev', y', task, 0) \<and> ring_inv (readFifo dev') \<and>
      fifo_items (readFifo dev') = rest \<and> same_msg (rx_msg y') (rx_msg x) \<and>
      dev' = d\<lparr>readFifo := readFifo dev', time_sync := time_sync dev'\<rparr>"
    by (intro Cons.IH [of d k y, OF r(2) _ _ r(3) _ _ Cons.prems(7)])
  then obtain d' y' where l: "read_loop k e fl task d y = Done (d', y', task, 0)" "ring_inv (readFifo d')"
      "fifo_items (readFifo d') = rest" "same_msg (rx_msg y') (rx_msg x)"
      "d' = d\<lparr>readFifo := readFifo d', time_sync := time_sync d'\<rparr>"
    by blast
  have "pcan_is_fd (rx_msg y)" using r(4) Cons.prems(6) [of z] by (simp add: pcan_is_fd_def same_msg_def)
  then have run: "read_loop n e fl task dev rx = Done (d', y', task, 0)"
    unfolding k read_loop.simps pcanfd_ioctl_recv_msg_def r(1) by (simp add: l(1))
  have "d' = dev\<lparr>readFifo := readFifo d', time_sync := time_sync d'\<rparr>"
    by (subst l(5), subst r(5)) simp
  then show ?case using run l(2-4) by (intro exI conjI)
qed

section \<open>Messages\<close>

text \<open>A message of the older interface is not changed by its way through the driver: converted for sending and, without
  a time stamp, back for reading, it has the same identifier, type, length and data. The lengths that the write
  request accepts are those up to 8.\<close>

theorem old_message_roundtrip:
  assumes "LEN msg \<le> 8" "length (DATA msg) = 8" "length (DATA (Msg rd)) = 8"
  shows "\<exists>r. pcan_fd_to_msg rd (pcan_msg_to_fd pf msg) = Some r \<and> ID (Msg r) = ID msg \<and> MSGTYPE (Msg r) = MSGTYPE msg \<and>
    LEN (Msg r) = LEN msg \<and> take (unat (LEN msg)) (DATA (Msg r)) = take (unat (LEN msg)) (DATA msg) \<and> length (DATA (Msg r)) = 8"
proof -
  have f: "\<not> has_flag (ucast (MSGTYPE msg) :: u32) PCANFD_TIMESTAMP"
  proof -
    have "PCANFD_TIMESTAMP = 2 ^ 24" by simp
    then show ?thesis unfolding has_flag_def by (simp only: and_exp_eq_0_iff_not_bit) (auto simp: bit_simps dest: bit_imp_le_length)
  qed
  have t: "ucast (ucast (MSGTYPE msg) AND (0xff :: u32)) = MSGTYPE msg"
  proof -
    have m: "(0xff :: u32) = mask 8" by (simp add: mask_eq_exp_minus_1)
    show ?thesis unfolding m by (rule bit_word_eqI) (auto simp: bit_simps)
  qed
  have l: "unat (LEN msg) \<le> 8" "ucast (ucast (LEN msg) :: u16) = LEN msg"
    using assms(1) by (simp_all add: word_le_nat_alt) (rule bit_word_eqI, auto simp: bit_simps)
  show ?thesis using assms(2,3) l f t by (simp add: pcan_fd_to_msg_def pcan_msg_to_fd_def Let_def)
qed

text \<open>C39. The older read request: the CAN FD frames at the head of the queue are thrown away, and the first other message is
  returned in the structure of the older interface; what is behind it stays queued. As many turns as there are
  frames to throw away, and one more, are enough.\<close>

theorem read_skips_fd:
  assumes "ring_inv (readFifo dev)" "usable dev" "\<not> has_flag (wCANStatus dev) CAN_ERR_OVERRUN"
    and "fifo_items (readFifo dev) = fds @ x # rest" "length fds < n"
    and "\<And>y. y \<in> set fds \<Longrightarrow> pcan_is_fd (rx_msg y)" "msg_type (rx_msg x) \<in> {PCANFD_TYPE_STATUS, PCANFD_TYPE_CAN20_MSG}"
    and "\<And>y. y \<in> set (fds @ [x]) \<Longrightarrow> hw_offset (rx_hwtv y) \<noteq> None" "u_wr usr"
  shows "\<exists>dev' m usr'. pcan_ioctl_read n e fl task dev usr = Done (dev', usr', task, 0) \<and>
    fifo_items (readFifo dev') = rest \<and> pcan_fd_to_msg (ie_rd e) m = Some (u_val usr') \<and> same_msg m (rx_msg x)"
proof -
  have "\<not> pcan_is_fd (rx_msg x)" using assms(7) by (auto simp: pcan_is_fd_def)
  from read_loop_skips [OF assms(1-6) this assms(8)]
  obtain dev' y where r: "read_loop n e fl task dev (ie_rx e) = Done (dev', y, task, 0)"
    "fifo_items (readFifo dev') = rest" "same_msg (rx_msg y) (rx_msg x)" by blast
  obtain v where v: "pcan_fd_to_msg (ie_rd e) (rx_msg y) = Some v"
    using r(3) assms(7) by (auto simp: pcan_fd_to_msg_def same_msg_def Let_def)
  have "pcan_ioctl_read n e fl task dev usr = Done (dev', usr\<lparr>u_val := v\<rparr>, task, 0)"
    using r(1) v assms(9) by (simp add: pcan_ioctl_read_def cell_put_def)
  then show ?thesis using r(2,3) v by (intro exI [of _ dev'] exI [of _ "rx_msg y"] exI [of _ "usr\<lparr>u_val := v\<rparr>"]) simp
qed


section \<open>Lists of messages\<close>


text \<open>C38. A larger list is a way into the memory of the kernel: the size of a list of 35791395 messages is computed as 112
  bytes, and the second message is written behind the memory that was allocated.\<close>

theorem send_msgs_overrun:
  assumes "ul_rd plu" "ul_count plu = 35791395" "ie_alloc e 112" "u_rd (ul_cells plu 0)"
  shows "handle_pcanfd_send_msgs e fl task dev plu = Fault"
proof -
  have s: "list_size MSGS_HDR TXMSG_BYTES 35791395 = 112" by (simp add: list_size_def)
  have o: "copy_items 112 (ul_cells plu) (Suc (Suc n)) 0 = Overrun" for n
    using assms(4) by (simp only: copy_items.simps) simp
  have "Suc (Suc 35791393) = 35791395" by simp
  then have "copy_items 112 (ul_cells plu) 35791395 0 = Overrun" using o [of 35791393] by metis
  then show ?thesis using assms by (simp add: handle_pcanfd_send_msgs_def s list_alloc_def Let_def)
qed

section \<open>Programs of 32 bits\<close>

text \<open>Two lists of the user that say the same, one of a program of 32 bits.\<close>

definition conv_cells :: "(nat \<Rightarrow> pcanfd_msg32 ucell) \<Rightarrow> (nat \<Rightarrow> pcanfd_msg ucell) \<Rightarrow> bool" where
  "conv_cells c32 c \<longleftrightarrow> (\<forall>i. u_rd (c32 i) = u_rd (c i) \<and> u_wr (c32 i) = u_wr (c i) \<and> u_val (c32 i) = copy_to_msg32 (u_val (c i)))"

definition conv_list :: "pcanfd_msg32 ulist \<Rightarrow> pcanfd_msg ulist \<Rightarrow> bool" where
  "conv_list l32 l \<longleftrightarrow> ul_count l32 = ul_count l \<and> ul_rd l32 = ul_rd l \<and> ul_wr l32 = ul_wr l \<and> conv_cells (ul_cells l32) (ul_cells l)"

text \<open>The same outcome, with lists that say the same.\<close>

fun conv_outcome ::
  "(pcandev \<times> pcanfd_msg32 ulist \<times> task \<times> int) outcome \<Rightarrow> (pcandev \<times> pcanfd_msg ulist \<times> task \<times> int) outcome \<Rightarrow> bool" where
  "conv_outcome (Done (d32, l32, t32, e32)) (Done (d, l, t, e)) \<longleftrightarrow> d32 = d \<and> conv_list l32 l \<and> t32 = t \<and> e32 = e"
| "conv_outcome (Sleeping d32) (Sleeping d) \<longleftrightarrow> d32 = d"
| "conv_outcome Fault Fault \<longleftrightarrow> True"
| "conv_outcome _ _ \<longleftrightarrow> False"

lemma put_items_conv:
  assumes "conv_cells c32 c" "put_items c32 i (map copy_to_msg32 ms) a = (c32', a')" "put_items c i ms b = (c', b')"
  shows "conv_cells c32' c' \<and> (if ms = [] then a' = a \<and> b' = b else a' = b')"
  using assms
proof (induction ms arbitrary: c32 c i a b)
  case (Cons m ms)
  show ?case
  proof (cases "u_wr (c i)")
    case True
    then have w: "u_wr (c32 i)" using Cons.prems(1) by (simp add: conv_cells_def)
    have v: "conv_cells (c32(i := (c32 i)\<lparr>u_val := copy_to_msg32 m\<rparr>)) (c(i := (c i)\<lparr>u_val := m\<rparr>))"
      using Cons.prems(1) by (simp add: conv_cells_def)
    have "put_items (c32(i := (c32 i)\<lparr>u_val := copy_to_msg32 m\<rparr>)) (i + 1) (map copy_to_msg32 ms) 0 = (c32', a')"
      "put_items (c(i := (c i)\<lparr>u_val := m\<rparr>)) (i + 1) ms 0 = (c', b')"
      using Cons.prems(2,3) True w by simp_all
    from Cons.IH [OF v this] show ?thesis by (auto split: if_splits)
  next
    case False
    then show ?thesis using Cons.prems by (auto simp: conv_cells_def)
  qed
qed simp


section \<open>Paths\<close>

text \<open>What callbacks and requests keep of a channel: the number of its paths, and well-formed queues of the same size.\<close>

definition queue_keeps :: "'a FIFO_MANAGER \<Rightarrow> 'a FIFO_MANAGER \<Rightarrow> bool" where
  "queue_keeps f f' \<longleftrightarrow> (ring_inv f \<longrightarrow> ring_inv f' \<and> fifo_cap f' = fifo_cap f)"

definition path_keeps :: "pcandev \<Rightarrow> pcandev \<Rightarrow> bool" where
  "path_keeps d d' \<longleftrightarrow> nOpenPaths d' = nOpenPaths d \<and> queue_keeps (readFifo d) (readFifo d') \<and> queue_keeps (writeFifo d) (writeFifo d')"

definition path_view :: "pcandev \<Rightarrow> int \<times> pcanfd_rxmsg FIFO_MANAGER \<times> pcanfd_txmsg FIFO_MANAGER" where
  "path_view d = (nOpenPaths d, readFifo d, writeFifo d)"

lemma queue_keeps_refl [simp]: "queue_keeps f f"
  by (simp add: queue_keeps_def)

lemma path_keeps_view: "path_view d' = path_view d \<Longrightarrow> path_keeps d d'"
  by (simp add: path_view_def path_keeps_def)

lemma path_keeps_refl [simp]: "path_keeps d d"
  by (simp add: path_keeps_def)

lemma path_keeps_trans [trans]: "path_keeps a b \<Longrightarrow> path_keeps b c \<Longrightarrow> path_keeps a c"
  by (auto simp: path_keeps_def queue_keeps_def)

lemma set_bus_state_view [simp]: "path_view (pcan_set_bus_state d s) = path_view d"
  by (simp add: path_view_def pcan_set_bus_state_def mark_state_change_def pcan_init_session_counters_def)

lemma path_view_updates [simp]:
  "path_view (d\<lparr>dev_flags := x1\<rparr>) = path_view d" "path_view (pcan_set_tx_engine x2 d) = path_view d"
  "path_view (d\<lparr>init_settings := x3\<rparr>) = path_view d" "path_view (d\<lparr>init_timestamp := x4\<rparr>) = path_view d"
  "path_view (d\<lparr>bus_load_timer := x5\<rparr>) = path_view d" "path_view (pcanfd_dev_open_init d) = path_view d"
  "path_view (d\<lparr>in_event := x6\<rparr>) = path_view d" "path_view (d\<lparr>out_event := x7\<rparr>) = path_view d"
  by (simp_all add: path_view_def pcan_set_tx_engine_def pcanfd_dev_open_init_def)

text \<open>The drivers a path can be opened with.\<close>

locale path_driver =
  fixes ops :: dev_ops
  assumes open_keeps: "op_device_open ops d w x l = Some (d', err) \<Longrightarrow> path_keeps d d'"
    and open_fd_keeps: "op_device_open_fd ops d p = Some (d', p', err) \<Longrightarrow> path_keeps d d'"
    and release_keeps: "op_device_release ops = Some f \<Longrightarrow> path_keeps d (f d)"
    and hw_open_keeps: "op_open ops = Some g \<Longrightarrow> path_keeps d (fst (g d))"
    and hw_release_keeps: "op_release ops = Some g \<Longrightarrow> path_keeps d (fst (g d))"
    and irq_keeps: "op_req_irq ops = Some g \<Longrightarrow> path_keeps d (fst (g d))"
    and free_irq_keeps: "op_free_irq ops = Some f \<Longrightarrow> path_keeps d (f d)"
begin

lemma call_open_keeps: "call_device_open ops d p = Some (d', p', err) \<Longrightarrow> path_keeps d d'"
  by (auto simp: call_device_open_def Let_def bind_eq_Some_conv split: if_splits dest: open_keeps open_fd_keeps)

lemma reset_keeps: "path_keeps d (fst (pcanfd_dev_reset ops d))"
proof -
  let ?d0 = "pcan_set_tx_engine TX_ENGINE_CLOSED d"
  let ?d1 = "if nOpenPaths ?d0 \<noteq> 0 then case op_device_release ops of None \<Rightarrow> ?d0 | Some f \<Rightarrow> f ?d0 else ?d0"
  let ?d2 = "pcan_set_bus_state (?d1\<lparr>dev_flags := clr_flag (dev_flags ?d1) PCAN_DEV_OPENED\<rparr>) PCANFD_UNKNOWN"
  have "path_keeps d ?d0" by (rule path_keeps_view) simp
  also have "path_keeps ?d0 ?d1" by (auto split: option.split dest: release_keeps)
  also have "path_keeps ?d1 ?d2" by (rule path_keeps_view) simp
  also have "path_keeps ?d2 (fst (pcanfd_dev_reset ops d))"
    using fifo_reset_empty [of "readFifo ?d2"] fifo_reset_empty [of "writeFifo ?d2"]
    by (auto simp: pcanfd_dev_reset_def Let_def split_def path_keeps_def queue_keeps_def)
  finally show ?thesis .
qed

lemma dev_open_u_keeps: "pcanfd_dev_open_u ops now j d p = Some (d', p', err) \<Longrightarrow> path_keeps d d'"
proof -
  assume a: "pcanfd_dev_open_u ops now j d p = Some (d', p', err)"
  define q where "q = (if \<not> has_flag (dev_flags d) PCAN_DEV_BUSLOAD_RDY
    then p\<lparr>init_flags := clr_flag (init_flags p) PCANFD_INIT_BUS_LOAD_INFO\<rparr> else p)"
  define d0 where "d0 = pcanfd_dev_open_init (d\<lparr>init_timestamp := now, init_settings := pcanfd_copy_init q\<rparr>)"
  obtain d1 p1 e1 where c: "call_device_open ops d0 q = Some (d1, p1, e1)"
    using a unfolding pcanfd_dev_open_u_def Let_def q_def [symmetric] d0_def [symmetric]
    by (cases "call_device_open ops d0 q") auto
  then have v: "path_view d' = path_view d1"
    using a unfolding pcanfd_dev_open_u_def Let_def q_def [symmetric] d0_def [symmetric]
    by (cases "e1 = 0") (simp_all split: if_splits, auto)
  have "path_keeps d d0" by (rule path_keeps_view) (simp add: d0_def)
  also have "path_keeps d0 d1" by (rule call_open_keeps [OF c])
  also have "path_keeps d1 d'" by (rule path_keeps_view [OF v])
  finally show ?thesis .
qed

lemma own_keeps: "dev_open_own ops now j d = Some (d', err) \<Longrightarrow> path_keeps d d'"
proof -
  have k: "path_keeps d (d\<lparr>init_settings := i\<rparr>)" for i by (rule path_keeps_view) simp
  assume "dev_open_own ops now j d = Some (d', err)"
  then consider i where "d' = d\<lparr>init_settings := i\<rparr>"
    | p p' e' where "pcanfd_dev_open_u ops now j d p = Some (d', p', e')"
    | i p p' e' where "pcanfd_dev_open_u ops now j (d\<lparr>init_settings := i\<rparr>) p = Some (d', p', e')"
    by (auto simp: dev_open_own_def Let_def bind_eq_Some_conv split: if_splits)
  then show ?thesis using k dev_open_u_keeps path_keeps_trans by cases blast+
qed

end

text \<open>Queues of at least two entries, and a probe of the controller that keeps the channel.\<close>

definition path_env_ok :: "u16 \<Rightarrow> u16 \<Rightarrow> path_env \<Rightarrow> bool" where
  "path_env_ok tn rn e \<longleftrightarrow> txqsize e = tn \<and> rxqsize e = rn \<and> 2 \<le> unat tn \<and> 2 \<le> unat rn \<and> tx_msg_bytes e \<noteq> 0 \<and> rx_msg_bytes e \<noteq> 0 \<and>
     (\<forall>d. path_keeps d (fst (pe_probe e d)))"

definition queues_ok :: "u16 \<Rightarrow> u16 \<Rightarrow> pcandev \<Rightarrow> bool" where
  "queues_ok tn rn d \<longleftrightarrow> ring_inv (readFifo d) \<and> ring_inv (writeFifo d) \<and> fifo_cap (readFifo d) = unat rn \<and> fifo_cap (writeFifo d) = unat tn"

text \<open>A channel with \<open>n\<close> paths, on an adapter on which \<open>c\<close> other channels are open.\<close>

definition path_inv :: "u16 \<Rightarrow> u16 \<Rightarrow> int \<Rightarrow> chan \<Rightarrow> nat \<Rightarrow> bool" where
  "path_inv tn rn c ch n \<longleftrightarrow>
     (if n = 0 then nOpenPaths (ch_dev ch) \<in> {0, -1} \<and> wMsg ch = None \<and> rMsg ch = None \<and> adapter_opened ch = c
      else nOpenPaths (ch_dev ch) = int n \<and> wMsg ch \<noteq> None \<and> rMsg ch \<noteq> None \<and> adapter_opened ch = c + 1 \<and> queues_ok tn rn (ch_dev ch))"

lemma queues_ok_keeps: "path_keeps d d' \<Longrightarrow> queues_ok tn rn d \<Longrightarrow> queues_ok tn rn d'"
  by (simp add: path_keeps_def queue_keeps_def queues_ok_def)

lemma path_keeps_paths: "path_keeps d d' \<Longrightarrow> nOpenPaths d' = nOpenPaths d"
  by (simp add: path_keeps_def)

context path_driver
begin

lemma path_dev_inv:
  assumes "path_dev e ops ch = Some (ch', err)" "queues_ok tn rn (ch_dev ch)" "wMsg ch \<noteq> None" "rMsg ch \<noteq> None" "adapter_opened ch = c"
  shows "path_inv tn rn c ch' (if err = 0 then 1 else 0)"
proof -
  let ?d = "(ch_dev ch)\<lparr>nOpenPaths := 1\<rparr>" and ?ch = "ch\<lparr>opened_index := adapter_opened ch, adapter_opened := adapter_opened ch + 1\<rparr>"
  obtain dev' where o: "dev_open_own ops (pe_now e) (pe_jiffies e) (fst (pcanfd_dev_reset ops ?d)) = Some (dev', err)"
    and r: "ch' = (if err = 0 then ?ch\<lparr>ch_dev := dev'\<rparr>
      else free_queues (?ch\<lparr>ch_dev := (let d = dev'\<lparr>nOpenPaths := nOpenPaths dev' - 1\<rparr> in case op_free_irq ops of None \<Rightarrow> d | Some f \<Rightarrow> f d),
        adapter_opened := adapter_opened ch\<rparr>))"
    using assms(1) by (auto simp: path_dev_def Let_def bind_eq_Some_conv split: if_splits)
  have k: "path_keeps ?d dev'" using path_keeps_trans [OF reset_keeps own_keeps [OF o]] .
  then have n: "nOpenPaths dev' = 1" using path_keeps_paths by fastforce
  have "queues_ok tn rn ?d" using assms(2) by (simp add: queues_ok_def)
  then have q: "queues_ok tn rn dev'" by (rule queues_ok_keeps [OF k])
  have "nOpenPaths (case op_free_irq ops of None \<Rightarrow> x | Some f \<Rightarrow> f x) = nOpenPaths x" for x
    by (auto split: option.split dest!: free_irq_keeps [of _ x] path_keeps_paths)
  then show ?thesis using r n q assms(3-5) by (simp add: path_inv_def free_queues_def Let_def)
qed

lemma path_hw_inv:
  assumes "path_hw e ops ch = Some (ch', err)" "path_env_ok tn rn e" "queues_ok tn rn (ch_dev ch)" "wMsg ch \<noteq> None" "rMsg ch \<noteq> None"
    "adapter_opened ch = c" "nOpenPaths (ch_dev ch) \<in> {0, -1}"
  shows "path_inv tn rn c ch' (if err = 0 then 1 else 0)"
proof -
  have closed: "path_inv tn rn c (free_queues (ch\<lparr>ch_dev := d\<rparr>)) 0" if "path_keeps (ch_dev ch) d" for d
    using path_keeps_paths [OF that] assms(6,7) by (simp add: path_inv_def free_queues_def)
  obtain d1 e1 where o: "(case op_open ops of None \<Rightarrow> (ch_dev ch, 0) | Some f \<Rightarrow> f (ch_dev ch)) = (d1, e1)" by fastforce
  have k1: "path_keeps (ch_dev ch) d1" using o hw_open_keeps [of _ "ch_dev ch"] by (auto split: option.splits dest: sym)
  obtain d2 e2 where p: "(if wType d1 = HW_DONGLE_SJA \<or> wType d1 = HW_DONGLE_SJA_EPP then pe_probe e d1 else (d1, 0)) = (d2, e2)" by fastforce
  have k2: "path_keeps (ch_dev ch) d2"
  proof -
    have "path_keeps d1 (fst (pe_probe e d1))" using assms(2) by (simp add: path_env_ok_def)
    then have "path_keeps d1 d2" using p by (auto split: if_splits)
    then show ?thesis by (rule path_keeps_trans [OF k1])
  qed
  define d3 where "d3 = d2\<lparr>in_event := 0, out_event := 1\<rparr>"
  obtain d4 e4 where i: "(case op_req_irq ops of None \<Rightarrow> (d3, 0) | Some f \<Rightarrow> f d3) = (d4, e4)" by fastforce
  have "path_keeps d2 d3" by (rule path_keeps_view) (simp add: d3_def)
  moreover have "path_keeps d3 d4" using i irq_keeps [of _ d3] by (auto split: option.splits dest: sym)
  ultimately have k4: "path_keeps (ch_dev ch) d4" by (rule path_keeps_trans [OF k2 path_keeps_trans])
  note run = assms(1) [unfolded path_hw_def Let_def o split_conv p d3_def [symmetric] i]
  consider "e1 \<noteq> 0" | "e1 = 0" "e2 \<noteq> 0" | "e1 = 0" "e2 = 0" "e4 \<noteq> 0" | "e1 = 0" "e2 = 0" "e4 = 0" by blast
  then show ?thesis
  proof cases
    case 2
    then obtain g where "op_release ops = Some g" "ch' = free_queues (ch\<lparr>ch_dev := fst (g d2)\<rparr>)" "err = e2" using run by auto
    then show ?thesis using closed [OF path_keeps_trans [OF k2 hw_release_keeps]] 2 by auto
  next
    case 4
    then show ?thesis using path_dev_inv [of e "ch\<lparr>ch_dev := d4\<rparr>" ch' err tn rn c] run queues_ok_keeps [OF k4 assms(3)] assms(4-6) by simp
  qed (use run closed [OF k1] closed [OF k4] in auto)
qed

lemma open_path_inv:
  assumes "pcan_open_path e ops ch = Some (ch', err)" "path_env_ok tn rn e" "path_inv tn rn c ch n"
  shows "path_inv tn rn c ch' (if err = 0 then n + 1 else n)"
proof (cases n)
  case 0
  then have z: "nOpenPaths (ch_dev ch) \<in> {0, -1}" "adapter_opened ch = c" "wMsg ch = None" "rMsg ch = None"
    using assms(3) by (simp_all add: path_inv_def)
  show ?thesis
  proof (cases "alloc_w e = None \<or> alloc_r e = None")
    case True
    then show ?thesis using assms(1) z 0 by (auto simp: pcan_open_path_def Let_def path_inv_def split: option.splits)
  next
    case False
    then obtain w r where a: "alloc_w e = Some w" "alloc_r e = Some r" by auto
    let ?t = "unat tn" and ?r = "unat rn" and ?bt = "unat (tx_msg_bytes e)" and ?br = "unat (rx_msg_bytes e)"
    have ok: "2 \<le> ?t" "2 \<le> ?r" "tx_msg_bytes e \<noteq> 0" "rx_msg_bytes e \<noteq> 0" "txqsize e = tn" "rxqsize e = rn"
      using assms(2) by (simp_all add: path_env_ok_def)
    have less: "?t < 2147483648" "?r < 2147483648" "?bt < 65536" "?br < 65536"
      using unat_u16_less [of tn] unat_u16_less [of rn] by (simp_all del: unat_u16_less) (rule unat_u16_less)+
    obtain fw where fw: "pcan_fifo_init (writeFifo (ch_dev ch)) w (w + (?t - 1) * ?bt) (int ?t) (tx_msg_bytes e) = (fw, 0)"
      "ring_inv fw" "fifo_cap fw = ?t" using ring_inv_init [OF ok(1) less(1,3) _ ok(3)] by blast
    obtain fr where fr: "pcan_fifo_init (readFifo (ch_dev ch)) r (r + (?r - 1) * ?br) (int ?r) (rx_msg_bytes e) = (fr, 0)"
      "ring_inv fr" "fifo_cap fr = ?r" using ring_inv_init [OF ok(2) less(2,4) _ ok(4)] by blast
    let ?ch = "ch\<lparr>wMsg := Some w, ch_dev := (ch_dev ch)\<lparr>writeFifo := fw, readFifo := fr\<rparr>, rMsg := Some r\<rparr>"
    have "path_hw e ops ?ch = Some (ch', err)"
      using assms(1) z(1) a fw(1) fr(1) ok(5,6) by (auto simp: pcan_open_path_def Let_def)
    from path_hw_inv [OF this assms(2)] show ?thesis using fw(2,3) fr(2,3) z(1,2) 0 by (simp add: queues_ok_def split: if_splits)
  qed
next
  case (Suc k)
  then have "nOpenPaths (ch_dev ch) = int n" "wMsg ch \<noteq> None" "rMsg ch \<noteq> None" "adapter_opened ch = c + 1" "queues_ok tn rn (ch_dev ch)"
    using assms(3) by (simp_all add: path_inv_def)
  then show ?thesis using assms(1) Suc by (auto simp: pcan_open_path_def path_inv_def queues_ok_def)
qed

lemma release_path_inv:
  assumes "path_inv tn rn c ch (Suc n)" "0 \<le> c" "\<And>d. path_keeps d (waited d)"
  shows "path_inv tn rn c (pcan_release_path ops waited ch) n"
proof -
  have i: "nOpenPaths (ch_dev ch) = int (Suc n)" "wMsg ch \<noteq> None" "rMsg ch \<noteq> None" "adapter_opened ch = c + 1" "queues_ok tn rn (ch_dev ch)"
    using assms(1) by (simp_all add: path_inv_def)
  show ?thesis
  proof (cases n)
    case 0
    have p: "nOpenPaths (waited d) = nOpenPaths d"
      "nOpenPaths (case op_device_release ops of None \<Rightarrow> d | Some f \<Rightarrow> f d) = nOpenPaths d"
      "nOpenPaths (case op_release ops of None \<Rightarrow> d | Some g \<Rightarrow> fst (g d)) = nOpenPaths d"
      "nOpenPaths (case op_free_irq ops of None \<Rightarrow> d | Some f \<Rightarrow> f d) = nOpenPaths d" for d
      using assms(3) [of d]
      by (auto split: option.split dest!: release_keeps [of _ d] hw_release_keeps [of _ d] free_irq_keeps [of _ d] path_keeps_paths)
    have b: "nOpenPaths (pcan_set_bus_state d s) = nOpenPaths d" for d s using set_bus_state_view [of d s] by (simp add: path_view_def)
    show ?thesis using i 0 assms(2)
      by (simp add: pcan_release_path_def release_last_def Let_def path_inv_def p b pcan_set_tx_engine_def)
  next
    case (Suc k)
    then show ?thesis using i by (auto simp: pcan_release_path_def Let_def path_inv_def queues_ok_def)
  qed
qed

end
subsection \<open>The states a channel can reach\<close>

text \<open>Paths are opened, opened in vain and released in any order; in between, everything that keeps the channel in the
  sense above can happen to it.\<close>

inductive path_reach :: "dev_ops \<Rightarrow> u16 \<Rightarrow> u16 \<Rightarrow> int \<Rightarrow> chan \<Rightarrow> nat \<Rightarrow> bool" for ops tn rn c where
  fresh: "\<lbrakk>nOpenPaths (ch_dev ch) = 0; wMsg ch = None; rMsg ch = None; adapter_opened ch = c\<rbrakk> \<Longrightarrow> path_reach ops tn rn c ch 0"
| opened: "\<lbrakk>path_reach ops tn rn c ch n; path_env_ok tn rn e; pcan_open_path e ops ch = Some (ch', 0)\<rbrakk> \<Longrightarrow> path_reach ops tn rn c ch' (n + 1)"
| refused: "\<lbrakk>path_reach ops tn rn c ch n; path_env_ok tn rn e; pcan_open_path e ops ch = Some (ch', err); err \<noteq> 0\<rbrakk>
    \<Longrightarrow> path_reach ops tn rn c ch' n"
| released: "\<lbrakk>path_reach ops tn rn c ch (Suc n); \<And>d. path_keeps d (waited d)\<rbrakk>
    \<Longrightarrow> path_reach ops tn rn c (pcan_release_path ops waited ch) n"
| work: "\<lbrakk>path_reach ops tn rn c ch n; path_keeps (ch_dev ch) d\<rbrakk> \<Longrightarrow> path_reach ops tn rn c (ch\<lparr>ch_dev := d\<rparr>) n"

inductive_cases path_reachE: "path_reach ops tn rn c ch n"

lemma work_inv: "path_inv tn rn c ch n \<Longrightarrow> path_keeps (ch_dev ch) d \<Longrightarrow> path_inv tn rn c (ch\<lparr>ch_dev := d\<rparr>) n"
  using queues_ok_keeps [of "ch_dev ch" d tn rn] path_keeps_paths [of "ch_dev ch" d] by (auto simp: path_inv_def)

context path_driver
begin

lemma reach_inv: "path_reach ops tn rn c ch n \<Longrightarrow> 0 \<le> c \<Longrightarrow> path_inv tn rn c ch n"
proof (induction rule: path_reach.induct)
  case (fresh ch)
  then show ?case by (simp add: path_inv_def)
next
  case (opened ch n e ch')
  then show ?case using open_path_inv [OF opened(3,2)] by fastforce
next
  case (refused ch n e ch' err)
  then show ?case using open_path_inv [OF refused(3,2)] by fastforce
next
  case (released ch n waited)
  then show ?case using release_path_inv by blast
next
  case (work ch n d)
  then show ?case using work_inv by blast
qed

end

subsection \<open>The SJA1000 is such a driver\<close>

interpretation pv: io_blind path_view
  by unfold_locales (simp add: path_view_def)

interpretation rxp: rx_blind "\<lambda>d. (nOpenPaths d, writeFifo d)"
  by unfold_locales simp_all

lemma fifo_get_keeps: "pcan_fifo_get True f = (f', e, x) \<Longrightarrow> queue_keeps f f'"
proof (unfold queue_keeps_def, intro impI)
  assume a: "pcan_fifo_get True f = (f', e, x)" "ring_inv f"
  show "ring_inv f' \<and> fifo_cap f' = fifo_cap f"
    using a ring.get_none [OF a(2)] ring.get_item [OF a(2)] by (cases "fifo_items f") fastforce+
qed

lemma write_msg_view: "path_view (fst (sja1000_write_msg chip pf d)) = path_view d"
  by (simp add: sja1000_write_msg_def Let_def split_def)

lemma sja_write_keeps: "path_keeps d (fst (sja1000_write chip d))"
proof -
  have u: "path_keeps d (fst (sja1000_write_u chip d))" for d
  proof -
    obtain f e x where g: "pcan_fifo_get True (writeFifo d) = (f, e, x)" by (metis prod_cases3)
    have "path_keeps d (d\<lparr>writeFifo := f\<rparr>)" using fifo_get_keeps [OF g] by (simp add: path_keeps_def)
    moreover have "path_view (fst (sja1000_write_u chip d)) = path_view (d\<lparr>writeFifo := f\<rparr>)"
      using g by (simp add: sja1000_write_u_def write_msg_view split: option.split)
    ultimately show ?thesis using path_keeps_trans path_keeps_view by blast
  qed
  obtain d1 i where w: "pcan_pcie_wait_for_status chip SJA1000_SR_TBS d = (d1, i)" by fastforce
  have "path_view d1 = path_view d"
    using w pv.poll_view by (metis pcan_pcie_wait_for_status_def fst_conv)
  then show ?thesis using path_keeps_trans [OF path_keeps_view u] w by (simp add: sja1000_write_def Let_def path_keeps_view)
qed

lemma deliver_keeps: "path_keeps d (rx_deliver now drv d rx)"
proof -
  obtain d' rx' r where c: "pcan_chardev_rx now drv d rx = (d', rx', r)" by (metis prod_cases3)
  have "readFifo (rx_deliver now drv d rx) = readFifo d'" using c by (simp add: rx_deliver_def signal_in_def)
  moreover have "queue_keeps (readFifo d) (readFifo d')" using chardev_rx_queue [OF _ c] by (auto simp: queue_keeps_def)
  ultimately show ?thesis using rxp.deliver_blind [of now drv d rx] by (simp add: path_keeps_def)
qed

lemma sja_open_keeps:
  assumes "op_device_write ops = sja1000_write chip"
  shows "path_keeps d (fst (sja1000_open chip polls now drv stack ops d w x l))"
proof -
  have s: "path_keeps d (pcan_soft_error_active now drv ops stack d)" for d
  proof -
    have b: "path_keeps d (pcan_set_bus_state d PCANFD_ERROR_ACTIVE)" for d by (rule path_keeps_view) simp
    have t: "path_keeps d (fst (pcan_dev_start_writing ops d))" for d
      using sja_write_keeps [of d chip] assms by (simp add: pcan_dev_start_writing_def Let_def split_def)
    obtain d1 r where h: "pcan_handle_error_active ops d (Some stack) = (d1, Some r)"
      by (simp add: pcan_handle_error_active_def Let_def)
    have "path_keeps d d1"
      using h b [of d] path_keeps_trans [OF b t] by (auto simp: pcan_handle_error_active_def Let_def split: if_splits)
    then show ?thesis using path_keeps_trans [OF _ deliver_keeps] h by (simp add: pcan_soft_error_active_def)
  qed
  have v: "path_view d' = path_view d \<Longrightarrow> path_keeps d (pcan_soft_error_active now drv ops stack d')" for d'
    using path_keeps_trans [OF path_keeps_view s] by blast
  have w: "path_view d' = path_view d \<Longrightarrow> path_keeps d (fst (d', err))" for d' and err :: int
    by (simp add: path_keeps_view)
  have n: "path_view d' = path_view d \<Longrightarrow> path_keeps d (fst (pcan_soft_error_active now drv ops stack d', err))" for d' and err :: int
    using v by simp
  have i: "path_keeps d (fst x) \<Longrightarrow> path_keeps d (fst y) \<Longrightarrow> path_keeps d (fst (if q then x else y))" for x y :: "pcandev \<times> int" and q
    by simp
  show ?thesis unfolding sja1000_open_def Let_def split_def
    by (rule i, rule w, simp, rule i, rule w, simp, rule n, simp)
qed

interpretation sjap: path_driver "sja1000_ops chip polls now drv stack" for chip polls now drv stack
proof
  fix d w x l d' err
  assume "op_device_open (sja1000_ops chip polls now drv stack) d w x l = Some (d', err)"
  then show "path_keeps d d'"
    using sja_open_keeps [of "(sja1000_ops chip polls now drv stack)\<lparr>op_device_open := (\<lambda>dev w e l. None)\<rparr>" chip d polls now drv stack w x l]
    by (simp add: sja1000_ops_def Let_def)
qed (auto simp: sja1000_ops_def Let_def intro!: path_keeps_view)

text \<open>C5. Paths are counted right. In every state that a channel with a SJA1000 reaches by opening, releasing and using paths,
  the counter of the channel is the number of paths that are open (or -1 after the last one), the queues have memory
  and are well formed, with the sizes that were asked for, exactly while there is a path, and the adapter counts the
  channel exactly then.\<close>

theorem paths_counted:
  assumes "path_reach (sja1000_ops chip polls now drv stack) tn rn c ch n" "0 \<le> c"
  shows "if n = 0 then nOpenPaths (ch_dev ch) \<in> {0, -1} \<and> wMsg ch = None \<and> rMsg ch = None \<and> adapter_opened ch = c
    else nOpenPaths (ch_dev ch) = int n \<and> wMsg ch \<noteq> None \<and> rMsg ch \<noteq> None \<and> adapter_opened ch = c + 1 \<and>
      ring_inv (readFifo (ch_dev ch)) \<and> ring_inv (writeFifo (ch_dev ch)) \<and>
      fifo_cap (readFifo (ch_dev ch)) = unat rn \<and> fifo_cap (writeFifo (ch_dev ch)) = unat tn"
  using sjap.reach_inv [OF assms] unfolding path_inv_def queues_ok_def .

section \<open>Instances\<close>

abbreviation (input) still_task :: task where "still_task \<equiv> \<lparr>task_now = zero_timeval, task_wakes = []\<rparr>"

abbreviation (input) old_msg :: TPCANMsg where "old_msg \<equiv> \<lparr>ID = 0x123, MSGTYPE = 0, LEN = 2, DATA = [1, 2, 3, 4, 5, 6, 7, 8]\<rparr>"

abbreviation (input) blank_rd :: TPCANRdMsg where
  "blank_rd \<equiv> \<lparr>Msg = \<lparr>ID = 0, MSGTYPE = 0, LEN = 0, DATA = replicate 8 0\<rparr>, dwTime = 0, wUsec = 0\<rparr>"

theorem old_message_roundtrip_witness:
  "\<exists>r. pcan_fd_to_msg blank_rd (pcan_msg_to_fd zero_msg old_msg) = Some r \<and> ID (Msg r) = 0x123 \<and> LEN (Msg r) = 2 \<and>
     take 2 (DATA (Msg r)) = [1, 2]"
  using old_message_roundtrip [of old_msg blank_rd zero_msg] by auto

text \<open>A CAN FD frame, and a status behind it.\<close>

definition mixed_dev :: pcandev where
  "mixed_dev = blank_dev\<lparr>nOpenPaths := 1,
     readFifo := fst (pcan_fifo_put \<lparr>rx_msg = zero_msg\<lparr>msg_type := PCANFD_TYPE_STATUS, msg_id := 8\<rparr>, rx_hwtv = zero_hwtv\<rparr>
       (fst (pcan_fifo_put \<lparr>rx_msg = zero_msg\<lparr>msg_type := PCANFD_TYPE_CANFD_MSG\<rparr>, rx_hwtv = zero_hwtv\<rparr> (readFifo blank_dev))))\<rparr>"

lemma mixed_dev_queue:
  "ring_inv (readFifo mixed_dev)" "usable mixed_dev" "\<not> has_flag (wCANStatus mixed_dev) CAN_ERR_OVERRUN"
  "fifo_items (readFifo mixed_dev) = [\<lparr>rx_msg = zero_msg\<lparr>msg_type := PCANFD_TYPE_CANFD_MSG\<rparr>, rx_hwtv = zero_hwtv\<rparr>] @
     \<lparr>rx_msg = zero_msg\<lparr>msg_type := PCANFD_TYPE_STATUS, msg_id := 8\<rparr>, rx_hwtv = zero_hwtv\<rparr> # []"
proof -
  let ?a = "\<lparr>rx_msg = zero_msg\<lparr>msg_type := PCANFD_TYPE_CANFD_MSG\<rparr>, rx_hwtv = zero_hwtv\<rparr>"
  let ?b = "\<lparr>rx_msg = zero_msg\<lparr>msg_type := PCANFD_TYPE_STATUS, msg_id := 8\<rparr>, rx_hwtv = zero_hwtv\<rparr>"
  have f: "ring_inv (readFifo blank_dev)" "fifo_items (readFifo blank_dev) = []" "fifo_cap (readFifo blank_dev) = 4"
    using blank_fifo_inv [of "\<lparr>rx_msg = zero_msg, rx_hwtv = zero_hwtv\<rparr>"] by (simp_all add: blank_dev_def)
  obtain g where g: "pcan_fifo_put ?a (readFifo blank_dev) = (g, 0)" "ring_inv g" "fifo_items g = [?a]" "fifo_cap g = 4"
    using ring.put_room [OF f(1), of ?a] f by (auto simp del: length_fifo_items)
  obtain h where h: "pcan_fifo_put ?b g = (h, 1)" "ring_inv h" "fifo_items h = [?a, ?b]"
    using ring.put_room [OF g(2), of ?b] g by (auto simp del: length_fifo_items)
  have "readFifo mixed_dev = h" using g h by (simp add: mixed_dev_def)
  then show "ring_inv (readFifo mixed_dev)" "fifo_items (readFifo mixed_dev) = [?a] @ ?b # []" using h by simp_all
qed (simp_all add: mixed_dev_def usable_def blank_dev_def)

lemma zero_hwtv_offset [simp]: "\<exists>y. hw_offset zero_hwtv = Some y"
  by (simp add: hw_offset_def zero_hwtv_def)

theorem read_skips_fd_witness:
  "\<forall>e. \<exists>dev' m usr'. pcan_ioctl_read 2 e 0 still_task mixed_dev \<lparr>u_val = blank_rd, u_rd = True, u_wr = True\<rparr> = Done (dev', usr', still_task, 0) \<and>
     fifo_items (readFifo dev') = [] \<and> pcan_fd_to_msg (ie_rd e) m = Some (u_val usr') \<and> msg_id m = 8"
proof
  fix e
  have "\<exists>dev' m usr'. pcan_ioctl_read 2 e 0 still_task mixed_dev \<lparr>u_val = blank_rd, u_rd = True, u_wr = True\<rparr> = Done (dev', usr', still_task, 0) \<and>
     fifo_items (readFifo dev') = [] \<and> pcan_fd_to_msg (ie_rd e) m = Some (u_val usr') \<and>
     same_msg m (rx_msg \<lparr>rx_msg = zero_msg\<lparr>msg_type := PCANFD_TYPE_STATUS, msg_id := 8\<rparr>, rx_hwtv = zero_hwtv\<rparr>)"
    by (rule read_skips_fd [OF mixed_dev_queue]) (auto simp: pcan_is_fd_def)
  then show "\<exists>dev' m usr'. pcan_ioctl_read 2 e 0 still_task mixed_dev \<lparr>u_val = blank_rd, u_rd = True, u_wr = True\<rparr> = Done (dev', usr', still_task, 0) \<and>
     fifo_items (readFifo dev') = [] \<and> pcan_fd_to_msg (ie_rd e) m = Some (u_val usr') \<and> msg_id m = 8"
    by (fastforce simp: same_msg_def)
qed


definition two_msgs :: "bool \<Rightarrow> pcanfd_msg ulist" where
  "two_msgs ok = \<lparr>ul_count = 2, ul_rd = True, ul_wr = True,
     ul_cells = (\<lambda>i. \<lparr>u_val = zero_msg\<lparr>msg_type := 1, msg_id := of_nat i\<rparr>, u_rd = ok, u_wr = True\<rparr>)\<rparr>"

lemma two_msgs_list [simp]:
  "ul_count (two_msgs b) = 2" "ul_rd (two_msgs b)" "ul_wr (two_msgs b)" "u_rd (ul_cells (two_msgs b) i) = b"
  by (simp_all add: two_msgs_def)


theorem send_msgs_overrun_witness:
  "\<forall>e. handle_pcanfd_send_msgs (e\<lparr>ie_alloc := (\<lambda>l. l < 4096)\<rparr>) 0 still_task busy_dev ((two_msgs True)\<lparr>ul_count := 35791395\<rparr>) = Fault"
  by (intro allI send_msgs_overrun) (simp_all add: two_msgs_def)


text \<open>The first path to a channel with a controller that keeps what is written to it.\<close>

abbreviation (input) keeping_chip :: chip where "keeping_chip \<equiv> \<lambda>l a. if a = 2 then 4 else last_write l a"

definition demo_path :: path_env where
  "demo_path = \<lparr>txqsize = 4, rxqsize = 4, tx_msg_bytes = 120, rx_msg_bytes = 136, alloc_w = Some 4096, alloc_r = Some 8192,
     pe_now = zero_timeval, pe_jiffies = 0, pe_probe = (\<lambda>d. (d, 0))\<rparr>"

definition demo_chan :: chan where
  "demo_chan = \<lparr>ch_dev = blank_dev\<lparr>init_settings := zero_init\<lparr>clock_Hz := 8000000\<rparr>\<rparr>, wMsg = None, rMsg = None, opened_index = 0, adapter_opened = 1\<rparr>"

interpretation iset: io_blind init_settings by unfold_locales simp

lemma reset_init_settings: "init_settings (fst (pcanfd_dev_reset (sja1000_ops chip polls now drv stack) d)) = init_settings d"
  by (simp add: pcanfd_dev_reset_def sja1000_ops_def Let_def split_def pcan_set_tx_engine_def pcan_set_bus_state_def mark_state_change_def
      pcan_init_session_counters_def)

lemma keeping_chip_modes: "snd (set_reset_mode keeping_chip 3 d) = 0" "snd (set_normal_mode keeping_chip 3 md d) = 0"
  by (simp_all add: set_reset_mode_def set_normal_mode_def numeral_3_eq_3 readreg_def writereg_def has_flag_def Let_def split_def)

lemma keeping_chip_opens: "snd (sja1000_open keeping_chip 3 now drv stack ops d w x l) = 0"
  unfolding sja1000_open_def Let_def split_def by (simp only: keeping_chip_modes if_False simp_thms snd_conv)

lemma demo_opens:
  "map_option snd (pcan_open_path demo_path (sja1000_ops keeping_chip 3 zero_timeval zero_timeval cleared_msg) demo_chan) = Some 0"
proof -
  let ?ops = "sja1000_ops keeping_chip 3 zero_timeval zero_timeval cleared_msg"
  have c: "\<exists>p' d'. call_device_open ?ops d p = Some (d', p', 0)" if "clock_Hz p = 8000000" "nominal p = zero_bittiming" for d p
  proof -
    have w: "pcan_bittiming_to_btr0btr1 zero_bittiming \<noteq> 0" by code_simp
    have "\<exists>d'. op_device_open ?ops d w x l = Some (d', 0)" for w x l
      using keeping_chip_opens by (auto simp: sja1000_ops_def Let_def prod_eq_iff)
    then show ?thesis using that w by (auto simp: call_device_open_def Let_def bind_eq_Some_conv)
  qed
  have o: "map_option snd (dev_open_own ?ops t j d) = Some 0" if "init_settings d = zero_init\<lparr>clock_Hz := 8000000\<rparr>" for t j d
  proof -
    have u: "map_option (snd \<circ> snd) (pcanfd_dev_open_u ?ops t j d p) = Some 0" if "clock_Hz p = 8000000" "nominal p = zero_bittiming" for d p
      by (simp add: pcanfd_dev_open_u_def Let_def bind_eq_Some_conv c that)
    show ?thesis using u that
      by (auto simp: dev_open_own_def Let_def has_flag_def zero_init_def bind_eq_Some_conv split: if_splits)
  qed
  have p: "\<exists>ch'. path_dev e ?ops ch = Some (ch', 0)" if s: "init_settings (ch_dev ch) = zero_init\<lparr>clock_Hz := 8000000\<rparr>" for e ch
  proof -
    let ?d = "fst (pcanfd_dev_reset ?ops ((ch_dev ch)\<lparr>nOpenPaths := 1\<rparr>))"
    obtain d' where "dev_open_own ?ops (pe_now e) (pe_jiffies e) ?d = Some (d', 0)"
      using o [of ?d "pe_now e" "pe_jiffies e"] s by (auto simp: reset_init_settings)
    then show ?thesis by (simp add: path_dev_def Let_def)
  qed
  have "init_settings (ch_dev demo_chan) = zero_init\<lparr>clock_Hz := 8000000\<rparr>" "op_open ?ops = None" "op_req_irq ?ops = None"
    "wType (ch_dev demo_chan) = 0" "nOpenPaths (ch_dev demo_chan) = 0"
    by (simp_all add: demo_chan_def sja1000_ops_def Let_def blank_dev_def)
  then show ?thesis
    using p by (simp add: pcan_open_path_def path_hw_def demo_path_def Let_def)
qed

theorem paths_counted_witness:
  "\<exists>ch. pcan_open_path demo_path (sja1000_ops keeping_chip 3 zero_timeval zero_timeval cleared_msg) demo_chan = Some (ch, 0) \<and>
     nOpenPaths (ch_dev ch) = 1 \<and> adapter_opened ch = 2 \<and> fifo_cap (readFifo (ch_dev ch)) = 4"
proof -
  let ?ops = "sja1000_ops keeping_chip 3 zero_timeval zero_timeval cleared_msg"
  obtain ch where o: "pcan_open_path demo_path ?ops demo_chan = Some (ch, 0)" using demo_opens by auto
  have "path_reach ?ops 4 4 1 demo_chan 0" by (rule path_reach.fresh) (simp_all add: demo_chan_def blank_dev_def)
  moreover have "path_env_ok 4 4 demo_path" by (simp add: path_env_ok_def demo_path_def)
  ultimately have "path_reach ?ops 4 4 1 ch 1" using path_reach.opened [OF _ _ o] by fastforce
  from paths_counted [OF this] o show ?thesis by auto
qed

end
