(* ===== verification/Spec2Isabelle.thy ===== *)
theory Spec2Isabelle
  imports Pcan_Fifo Pcan_Filter Pcan_Timing Pcan_Device Pcan_Rx Pcan_Open Pcan_Xfer
    Pcan_Sja1000 Pcan_Ucan Pcan_Ucan_Msg Pcan_Pcifd Pcan_Text Pcan_Usb Pcan_Usbpro
    Pcan_Usbfd Pcan_Options Pcan_Fops Pcan_Syscalls
begin

text \<open>
  Verification of the PCAN driver for Linux, version 8.9.3.

  \<^bold>\<open>The program.\<close> The driver makes the CAN channels of PEAK boards available as character devices. Every
  channel is a \<^verbatim>\<open>struct pcandev\<close> with two ring buffers, a chain of identifier filters, its settings, a
  bus state and callbacks of the hardware driver. Tasks open the channel, choose a bit rate, and read and
  write messages; the hardware driver puts frames and STATUS messages into the receive queue and takes the
  frames of the write queue. Five hardware drivers are modelled: the SJA1000 controller, used by the older
  boards, the uCAN protocol with the PCI Express FD boards and the USB FD adapters that speak it, and the PCAN-USB
  and PCAN-USB Pro adapters. A channel
  is also a text file: messages are read and written as lines.

  \<^bold>\<open>The theories, and the source they model\<close> (paths under \<^verbatim>\<open>src/\<close>):

  \<^item> \<^verbatim>\<open>Pcan_Prelude\<close>: words, flags, error numbers, little endian bytes and lemmas that all theories use.
  \<^item> \<^verbatim>\<open>Pcan_Fifo\<close> (\<^verbatim>\<open>driver/src/pcan_fifo.c\<close>): the ring buffers at the level of byte addresses, and the
    refinement to a first-in first-out list. The locale of rings is interpreted on these operations, and the
    other theories use a queue only through it.
  \<^item> \<^verbatim>\<open>Pcan_Types\<close> (\<^verbatim>\<open>driver/pcanfd.h\<close>, \<^verbatim>\<open>driver/src/pcan_main.h\<close>): messages, settings, time values.
  \<^item> \<^verbatim>\<open>Pcan_Filter\<close> (\<^verbatim>\<open>driver/src/pcan_filter.c\<close>): the filter chain; acceptance is the union of the ranges.
  \<^item> \<^verbatim>\<open>Pcan_Timing\<close> (\<^verbatim>\<open>driver/src/pcan_timing.c\<close>): bit rates and timings, with 32-bit arithmetic and faults
    by division; soundness, termination and optimality of the searches.
  \<^item> \<^verbatim>\<open>Pcan_Device\<close> (\<^verbatim>\<open>struct pcandev\<close> and \<^verbatim>\<open>driver/src/pcan_main.c\<close>): the channel and the conversion of
    hardware time stamps.
  \<^item> \<^verbatim>\<open>Pcan_Rx\<close> (\<^verbatim>\<open>driver/src/pcan_main.c\<close>): the receive path and the bus states, with an inductive relation
    of all state changes.
  \<^item> \<^verbatim>\<open>Pcan_Open\<close> and \<^verbatim>\<open>Pcan_Xfer\<close> (\<^verbatim>\<open>driver/src/pcanfd_core.c\<close>): the requests of tasks: settings, filters
    and state; reading and writing with their waits.
  \<^item> \<^verbatim>\<open>Pcan_Sja1000\<close> (\<^verbatim>\<open>driver/src/pcan_sja1000.c\<close>): the whole driver of the controller, with its interrupt
    handler.
  \<^item> \<^verbatim>\<open>Pcan_Ucan\<close> and \<^verbatim>\<open>Pcan_Ucan_Msg\<close> (\<^verbatim>\<open>driver/src/pcanfd_ucan.c\<close>): the commands, and the records of both
    directions, over a transport that is a record of callbacks.
  \<^item> \<^verbatim>\<open>Pcan_Pcifd\<close> (\<^verbatim>\<open>driver/src/pcanfd_pci.c\<close>): that transport for the PCI Express FD boards: the command
    port, the linked DMA pages, the interrupt handler, opening and release.
  \<^item> \<^verbatim>\<open>Pcan_Text\<close> (\<^verbatim>\<open>driver/src/pcan_parse.c\<close>, and \<^verbatim>\<open>pcan_read\<close>, \<^verbatim>\<open>pcan_write\<close> of
    \<^verbatim>\<open>driver/src/pcan_fops_linux.c\<close>): the text lines of messages and settings, and reading and writing them in
    pieces.
  \<^item> \<^verbatim>\<open>Pcan_Usb\<close> (\<^verbatim>\<open>driver/src/pcan_usb.c\<close>, and the transfers of \<^verbatim>\<open>driver/src/pcan_usb_core.c\<close>): the PCAN-USB
    adapter: its clock, parameters, telegrams and packets, and the USB transfers that all adapters share.
  \<^item> \<^verbatim>\<open>Pcan_Usbpro\<close> (\<^verbatim>\<open>driver/src/pcan_usbpro.c\<close>): the PCAN-USB Pro adapter: the clock, the commands, and
    messages of records that may be cut between two packets.
  \<^item> \<^verbatim>\<open>Pcan_Usbfd\<close> (\<^verbatim>\<open>driver/src/pcanfd_usb.c\<close>): the USB FD adapters: the uCAN commands sent in packets, the
    settings of the adapter, its clock, messages of both directions, opening and release.
  \<^item> \<^verbatim>\<open>Pcan_Options\<close> (\<^verbatim>\<open>driver/src/pcan_main.c\<close>, \<^verbatim>\<open>driver/src/pcan_usb_core.c\<close>, \<^verbatim>\<open>driver/src/pcan_fops.c\<close>): the options of a
    channel: the tables, how a table inherits from another, their functions, and the requests that read and set
    an option through the memory of the user.
  \<^item> \<^verbatim>\<open>Pcan_Fops\<close> and \<^verbatim>\<open>Pcan_Syscalls\<close> (\<^verbatim>\<open>driver/src/pcan_fops.c\<close>, \<^verbatim>\<open>driver/src/pcan_fops_linux.c\<close>): the system calls: opening
    and releasing paths, the requests of the older and the newer interface and of programs of 32 bits, \<^verbatim>\<open>poll\<close>;
    and what is shown about them.

  \<^bold>\<open>State and effects.\<close> A structure is a record and an operation returns it updated. Operations that fail
  return the negative error number of the source; \<^term>\<open>None\<close> is a fault of the kernel (a division by zero) or a
  loop that does not end, and the theorems show when it does not occur. Integers are words of the width of the
  source where they can wrap. Accesses to registers are appended to a log; what a register returns is an
  arbitrary function of that log, so the theorems hold for every behaviour of the hardware. The DMA areas and
  transfer buffers are functions from addresses to bytes. The time of day, the results of allocations, and what
  other tasks and interrupts do while a task sleeps are arguments. Uninitialised local variables are arguments
  too. The locks of the source make each operation atomic.

  \<^bold>\<open>What is shown.\<close> The queues are exact: what is put is what is read, in order, and a full queue refuses or
  drops as documented. A received frame is queued exactly when selection, acceptance codes, filters, open path
  and room allow it. The bus state and the status bits agree in every state the SJA1000 driver reaches. A
  message that a task writes on an idle channel is in the controller when the request returns; encoders and
  decoders of both controllers are inverse to each other. Writing several messages queues the longest
  acceptable prefix; a uCAN buffer and the DMA pages hold the longest prefix that fits, and no byte outside
  them is written. Opening a PCI or USB FD channel makes the
  hardware receive exactly the specified list of commands; the packets of the USB FD port are exactly its buffer.
  A USB telegram holds the longest prefix of the queue that fits, one transfer is under way at most, a packet
  of echoed frames is decoded to these frames, and the 32-bit clock of the adapter is rebuilt exactly from its
  16-bit ticks. A message of the USB Pro holds a count and exactly the records counted; cut between two packets it
  is decoded as in one piece. A frame printed as text is parsed to itself. Paths to a channel are counted
  right whatever fails, and its queues live exactly as long as they; reading an option writes only the buffer of the
  request; a list of messages behaves alike for programs of 32 and 64 bits; \<^verbatim>\<open>poll\<close> reports the truth. Settings are kept or restored as a whole. The bit timing that is computed lies within the ranges of the
  controller. Some theorems state defects of the code: hidden errors, divisions by zero, timings that are
  used with a wrong clock, records that are handled before they are checked, text lines that are accepted though
  data are missing, or that block a file for ever, sizes of lists that wrap and clocks written behind a buffer.

  \<^bold>\<open>Interfaces.\<close> Nine locales state what a part relies on, each interpreted on the definitions of the
  code: a bounded queue (the ring buffers), a set of entries that is added to (the filter chain), the callbacks
  of a hardware driver that keep the invariant of a channel (the SJA1000), a view of the channel that accesses to
  registers do not change, a view that the receive path does not change (what a writer of the character device
  and what the writer of the DMA pages sees), a port that takes uCAN commands (the PCI boards and the USB FD
  adapters), an encoder of USB telegrams (all three families of adapters), a table of options that keep to their
  buffers (the three tables), and a driver that a path can be opened with (the SJA1000).

  \<^bold>\<open>Loops.\<close> Loops over lists and counters are structural recursion. The loops that poll a register and
  those of the interrupt handlers have the bounds of the source. The loop that fills the DMA pages ends because
  each turn takes a message or a free page. The loop that adds a filter row may run forever on a port without
  room for one command and is a partial function; it is shown to return for every port with room. The older
  read request takes as many turns as there are CAN FD frames to skip, and one more; this bound is an argument, and
  is shown to be enough.

  \<^bold>\<open>Not modelled.\<close> The initial values a channel gets when
  it is probed (\<^verbatim>\<open>pcan_soft_init_ex\<close>, \<^verbatim>\<open>ucan_soft_init\<close>); probing, resources and interrupt lines of boards,
  sysfs and proc texts, the network device, which are calls
  of the kernel; the libraries and tools that use the driver through system calls; debug code.
\<close>

end
